(* ===== verification/Prelude.thy ===== *)
theory Prelude
  imports Main "HOL-Library.Word"
begin

text \<open>
  Shared vocabulary of the development: the C integer types of the firmware as words,
  the bit operations the drivers use on registers, little-endian splitting of 16- and
  32-bit values into bytes, and the list and word lemmas that the component theories
  share. The collections \<open>c_defs\<close>, \<open>reg_defs\<close> and \<open>c_arith\<close> gather, in this order, the
  helper definitions that every proof may unfold, the register masks of the headers, and
  the conversions from word arithmetic to natural numbers.
\<close>

unbundle bit_operations_syntax

named_theorems c_defs "definitions of C-level helpers that proofs unfold"
named_theorems reg_defs "register masks and constants of the device headers"
named_theorems c_arith "word arithmetic read as arithmetic on natural numbers"

section \<open>C integer types\<close>

type_synonym u8 = "8 word"
type_synonym u16 = "16 word"
type_synonym u32 = "32 word"

text \<open>Explicit and implicit conversions between the unsigned types.\<close>

abbreviation to_u8 :: "'a::len word \<Rightarrow> u8" where "to_u8 \<equiv> ucast"
abbreviation to_u16 :: "'a::len word \<Rightarrow> u16" where "to_u16 \<equiv> ucast"
abbreviation to_u32 :: "'a::len word \<Rightarrow> u32" where "to_u32 \<equiv> ucast"

text \<open>The two-valued types of the device headers.\<close>

datatype FlagStatus = RESET | SET
datatype FunctionalState = DISABLE | ENABLE
datatype ErrorStatus = ERROR | SUCCESS

text \<open>The result codes of lwIP.\<close>

datatype err_t = ERR_OK | ERR_MEM | ERR_BUF | ERR_TIMEOUT | ERR_RTE | ERR_INPROGRESS | ERR_VAL
  | ERR_WOULDBLOCK | ERR_USE | ERR_ALREADY | ERR_ISCONN | ERR_CONN | ERR_IF | ERR_ABRT | ERR_RST
  | ERR_CLSD | ERR_ARG

text \<open>\<open>reg |= mask\<close> for \<open>ENABLE\<close> and \<open>reg &= ~mask\<close> for \<open>DISABLE\<close>, and the read-modify-write of a
  field: \<open>reg &= clr; reg |= value\<close>.\<close>

definition switch_bits :: "FunctionalState \<Rightarrow> 'a::len word \<Rightarrow> 'a word \<Rightarrow> 'a word" where
  [c_defs]: "switch_bits st m r = (if st \<noteq> DISABLE then r OR m else r AND NOT m)"

definition set_field :: "'a::len word \<Rightarrow> 'a word \<Rightarrow> 'a word \<Rightarrow> 'a word" where
  [c_defs]: "set_field clr v r = (r AND clr) OR v"

section \<open>Words as natural numbers\<close>

lemma unat_u8_less [simp]: "unat (x :: u8) < 256"
  using unsigned_less [of x] by simp

lemma unat_u16_less [simp]: "unat (x :: u16) < 65536"
  using unsigned_less [of x] by simp

lemma unat_u32_less [simp]: "unat (x :: u32) < 4294967296"
  using unsigned_less [of x] by simp

lemma unat_plus1_u8 [c_arith]: "unat (x :: u8) < 255 \<Longrightarrow> unat (x + 1) = unat x + 1"
  by (simp add: unat_word_ariths)

lemma unat_plus1_u16 [c_arith]: "unat (x :: u16) < 65535 \<Longrightarrow> unat (x + 1) = unat x + 1"
  by (simp add: unat_word_ariths)

lemma unat_minus_le: "b \<le> a \<Longrightarrow> unat (a - b :: 'a::len word) = unat a - unat b"
  by (rule unat_sub)

lemma unat_mult_u32: "unat x * unat y < 4294967296 \<Longrightarrow> unat (x * y :: u32) = unat x * unat y"
  by (simp add: unat_word_ariths)

lemma word_le_numeral_unat:
  "(numeral k \<le> (x :: 'a::len word)) = (unat (numeral k :: 'a word) \<le> unat x)"
  by (rule word_le_nat_alt)

lemma unat_ucast_up:
  "LENGTH('a) \<le> LENGTH('b) \<Longrightarrow> unat (ucast (x :: 'a::len word) :: 'b::len word) = unat x"
proof -
  assume "LENGTH('a) \<le> LENGTH('b)"
  then have "unat x < 2 ^ LENGTH('b)"
    by (meson le_less_trans less_le_trans one_le_numeral order_refl power_increasing unsigned_less)
  then show ?thesis by (simp add: unsigned_ucast_eq take_bit_nat_eq_self)
qed

lemma unat_ucast_u8_u16 [simp]: "unat (to_u16 (x :: u8)) = unat x"
  by (rule unat_ucast_up) simp

lemma unat_ucast_u8_u32 [simp]: "unat (to_u32 (x :: u8)) = unat x"
  by (rule unat_ucast_up) simp

lemma unat_ucast_u16_u32 [simp]: "unat (to_u32 (x :: u16)) = unat x"
  by (rule unat_ucast_up) simp

lemma unat_of_nat_u8: "n < 256 \<Longrightarrow> unat (of_nat n :: u8) = n"
  by (simp add: unat_of_nat)

lemma unat_of_nat_u16: "n < 65536 \<Longrightarrow> unat (of_nat n :: u16) = n"
  by (simp add: unat_of_nat)

lemma unat_of_nat_u32: "n < 4294967296 \<Longrightarrow> unat (of_nat n :: u32) = n"
  by (simp add: unat_of_nat)

section \<open>Busy waiting\<close>

text \<open>
  \<open>while (!p ()) ;\<close> on a volatile condition: \<open>p i\<close> is its value at the \<open>i\<close>-th evaluation. The
  result is the position behind the evaluation that ends the loop; \<open>None\<close> is a loop that
  does not end.
\<close>

partial_function (option) wait_until :: "(nat \<Rightarrow> bool) \<Rightarrow> nat \<Rightarrow> nat option" where
  "wait_until p t = (if p t then Some (t + 1) else wait_until p (t + 1))"

lemma wait_until_hit: "p (t + n) \<Longrightarrow> (\<And>i. i < n \<Longrightarrow> \<not> p (t + i)) \<Longrightarrow> wait_until p t = Some (t + n + 1)"
proof (induction n arbitrary: t)
  case 0
  then show ?case by (subst wait_until.simps) simp
next
  case (Suc n)
  have "\<not> p t" using Suc.prems(2) [of 0] by simp
  moreover have "\<not> p (t + 1 + i)" if "i < n" for i using Suc.prems(2) [of "Suc i"] that by simp
  then have "wait_until p (t + 1) = Some (t + 1 + n + 1)"
    using Suc.IH [of "t + 1"] Suc.prems(1) by simp
  ultimately show ?case by (subst wait_until.simps) simp
qed

lemma wait_until_Some_hit: "wait_until p t = Some t' \<Longrightarrow> t < t' \<and> p (t' - 1)"
  by (erule wait_until.raw_induct [of "\<lambda>p t t'. t < t' \<and> p (t' - 1)", rotated])
    (force split: if_splits)

lemma wait_until_returns: "(\<exists>t'. wait_until p t = Some t') \<longleftrightarrow> (\<exists>i\<ge>t. p i)"
proof
  assume "\<exists>i\<ge>t. p i"
  then obtain n where "p (t + n)" by (auto simp: le_iff_add)
  then have "p (t + (LEAST n. p (t + n)))" by (rule LeastI)
  then show "\<exists>t'. wait_until p t = Some t'"
    using wait_until_hit [of p t "LEAST n. p (t + n)"] not_less_Least [of _ "\<lambda>n. p (t + n)"] by blast
next
  assume "\<exists>t'. wait_until p t = Some t'"
  then obtain t' where "t < t'" "p (t' - 1)" using wait_until_Some_hit by blast
  then show "\<exists>i\<ge>t. p i" by (intro exI [of _ "t' - 1"]) auto
qed

section \<open>Sums modulo a ring size\<close>

lemma mod_once:
  fixes a b N :: nat
  assumes "a < N" "b \<le> N"
  shows "(a + b) mod N = (if a + b < N then a + b else a + b - N)"
proof -
  have "a + b - N < N" using assms by linarith
  then show ?thesis by (simp add: le_mod_geq)
qed

section \<open>Byte masks\<close>

lemma mask_255: "(255 :: 'a::len word) = mask 8"
  by (simp add: mask_eq_exp_minus_1)

lemma and_255: "x AND 255 = take_bit 8 x" for x :: "'a::len word"
  by (simp only: mask_255 take_bit_eq_mask)

lemma bit_imp_unat_ge: "bit (v :: 'a::len word) n \<Longrightarrow> 2 ^ n \<le> unat v"
proof -
  assume "bit v n"
  then have "bit (unat v) n" by (simp add: bit_unsigned_iff bit_imp_le_length)
  then have "odd (unat v div 2 ^ n)" by (simp add: bit_iff_odd)
  then have "unat v div 2 ^ n \<noteq> 0" by (metis even_zero)
  then show ?thesis by (simp add: div_eq_0_iff)
qed

lemma of_nat_tot: "unat (t :: u16) = n \<Longrightarrow> t = of_nat n"
  by auto

section \<open>Lists cut at a known length\<close>

lemma take_exact: "length xs = n \<Longrightarrow> take n (xs @ ys) = xs"
  by simp

lemma drop_exact: "length xs = n \<Longrightarrow> drop n (xs @ ys) = ys"
  by simp

lemma nth_exact: "length xs = n \<Longrightarrow> (xs @ ys) ! (n + i) = ys ! i"
  by (simp add: nth_append)

end
