(* ===== verification/Calendar.thy ===== *)
theory Calendar
  imports Prelude
begin

text \<open>
  The civil clock of \<open>Application/Main.c\<close>: \<open>struct TIME\<close>, the table \<open>DaysInMonth\<close>, the
  carry routine \<open>Time_counting\<close> and the local time correction of
  \<open>Datagram_parameters_initialisation\<close>. An access outside \<open>DaysInMonth\<close> is the value
  \<open>None\<close>. The specification is the Gregorian calendar on natural numbers: \<open>seconds_of\<close>
  is the number of seconds since 0000-01-01 00:00:00.
\<close>

section \<open>The data of the code\<close>

record TIME =
  second :: u8
  minute :: u8
  hour :: u8
  day :: u8
  month :: u8
  year :: u16

definition DaysInMonth :: "u8 list" where
  "DaysInMonth = [31, 28, 31, 30, 31, 30, 31, 31, 30, 31, 30, 31]"

text \<open>\<open>DaysInMonth[m - 1]\<close>, with \<open>m - 1\<close> computed as an \<open>int\<close>: \<open>None\<close> out of range.\<close>

definition DaysInMonth_at :: "u8 \<Rightarrow> u8 option" where
  "DaysInMonth_at m =
     (if 1 \<le> unat m \<and> unat m \<le> length DaysInMonth then Some (DaysInMonth ! (unat m - 1)) else None)"

section \<open>The carry routine\<close>

definition leap_year_test :: "u16 \<Rightarrow> bool" where
  "leap_year_test y \<longleftrightarrow> (y mod 4 = 0 \<and> y mod 100 \<noteq> 0) \<or> (y mod 4 = 0 \<and> y mod 400 = 0)"

definition carry_seconds :: "TIME \<Rightarrow> TIME" where
  "carry_seconds t = (if second t \<ge> 60 then t\<lparr>second := 0, minute := minute t + 1\<rparr> else t)"

definition carry_minutes :: "TIME \<Rightarrow> TIME" where
  "carry_minutes t = (if minute t \<ge> 60 then t\<lparr>minute := 0, hour := hour t + 1\<rparr> else t)"

definition carry_hours :: "TIME \<Rightarrow> TIME" where
  "carry_hours t = (if hour t \<ge> 24 then t\<lparr>hour := hour t - 24, day := day t + 1\<rparr> else t)"

definition carry_days :: "TIME \<Rightarrow> TIME option" where
  "carry_days t =
     (case DaysInMonth_at (month t) of
        None \<Rightarrow> None
      | Some n \<Rightarrow>
          if day t > n then
            if month t = 2 \<and> day t = 29 \<and> leap_year_test (year t) then Some t
            else Some (t\<lparr>month := month t + 1, day := 1\<rparr>)
          else Some t)"

definition carry_months :: "TIME \<Rightarrow> TIME" where
  "carry_months t = (if month t \<ge> 13 then t\<lparr>month := 1, year := year t + 1\<rparr> else t)"

definition Time_counting :: "TIME \<Rightarrow> TIME option" where
  "Time_counting t =
     map_option carry_months (carry_days (carry_hours (carry_minutes (carry_seconds t))))"

section \<open>The specification: the Gregorian calendar\<close>

definition is_leap :: "nat \<Rightarrow> bool" where
  "is_leap y \<longleftrightarrow> (4 dvd y \<and> \<not> 100 dvd y) \<or> 400 dvd y"

definition month_length :: "nat \<Rightarrow> nat \<Rightarrow> nat" where
  "month_length y m =
     (if m = 2 then (if is_leap y then 29 else 28) else if m \<in> {4, 6, 9, 11} then 30 else 31)"

definition year_length :: "nat \<Rightarrow> nat" where
  "year_length y = (if is_leap y then 366 else 365)"

definition days_before_year :: "nat \<Rightarrow> nat" where
  "days_before_year y = sum_list (map year_length [0..<y])"

definition days_before_month :: "nat \<Rightarrow> nat \<Rightarrow> nat" where
  "days_before_month y m = sum_list (map (month_length y) [1..<m])"

definition day_number :: "TIME \<Rightarrow> nat" where
  "day_number t =
     days_before_year (unat (year t)) + days_before_month (unat (year t)) (unat (month t))
     + (unat (day t) - 1)"

definition seconds_of :: "TIME \<Rightarrow> nat" where
  "seconds_of t =
     ((day_number t * 24 + unat (hour t)) * 60 + unat (minute t)) * 60 + unat (second t)"

text \<open>
  \<open>time_upto s m h d mo t\<close>: the fields of \<open>t\<close> are in range, except that the one named by
  the bounds may exceed its range by one unit that still has to be carried.
\<close>

definition time_upto :: "nat \<Rightarrow> nat \<Rightarrow> nat \<Rightarrow> nat \<Rightarrow> TIME \<Rightarrow> bool" where
  "time_upto s m h d t \<longleftrightarrow>
     unat (second t) \<le> s \<and> unat (minute t) \<le> m \<and> unat (hour t) \<le> h
     \<and> 1 \<le> unat (month t) \<and> unat (month t) \<le> 12
     \<and> 1 \<le> unat (day t) \<and> unat (day t) \<le> month_length (unat (year t)) (unat (month t)) + d"

definition time_ok :: "TIME \<Rightarrow> bool" where
  "time_ok t \<longleftrightarrow> time_upto 59 59 23 0 t"

text \<open>A time whose seconds have been incremented but not yet carried.\<close>

definition time_pending :: "TIME \<Rightarrow> bool" where
  "time_pending t \<longleftrightarrow> time_upto 60 59 23 0 t"

lemma time_ok_pending: "time_ok t \<Longrightarrow> time_pending t"
  by (auto simp: time_ok_def time_pending_def time_upto_def)

lemma time_ok_tick_pending: "time_ok t \<Longrightarrow> time_pending (t\<lparr>second := second t + 1\<rparr>)"
  by (auto simp: time_ok_def time_pending_def time_upto_def c_arith)

lemma seconds_of_tick:
  "unat (second t) < 255 \<Longrightarrow> seconds_of (t\<lparr>second := second t + 1\<rparr>) = seconds_of t + 1"
  by (simp add: seconds_of_def day_number_def c_arith)

section \<open>The table and the leap year test implement the calendar\<close>

lemma dvd_word_mod: "(x mod numeral k = 0) = (unat (numeral k :: u16) dvd unat x)" for x :: u16
  by (simp add: word_unat_eq_iff unat_mod dvd_eq_mod_eq_0)

lemma leap_year_test_is_leap: "leap_year_test y \<longleftrightarrow> is_leap (unat y)"
proof -
  have "400 dvd unat y \<Longrightarrow> 4 dvd unat y"
    by (rule dvd_trans [of _ 400]) simp_all
  then show ?thesis
    by (auto simp: leap_year_test_def is_leap_def dvd_word_mod)
qed

lemma month_cases:
  assumes "1 \<le> unat m" "unat m \<le> 12"
  shows "m \<in> {1, 2, 3, 4, 5, 6, 7, 8, 9, 10, 11, 12 :: u8}"
proof -
  have "unat m \<in> {1, 2, 3, 4, 5, 6, 7, 8, 9, 10, 11, 12}"
    unfolding insert_iff empty_iff using assms by presburger
  then show ?thesis
    by (auto simp: word_unat_eq_iff)
qed

lemma DaysInMonth_at_month_length:
  assumes "1 \<le> unat m" "unat m \<le> 12"
  shows "\<exists>n. DaysInMonth_at m = Some n \<and>
    month_length y (unat m) = unat n + (if m = 2 \<and> is_leap y then 1 else 0)"
  using month_cases [OF assms]
  by (auto simp: DaysInMonth_at_def DaysInMonth_def month_length_def)

lemma month_length_bounds: "28 \<le> month_length y m" "month_length y m \<le> 31"
  by (simp_all add: month_length_def)

section \<open>Each carry keeps the instant and moves the pending unit one field up\<close>

lemma carry_seconds_correct:
  assumes "time_upto 60 59 23 0 t"
  shows "time_upto 59 60 23 0 (carry_seconds t)"
    and "seconds_of (carry_seconds t) = seconds_of t"
    and "year (carry_seconds t) = year t"
  using assms
  by (auto simp: carry_seconds_def time_upto_def seconds_of_def day_number_def
      word_le_nat_alt c_arith)

lemma carry_minutes_correct:
  assumes "time_upto 59 60 23 0 t"
  shows "time_upto 59 59 24 0 (carry_minutes t)"
    and "seconds_of (carry_minutes t) = seconds_of t"
    and "year (carry_minutes t) = year t"
  using assms
  by (auto simp: carry_minutes_def time_upto_def seconds_of_def day_number_def
      word_le_nat_alt c_arith)

lemma carry_hours_correct:
  assumes t: "time_upto 59 59 24 0 t"
  shows "time_upto 59 59 23 1 (carry_hours t)"
    and "seconds_of (carry_hours t) = seconds_of t"
    and "year (carry_hours t) = year t"
proof -
  have d: "unat (day t) < 255"
    using t month_length_bounds(2) [of "unat (year t)" "unat (month t)"]
    by (auto simp: time_upto_def)
  have "time_upto 59 59 23 1 (carry_hours t) \<and> seconds_of (carry_hours t) = seconds_of t
        \<and> year (carry_hours t) = year t"
  proof (cases "hour t = 24")
    case True
    with t d show ?thesis
      by (auto simp: carry_hours_def time_upto_def seconds_of_def day_number_def c_arith)
  next
    case False
    with t have "unat (hour t) < 24"
      by (auto simp: time_upto_def word_unat_eq_iff)
    with t show ?thesis
      by (auto simp: carry_hours_def time_upto_def word_le_nat_alt)
  qed
  then show "time_upto 59 59 23 1 (carry_hours t)"
    and "seconds_of (carry_hours t) = seconds_of t"
    and "year (carry_hours t) = year t" by simp_all
qed

lemma days_before_month_Suc:
  "1 \<le> m \<Longrightarrow> days_before_month y (Suc m) = days_before_month y m + month_length y m"
  by (simp add: days_before_month_def)

lemma days_before_year_Suc: "days_before_year (Suc y) = days_before_year y + year_length y"
  by (simp add: days_before_year_def)

lemma days_before_month_1 [simp]: "days_before_month y (Suc 0) = 0"
  by (simp add: days_before_month_def)

lemma days_before_month_13: "days_before_month y 13 = year_length y"
proof -
  have "[1..<13] = [1, 2, 3, 4, 5, 6, 7, 8, 9, 10, 11, 12 :: nat]"
    by (simp add: upt_rec)
  then show ?thesis
    by (simp add: days_before_month_def month_length_def year_length_def)
qed

text \<open>After the day carry the month may be 13, and then the day is the first.\<close>

definition month_pending :: "TIME \<Rightarrow> bool" where
  "month_pending t \<longleftrightarrow>
     (time_ok t \<or>
      (unat (second t) \<le> 59 \<and> unat (minute t) \<le> 59 \<and> unat (hour t) \<le> 23
       \<and> unat (month t) = 13 \<and> unat (day t) = 1))"

lemma carry_days_correct:
  assumes t: "time_upto 59 59 23 1 t"
  shows "\<exists>t'. carry_days t = Some t' \<and> month_pending t' \<and> seconds_of t' = seconds_of t
           \<and> year t' = year t"
proof -
  let ?y = "unat (year t)" and ?m = "unat (month t)"
  have m: "1 \<le> ?m" "?m \<le> 12" using t by (auto simp: time_upto_def)
  obtain n where n: "DaysInMonth_at (month t) = Some n"
    and len: "month_length ?y ?m = unat n + (if month t = 2 \<and> is_leap ?y then 1 else 0)"
    using DaysInMonth_at_month_length [OF m] by blast
  show ?thesis
  proof (cases "unat (day t) \<le> month_length ?y ?m")
    case True
    have "carry_days t = Some t"
    proof (cases "unat (day t) \<le> unat n")
      case True
      then show ?thesis
        using n by (simp add: carry_days_def word_less_nat_alt)
    next
      case False
      with True len have "month t = 2" "is_leap ?y" "unat (day t) = Suc (unat n)"
        by (auto split: if_splits)
      moreover from this n have "day t = 29"
        by (auto simp: DaysInMonth_at_def DaysInMonth_def word_unat_eq_iff)
      ultimately show ?thesis
        using n by (simp add: carry_days_def word_less_nat_alt leap_year_test_is_leap)
    qed
    moreover have "time_ok t" using True t by (auto simp: time_ok_def time_upto_def)
    ultimately show ?thesis by (simp add: month_pending_def)
  next
    case False
    then have d: "unat (day t) = Suc (month_length ?y ?m)"
      using t by (auto simp: time_upto_def)
    have "\<not> (month t = 2 \<and> day t = 29 \<and> is_leap ?y)"
      using d by (auto simp: month_length_def)
    moreover have "n < day t" using d len by (simp add: word_less_nat_alt)
    ultimately have c: "carry_days t = Some (t\<lparr>month := month t + 1, day := 1\<rparr>)"
      using n by (auto simp: carry_days_def leap_year_test_is_leap)
    have m': "unat (month t + 1) = Suc ?m" using m by (simp add: c_arith)
    show ?thesis
      using c d m m' t month_length_bounds(1) [of ?y "Suc ?m"]
      by (auto simp: month_pending_def time_ok_def time_upto_def seconds_of_def day_number_def
          days_before_month_Suc)
  qed
qed

lemma carry_months_correct:
  assumes "month_pending t" "unat (year t) < 65535"
  shows "time_ok (carry_months t)" and "seconds_of (carry_months t) = seconds_of t"
  using assms month_length_bounds(1) [of "unat (year t + 1)" 1]
  by (auto simp: month_pending_def carry_months_def time_ok_def time_upto_def seconds_of_def
      day_number_def word_le_nat_alt c_arith days_before_month_13 days_before_year_Suc)

lemmas carry_upto_hours =
  carry_hours_correct [OF carry_minutes_correct(1) [OF carry_seconds_correct(1)]]

lemma Time_counting_result:
  assumes "time_pending t" and "unat (year t) < 65535"
  shows "\<exists>t'. Time_counting t = Some t' \<and> time_ok t' \<and> seconds_of t' = seconds_of t"
proof -
  let ?u = "carry_hours (carry_minutes (carry_seconds t))"
  have p: "time_upto 60 59 23 0 t" using assms(1) by (simp add: time_pending_def)
  have y: "year ?u = year t" and s: "seconds_of ?u = seconds_of t"
    using carry_upto_hours [OF p] carry_minutes_correct [OF carry_seconds_correct(1) [OF p]]
      carry_seconds_correct [OF p] by simp_all
  obtain v where v: "carry_days ?u = Some v" "month_pending v" "seconds_of v = seconds_of ?u"
    "year v = year ?u"
    using carry_days_correct [OF carry_upto_hours(1) [OF p]] by blast
  show ?thesis
    using v y s assms(2) carry_months_correct [of v] by (simp add: Time_counting_def)
qed

text \<open>
  C5. \<open>Time_counting\<close> called on a clock whose seconds field has been advanced by at most
  one since the last call terminates without leaving \<open>DaysInMonth\<close>, yields a time with
  every field in its civil range, and does not change the instant that the six fields
  denote in the Gregorian calendar (leap years and year ends included).
\<close>

theorem Time_counting_correct:
  assumes "time_pending t" and "unat (year t) < 65535"
  shows "\<exists>t'. Time_counting t = Some t' \<and> time_ok t' \<and> seconds_of t' = seconds_of t"
  by (rule Time_counting_result [OF assms])

theorem Time_counting_correct_witness:
  "let t = \<lparr>second = 60, minute = 59, hour = 23, day = 28, month = 2, year = 1900\<rparr> in
   Time_counting t = Some \<lparr>second = 0, minute = 0, hour = 0, day = 1, month = 3, year = 1900\<rparr>
   \<and> (\<exists>t'. Time_counting t = Some t' \<and> time_ok t' \<and> seconds_of t' = seconds_of t)"
proof -
  let ?t = "\<lparr>second = 60, minute = 59, hour = 23, day = 28, month = 2, year = 1900\<rparr> :: TIME"
  have "time_pending ?t" by (simp add: time_pending_def time_upto_def month_length_def is_leap_def)
  from Time_counting_correct [OF this] show ?thesis
    by (simp add: Time_counting_def carry_seconds_def carry_minutes_def carry_hours_def
        carry_days_def carry_months_def DaysInMonth_at_def DaysInMonth_def leap_year_test_def)
qed

end
