(* ===== verification/Port.thy ===== *)
theory Port
  imports Prelude
begin

text \<open>
  The general purpose ports: the register block \<open>MDR_PORT_TypeDef\<close> of the device header and
  the driver \<open>MDR32F9Qx_port.c\<close> as it is compiled for \<open>USE_MDR1986VE1T\<close> (no JTAG pins,
  \<open>assert_param\<close> disabled by \<open>USE_ASSERT_INFO = 0\<close>). A port is named by its letter and the
  six register blocks are a function from names to blocks.

  The write-only registers \<open>SETTX\<close> and \<open>CLRTX\<close> set and clear bits of the output latch,
  which the device shows in \<open>RDTX\<close>; a store to them is \<open>write_SETTX\<close> and \<open>write_CLRTX\<close>.
\<close>

section \<open>Registers\<close>

record MDR_PORT_TypeDef =
  RXTX :: u32
  OE :: u32
  FUNC :: u32
  ANALOG :: u32
  PULL :: u32
  PD :: u32
  PWR :: u32
  GFEN :: u32
  SETTX :: u32
  CLRTX :: u32
  RDTX :: u32

datatype port_id = MDR_PORTA | MDR_PORTB | MDR_PORTC | MDR_PORTD | MDR_PORTE | MDR_PORTF

type_synonym ports = "port_id \<Rightarrow> MDR_PORT_TypeDef"

record PORT_InitTypeDef =
  PORT_Pin :: u16
  PORT_OE :: u32
  PORT_PULL_UP :: u32
  PORT_PULL_DOWN :: u32
  PORT_PD_SHM :: u32
  PORT_PD :: u32
  PORT_GFEN :: u32
  PORT_FUNC :: u32
  PORT_SPEED :: u32
  PORT_MODE :: u32

text \<open>\<open>PORT_Pin_n\<close> is the mask with bit \<open>n\<close> set.\<close>

definition PORT_Pin_n :: "nat \<Rightarrow> u32" where
  [reg_defs]: "PORT_Pin_n n = push_bit n 1"

definition write_SETTX :: "u32 \<Rightarrow> MDR_PORT_TypeDef \<Rightarrow> MDR_PORT_TypeDef" where
  "write_SETTX v p = p\<lparr>SETTX := v, RDTX := RDTX p OR v\<rparr>"

definition write_CLRTX :: "u32 \<Rightarrow> MDR_PORT_TypeDef \<Rightarrow> MDR_PORT_TypeDef" where
  "write_CLRTX v p = p\<lparr>CLRTX := v, RDTX := RDTX p AND NOT v\<rparr>"

section \<open>The driver\<close>

text \<open>The loop of \<open>PORT_Init\<close>: the temporaries are the seven fields of the block \<open>r\<close>.\<close>

definition PORT_Init_pin ::
  "PORT_InitTypeDef \<Rightarrow> nat \<Rightarrow> u32 \<Rightarrow> u32 \<Rightarrow> u32 \<Rightarrow> MDR_PORT_TypeDef \<Rightarrow> MDR_PORT_TypeDef" where
  "PORT_Init_pin S pos mask_s mask_l mask_d r = r\<lparr>
     OE := (OE r AND NOT mask_s) OR push_bit pos (PORT_OE S),
     FUNC := (FUNC r AND NOT mask_l) OR push_bit (pos * 2) (PORT_FUNC S),
     ANALOG := (ANALOG r AND NOT mask_s) OR push_bit pos (PORT_MODE S),
     PULL := (PULL r AND NOT mask_d) OR push_bit (pos + 16) (PORT_PULL_UP S)
               OR push_bit pos (PORT_PULL_DOWN S),
     PD := (PD r AND NOT mask_d) OR push_bit (pos + 16) (PORT_PD_SHM S)
             OR push_bit pos (PORT_PD S),
     PWR := (PWR r AND NOT mask_l) OR push_bit (pos * 2) (PORT_SPEED S),
     GFEN := (GFEN r AND NOT mask_s) OR push_bit pos (PORT_GFEN S)\<rparr>"

lemma unat_drop_bit_1_less: "(p :: u32) \<noteq> 0 \<Longrightarrow> unat (drop_bit 1 p) < unat p"
proof -
  assume "p \<noteq> 0"
  then have "0 < unat p" by (simp add: unat_gt_0)
  then show ?thesis by (simp add: drop_bit_eq_div unat_div)
qed

function PORT_Init_loop ::
  "PORT_InitTypeDef \<Rightarrow> u32 \<Rightarrow> nat \<Rightarrow> u32 \<Rightarrow> u32 \<Rightarrow> u32 \<Rightarrow> MDR_PORT_TypeDef \<Rightarrow> MDR_PORT_TypeDef"
where
  "PORT_Init_loop S portpin pos mask_s mask_l mask_d r =
     (if portpin = 0 then r
      else PORT_Init_loop S (drop_bit 1 portpin) (pos + 1)
             (push_bit 1 mask_s) (push_bit 2 mask_l) (push_bit 1 mask_d)
             (if portpin AND 1 \<noteq> 0 then PORT_Init_pin S pos mask_s mask_l mask_d r else r))"
  by pat_completeness auto
termination
  by (relation "measure (\<lambda>(S, portpin, _). unat portpin)") (use unat_drop_bit_1_less in auto)

declare PORT_Init_loop.simps [simp del]

definition PORT_Init :: "port_id \<Rightarrow> PORT_InitTypeDef \<Rightarrow> ports \<Rightarrow> ports" where
  "PORT_Init PORTx S ps =
     ps(PORTx := PORT_Init_loop S (ucast (PORT_Pin S)) 0 0x0001 0x00000003 0x00010001 (ps PORTx))"

definition PORT_StructInit :: PORT_InitTypeDef where
  "PORT_StructInit = \<lparr>PORT_Pin = 0xFFFF, PORT_OE = 0, PORT_PULL_UP = 0, PORT_PULL_DOWN = 0,
     PORT_PD_SHM = 0, PORT_PD = 0, PORT_GFEN = 0, PORT_FUNC = 0, PORT_SPEED = 0, PORT_MODE = 0\<rparr>"

text \<open>The value read is the one the volatile load of \<open>RXTX\<close> returns.\<close>

definition PORT_ReadInputDataBit :: "port_id \<Rightarrow> u32 \<Rightarrow> ports \<Rightarrow> u8" where
  "PORT_ReadInputDataBit PORTx pins ps = (if RXTX (ps PORTx) AND pins \<noteq> 0 then 1 else 0)"

definition PORT_ReadInputData :: "port_id \<Rightarrow> ports \<Rightarrow> u32" where
  "PORT_ReadInputData PORTx ps = RXTX (ps PORTx)"

definition PORT_SetBits :: "port_id \<Rightarrow> u32 \<Rightarrow> ports \<Rightarrow> ports" where
  "PORT_SetBits PORTx pins ps = ps(PORTx := write_SETTX pins (ps PORTx))"

definition PORT_ResetBits :: "port_id \<Rightarrow> u32 \<Rightarrow> ports \<Rightarrow> ports" where
  "PORT_ResetBits PORTx pins ps = ps(PORTx := write_CLRTX pins (ps PORTx))"

definition PORT_WriteBit :: "port_id \<Rightarrow> u32 \<Rightarrow> bool \<Rightarrow> ports \<Rightarrow> ports" where
  "PORT_WriteBit PORTx pins BitVal ps =
     (let portdata = RXTX (ps PORTx) AND NOT 0 in
      if BitVal then ps(PORTx := (ps PORTx)\<lparr>RXTX := portdata OR pins\<rparr>)
      else ps(PORTx := (ps PORTx)\<lparr>RXTX := portdata AND NOT pins\<rparr>))"

definition PORT_Write :: "port_id \<Rightarrow> u32 \<Rightarrow> ports \<Rightarrow> ports" where
  "PORT_Write PORTx PortVal ps = ps(PORTx := (ps PORTx)\<lparr>RXTX := PortVal AND NOT 0\<rparr>)"

section \<open>What a pin outputs\<close>

text \<open>The level the latch drives on pin \<open>n\<close>.\<close>

definition pin_out :: "ports \<Rightarrow> port_id \<Rightarrow> nat \<Rightarrow> bool" where
  "pin_out ps P n = bit (RDTX (ps P)) n"

lemma pin_out_SetBits:
  "pin_out (PORT_SetBits P v ps) Q n = (pin_out ps Q n \<or> (P = Q \<and> bit v n))"
  by (auto simp: pin_out_def PORT_SetBits_def write_SETTX_def bit_or_iff)

lemma pin_out_ResetBits:
  "pin_out (PORT_ResetBits P v ps) Q n = (pin_out ps Q n \<and> \<not> (P = Q \<and> bit v n))"
  by (cases "n < 32")
    (auto simp: pin_out_def PORT_ResetBits_def write_CLRTX_def bit_and_iff bit_not_iff
      dest: bit_imp_le_length)

lemma bit_Pin_n: "n < 32 \<Longrightarrow> bit (PORT_Pin_n n) k = (k = n)"
  by (auto simp: PORT_Pin_n_def bit_exp_iff)

text \<open>\<open>PORT_Init\<close> does not touch the latch.\<close>

lemma RDTX_PORT_Init_loop: "RDTX (PORT_Init_loop S portpin pos m1 m2 m3 r) = RDTX r"
  by (induction S portpin pos m1 m2 m3 r rule: PORT_Init_loop.induct)
     (subst PORT_Init_loop.simps, simp add: PORT_Init_pin_def Let_def)

lemma pin_out_PORT_Init: "pin_out (PORT_Init P S ps) Q n = pin_out ps Q n"
  by (simp add: pin_out_def PORT_Init_def RDTX_PORT_Init_loop)

lemmas pin_simps = pin_out_SetBits pin_out_ResetBits bit_Pin_n

section \<open>What \<open>PORT_Init\<close> configures\<close>

text \<open>A field of \<open>w\<close> bits at position \<open>k\<close> of a register.\<close>

definition reg_field :: "nat \<Rightarrow> nat \<Rightarrow> u32 \<Rightarrow> u32" where
  "reg_field w k r = take_bit w (drop_bit k r)"

text \<open>The configuration of pin \<open>k\<close> that the registers of a port hold.\<close>

definition pin_config :: "MDR_PORT_TypeDef \<Rightarrow> nat \<Rightarrow> PORT_InitTypeDef" where
  "pin_config r k = \<lparr>PORT_Pin = push_bit k 1, PORT_OE = reg_field 1 k (OE r),
     PORT_PULL_UP = reg_field 1 (k + 16) (PULL r), PORT_PULL_DOWN = reg_field 1 k (PULL r),
     PORT_PD_SHM = reg_field 1 (k + 16) (PD r), PORT_PD = reg_field 1 k (PD r),
     PORT_GFEN = reg_field 1 k (GFEN r), PORT_FUNC = reg_field 2 (k * 2) (FUNC r),
     PORT_SPEED = reg_field 2 (k * 2) (PWR r), PORT_MODE = reg_field 1 k (ANALOG r)\<rparr>"

text \<open>The members hold values of their enumeration types.\<close>

definition init_ok :: "PORT_InitTypeDef \<Rightarrow> bool" where
  "init_ok S \<longleftrightarrow> PORT_OE S \<le> 1 \<and> PORT_PULL_UP S \<le> 1 \<and> PORT_PULL_DOWN S \<le> 1 \<and> PORT_PD_SHM S \<le> 1
     \<and> PORT_PD S \<le> 1 \<and> PORT_GFEN S \<le> 1 \<and> PORT_FUNC S \<le> 3 \<and> PORT_SPEED S \<le> 3 \<and> PORT_MODE S \<le> 1"

lemma bit_le1: "(v :: u32) \<le> 1 \<Longrightarrow> bit v n \<Longrightarrow> n < 1"
proof -
  assume "v \<le> 1" "bit v n"
  then have "2 ^ n < (2 :: nat) ^ 1"
    using bit_imp_unat_ge [of v n] by (simp add: word_le_nat_alt)
  then show "n < 1" using power_less_imp_less_exp [of 2 n 1] by simp
qed

lemma bit_le3: "(v :: u32) \<le> 3 \<Longrightarrow> bit v n \<Longrightarrow> n < 2"
proof -
  assume "v \<le> 3" "bit v n"
  then have "2 ^ n < (2 :: nat) ^ 2"
    using bit_imp_unat_ge [of v n] by (simp add: word_le_nat_alt)
  then show "n < 2" using power_less_imp_less_exp [of 2 n 2] by simp
qed

lemma fields_apart:
  fixes k pos w :: nat
  assumes "w dvd k" "w dvd pos" "k \<noteq> pos"
  shows "k + w \<le> pos \<or> pos + w \<le> k"
proof -
  obtain a b where k: "k = w * a" and pos: "pos = w * b"
    using assms(1,2) by (auto elim!: dvdE)
  with assms(3) have "Suc a \<le> b \<or> Suc b \<le> a" by auto
  then have "w * Suc a \<le> w * b \<or> w * Suc b \<le> w * a"
    using mult_le_mono2 by blast
  with k pos show ?thesis by (simp add: add.commute)
qed

lemma reg_field_set:
  assumes v: "\<And>n. bit (v :: u32) n \<Longrightarrow> n < w"
    and "w dvd k" "w dvd pos" "pos + w \<le> 32" "k + w \<le> 32"
  shows "reg_field w k ((r AND NOT (push_bit pos (mask w))) OR push_bit pos v)
         = (if k = pos then v else reg_field w k r)"
proof (rule bit_word_eqI)
  fix n
  have nb: "\<And>i. w \<le> i \<Longrightarrow> \<not> bit v i" using v by (meson not_less)
  show "bit (reg_field w k ((r AND NOT (push_bit pos (mask w))) OR push_bit pos v)) n
      = bit (if k = pos then v else reg_field w k r) n"
    using fields_apart [OF assms(2,3)] assms(4,5)
    by (cases "n < w"; cases "k = pos") (auto simp: reg_field_def bit_simps nb)
qed

text \<open>The masks of the loop at position \<open>pos\<close>.\<close>

lemma mask_forms:
  "push_bit pos 1 = push_bit pos (mask 1 :: u32)"
  "push_bit (2 * pos) 3 = push_bit (2 * pos) (mask 2 :: u32)"
  "push_bit pos 0x10001 = push_bit (pos + 16) (mask 1 :: u32) OR push_bit pos (mask 1)"
proof -
  have "(0x10001 :: u32) = push_bit 16 1 OR 1" by simp
  then have "push_bit pos 0x10001 = push_bit pos (push_bit 16 1) OR (push_bit pos 1 :: u32)"
    by (simp only: push_bit_or)
  then show "push_bit pos 0x10001 = push_bit (pos + 16) (mask 1 :: u32) OR push_bit pos (mask 1)"
    by (simp add: mask_eq_exp_minus_1 del: push_bit_of_1)
qed (simp_all add: mask_eq_exp_minus_1)

lemma reg_field_pair:
  fixes r h l :: u32
  assumes b: "\<And>n. bit h n \<Longrightarrow> n < 1" "\<And>n. bit l n \<Longrightarrow> n < 1" and k: "pos < 16" "k < 16"
  defines "r' \<equiv> (r AND NOT (push_bit pos 0x10001)) OR push_bit (pos + 16) h OR push_bit pos l"
  shows "reg_field 1 k r' = (if k = pos then l else reg_field 1 k r)"
    and "reg_field 1 (k + 16) r' = (if k = pos then h else reg_field 1 (k + 16) r)"
proof -
  let ?q = "(r AND NOT (push_bit (pos + 16) (mask 1))) OR push_bit (pos + 16) h"
  have r': "r' = (?q AND NOT (push_bit pos (mask 1))) OR push_bit pos l"
    unfolding r'_def mask_forms using b(1) k(1)
    by (auto simp: bit_simps intro!: bit_word_eqI)
  have q: "i < 32 \<Longrightarrow> reg_field 1 i ?q = (if i = pos + 16 then h else reg_field 1 i r)" for i
    using b(1) k(1) by (intro reg_field_set) auto
  have "i < 32 \<Longrightarrow> reg_field 1 i r' = (if i = pos then l else reg_field 1 i ?q)" for i
    unfolding r' using b(2) k(1) by (intro reg_field_set) auto
  with q k show "reg_field 1 k r' = (if k = pos then l else reg_field 1 k r)"
    and "reg_field 1 (k + 16) r' = (if k = pos then h else reg_field 1 (k + 16) r)"
    by simp_all
qed

lemma pin_config_PORT_Init_pin:
  assumes S: "init_ok S" and "pos < 16" "k < 16"
  shows "pin_config (PORT_Init_pin S pos (push_bit pos 1) (push_bit (2 * pos) 3) (push_bit pos 0x10001) r) k
         = (if k = pos then S\<lparr>PORT_Pin := push_bit k 1\<rparr> else pin_config r k)"
proof -
  have one: "reg_field 1 k ((x AND NOT (push_bit pos 1)) OR push_bit pos v)
      = (if k = pos then v else reg_field 1 k x)" if "v \<le> 1" for v x
    unfolding mask_forms(1) using assms(2,3) that by (intro reg_field_set) (auto dest: bit_le1)
  have "reg_field 2 (k * 2) ((x AND NOT (push_bit (2 * pos) (mask 2))) OR push_bit (2 * pos) v)
      = (if k * 2 = 2 * pos then v else reg_field 2 (k * 2) x)" if "v \<le> 3" for v x
    using assms(2,3) that by (intro reg_field_set) (auto dest: bit_le3)
  then have two: "reg_field 2 (k * 2) ((x AND NOT (push_bit (2 * pos) 3)) OR push_bit (pos * 2) v)
      = (if k = pos then v else reg_field 2 (k * 2) x)" if "v \<le> 3" for v x
    unfolding mask_forms(2) using that by (simp add: mult.commute)
  let ?x = "\<lambda>x h l. (x AND NOT (push_bit pos 0x10001)) OR push_bit (pos + 16) h OR push_bit pos l"
  have pair: "reg_field 1 k (?x x h l) = (if k = pos then l else reg_field 1 k x)"
    "reg_field 1 (k + 16) (?x x h l) = (if k = pos then h else reg_field 1 (k + 16) x)"
    if "h \<le> 1" "l \<le> 1" for x h l
    using reg_field_pair [of h l pos k x] bit_le1 [OF that(1)] bit_le1 [OF that(2)] assms(2,3)
    by blast+
  show ?thesis
    using S unfolding pin_config_def PORT_Init_pin_def init_ok_def
    by (cases S) (simp add: one two pair del: push_bit_of_1 One_nat_def)
qed

lemma pin_config_PORT_Init_loop:
  assumes "init_ok S" "k < 16" "pos \<le> 16" "unat portpin < 2 ^ (16 - pos)"
  shows "pin_config (PORT_Init_loop S portpin pos (push_bit pos 1) (push_bit (2 * pos) 3)
             (push_bit pos 0x10001) r) k
         = (if pos \<le> k \<and> bit portpin (k - pos) then S\<lparr>PORT_Pin := push_bit k 1\<rparr>
            else pin_config r k)"
  using assms(3,4)
proof (induction "16 - pos" arbitrary: pos portpin r)
  case 0
  then show ?case
    using assms(2) by (simp add: PORT_Init_loop.simps unat_eq_0)
next
  case (Suc n)
  let ?r = "if portpin AND 1 \<noteq> 0
    then PORT_Init_pin S pos (push_bit pos 1) (push_bit (2 * pos) 3) (push_bit pos 0x10001) r else r"
  have pos: "pos < 16" using Suc.hyps(2) by simp
  then have "16 - pos = Suc (16 - Suc pos)" by simp
  then have half: "unat (drop_bit 1 portpin) < 2 ^ (16 - Suc pos)"
    using Suc.prems(2) by (simp add: drop_bit_eq_div unat_div less_mult_imp_div_less)
  have "pin_config (PORT_Init_loop S (drop_bit 1 portpin) (Suc pos) (push_bit (Suc pos) 1)
             (push_bit (2 * Suc pos) 3) (push_bit (Suc pos) 0x10001) ?r) k
      = (if Suc pos \<le> k \<and> bit (drop_bit 1 portpin) (k - Suc pos) then S\<lparr>PORT_Pin := push_bit k 1\<rparr>
         else pin_config ?r k)"
    by (rule Suc.hyps(1)) (use Suc.hyps(2) half pos in simp_all)
  moreover have "portpin = 0 \<or> PORT_Init_loop S portpin pos (push_bit pos 1) (push_bit (2 * pos) 3)
             (push_bit pos 0x10001) r
      = PORT_Init_loop S (drop_bit 1 portpin) (Suc pos) (push_bit (Suc pos) 1)
             (push_bit (2 * Suc pos) 3) (push_bit (Suc pos) 0x10001) ?r"
    by (subst PORT_Init_loop.simps) (simp del: push_bit_of_1)
  moreover have "pin_config ?r k
      = (if k = pos \<and> bit portpin 0 then S\<lparr>PORT_Pin := push_bit k 1\<rparr> else pin_config r k)"
    using pin_config_PORT_Init_pin [OF assms(1) pos assms(2)]
    by (auto simp: bit_0 and_one_eq odd_iff_mod_2_eq_one)
  moreover have "PORT_Init_loop S 0 pos (push_bit pos 1) (push_bit (2 * pos) 3)
             (push_bit pos 0x10001) r = r"
    by (simp add: PORT_Init_loop.simps)
  ultimately show ?case
    by (auto simp: bit_drop_bit_eq Suc_le_eq le_less Suc_diff_Suc)
qed

lemma pin_config_PORT_Init:
  assumes "init_ok S" "k < 16"
  shows "pin_config (PORT_Init P S ps Q) k =
    (if Q = P \<and> bit (PORT_Pin S) k then S\<lparr>PORT_Pin := push_bit k 1\<rparr> else pin_config (ps Q) k)"
proof -
  have "unat (ucast (PORT_Pin S) :: u32) < 2 ^ (16 - 0)"
    using unat_u16_less [of "PORT_Pin S"] by simp
  then show ?thesis
    using pin_config_PORT_Init_loop [OF assms, of 0 "ucast (PORT_Pin S)" "ps P"] assms(2)
    by (simp add: PORT_Init_def bit_ucast_iff)
qed

text \<open>All registers zero.\<close>

definition ports_zero :: ports where
  "ports_zero = (\<lambda>_. \<lparr>RXTX = 0, OE = 0, FUNC = 0, ANALOG = 0, PULL = 0, PD = 0, PWR = 0, GFEN = 0,
     SETTX = 0, CLRTX = 0, RDTX = 0\<rparr>)"

text \<open>
  \<open>PORT_Init\<close> terminates and gives every pin named in \<open>PORT_Pin\<close> exactly the direction,
  function, mode, pulls, driver mode, speed and filter of the initialisation structure, and
  leaves the configuration of every other pin and of every other port as it was.
\<close>

theorem PORT_Init_configures:
  assumes "init_ok S" "k < 16"
  shows "pin_config (PORT_Init P S ps Q) k =
    (if Q = P \<and> bit (PORT_Pin S) k then S\<lparr>PORT_Pin := push_bit k 1\<rparr> else pin_config (ps Q) k)"
  using pin_config_PORT_Init [OF assms] .

theorem PORT_Init_configures_witness:
  "pin_config (PORT_Init MDR_PORTF (PORT_StructInit\<lparr>PORT_Pin := 0x60, PORT_OE := 1\<rparr>) ports_zero MDR_PORTF) 5
   = PORT_StructInit\<lparr>PORT_Pin := 0x20, PORT_OE := 1\<rparr>"
proof -
  have "init_ok (PORT_StructInit\<lparr>PORT_Pin := 0x60, PORT_OE := 1\<rparr>)"
    by (simp add: init_ok_def PORT_StructInit_def)
  from PORT_Init_configures [OF this, of 5] show ?thesis by simp
qed

end
