(* ===== verification/Datagram.thy ===== *)
theory Datagram
  imports Calendar Port
begin

text \<open>
  The time datagram of \<open>Application/Main.c\<close>: \<open>struct PAYLOAD\<close>, its memory image under the
  ARM procedure call standard (little endian, 16-bit members aligned to two bytes, zero
  padding because \<open>Datagram\<close> has static storage and only its members are stored to), the
  check sum \<open>Get_check_sum\<close>, the serialiser \<open>DATA_construct\<close>, the input sampling \<open>Asking\<close>
  and the initial values set by \<open>Datagram_parameters_initialisation\<close>.
\<close>

section \<open>The structures\<close>

record ATTRIBUTES =
  validity :: u8
  efficency :: u8

record PAYLOAD =
  number :: u8
  identificator :: u16
  useful_info :: u16
  timering :: u8
  timering_sign :: u8
  reserve_first :: u8
  msk :: TIME
  reserve_second :: u8
  local :: TIME
  reserve_third :: u8
  attributes :: ATTRIBUTES
  check_sum :: u8

text \<open>Low and high byte, as written in \<open>DATA_construct\<close>.\<close>

definition lo_byte :: "u16 \<Rightarrow> u8" where
  [c_defs]: "lo_byte x = ucast (x AND 0xFF)"

definition hi_byte :: "u16 \<Rightarrow> u8" where
  [c_defs]: "hi_byte x = ucast (drop_bit 8 x AND 0xFF)"

definition u16_bytes :: "u16 \<Rightarrow> u8 list" where
  [c_defs]: "u16_bytes x = [lo_byte x, hi_byte x]"

text \<open>\<open>sizeof (struct TIME)\<close> is 8: one byte of padding precedes \<open>year\<close>.\<close>

definition TIME_bytes :: "TIME \<Rightarrow> u8 list" where
  [c_defs]: "TIME_bytes t = [second t, minute t, hour t, day t, month t, 0] @ u16_bytes (year t)"

text \<open>\<open>sizeof (struct PAYLOAD)\<close> is 32: padding at offsets 1, 9, 15, 19 and 25.\<close>

definition PAYLOAD_bytes :: "PAYLOAD \<Rightarrow> u8 list" where
  [c_defs]: "PAYLOAD_bytes D =
     [number D, 0] @ u16_bytes (identificator D) @ u16_bytes (useful_info D)
     @ [timering D, timering_sign D, reserve_first D, 0] @ TIME_bytes (msk D)
     @ [reserve_second D, 0] @ TIME_bytes (local D)
     @ [reserve_third D, validity (attributes D), efficency (attributes D), check_sum D]"

definition sizeof_PAYLOAD :: nat where
  [c_defs]: "sizeof_PAYLOAD = 32"

section \<open>Check sum and serialisation\<close>

text \<open>The loop \<open>for (i = 0; i < n; i++) result = result ^ b[i]\<close>.\<close>

function check_sum_loop :: "u8 list \<Rightarrow> nat \<Rightarrow> nat \<Rightarrow> u8 \<Rightarrow> u8" where
  "check_sum_loop b n i result =
     (if i < n then check_sum_loop b n (i + 1) (result XOR b ! i) else result)"
  by pat_completeness auto
termination
  by (relation "measure (\<lambda>(b, n, i, result). n - i)") auto

declare check_sum_loop.simps [simp del]

definition Get_check_sum :: "PAYLOAD \<Rightarrow> u8" where
  "Get_check_sum D =
     (let b = take (sizeof_PAYLOAD - 1) (PAYLOAD_bytes D)
      in check_sum_loop b (sizeof_PAYLOAD - 2) 0 0)"

definition attribute_bits :: "PAYLOAD \<Rightarrow> u8" where
  "attribute_bits D = push_bit 1 (validity (attributes D)) OR efficency (attributes D)"

definition DATA_construct :: "PAYLOAD \<Rightarrow> u8 list" where
  "DATA_construct D =
     [number D,
      lo_byte (identificator D), hi_byte (identificator D),
      lo_byte (useful_info D), hi_byte (useful_info D),
      timering D, timering_sign D, reserve_first D,
      second (msk D), minute (msk D), hour (msk D), day (msk D), month (msk D),
      lo_byte (year (msk D)), hi_byte (year (msk D)),
      reserve_second D,
      second (local D), minute (local D), hour (local D), day (local D), month (local D),
      lo_byte (year (local D)), hi_byte (year (local D)),
      reserve_third D,
      attribute_bits D,
      check_sum D]"

section \<open>Sampling the two status inputs\<close>

text \<open>
  \<open>PORT_ReadInputDataBit\<close> loads the volatile \<open>RXTX\<close> of port D twice; \<open>ps1\<close> and \<open>ps2\<close> are
  the port registers at the two loads.
\<close>

definition Asking :: "ports \<Rightarrow> ports \<Rightarrow> PAYLOAD \<Rightarrow> PAYLOAD" where
  "Asking ps1 ps2 D =
     D\<lparr>attributes := \<lparr>
         validity = (if PORT_ReadInputDataBit MDR_PORTD (PORT_Pin_n 2) ps2 \<noteq> 0 then 1 else 0),
         efficency = (if PORT_ReadInputDataBit MDR_PORTD (PORT_Pin_n 1) ps1 \<noteq> 0 then 1 else 0)\<rparr>\<rparr>"

section \<open>Initial values\<close>

text \<open>
  The block marked "local time correction": \<open>local\<close> starts as a copy of \<open>msk\<close>; \<open>None\<close> is an
  access outside \<open>DaysInMonth\<close>.
\<close>

definition correct_hour :: "TIME \<Rightarrow> u8 \<Rightarrow> u8 \<Rightarrow> TIME \<Rightarrow> TIME" where
  "correct_hour m tr sg l =
     (if sg = 1 then
        if hour m < tr then l\<lparr>day := day l - 1, hour := 24 + hour m - tr\<rparr>
        else l\<lparr>hour := hour m + tr\<rparr>
      else l\<lparr>hour := hour l + tr\<rparr>)"

definition borrow_month_day :: "TIME \<Rightarrow> TIME option" where
  "borrow_month_day l =
     (if month l \<noteq> 0 \<and> month l \<noteq> 2
      then map_option (\<lambda>n. l\<lparr>day := n\<rparr>) (DaysInMonth_at (month l)) else Some l)"

definition borrow_year :: "TIME \<Rightarrow> TIME" where
  "borrow_year l =
     (if month l = 0 then l\<lparr>day := 31, month := 12, year := year l - 1\<rparr> else l)"

definition february_day :: "TIME \<Rightarrow> TIME" where
  "february_day l =
     (let l1 = (if month l = 2 \<and> year l mod 4 = 0 then l\<lparr>day := 29\<rparr> else l)
      in if month l1 = 2 \<and> year l1 mod 4 \<noteq> 0 then l1\<lparr>day := 28\<rparr> else l1)"

definition borrow_day :: "TIME \<Rightarrow> TIME option" where
  "borrow_day l =
     (if day l = 0
      then map_option (february_day \<circ> borrow_year) (borrow_month_day (l\<lparr>month := month l - 1\<rparr>))
      else Some l)"

definition local_correction :: "TIME \<Rightarrow> u8 \<Rightarrow> u8 \<Rightarrow> TIME option" where
  "local_correction m tr sg = borrow_day (correct_hour m tr sg m)"

definition Datagram_parameters_initialisation :: "PAYLOAD \<Rightarrow> PAYLOAD option" where
  "Datagram_parameters_initialisation D =
     (let m = \<lparr>second = 30, minute = 59, hour = 0, day = 1, month = 1, year = 2022\<rparr>;
          D1 = D\<lparr>number := 0, identificator := 0xFF, useful_info := 26, timering := 1,
                 timering_sign := 1, reserve_first := 0, msk := m, reserve_second := 0,
                 local := m\<rparr>
      in map_option
           (\<lambda>l. D1\<lparr>local := l, reserve_third := 0,
                 attributes := \<lparr>validity = 0, efficency = 0\<rparr>, check_sum := 0\<rparr>)
           (local_correction (msk D1) (timering D1) (timering_sign D1)))"

section \<open>The check sum\<close>

definition xor_list :: "u8 list \<Rightarrow> u8" where
  "xor_list xs = foldr (XOR) xs 0"

lemma xor_list_simps [simp]: "xor_list [] = 0" "xor_list (x # xs) = x XOR xor_list xs"
  by (simp_all add: xor_list_def)

lemma xor_list_append: "xor_list (xs @ ys) = xor_list xs XOR xor_list ys"
  by (induction xs) (simp_all add: xor.assoc)

lemma check_sum_loop_xor_list:
  "i \<le> n \<Longrightarrow> n \<le> length b \<Longrightarrow>
   check_sum_loop b n i result = result XOR xor_list (take (n - i) (drop i b))"
proof (induction b n i result rule: check_sum_loop.induct)
  case (1 b n i result)
  show ?case
  proof (cases "i < n")
    case True
    then obtain k where k: "n - i = Suc k" "n - Suc i = k" by (metis Suc_diff_Suc)
    have "drop i b = b ! i # drop (Suc i) b"
      using True "1.prems" by (simp add: Cons_nth_drop_Suc)
    then show ?thesis
      using True k "1.IH" "1.prems"
      by (subst check_sum_loop.simps) (simp add: xor.assoc)
  qed (use "1.prems" in \<open>simp add: check_sum_loop.simps\<close>)
qed

lemma length_PAYLOAD_bytes [simp]: "length (PAYLOAD_bytes D) = sizeof_PAYLOAD"
  by (simp add: c_defs)

lemma length_DATA_construct [simp]: "length (DATA_construct D) = 26"
  by (simp add: DATA_construct_def)

lemma Get_check_sum_DATA:
  "Get_check_sum D = xor_list (take 24 (DATA_construct D)) XOR validity (attributes D)"
proof -
  have "Get_check_sum D = xor_list (take 30 (PAYLOAD_bytes D))"
    by (simp add: Get_check_sum_def check_sum_loop_xor_list sizeof_PAYLOAD_def)
  also have "\<dots> = xor_list (take 24 (DATA_construct D)) XOR validity (attributes D)"
    by (simp add: PAYLOAD_bytes_def DATA_construct_def TIME_bytes_def u16_bytes_def
        xor.assoc xor.left_commute)
  finally show ?thesis .
qed

lemma xor_list_update:
  "i < length xs \<Longrightarrow> xor_list (xs[i := x]) = xor_list xs XOR xs ! i XOR x"
  by (induction xs arbitrary: i)
    (auto simp: nth_Cons xor.assoc xor.left_commute xor.commute split: nat.splits)

lemma xor_eq_0_iff_word: "(a XOR b = 0) = (a = b)" for a b :: "'a::len word"
  by (metis xor.assoc xor.right_neutral xor_self_eq)

text \<open>
  C20. The check sum of the datagram is the exclusive or of its first 24 bytes on the wire and
  of the \<open>validity\<close> flag: it detects every change of a single one of these bytes, and it
  does not cover the \<open>efficency\<close> flag at all.
\<close>

theorem Get_check_sum_detects:
  "Get_check_sum D = xor_list (take 24 (DATA_construct D)) XOR validity (attributes D)
   \<and> (\<forall>D' i x. i < 24 \<longrightarrow> x \<noteq> DATA_construct D ! i
        \<longrightarrow> take 24 (DATA_construct D') = (take 24 (DATA_construct D))[i := x]
        \<longrightarrow> validity (attributes D') = validity (attributes D)
        \<longrightarrow> Get_check_sum D' \<noteq> Get_check_sum D)
   \<and> Get_check_sum (D\<lparr>attributes := (attributes D)\<lparr>efficency := e\<rparr>\<rparr>) = Get_check_sum D"
proof (intro conjI allI impI)
  show "Get_check_sum D = xor_list (take 24 (DATA_construct D)) XOR validity (attributes D)"
    by (rule Get_check_sum_DATA)
next
  fix D' i x
  assume i: "i < (24 :: nat)" and x: "x \<noteq> DATA_construct D ! i"
    and D': "take 24 (DATA_construct D') = (take 24 (DATA_construct D))[i := x]"
    and v: "validity (attributes D') = validity (attributes D)"
  have "Get_check_sum D' XOR Get_check_sum D = DATA_construct D ! i XOR x"
    using i by (simp add: Get_check_sum_DATA D' v xor_list_update xor.assoc xor.left_commute
        xor.commute)
  with x show "Get_check_sum D' \<noteq> Get_check_sum D"
    by (metis xor_eq_0_iff_word)
next
  show "Get_check_sum (D\<lparr>attributes := (attributes D)\<lparr>efficency := e\<rparr>\<rparr>) = Get_check_sum D"
    by (simp add: Get_check_sum_DATA DATA_construct_def)
qed

section \<open>Reading a datagram back\<close>

definition u16_of :: "u8 \<Rightarrow> u8 \<Rightarrow> u16" where
  "u16_of l h = ucast l OR push_bit 8 (ucast h)"

lemma u16_of_bytes [simp]: "u16_of (lo_byte x) (hi_byte x) = x"
  by (rule bit_word_eqI)
    (auto simp: u16_of_def lo_byte_def hi_byte_def and_255 bit_simps)

fun DATA_parse :: "u8 list \<Rightarrow> PAYLOAD option" where
  "DATA_parse [n, i0, i1, u0, u1, tr, sg, r1, ms, mm, mh, md, mmo, my0, my1, r2,
               ls, lm, lh, ld, lmo, ly0, ly1, r3, a, c] =
     Some \<lparr>number = n, identificator = u16_of i0 i1, useful_info = u16_of u0 u1,
       timering = tr, timering_sign = sg, reserve_first = r1,
       msk = \<lparr>second = ms, minute = mm, hour = mh, day = md, month = mmo, year = u16_of my0 my1\<rparr>,
       reserve_second = r2,
       local = \<lparr>second = ls, minute = lm, hour = lh, day = ld, month = lmo, year = u16_of ly0 ly1\<rparr>,
       reserve_third = r3, attributes = \<lparr>validity = drop_bit 1 a, efficency = a AND 1\<rparr>,
       check_sum = c\<rparr>"
| "DATA_parse _ = None"

definition flags_ok :: "PAYLOAD \<Rightarrow> bool" where
  "flags_ok D \<longleftrightarrow> validity (attributes D) \<in> {0, 1} \<and> efficency (attributes D) \<in> {0, 1}"

lemma flags_ok_Asking: "flags_ok (Asking ps1 ps2 D)"
  by (simp add: flags_ok_def Asking_def)

text \<open>
  C19. The 26 bytes written by \<open>DATA_construct\<close> determine every member of the datagram: a
  receiver that knows the layout recovers exactly the structure that was serialised.
\<close>

theorem DATA_construct_roundtrip:
  assumes "flags_ok D"
  shows "DATA_parse (DATA_construct D) = Some D"
proof -
  have "drop_bit 1 (attribute_bits D) = validity (attributes D)"
    and "attribute_bits D AND 1 = efficency (attributes D)"
    using assms by (auto simp: attribute_bits_def flags_ok_def)
  then show ?thesis
    by (simp add: DATA_construct_def)
qed

definition sample_payload :: PAYLOAD where
  "sample_payload =
     \<lparr>number = 7, identificator = 0xFF, useful_info = 26, timering = 1, timering_sign = 1,
      reserve_first = 0,
      msk = \<lparr>second = 30, minute = 59, hour = 0, day = 1, month = 1, year = 2022\<rparr>,
      reserve_second = 0,
      local = \<lparr>second = 30, minute = 59, hour = 23, day = 31, month = 12, year = 2021\<rparr>,
      reserve_third = 0, attributes = \<lparr>validity = 1, efficency = 1\<rparr>, check_sum = 0x5A\<rparr>"

theorem DATA_construct_roundtrip_witness:
  "DATA_parse (DATA_construct sample_payload) = Some sample_payload"
  by (rule DATA_construct_roundtrip) (simp add: flags_ok_def sample_payload_def)

text \<open>A change of the minutes field of the sample is detected.\<close>

theorem Get_check_sum_detects_witness:
  "let D = sample_payload; D' = D\<lparr>msk := (msk D)\<lparr>minute := 58\<rparr>\<rparr> in
   take 24 (DATA_construct D') = (take 24 (DATA_construct D))[9 := 58]
   \<and> Get_check_sum D' \<noteq> Get_check_sum D"
proof -
  let ?D = sample_payload
  let ?D' = "?D\<lparr>msk := (msk ?D)\<lparr>minute := 58\<rparr>\<rparr>"
  have "take 24 (DATA_construct ?D') = (take 24 (DATA_construct ?D))[9 := 58]"
    "58 \<noteq> DATA_construct ?D ! 9"
    by (simp_all add: DATA_construct_def sample_payload_def)
  moreover have "validity (attributes ?D') = validity (attributes ?D)" "(9 :: nat) < 24" by simp_all
  ultimately show ?thesis
    using Get_check_sum_detects [of ?D 0] unfolding Let_def by blast
qed

section \<open>The local time correction\<close>

lemma unat_minus1_u8: "1 \<le> unat (x :: u8) \<Longrightarrow> unat (x - 1) = unat x - 1"
  by (simp add: unat_minus_le word_le_nat_alt)

lemma unat_minus1_u16: "1 \<le> unat (x :: u16) \<Longrightarrow> unat (x - 1) = unat x - 1"
  by (simp add: unat_minus_le word_le_nat_alt)

lemma unat_back_hours:
  assumes "unat h < unat tr" "unat tr \<le> 24"
  shows "unat (24 + h - tr :: u8) = 24 + unat h - unat tr"
proof -
  have "unat (24 + h :: u8) = 24 + unat h"
    using assms by (simp add: unat_word_ariths)
  with assms show ?thesis
    by (simp add: unat_minus_le word_le_nat_alt)
qed

text \<open>
  Where the routine puts the last day of the preceding month; the century rule is absent
  from its leap year test.
\<close>

lemma borrow_day_first:
  assumes l: "day l = 0" and m: "1 \<le> unat (month l)" "unat (month l) \<le> 12"
    and y: "1 \<le> unat (year l)" "is_leap (unat (year l)) = (4 dvd unat (year l))"
  shows "\<exists>l'. borrow_day l = Some l'
     \<and> second l' = second l \<and> minute l' = minute l \<and> hour l' = hour l
     \<and> 1 \<le> unat (month l') \<and> unat (month l') \<le> 12 \<and> 1 \<le> unat (day l')
     \<and> unat (day l') = month_length (unat (year l')) (unat (month l'))
     \<and> day_number l' + 1 = days_before_year (unat (year l)) + days_before_month (unat (year l)) (unat (month l))"
proof (cases "unat (month l) = 1")
  case True
  then have "month l = 1" by (simp add: word_unat_eq_iff)
  moreover have "days_before_year (unat (year l)) = days_before_year (unat (year l - 1)) + year_length (unat (year l - 1))"
    using y(1) by (simp add: unat_minus1_u16 flip: days_before_year_Suc)
  moreover have "31 + days_before_month z 12 = year_length z" for z
    using days_before_month_Suc [of 12 z] by (simp add: days_before_month_13 month_length_def)
  ultimately show ?thesis
    using l by (auto simp: borrow_day_def borrow_month_day_def borrow_year_def february_day_def
        day_number_def month_length_def add.assoc)
next
  case False
  let ?m = "month l - 1" and ?y = "unat (year l)"
  have um: "unat ?m = unat (month l) - 1" "1 \<le> unat ?m" "unat ?m \<le> 12"
    using m False by (simp_all add: unat_minus1_u8)
  have nz: "?m \<noteq> 0" using um by (auto simp: word_unat_eq_iff)
  obtain n where n: "DaysInMonth_at ?m = Some n"
    "month_length ?y (unat ?m) = unat n + (if ?m = 2 \<and> is_leap ?y then 1 else 0)"
    using DaysInMonth_at_month_length [OF um(2,3)] by blast
  have succ: "days_before_month ?y (unat (month l)) = days_before_month ?y (unat ?m) + month_length ?y (unat ?m)"
    using um m by (simp flip: days_before_month_Suc)
  show ?thesis
  proof (cases "?m = 2")
    case True
    then have d: "borrow_day l = Some (l\<lparr>month := 2, day := if 4 dvd ?y then 29 else 28\<rparr>)"
      using l by (simp add: borrow_day_def borrow_month_day_def borrow_year_def february_day_def
          dvd_word_mod)
    show ?thesis
      using d succ y True by (auto simp: day_number_def month_length_def)
  next
    case False
    then have "borrow_day l = Some (l\<lparr>month := ?m, day := n\<rparr>)"
      using l n nz by (simp add: borrow_day_def borrow_month_day_def borrow_year_def february_day_def)
    then show ?thesis
      using succ n False um month_length_bounds(1) [of ?y "unat ?m"] by (auto simp: day_number_def)
  qed
qed

lemma local_correction_back:
  assumes ok: "time_ok m" and h: "unat (hour m) < unat tr" "unat tr \<le> 24"
    and y: "1 \<le> unat (year m)" "is_leap (unat (year m)) = (4 dvd unat (year m))"
  shows "\<exists>l. local_correction m tr 1 = Some l \<and> time_ok l
           \<and> seconds_of l + 3600 * unat tr = seconds_of m"
proof -
  let ?c = "m\<lparr>day := day m - 1, hour := 24 + hour m - tr\<rparr>"
  have c: "local_correction m tr 1 = borrow_day ?c"
    using h(1) by (simp add: local_correction_def correct_hour_def word_less_nat_alt)
  have hr: "unat (hour ?c) = 24 + unat (hour m) - unat tr"
    using h by (simp add: unat_back_hours)
  have d: "unat (day m - 1) = unat (day m) - 1"
    using ok by (simp add: unat_minus1_u8 time_ok_def time_upto_def)
  have mm: "1 \<le> unat (month m)" "unat (month m) \<le> 12"
    using ok by (auto simp: time_ok_def time_upto_def)
  have arith: "((x * 24 + (24 + a - b)) * 60 + p) * 60 + q + 3600 * b = (((x + 1) * 24 + a) * 60 + p) * 60 + q"
    if "b \<le> 24 + a" for x a b p q :: nat
    using that by (simp add: algebra_simps)
  show ?thesis
  proof (cases "unat (day m) = 1")
    case True
    then have "day ?c = 0" using d by (simp add: word_unat_eq_iff)
    from borrow_day_first [OF this] mm y obtain l where
      l: "borrow_day ?c = Some l" "second l = second m" "minute l = minute m" "hour l = hour ?c"
        "1 \<le> unat (month l)" "unat (month l) \<le> 12" "1 \<le> unat (day l)"
        "unat (day l) = month_length (unat (year l)) (unat (month l))"
        "day_number l + 1 = days_before_year (unat (year m)) + days_before_month (unat (year m)) (unat (month m))"
      by auto
    from l(9) True have n: "day_number m = day_number l + 1" by (simp add: day_number_def)
    have "time_ok l" using ok l hr h by (auto simp: time_ok_def time_upto_def)
    then show ?thesis
      using c l n h hr arith [of "unat tr" "unat (hour m)" "day_number l"]
      by (simp add: seconds_of_def)
  next
    case False
    then have gt: "1 < unat (day m)" using ok by (simp add: time_ok_def time_upto_def)
    then have nz: "day ?c \<noteq> 0" using d by (auto simp: word_unat_eq_iff)
    have n: "day_number m = day_number ?c + 1" using gt d by (simp add: day_number_def)
    have "time_ok ?c" using ok d gt hr h by (auto simp: time_ok_def time_upto_def)
    then show ?thesis
      using c nz n h hr arith [of "unat tr" "unat (hour m)" "day_number ?c"]
      by (simp add: borrow_day_def seconds_of_def)
  qed
qed

lemma local_correction_forward:
  assumes ok: "time_ok m" and tr: "unat tr \<le> 24" and fw: "sg \<noteq> 1 \<or> unat tr \<le> unat (hour m)"
  shows "local_correction m tr sg = Some (m\<lparr>hour := hour m + tr\<rparr>)" "unat (hour m + tr) = unat (hour m) + unat tr"
    "seconds_of (m\<lparr>hour := hour m + tr\<rparr>) = seconds_of m + 3600 * unat tr"
    "time_ok (m\<lparr>hour := hour m + tr\<rparr>) \<longleftrightarrow> unat (hour m) + unat tr < 24"
proof -
  have "day m \<noteq> 0" "unat (hour m) < 24" using ok by (auto simp: time_ok_def time_upto_def)
  then show "local_correction m tr sg = Some (m\<lparr>hour := hour m + tr\<rparr>)" and h: "unat (hour m + tr) = unat (hour m) + unat tr"
    using fw tr by (auto simp: local_correction_def correct_hour_def borrow_day_def word_less_nat_alt unat_word_ariths)
  show "seconds_of (m\<lparr>hour := hour m + tr\<rparr>) = seconds_of m + 3600 * unat tr"
    using h by (simp add: seconds_of_def day_number_def algebra_simps)
  show "time_ok (m\<lparr>hour := hour m + tr\<rparr>) \<longleftrightarrow> unat (hour m) + unat tr < 24"
    using h ok by (auto simp: time_ok_def time_upto_def)
qed

text \<open>
  C33. The correction block on a valid \<open>msk\<close> of a year from 1 on, with \<open>timering\<close> up to 24 hours. With
  \<open>timering_sign = 1\<close> and the hour of \<open>msk\<close> smaller than \<open>timering\<close> it goes back: in the years whose leap day follows
  from divisibility by 4 alone (all from 1901 to 2099) the result is a valid civil time that lies exactly \<open>timering\<close> hours
  before \<open>msk\<close>, with the borrow from the day, the month and the year. In every other case, whatever the sign,
  it adds \<open>timering\<close> to the hour and has no carry: the result is \<open>timering\<close> hours later and a valid time exactly if the
  new hour is below 24. So the same sign moves the local time in opposite directions.
\<close>

theorem local_correction_directions:
  assumes "time_ok m" and "unat tr \<le> 24" and "1 \<le> unat (year m)"
  shows "if sg = 1 \<and> unat (hour m) < unat tr
    then is_leap (unat (year m)) = (4 dvd unat (year m)) \<longrightarrow>
      (\<exists>l. local_correction m tr sg = Some l \<and> time_ok l \<and> seconds_of l + 3600 * unat tr = seconds_of m)
    else \<exists>l. local_correction m tr sg = Some l \<and> l = m\<lparr>hour := hour m + tr\<rparr> \<and> seconds_of l = seconds_of m + 3600 * unat tr
      \<and> (time_ok l \<longleftrightarrow> unat (hour m) + unat tr < 24)"
  using local_correction_back [OF assms(1) _ assms(2,3)] local_correction_forward [OF assms(1,2), of sg]
  by (cases "sg = 1 \<and> unat (hour m) < unat tr") auto

theorem local_correction_directions_witness:
  "(\<exists>l. local_correction \<lparr>second = 30, minute = 59, hour = 0, day = 1, month = 3, year = 2024\<rparr> 1 1 = Some l \<and> time_ok l
      \<and> seconds_of l + 3600 = seconds_of \<lparr>second = 30, minute = 59, hour = 0, day = 1, month = 3, year = 2024\<rparr>)
   \<and> (\<exists>l. local_correction \<lparr>second = 30, minute = 59, hour = 23, day = 1, month = 3, year = 2024\<rparr> 1 1 = Some l \<and> \<not> time_ok l)"
proof -
  let ?m = "\<lambda>h. \<lparr>second = 30, minute = 59, hour = h, day = 1, month = 3, year = 2024\<rparr> :: TIME"
  have "time_ok (?m 0)" "time_ok (?m 23)" "is_leap 2024"
    by (simp_all add: time_ok_def time_upto_def month_length_def is_leap_def)
  then show ?thesis
    using local_correction_directions [of "?m 0" 1 1] local_correction_directions [of "?m 23" 1 1] by auto
qed

section \<open>The first datagram\<close>

lemma Datagram_parameters_initialisation_eq:
  "Datagram_parameters_initialisation D = Some
     (sample_payload\<lparr>number := 0, attributes := \<lparr>validity = 0, efficency = 0\<rparr>, check_sum := 0\<rparr>)"
  by (simp add: Datagram_parameters_initialisation_def local_correction_def correct_hour_def
      borrow_day_def borrow_month_day_def borrow_year_def february_day_def sample_payload_def)

lemma time_ok_sample: "time_ok (msk sample_payload)" "time_ok (local sample_payload)"
  by (simp_all add: sample_payload_def time_ok_def time_upto_def month_length_def)

end
