(* ===== verification/Ring.thy ===== *)
theory Ring
  imports Prelude
begin

text \<open>
  Circular regions of word-addressed memory and the interfaces of the two frame queues that
  the Ethernet controller keeps in them. \<open>ring_get\<close> and \<open>ring_put\<close> are the specification of
  reading and writing a run of words that may wrap at the end of the region; the code uses
  straight copies (\<open>load_words\<close>, \<open>store_words\<close>) and handles the wrap by splitting.
\<close>

type_synonym wmem = "nat \<Rightarrow> u32"

section \<open>Straight and circular copies\<close>

text \<open>\<open>for (i = 0; i < n; i++) *dst++ = *src++\<close> seen from the source: the words read.\<close>

primrec load_words :: "wmem \<Rightarrow> nat \<Rightarrow> nat \<Rightarrow> u32 list" where
  "load_words m a 0 = []"
| "load_words m a (Suc n) = m a # load_words m (Suc a) n"

text \<open>The same loop seen from the destination.\<close>

primrec store_words :: "wmem \<Rightarrow> nat \<Rightarrow> u32 list \<Rightarrow> wmem" where
  "store_words m a [] = m"
| "store_words m a (w # ws) = store_words (m(a := w)) (Suc a) ws"

definition ring_pos :: "nat \<Rightarrow> nat \<Rightarrow> nat \<Rightarrow> nat \<Rightarrow> nat" where
  "ring_pos base N start i = base + (start + i) mod N"

definition ring_get :: "wmem \<Rightarrow> nat \<Rightarrow> nat \<Rightarrow> nat \<Rightarrow> nat \<Rightarrow> u32 list" where
  "ring_get m base N start n = map (\<lambda>i. m (ring_pos base N start i)) [0..<n]"

lemma length_load_words [simp]: "length (load_words m a n) = n"
  by (induction n arbitrary: a) simp_all

lemma nth_load_words: "i < n \<Longrightarrow> load_words m a n ! i = m (a + i)"
  by (induction n arbitrary: a i) (auto simp: nth_Cons split: nat.splits)

lemma load_words_map: "load_words m a n = map (\<lambda>i. m (a + i)) [0..<n]"
  by (rule nth_equalityI) (simp_all add: nth_load_words)

lemma store_words_apply:
  "store_words m a ws x = (if a \<le> x \<and> x < a + length ws then ws ! (x - a) else m x)"
proof (induction ws arbitrary: m a)
  case (Cons w ws)
  have "a \<noteq> x \<Longrightarrow> a \<le> x \<Longrightarrow> x - a = Suc (x - Suc a)" by simp
  with Cons show ?case by auto
qed auto

lemma length_ring_get [simp]: "length (ring_get m base N start n) = n"
  by (simp add: ring_get_def)

lemma ring_get_straight:
  "start + n \<le> N \<Longrightarrow> ring_get m base N start n = load_words m (base + start) n"
  by (simp add: ring_get_def load_words_map ring_pos_def add.assoc)

lemma ring_get_wrapped:
  assumes "start \<le> N" "N \<le> start + n" "n \<le> N"
  shows "ring_get m base N start n
         = load_words m (base + start) (N - start) @ load_words m base (start + n - N)"
proof (rule nth_equalityI)
  fix i
  assume i: "i < length (ring_get m base N start n)"
  show "ring_get m base N start n ! i
      = (load_words m (base + start) (N - start) @ load_words m base (start + n - N)) ! i"
  proof (cases "i < N - start")
    case True
    with i show ?thesis
      by (simp add: ring_get_def ring_pos_def nth_append nth_load_words add.assoc)
  next
    case False
    with i assms have "(start + i) mod N = start + i - N"
      by (simp add: le_mod_geq)
    with False i assms show ?thesis
      by (simp add: ring_get_def ring_pos_def nth_append nth_load_words add.commute [of i])
  qed
qed (use assms in simp)

lemma ring_get_append:
  "ring_get m base N start (a + b) = ring_get m base N start a @ ring_get m base N (start + a) b"
proof -
  have "[0..<a + b] = [0..<a] @ map (\<lambda>i. a + i) [0..<b]"
    using upt_add_eq_append [of 0 a b] map_add_upt [of a b] by (simp add: add.commute)
  then show ?thesis by (simp add: ring_get_def ring_pos_def add.assoc)
qed

lemma ring_get_Suc:
  "ring_get m base N start (Suc n) = m (ring_pos base N start 0) # ring_get m base N (Suc start) n"
  using ring_get_append [of m base N start 1 n] by (simp add: ring_get_def ring_pos_def)

lemma ring_get_mod [simp]: "ring_get m base N (start mod N) n = ring_get m base N start n"
  by (simp add: ring_get_def ring_pos_def mod_add_left_eq)

lemma ring_get_start_mod: "ring_get m base N (s mod N + k) n = ring_get m base N (s + k) n"
  by (simp add: ring_get_def ring_pos_def add.assoc mod_add_left_eq)

text \<open>Writing a run and reading any run that does not overlap it.\<close>

primrec ring_put :: "wmem \<Rightarrow> nat \<Rightarrow> nat \<Rightarrow> nat \<Rightarrow> u32 list \<Rightarrow> wmem" where
  "ring_put m base N start [] = m"
| "ring_put m base N start (w # ws) =
     ring_put (m(ring_pos base N start 0 := w)) base N (Suc start) ws"

lemma ring_put_append:
  "ring_put m base N start (xs @ ys)
   = ring_put (ring_put m base N start xs) base N (start + length xs) ys"
  by (induction xs arbitrary: m start) simp_all

lemma ring_put_mod: "ring_put m base N (start mod N) ws = ring_put m base N start ws"
proof (induction ws arbitrary: m start)
  case (Cons w ws)
  have "ring_put m' base N (Suc (start mod N)) ws = ring_put m' base N (Suc start) ws" for m'
    using Cons.IH [of m' "Suc (start mod N)"] Cons.IH [of m' "Suc start"]
    by (simp add: mod_Suc_eq)
  then show ?case by (simp add: ring_pos_def)
qed simp

lemma ring_put_straight:
  "start + length ws \<le> N \<Longrightarrow> ring_put m base N start ws = store_words m (base + start) ws"
  by (induction ws arbitrary: m start) (simp_all add: ring_pos_def)

lemma ring_put_wrapped:
  assumes "start \<le> N" "N \<le> start + length ws" "length ws \<le> N"
  shows "ring_put m base N start ws
         = store_words (store_words m (base + start) (take (N - start) ws)) base (drop (N - start) ws)"
proof -
  let ?xs = "take (N - start) ws" and ?ys = "drop (N - start) ws"
  have len: "length ?xs = N - start" using assms by simp
  have "ring_put m base N start (?xs @ ?ys)
      = ring_put (store_words m (base + start) ?xs) base N N ?ys"
    unfolding ring_put_append len using assms(1) len by (simp add: ring_put_straight)
  also have "\<dots> = ring_put (store_words m (base + start) ?xs) base N 0 ?ys"
    using ring_put_mod [of _ base N N ?ys] by simp
  also have "\<dots> = store_words (store_words m (base + start) ?xs) base ?ys"
    using assms by (simp add: ring_put_straight)
  finally show ?thesis by simp
qed

lemma ring_pos_inj:
  assumes "ring_pos base N s i = ring_pos base N s j" "i < N" "j < N"
  shows "i = j"
proof -
  have red: "(s + k) mod N = (if s mod N + k < N then s mod N + k else s mod N + k - N)"
    if "k < N" for k
  proof -
    have "s mod N < N" using that by simp
    then have "s mod N + k - N < N" using that by linarith
    then have "(s mod N + k) mod N = (if s mod N + k < N then s mod N + k else s mod N + k - N)"
      by (simp add: le_mod_geq)
    then show ?thesis by (simp add: mod_add_left_eq)
  qed
  have "s mod N < N" using assms(2) by simp
  then show ?thesis
    using assms(1) red [OF assms(2)] red [OF assms(3)] assms(2,3)
    by (auto simp: ring_pos_def split: if_splits)
qed

lemma ring_put_frame:
  "(\<And>i. i < length ws \<Longrightarrow> x \<noteq> ring_pos base N start i) \<Longrightarrow> ring_put m base N start ws x = m x"
proof (induction ws arbitrary: m start)
  case (Cons w ws)
  have "x \<noteq> ring_pos base N (Suc start) i" if "i < length ws" for i
    using Cons.prems [of "Suc i"] that by (simp add: ring_pos_def)
  then show ?case using Cons.IH Cons.prems [of 0] by simp
qed simp

lemma ring_put_at:
  "length ws \<le> N \<Longrightarrow> i < length ws \<Longrightarrow> ring_put m base N start ws (ring_pos base N start i) = ws ! i"
proof (induction ws arbitrary: m start i)
  case (Cons w ws)
  have shift: "ring_pos base N start (Suc j) = ring_pos base N (Suc start) j" for j
    by (simp add: ring_pos_def)
  show ?case
  proof (cases i)
    case 0
    have "ring_pos base N start 0 \<noteq> ring_pos base N (Suc start) j" if "j < length ws" for j
      using ring_pos_inj [of base N start 0 "Suc j"] that Cons.prems(1) by (auto simp: shift)
    then show ?thesis using 0 by (simp add: ring_put_frame)
  next
    case (Suc j)
    then show ?thesis using Cons by (simp add: shift)
  qed
qed simp

lemma ring_put_get_same:
  "length ws \<le> N \<Longrightarrow> ring_get (ring_put m base N start ws) base N start (length ws) = ws"
  by (rule nth_equalityI) (simp_all add: ring_get_def ring_put_at)

lemma ring_put_get_before:
  assumes "length ws + n \<le> N"
  shows "ring_get (ring_put m base N (start + n) ws) base N start n = ring_get m base N start n"
proof (rule nth_equalityI)
  fix i
  assume "i < length (ring_get (ring_put m base N (start + n) ws) base N start n)"
  then have i: "i < n" by simp
  have "ring_pos base N start i \<noteq> ring_pos base N (start + n) j" if "j < length ws" for j
  proof -
    have "ring_pos base N (start + n) j = ring_pos base N start (n + j)"
      by (simp add: ring_pos_def add.assoc)
    then show ?thesis
      using ring_pos_inj [of base N start i "n + j"] i that assms by auto
  qed
  with i show "ring_get (ring_put m base N (start + n) ws) base N start n ! i
      = ring_get m base N start n ! i"
    by (simp add: ring_get_def ring_put_frame)
qed simp

text \<open>Appending a run behind one of length \<open>n\<close>.\<close>

lemma ring_put_behind:
  assumes "n + length ws \<le> N"
  shows "ring_get (ring_put m base N (start + n) ws) base N start (n + length ws)
    = ring_get m base N start n @ ws"
  unfolding ring_get_append
  using assms ring_put_get_before [of ws n N m base start]
    ring_put_get_same [of ws N m base "start + n"] by simp

lemma ring_put_outside:
  assumes "0 < N" "x < base \<or> base + N \<le> x"
  shows "ring_put m base N start ws x = m x"
proof (rule ring_put_frame)
  fix i
  have "(start + i) mod N < N" using assms(1) by simp
  with assms(2) show "x \<noteq> ring_pos base N start i" by (auto simp: ring_pos_def)
qed

end
