(* ===== verification/FrameQueue.thy ===== *)
theory FrameQueue
  imports Prelude
begin

text \<open>
  The interfaces of the two frame queues between the Ethernet controller and the network
  stack. \<open>frame_source\<close> is the receive side as the polling code sees it, \<open>frame_channel\<close> adds
  the arrival of frames, and \<open>frame_sink\<close> is the transmit side. A state \<open>s\<close> \<^emph>\<open>holds\<close> a list of
  frames, oldest first; the locales relate the operations on states to this list and derive
  the behaviour of whole runs. \<open>EthIf\<close> interprets them on \<open>EthReadFrame\<close> and \<open>EthWriteFrame\<close>.
\<close>

section \<open>Runs\<close>

text \<open>What happens at a queue that is filled by one side and polled by the other.\<close>

datatype 'f queue_event = Arrive 'f | Poll

fun run_queue ::
  "('f \<Rightarrow> 's \<Rightarrow> 's) \<Rightarrow> ('s \<Rightarrow> bool) \<Rightarrow> ('s \<Rightarrow> 'r \<times> 's) \<Rightarrow> 'f queue_event list \<Rightarrow> 's \<Rightarrow> 'r list \<times> 's"
where
  "run_queue arrive pending rd [] s = ([], s)"
| "run_queue arrive pending rd (Arrive f # evs) s = run_queue arrive pending rd evs (arrive f s)"
| "run_queue arrive pending rd (Poll # evs) s =
     (if pending s then
        let (r, s1) = rd s; (rs, s2) = run_queue arrive pending rd evs s1 in (r # rs, s2)
      else run_queue arrive pending rd evs s)"

text \<open>The same on lists of frames: arrivals are appended, a poll takes the first frame.\<close>

fun spec_queue ::
  "('f list \<Rightarrow> 'f \<Rightarrow> bool) \<Rightarrow> 'f queue_event list \<Rightarrow> 'f list \<Rightarrow> 'f list \<times> 'f list"
where
  "spec_queue accepts [] fs = ([], fs)"
| "spec_queue accepts (Arrive f # evs) fs = spec_queue accepts evs (if accepts fs f then fs @ [f] else fs)"
| "spec_queue accepts (Poll # evs) [] = spec_queue accepts evs []"
| "spec_queue accepts (Poll # evs) (f # fs) = (let (rs, gs) = spec_queue accepts evs fs in (f # rs, gs))"

text \<open>The frames that arrive and are accepted, in order.\<close>

fun accepted :: "('f list \<Rightarrow> 'f \<Rightarrow> bool) \<Rightarrow> 'f queue_event list \<Rightarrow> 'f list \<Rightarrow> 'f list" where
  "accepted accepts [] fs = []"
| "accepted accepts (Arrive f # evs) fs =
     (if accepts fs f then f # accepted accepts evs (fs @ [f]) else accepted accepts evs fs)"
| "accepted accepts (Poll # evs) fs = accepted accepts evs (tl fs)"

lemma spec_queue_fifo:
  "spec_queue accepts evs fs = (rs, gs) \<Longrightarrow> rs @ gs = fs @ accepted accepts evs fs"
  by (induction accepts evs fs arbitrary: rs gs rule: spec_queue.induct)
    (auto split: prod.splits if_splits)

section \<open>Receiving\<close>

locale frame_source =
  fixes holds :: "'s \<Rightarrow> 'f list \<Rightarrow> bool"
    and pending :: "'s \<Rightarrow> bool"
    and rd :: "'s \<Rightarrow> 'r \<times> 's"
    and view :: "'f \<Rightarrow> 'r"
  assumes pending_iff: "holds s fs \<Longrightarrow> pending s \<longleftrightarrow> fs \<noteq> []"
    and rd_first: "holds s (f # fs) \<Longrightarrow> \<exists>s'. rd s = (view f, s') \<and> holds s' fs"
begin

text \<open>Polling alone empties the queue in order.\<close>

lemma polls_drain:
  assumes "holds s fs"
  shows "\<exists>s'. run_queue arrive pending rd (replicate n Poll) s = (map view (take n fs), s')
    \<and> holds s' (drop n fs)"
  using assms
proof (induction n arbitrary: s fs)
  case (Suc n)
  show ?case
  proof (cases fs)
    case Nil
    then show ?thesis using Suc pending_iff [OF Suc.prems] by fastforce
  next
    case (Cons f gs)
    then obtain s1 where "rd s = (view f, s1)" "holds s1 gs" using rd_first Suc.prems by blast
    then show ?thesis using Suc.IH [of s1 gs] Cons pending_iff [OF Suc.prems] by auto
  qed
qed simp

end

locale frame_channel = frame_source holds pending rd view
  for holds :: "'s \<Rightarrow> 'f list \<Rightarrow> bool"
    and pending :: "'s \<Rightarrow> bool"
    and rd :: "'s \<Rightarrow> 'r \<times> 's"
    and view :: "'f \<Rightarrow> 'r" +
  fixes arrive :: "'f \<Rightarrow> 's \<Rightarrow> 's"
    and accepts :: "'f list \<Rightarrow> 'f \<Rightarrow> bool"
  assumes arrive_last: "holds s fs \<Longrightarrow> holds (arrive f s) (if accepts fs f then fs @ [f] else fs)"
begin

text \<open>Every interleaving of arrivals and polls behaves as on the list of frames.\<close>

lemma run_refines:
  assumes "holds s fs"
  shows "\<exists>s'. run_queue arrive pending rd evs s = (map view (fst (spec_queue accepts evs fs)), s')
    \<and> holds s' (snd (spec_queue accepts evs fs))"
  using assms
proof (induction evs arbitrary: s fs)
  case (Cons ev evs)
  show ?case
  proof (cases ev)
    case (Arrive f)
    then show ?thesis using Cons.IH [OF arrive_last [OF Cons.prems]] by auto
  next
    case Poll
    show ?thesis
    proof (cases fs)
      case Nil
      then show ?thesis using Poll Cons.IH [OF Cons.prems] pending_iff [OF Cons.prems] by simp
    next
      case (Cons f gs)
      then obtain s1 where s1: "rd s = (view f, s1)" "holds s1 gs"
        using rd_first Cons.prems by blast
      then show ?thesis
        using Poll Cons Cons.IH [OF s1(2)] pending_iff [OF Cons.prems] by (auto split: prod.splits)
    qed
  qed
qed simp

text \<open>No frame is lost, duplicated or overtaken: what was read and what is left are the
  frames that were there followed by those accepted.\<close>

lemma run_fifo:
  assumes "holds s fs"
  shows "\<exists>rs gs s'. run_queue arrive pending rd evs s = (map view rs, s') \<and> holds s' gs
    \<and> rs @ gs = fs @ accepted accepts evs fs"
  using run_refines [OF assms, of evs] spec_queue_fifo [of accepts evs fs] by (metis prod.collapse)

end

section \<open>Sending\<close>

fun send_all :: "('f \<Rightarrow> 's \<Rightarrow> 'e \<times> 's) \<Rightarrow> 'f list \<Rightarrow> 's \<Rightarrow> 'e list \<times> 's" where
  "send_all send [] s = ([], s)"
| "send_all send (f # fs) s =
     (let (r, s1) = send f s; (rs, s2) = send_all send fs s1 in (r # rs, s2))"

locale frame_sink =
  fixes holds :: "'s \<Rightarrow> 'f list \<Rightarrow> bool"
    and send :: "'f \<Rightarrow> 's \<Rightarrow> 'e \<times> 's"
    and sent full :: 'e
    and weight :: "'f \<Rightarrow> nat"
    and cap :: nat
  assumes send_fits: "holds s fs \<Longrightarrow> sum_list (map weight fs) + weight f < cap
      \<Longrightarrow> \<exists>s'. send f s = (sent, s') \<and> holds s' (fs @ [f])"
    and send_full: "holds s fs \<Longrightarrow> cap < sum_list (map weight fs) + weight f \<Longrightarrow> send f s = (full, s)"
begin

text \<open>Frames that fit together are all taken and stay in order.\<close>

lemma send_all_fits:
  assumes "holds s fs" "sum_list (map weight (fs @ gs)) < cap"
  shows "\<exists>s'. send_all send gs s = (replicate (length gs) sent, s') \<and> holds s' (fs @ gs)"
  using assms
proof (induction gs arbitrary: s fs)
  case (Cons g gs)
  then obtain s1 where "send g s = (sent, s1)" "holds s1 (fs @ [g])"
    using send_fits [of s fs g] by auto
  then show ?case using Cons.IH [of s1 "fs @ [g]"] Cons.prems by auto
qed simp

end

end
