(* ===== verification/EthIf.thy ===== *)
theory EthIf
  imports Ring FrameQueue
begin

text \<open>
  The Ethernet interface \<open>2.1.2/ports/1986BE1/Standalone/ethernetif.c\<close>: the registers of the
  controller, its 8 KiB buffer memory, and the routines that move frames between the
  buffer memory and the byte arrays \<open>EthFrameRX\<close>, \<open>EthFrameTX\<close>.

  Buffer memory starts at \<open>MDR_ETHERNET1_BUF_BASE = 0x38000000\<close>; its low 16 bits are zero, so
  \<open>(uint16_t) src\<close> is the offset of a pointer from the base. Pointers are modelled by this
  offset, in bytes; word accesses use offset div 4 (a pointer register of the controller
  always holds a multiple of four).
\<close>

section \<open>Registers and buffer memory\<close>

record MDR_ETHERNET_TypeDef =
  ETH_Dilimiter :: u16
  ETH_MAC_T :: u16
  ETH_MAC_M :: u16
  ETH_MAC_H :: u16
  ETH_HASH0 :: u16
  ETH_HASH1 :: u16
  ETH_HASH2 :: u16
  ETH_HASH3 :: u16
  ETH_IPG :: u16
  ETH_PSC :: u16
  ETH_BAG :: u16
  ETH_JitterWnd :: u16
  ETH_R_CFG :: u16
  ETH_X_CFG :: u16
  ETH_G_CFGl :: u16
  ETH_G_CFGh :: u16
  ETH_IMR :: u16
  ETH_IFR :: u16
  ETH_MDIO_CTRL :: u16
  ETH_MDIO_DATA :: u16
  ETH_R_Head :: u16
  ETH_X_Tail :: u16
  ETH_R_Tail :: u16
  ETH_X_Head :: u16
  ETH_STAT :: u16
  PHY_Control :: u16
  PHY_Status :: u16

text \<open>The controller together with its buffer memory.\<close>

record eth = MDR_ETHERNET_TypeDef +
  ebuf :: wmem

definition BUF_SIZE :: nat where
  "BUF_SIZE = 0x2000"

definition ETH_STAT_R_COUNT_Pos :: nat where [reg_defs]: "ETH_STAT_R_COUNT_Pos = 5"
definition ETH_STAT_R_COUNT_Msk :: u16 where [reg_defs]: "ETH_STAT_R_COUNT_Msk = 0xE0"
definition ETH_G_CFGh_XRST :: u16 where [reg_defs]: "ETH_G_CFGh_XRST = 1"
definition ETH_G_CFGh_RRST :: u16 where [reg_defs]: "ETH_G_CFGh_RRST = 2"
definition ETH_R_CFG_EN :: u16 where [reg_defs]: "ETH_R_CFG_EN = 0x8000"
definition ETH_X_CFG_EN :: u16 where [reg_defs]: "ETH_X_CFG_EN = 0x8000"

section \<open>Start and stop\<close>

definition FlushFIFO :: "eth \<Rightarrow> eth" where
  "FlushFIFO e = e\<lparr>ebuf := store_words (ebuf e) 0 (replicate (BUF_SIZE div 4) 0)\<rparr>"

definition EthOff :: "eth \<Rightarrow> eth" where
  "EthOff e = e\<lparr>ETH_R_CFG := ETH_R_CFG e AND NOT ETH_R_CFG_EN,
                ETH_X_CFG := ETH_X_CFG e AND NOT ETH_X_CFG_EN\<rparr>"

definition EthRecTrEn :: "eth \<Rightarrow> eth" where
  "EthRecTrEn e = e\<lparr>ETH_R_CFG := ETH_R_CFG e OR ETH_R_CFG_EN,
                    ETH_X_CFG := ETH_X_CFG e OR ETH_X_CFG_EN\<rparr>"

text \<open>The pointer set-up that \<open>EthInit\<close> and \<open>EthOn\<close> share.\<close>

definition eth_reset_pointers :: "eth \<Rightarrow> eth" where
  "eth_reset_pointers e =
     (let e1 = e\<lparr>ETH_IFR := 0xDFFF, ETH_Dilimiter := 4096, ETH_R_Head := 0, ETH_X_Tail := 4096,
                 ETH_R_Tail := 0, ETH_X_Head := 4096,
                 ETH_G_CFGh := ETH_G_CFGh e OR (ETH_G_CFGh_XRST OR ETH_G_CFGh_RRST)\<rparr>;
          e2 = FlushFIFO e1
      in e2\<lparr>ETH_G_CFGh := ETH_G_CFGh e2 AND NOT (ETH_G_CFGh_XRST OR ETH_G_CFGh_RRST)\<rparr>)"

text \<open>
  \<open>while (STAT & R_COUNT) STAT -= 1 << R_COUNT_Pos\<close>: the count of received frames is a
  three-bit field, so the loop runs at most seven times.
\<close>

lemma R_COUNT_nonzero:
  assumes "s AND ETH_STAT_R_COUNT_Msk \<noteq> 0"
  shows "unat (s - push_bit ETH_STAT_R_COUNT_Pos 1) < unat s"
proof -
  obtain n where n: "bit (s AND ETH_STAT_R_COUNT_Msk) n"
    using assms by (auto simp: bit_eq_iff)
  then have "bit s n" "bit (push_bit 5 (7 :: u16)) n" by (simp_all add: bit_and_iff reg_defs)
  then have "5 \<le> n" "bit s n" unfolding bit_push_bit_iff by blast+
  then have "2 ^ 5 \<le> (2 :: nat) ^ n" "2 ^ n \<le> unat s"
    using power_increasing [of 5 n "2 :: nat"] bit_imp_unat_ge by simp_all
  then have "32 \<le> unat s" by simp
  then show ?thesis by (simp add: reg_defs unat_minus_le word_le_nat_alt)
qed

function drain_R_COUNT :: "u16 \<Rightarrow> u16" where
  "drain_R_COUNT s =
     (if s AND ETH_STAT_R_COUNT_Msk \<noteq> 0
      then drain_R_COUNT (s - push_bit ETH_STAT_R_COUNT_Pos 1) else s)"
  by pat_completeness auto
termination
  by (relation "measure unat") (use R_COUNT_nonzero in auto)

declare drain_R_COUNT.simps [simp del]

definition EthOn :: "eth \<Rightarrow> eth" where
  "EthOn e = EthRecTrEn (eth_reset_pointers (e\<lparr>ETH_STAT := drain_R_COUNT (ETH_STAT e)\<rparr>))"

section \<open>Reading a frame\<close>

text \<open>\<open>if ((uint16_t)src > (ETH_Dilimiter - 1)) src = BUF_BASE\<close>, compared as \<open>int\<close>.\<close>

definition rx_wrap :: "u16 \<Rightarrow> nat \<Rightarrow> nat" where
  "rx_wrap dil src = (if int (src mod 2 ^ 16) > int (unat dil) - 1 then 0 else src)"

text \<open>\<open>space_end\<close> after \<open>space_end -= 4\<close>.\<close>

definition rx_space_end :: "eth \<Rightarrow> u16" where
  "rx_space_end e =
     (let tail = ETH_R_Tail e; head = ETH_R_Head e
      in (if tail > head then tail - head else ETH_Dilimiter e - head) - 4)"

text \<open>
  The two copies: the words stored to \<open>Frame\<close> and \<open>src\<close> after the last word has been read.
  \<open>size\<close> is a \<open>uint32_t\<close>: \<open>size - 1\<close> wraps when the status word says length 0.
\<close>

definition rx_copy :: "wmem \<Rightarrow> nat \<Rightarrow> u32 \<Rightarrow> u16 \<Rightarrow> u16 \<Rightarrow> u32 list \<times> nat" where
  "rx_copy m src sz tmp0 space_end =
     (if tmp0 \<le> space_end then
        let n = unat (sz - 1) in (load_words m (src div 4) n, src + 4 * n + 4)
      else
        let k = unat (space_end div 4); n = unat (sz - of_nat k - 1)
        in (load_words m (src div 4) k @ load_words m 0 n, 4 * n + 4))"

text \<open>
  The result: the returned length, the words stored to \<open>Frame\<close> from its start, the
  controller afterwards.
\<close>

definition EthReadFrame :: "eth \<Rightarrow> u16 \<times> u32 list \<times> eth" where
  "EthReadFrame e =
     (let head = unat (ETH_R_Head e); dil = ETH_Dilimiter e;
          tmp0 = to_u16 (ebuf e (head div 4));
          src = rx_wrap dil (head + 4);
          sz = of_nat ((unat tmp0 + 3) div 4);
          (frame, src') = rx_copy (ebuf e) src sz tmp0 (rx_space_end e)
      in (tmp0 - 4, frame,
          e\<lparr>ETH_R_Head := of_nat (rx_wrap dil src'),
            ETH_STAT := ETH_STAT e - push_bit ETH_STAT_R_COUNT_Pos 1\<rparr>))"

section \<open>Writing a frame\<close>

definition tx_wrap :: "u16 \<Rightarrow> nat \<Rightarrow> nat" where
  "tx_wrap dil dst = (if dst mod 2 ^ 16 > BUF_SIZE - 4 then unat dil else dst)"

text \<open>
  The two copies: the memory and \<open>dst\<close> after them, \<open>src\<close> being the words of the array \<open>Frame\<close>
  and \<open>space\<close> the value of \<open>space[0]\<close> after \<open>space[0] -= 4\<close>. In the split copy \<open>Len > space\<close>,
  so that the \<open>uint16_t\<close> subtraction \<open>tmp -= space[0]/4\<close> never wraps.
\<close>

definition tx_copy :: "wmem \<Rightarrow> u16 \<Rightarrow> u16 \<Rightarrow> u16 \<Rightarrow> wmem \<Rightarrow> nat \<Rightarrow> wmem \<times> nat" where
  "tx_copy src Len dil space m dst =
     (let n = (unat Len + 3) div 4; k = unat (space div 4)
      in if Len \<le> space then (store_words m (dst div 4) (load_words src 0 n), dst + 4 * n)
         else (store_words (store_words m (dst div 4) (load_words src 0 k))
                 (unat dil div 4) (load_words src k (n - k)),
               unat dil + 4 * (n - k)))"

text \<open>\<open>space[0] + space[1] - 8\<close> is an \<open>int\<close>.\<close>

definition EthWriteFrame :: "wmem \<Rightarrow> u16 \<Rightarrow> eth \<Rightarrow> err_t \<times> eth" where
  "EthWriteFrame src Len e =
     (let head = ETH_X_Head e; tail = ETH_X_Tail e; dil = ETH_Dilimiter e;
          space0 = (if head > tail then head - tail else of_nat BUF_SIZE - tail);
          space1 = (if head > tail then 0 else head - dil)
      in if int (unat Len) > int (unat space0) + int (unat space1) - 8 then (ERR_MEM, e)
         else
           let m1 = (ebuf e)(unat tail div 4 := to_u32 Len);
               dst1 = tx_wrap dil (unat tail + 4);
               (m2, dst2) = tx_copy src Len dil (space0 - 4) m1 dst1;
               dst3 = tx_wrap dil dst2;
               m3 = m2(dst3 div 4 := 0);
               dst4 = tx_wrap dil (dst3 + 4)
           in (ERR_OK, e\<lparr>ebuf := m3, ETH_X_Tail := of_nat dst4\<rparr>))"

section \<open>The receive ring\<close>

text \<open>
  \<open>rx_ok e\<close>: the pointers are word offsets inside the receive region, which is the \<open>dil\<close>
  bytes at the start of the buffer memory.
\<close>

definition rx_words :: "eth \<Rightarrow> nat" where
  "rx_words e = unat (ETH_Dilimiter e) div 4"

definition rx_ok :: "eth \<Rightarrow> bool" where
  "rx_ok e \<longleftrightarrow> 4 dvd unat (ETH_Dilimiter e) \<and> unat (ETH_Dilimiter e) \<le> BUF_SIZE
     \<and> 4 dvd unat (ETH_R_Head e) \<and> unat (ETH_R_Head e) < unat (ETH_Dilimiter e)
     \<and> 4 dvd unat (ETH_R_Tail e) \<and> unat (ETH_R_Tail e) < unat (ETH_Dilimiter e)"

text \<open>Words between head and tail; equal pointers of a ring that holds a frame mean full.\<close>

definition rx_used :: "eth \<Rightarrow> nat" where
  "rx_used e =
     (let h = unat (ETH_R_Head e) div 4; t = unat (ETH_R_Tail e) div 4
      in if h < t then t - h else rx_words e - h + t)"

text \<open>The length in bytes that the status word at the head announces, and its words.\<close>

definition rx_len :: "eth \<Rightarrow> nat" where
  "rx_len e = unat (to_u16 (ebuf e (unat (ETH_R_Head e) div 4)))"

definition words_of :: "nat \<Rightarrow> nat" where
  "words_of n = (n + 3) div 4"

lemma words_of_bounds: "n \<le> 4 * words_of n" "4 * words_of n \<le> n + 3"
  by (simp_all add: words_of_def)

lemma words_of_le: "4 dvd s \<Longrightarrow> (n \<le> s) = (words_of n \<le> s div 4)"
  by (auto simp: words_of_def elim!: dvdE)

lemma words_of_guard: "int l > 4 * int f - 8 \<longleftrightarrow> \<not> words_of l + 2 \<le> f"
  using words_of_bounds [of l] by linarith

lemma words_of_u16: "words_of (unat (x :: u16)) \<le> 16384"
proof -
  have "unat x + 3 < 4 * 16385" using unat_u16_less [of x] by linarith
  then show ?thesis unfolding words_of_def by linarith
qed

lemma rx_wrap_words:
  assumes "unat dil = 4 * N" "0 < N" "N \<le> 2048" "x \<le> N"
  shows "rx_wrap dil (4 * x) = 4 * (x mod N)"
proof (cases "x = N")
  case False
  then have "x < N" using assms by simp
  then show ?thesis using assms by (simp add: rx_wrap_def)
qed (use assms in \<open>simp add: rx_wrap_def\<close>)

lemma EthReadFrame_ring:
  assumes ok: "rx_ok e" and len: "1 \<le> rx_len e" and avail: "Suc (words_of (rx_len e)) \<le> rx_used e"
  defines "N \<equiv> rx_words e" and "H \<equiv> unat (ETH_R_Head e) div 4" and "n \<equiv> words_of (rx_len e)"
  shows "EthReadFrame e =
    (to_u16 (ebuf e H) - 4, ring_get (ebuf e) 0 N (Suc H) (n - 1),
     e\<lparr>ETH_R_Head := of_nat (4 * ((H + 1 + n) mod N)),
       ETH_STAT := ETH_STAT e - push_bit ETH_STAT_R_COUNT_Pos 1\<rparr>)"
proof -
  define T where "T = unat (ETH_R_Tail e) div 4"
  define se where "se = (if H < T then T - H else N - H) - 1"
  have u: "unat (ETH_R_Head e) = 4 * H" "unat (ETH_R_Tail e) = 4 * T" "unat (ETH_Dilimiter e) = 4 * N"
    using ok by (simp_all add: rx_ok_def H_def T_def N_def rx_words_def)
  have b: "H < N" "T < N" "N \<le> 2048" using ok u by (auto simp: rx_ok_def BUF_SIZE_def)
  have n1: "1 \<le> n" "n \<le> 16384"
    using len words_of_bounds [of "rx_len e"] words_of_u16 by (auto simp: n_def rx_len_def)
  have used: "Suc n \<le> (if H < T then T - H else N - H + T)"
    using avail unfolding rx_used_def Let_def n_def H_def T_def N_def .
  have "unat (rx_space_end e + 4) = 4 * (if H < T then T - H else N - H)"
    using u b by (auto simp: rx_space_end_def Let_def word_less_nat_alt unat_minus_le word_le_nat_alt)
  moreover from this have "4 \<le> rx_space_end e + 4" using b by (auto simp: word_le_nat_alt)
  ultimately have se: "unat (rx_space_end e) = 4 * se"
    using unat_minus_le [of 4 "rx_space_end e + 4"] by (auto simp: se_def)
  define sz where "sz = (of_nat ((rx_len e + 3) div 4) :: u32)"
  have size: "unat sz = n"
    using n1 by (simp add: sz_def n_def words_of_def unat_of_nat)
  have tmp: "unat (to_u16 (ebuf e H)) = rx_len e" by (simp add: rx_len_def H_def)
  have le: "to_u16 (ebuf e H) \<le> rx_space_end e \<longleftrightarrow> n \<le> se"
    using words_of_le [of "4 * se" "rx_len e"] unfolding word_le_nat_alt se tmp n_def by simp
  have k: "unat (rx_space_end e div 4) = se" using se by (simp add: unat_div)
  note wrap = rx_wrap_words [OF u(3) _ b(3)]
  let ?src = "rx_wrap (ETH_Dilimiter e) (4 * H + 4)"
  have H4: "4 * H div 4 = H" by simp
  have code: "EthReadFrame e = (case rx_copy (ebuf e) ?src sz (to_u16 (ebuf e H)) (rx_space_end e)
      of (frame, src') \<Rightarrow> (to_u16 (ebuf e H) - 4, frame,
        e\<lparr>ETH_R_Head := of_nat (rx_wrap (ETH_Dilimiter e) src'),
          ETH_STAT := ETH_STAT e - push_bit ETH_STAT_R_COUNT_Pos 1\<rparr>))"
    unfolding EthReadFrame_def Let_def u(1) H4 tmp sz_def ..
  show ?thesis
  proof (cases "n \<le> se")
    case True
    then have lt: "H + 1 + n \<le> N" "H + 1 < N" using n1 b used by (auto simp: se_def split: if_splits)
    have s1: "unat (sz - 1) = n - 1"
      using size n1 by (simp add: unat_minus_le word_le_nat_alt)
    have w1: "rx_wrap (ETH_Dilimiter e) (4 * H + 4) = 4 * (H + 1)"
      using wrap [of "H + 1"] lt by (simp add: add.commute)
    have eq: "4 * (H + 1) + 4 * (n - 1) + 4 = 4 * (H + 1 + n)" using n1 by simp
    have w2: "rx_wrap (ETH_Dilimiter e) (4 * (H + 1) + 4 * (n - 1) + 4) = 4 * ((H + 1 + n) mod N)"
      unfolding eq by (rule wrap) (use lt in simp_all)
    have "rx_copy (ebuf e) ?src sz (to_u16 (ebuf e H)) (rx_space_end e)
        = (ring_get (ebuf e) 0 N (Suc H) (n - 1), 4 * (H + 1) + 4 * (n - 1) + 4)"
      unfolding rx_copy_def Let_def s1 w1 using True le lt n1 by (simp add: ring_get_straight)
    then show ?thesis unfolding code by (simp only: prod.case w2)
  next
    case False
    then have lt: "T \<le> H" "se = N - Suc H" using used n1 by (auto simp: se_def split: if_splits)
    then have nb: "se < n" "n + H + 1 - N \<le> T" "n - se = n + H + 1 - N" "n \<le> N"
      using False used b by auto
    have "se < 4294967296" using lt b by simp
    then have "unat (of_nat se :: u32) = se" by (rule unat_of_nat_u32)
    then have "unat (sz - of_nat se) = n - se"
      using size nb by (simp add: unat_minus_le word_le_nat_alt)
    then have s1: "unat (sz - of_nat se - 1) = n - se - 1"
      using nb by (subst unat_minus_le) (simp_all add: word_le_nat_alt)
    have eq: "4 * (n - se - 1) + 4 = 4 * (n - se)" using nb by simp
    have md: "(n - se) mod N = (H + 1 + n) mod N"
      using nb lt b by (simp add: le_mod_geq add.commute)
    have w2: "rx_wrap (ETH_Dilimiter e) (4 * (n - se - 1) + 4) = 4 * ((H + 1 + n) mod N)"
      unfolding eq md [symmetric] by (rule wrap) (use nb lt b in linarith)+
    have "load_words (ebuf e) (rx_wrap (ETH_Dilimiter e) (4 * H + 4) div 4) se
        = load_words (ebuf e) (Suc H) se"
      using wrap [of "Suc H"] b lt by (cases "Suc H = N") (auto simp: add.commute)
    then have w1: "load_words (ebuf e) (rx_wrap (ETH_Dilimiter e) (4 * H + 4) div 4) se
        @ load_words (ebuf e) 0 (n - se - 1) = ring_get (ebuf e) 0 N (Suc H) (n - 1)"
      using nb lt b ring_get_wrapped [of "Suc H" N "n - 1" "ebuf e" 0] by (simp add: add.commute)
    have "rx_copy (ebuf e) ?src sz (to_u16 (ebuf e H)) (rx_space_end e)
        = (ring_get (ebuf e) 0 N (Suc H) (n - 1), 4 * (n - se - 1) + 4)"
      unfolding rx_copy_def Let_def k s1 w1 using False le by simp
    then show ?thesis unfolding code by (simp only: prod.case w2)
  qed
qed

section \<open>The receive ring as a queue of frames\<close>

text \<open>A frame in the ring: its status word and the words that follow it.\<close>

type_synonym rx_frame = "u32 \<times> u32 list"

definition rx_frame_len :: "rx_frame \<Rightarrow> nat" where
  "rx_frame_len f = unat (to_u16 (fst f))"

definition rx_frame_ok :: "rx_frame \<Rightarrow> bool" where
  "rx_frame_ok f \<longleftrightarrow> 4 \<le> rx_frame_len f \<and> length (snd f) = words_of (rx_frame_len f)"

definition rx_enc :: "rx_frame list \<Rightarrow> u32 list" where
  "rx_enc fs = concat (map (\<lambda>(w, ds). w # ds) fs)"

definition rx_holds :: "eth \<Rightarrow> rx_frame list \<Rightarrow> bool" where
  "rx_holds e fs \<longleftrightarrow> rx_ok e \<and> list_all rx_frame_ok fs
     \<and> length (rx_enc fs) < rx_words e
     \<and> ring_get (ebuf e) 0 (rx_words e) (unat (ETH_R_Head e) div 4) (length (rx_enc fs)) = rx_enc fs
     \<and> unat (ETH_R_Tail e) div 4
         = (unat (ETH_R_Head e) div 4 + length (rx_enc fs)) mod rx_words e"

lemma rx_enc_Cons: "rx_enc (f # fs) = fst f # snd f @ rx_enc fs"
  by (cases f) (simp add: rx_enc_def)

lemma rx_used_holds:
  assumes "rx_holds e fs" "fs \<noteq> []"
  shows "rx_used e = length (rx_enc fs)"
proof -
  have "0 < length (rx_enc fs)" using assms(2) by (cases fs) (auto simp: rx_enc_Cons)
  moreover have "unat (ETH_R_Head e) div 4 < rx_words e"
    using assms(1) by (auto simp: rx_holds_def rx_ok_def rx_words_def elim!: dvdE)
  ultimately show ?thesis
    using assms(1) mod_once [of "unat (ETH_R_Head e) div 4" "rx_words e" "length (rx_enc fs)"]
    by (auto simp: rx_holds_def rx_used_def Let_def split: if_splits)
qed

text \<open>
  The words that \<open>EthReadFrame\<close> leaves in \<open>Frame\<close>: all but the last, which holds the end of
  the frame check sequence.
\<close>

lemma EthReadFrame_queue:
  assumes h: "rx_holds e (f # fs)"
  shows "\<exists>e'. EthReadFrame e = (of_nat (rx_frame_len f - 4), butlast (snd f), e')
           \<and> rx_holds e' fs \<and> ebuf e' = ebuf e"
proof -
  let ?N = "rx_words e" and ?H = "unat (ETH_R_Head e) div 4" and ?n = "length (snd f)"
  let ?e = "e\<lparr>ETH_R_Head := of_nat (4 * ((?H + 1 + ?n) mod ?N)),
               ETH_STAT := ETH_STAT e - push_bit ETH_STAT_R_COUNT_Pos 1\<rparr>"
  have ok: "rx_ok e" and fok: "rx_frame_ok f" and N: "0 < ?N"
    using h by (auto simp: rx_holds_def rx_ok_def rx_words_def)
  have "ring_get (ebuf e) 0 ?N ?H (Suc (?n + length (rx_enc fs))) = fst f # snd f @ rx_enc fs"
    using h by (simp add: rx_holds_def rx_enc_Cons)
  then have w: "ebuf e (?H mod ?N) = fst f"
    and ds: "ring_get (ebuf e) 0 ?N (Suc ?H) ?n = snd f"
    and rest: "ring_get (ebuf e) 0 ?N (?H + 1 + ?n) (length (rx_enc fs)) = rx_enc fs"
    unfolding ring_get_Suc ring_get_append by (simp_all add: ring_pos_def)
  have HN: "?H < ?N" using ok by (auto simp: rx_ok_def rx_words_def elim!: dvdE)
  then have len: "rx_len e = rx_frame_len f" "words_of (rx_len e) = ?n"
    using w fok by (simp_all add: rx_len_def rx_frame_len_def rx_frame_ok_def)
  have "Suc ?n \<le> rx_used e" using rx_used_holds [OF h] by (simp add: rx_enc_Cons)
  then have "EthReadFrame e = (to_u16 (fst f) - 4, ring_get (ebuf e) 0 ?N (Suc ?H) (?n - 1), ?e)"
    using EthReadFrame_ring [OF ok] len fok w HN by (simp add: rx_frame_ok_def)
  moreover have "to_u16 (fst f) - 4 = of_nat (rx_frame_len f - 4)"
    using fok by (simp add: rx_frame_ok_def rx_frame_len_def of_nat_diff)
  moreover have "ring_get (ebuf e) 0 ?N (Suc ?H) (?n - 1) = butlast (snd f)"
    using arg_cong [OF ds, of butlast] by (simp add: ring_get_def butlast_conv_take take_map take_upt)
  moreover have "rx_holds ?e fs"
  proof -
    have dil: "unat (ETH_Dilimiter e) = 4 * ?N" "?N \<le> 2048"
      using ok by (auto simp: rx_ok_def rx_words_def BUF_SIZE_def elim!: dvdE)
    define hn where "hn = 4 * ((?H + 1 + ?n) mod ?N)"
    have "hn < 65536"
      using N dil(2) mod_less_divisor [OF N, of "?H + 1 + ?n"] unfolding hn_def by linarith
    then have "unat (of_nat hn :: u16) = hn" by (rule unat_of_nat_u16)
    then have "unat (ETH_R_Head ?e) = hn" unfolding hn_def [symmetric] by simp
    then have hd: "unat (ETH_R_Head ?e) = 4 * ((?H + 1 + ?n) mod ?N)" by (simp only: hn_def)
    have "(?H + 1 + ?n) mod ?N < ?N" using N by simp
    then have "rx_ok ?e" using ok dil(1) hd by (simp add: rx_ok_def)
    moreover have "(?H + 1 + ?n + length (rx_enc fs)) mod ?N = unat (ETH_R_Tail e) div 4"
      using h by (simp add: rx_holds_def rx_enc_Cons add.assoc)
    moreover have "rx_words ?e = ?N" by (simp add: rx_words_def)
    ultimately show ?thesis
      using h rest hd by (simp add: rx_holds_def rx_enc_Cons mod_add_left_eq)
  qed
  ultimately show ?thesis by auto
qed

section \<open>Arrival of a frame\<close>

text \<open>
  The controller's side of the contract: it stores the status word and the words of a frame
  behind the last one and moves the tail, and it drops a frame that would not leave the
  tail different from the head.
\<close>

definition mac_receive :: "rx_frame \<Rightarrow> eth \<Rightarrow> eth" where
  "mac_receive f e =
     (let N = rx_words e; h = unat (ETH_R_Head e) div 4; t = unat (ETH_R_Tail e) div 4;
          free = (if t < h then h - t else N - t + h); k = Suc (length (snd f))
      in if rx_frame_ok f \<and> k < free
         then e\<lparr>ebuf := ring_put (ebuf e) 0 N t (fst f # snd f),
                ETH_R_Tail := of_nat (4 * ((t + k) mod N)),
                ETH_STAT := ETH_STAT e + push_bit ETH_STAT_R_COUNT_Pos 1\<rparr>
         else e)"

definition rx_fits :: "nat \<Rightarrow> rx_frame list \<Rightarrow> rx_frame \<Rightarrow> bool" where
  "rx_fits N fs f \<longleftrightarrow> rx_frame_ok f \<and> length (rx_enc fs) + Suc (length (snd f)) < N"

lemma rx_enc_append: "rx_enc (fs @ gs) = rx_enc fs @ rx_enc gs"
  by (simp add: rx_enc_def)

lemma rx_holds_words:
  assumes "rx_holds e fs"
  shows "unat (ETH_Dilimiter e) = 4 * rx_words e" "rx_words e \<le> 2048"
    "unat (ETH_R_Head e) div 4 < rx_words e" "0 < rx_words e"
  using assms by (auto simp: rx_holds_def rx_ok_def rx_words_def BUF_SIZE_def elim!: dvdE)

lemma unat_word_ptr:
  assumes "x < 2048"
  shows "unat (of_nat (4 * x) :: u16) = 4 * x"
  by (rule unat_of_nat_u16) (use assms in simp)

lemma mac_receive_queue:
  assumes h: "rx_holds e fs"
  shows "rx_holds (mac_receive f e) (if rx_fits (rx_words e) fs f then fs @ [f] else fs)"
proof -
  let ?N = "rx_words e" and ?h = "unat (ETH_R_Head e) div 4" and ?t = "unat (ETH_R_Tail e) div 4"
  let ?L = "length (rx_enc fs)" and ?k = "Suc (length (snd f))"
  note w = rx_holds_words [OF h]
  have L: "?L < ?N" and t: "?t = (?h + ?L) mod ?N" and ok: "rx_ok e"
    using h by (simp_all add: rx_holds_def)
  have free: "(if ?t < ?h then ?h - ?t else ?N - ?t + ?h) = ?N - ?L"
    using mod_once [of ?h ?N ?L] w L unfolding t by (auto split: if_splits)
  have eq: "mac_receive f e = (if rx_fits ?N fs f
      then e\<lparr>ebuf := ring_put (ebuf e) 0 ?N ?t (fst f # snd f),
             ETH_R_Tail := of_nat (4 * ((?t + ?k) mod ?N)),
             ETH_STAT := ETH_STAT e + push_bit ETH_STAT_R_COUNT_Pos 1\<rparr> else e)"
    unfolding mac_receive_def Let_def free rx_fits_def using L by auto
  show ?thesis
  proof (cases "rx_fits ?N fs f")
    case True
    have tl: "unat (of_nat (4 * ((?t + ?k) mod ?N)) :: u16) = 4 * ((?t + ?k) mod ?N)"
      by (rule unat_word_ptr) (use w mod_less_divisor [OF w(4), of "?t + ?k"] in linarith)
    have pos: "(?t + ?k) mod ?N = (?h + (?L + ?k)) mod ?N"
      unfolding t by (simp only: mod_add_left_eq add.assoc)
    have put: "ring_put (ebuf e) 0 ?N ?t ws = ring_put (ebuf e) 0 ?N (?h + ?L) ws" for ws
      unfolding t by (rule ring_put_mod)
    have "?L + length (fst f # snd f) \<le> ?N" using True by (simp add: rx_fits_def)
    from ring_put_behind [OF this, of "ebuf e" 0 ?h]
    have get: "ring_get (ring_put (ebuf e) 0 ?N (?h + ?L) (fst f # snd f)) 0 ?N ?h (?L + ?k)
        = rx_enc fs @ (fst f # snd f)"
      using h by (simp add: rx_holds_def del: ring_put.simps)
    have len: "length (rx_enc (fs @ [f])) = ?L + ?k" "rx_enc (fs @ [f]) = rx_enc fs @ (fst f # snd f)"
      by (simp_all add: rx_enc_append rx_enc_Cons) (simp_all add: rx_enc_def)
    have "rx_ok (mac_receive f e)"
      using ok w(1) mod_less_divisor [OF w(4), of "?t + ?k"] tl True by (simp add: eq rx_ok_def)
    moreover have "ebuf (mac_receive f e) = ring_put (ebuf e) 0 ?N (?h + ?L) (fst f # snd f)"
      "ETH_R_Head (mac_receive f e) = ETH_R_Head e"
      using True by (simp_all add: eq put del: ring_put.simps)
    moreover have "rx_words (mac_receive f e) = ?N" by (simp add: eq rx_words_def)
    moreover have "unat (ETH_R_Tail (mac_receive f e)) div 4 = (?h + (?L + ?k)) mod ?N"
      unfolding pos [symmetric] using True tl by (simp add: eq del: of_nat_mult)
    moreover have "list_all rx_frame_ok (fs @ [f])" "?L + ?k < ?N"
      using h True by (simp_all add: rx_holds_def rx_fits_def)
    ultimately show ?thesis
      unfolding if_P [OF True] rx_holds_def len using get by simp
  qed (use h eq in simp)
qed

section \<open>Polling: every interleaving delivers the frames in order\<close>

definition rx_pending :: "eth \<Rightarrow> bool" where
  "rx_pending e \<longleftrightarrow> ETH_R_Head e \<noteq> ETH_R_Tail e"

definition rx_read :: "eth \<Rightarrow> (u16 \<times> u32 list) \<times> eth" where
  "rx_read e = (case EthReadFrame e of (len, ws, e') \<Rightarrow> ((len, ws), e'))"

definition rx_view :: "rx_frame \<Rightarrow> u16 \<times> u32 list" where
  "rx_view f = (of_nat (rx_frame_len f - 4), butlast (snd f))"

lemma rx_words_step:
  "rx_words (mac_receive f e) = rx_words e" "rx_words (snd (rx_read e)) = rx_words e"
  by (simp_all add: mac_receive_def rx_read_def EthReadFrame_def rx_words_def Let_def
      split: prod.splits)

lemma rx_pending_holds:
  assumes "rx_holds e fs"
  shows "rx_pending e \<longleftrightarrow> fs \<noteq> []"
proof -
  let ?h = "unat (ETH_R_Head e) div 4" and ?L = "length (rx_enc fs)"
  have "rx_pending e \<longleftrightarrow> unat (ETH_R_Head e) \<noteq> unat (ETH_R_Tail e)"
    by (simp add: rx_pending_def word_unat_eq_iff)
  also have "\<dots> \<longleftrightarrow> ?h \<noteq> unat (ETH_R_Tail e) div 4"
    using assms by (auto simp: rx_holds_def rx_ok_def elim!: dvdE)
  also have "\<dots> \<longleftrightarrow> ?L \<noteq> 0"
    using assms mod_once [of ?h "rx_words e" ?L] rx_holds_words [OF assms]
    by (auto simp: rx_holds_def)
  also have "\<dots> \<longleftrightarrow> fs \<noteq> []" by (cases fs) (auto simp: rx_enc_Cons rx_enc_def)
  finally show ?thesis .
qed

interpretation rxq: frame_channel "\<lambda>e fs. rx_holds e fs \<and> rx_words e = N"
  rx_pending rx_read rx_view mac_receive "rx_fits N" for N
proof
  fix e fs f
  show "rx_holds e fs \<and> rx_words e = N \<Longrightarrow> rx_pending e \<longleftrightarrow> fs \<noteq> []"
    using rx_pending_holds by blast
  show "rx_holds e fs \<and> rx_words e = N \<Longrightarrow>
      rx_holds (mac_receive f e) (if rx_fits N fs f then fs @ [f] else fs)
      \<and> rx_words (mac_receive f e) = N"
    using mac_receive_queue rx_words_step(1) by metis
  show "rx_holds e (f # fs) \<and> rx_words e = N \<Longrightarrow>
      \<exists>e'. rx_read e = (rx_view f, e') \<and> rx_holds e' fs \<and> rx_words e' = N"
    using EthReadFrame_queue [of e f fs] rx_words_step(2) [of e]
    by (auto simp: rx_read_def rx_view_def)
qed

text \<open>
  C6. Whatever the interleaving of arriving frames and of polls with \<open>EthReadFrame\<close>, and
  wherever the frames wrap around the end of the receive region: the frames handed to the
  stack, followed by those still in the buffer, are the frames that were there followed by
  those the controller accepted. Each is delivered with its length less the four bytes of
  the frame check sequence and with all its words but the last.
\<close>

theorem EthReadFrame_fifo:
  assumes "rx_holds e fs"
  shows "\<exists>rs gs e'. run_queue mac_receive rx_pending rx_read evs e = (map rx_view rs, e')
    \<and> rx_holds e' gs \<and> rs @ gs = fs @ accepted (rx_fits (rx_words e)) evs fs"
  using rxq.run_fifo [of e fs "rx_words e" evs] assms by blast

section \<open>The transmit ring\<close>

text \<open>The transmit region is the rest of the buffer memory, from \<open>dil\<close> to its end.\<close>

definition tx_base :: "eth \<Rightarrow> nat" where
  "tx_base e = unat (ETH_Dilimiter e) div 4"

definition tx_words :: "eth \<Rightarrow> nat" where
  "tx_words e = BUF_SIZE div 4 - tx_base e"

definition tx_tail :: "eth \<Rightarrow> nat" where
  "tx_tail e = unat (ETH_X_Tail e) div 4 - tx_base e"

definition tx_head :: "eth \<Rightarrow> nat" where
  "tx_head e = unat (ETH_X_Head e) div 4 - tx_base e"

definition tx_ok :: "eth \<Rightarrow> bool" where
  "tx_ok e \<longleftrightarrow> 4 dvd unat (ETH_Dilimiter e)
     \<and> 4 dvd unat (ETH_X_Head e) \<and> 4 dvd unat (ETH_X_Tail e)
     \<and> ETH_Dilimiter e \<le> ETH_X_Head e \<and> unat (ETH_X_Head e) < BUF_SIZE
     \<and> ETH_Dilimiter e \<le> ETH_X_Tail e \<and> unat (ETH_X_Tail e) < BUF_SIZE"

text \<open>Free words; equal pointers mean an empty ring.\<close>

definition tx_free :: "eth \<Rightarrow> nat" where
  "tx_free e = (if tx_tail e < tx_head e then tx_head e - tx_tail e
                else tx_words e - tx_tail e + tx_head e)"

lemma tx_ok_words:
  assumes "tx_ok e"
  shows "unat (ETH_Dilimiter e) = 4 * tx_base e"
    "unat (ETH_X_Tail e) = 4 * (tx_base e + tx_tail e)"
    "unat (ETH_X_Head e) = 4 * (tx_base e + tx_head e)"
    "tx_tail e < tx_words e" "tx_head e < tx_words e" "tx_base e + tx_words e = 2048"
  using assms
  by (auto simp: tx_ok_def tx_base_def tx_words_def tx_tail_def tx_head_def BUF_SIZE_def
      word_le_nat_alt elim!: dvdE)

lemma tx_wrap_words:
  assumes "unat dil = 4 * B" "B + N = 2048" "0 < N" "x \<le> N"
  shows "tx_wrap dil (4 * (B + x)) = 4 * (B + x mod N)"
proof (cases "x = N")
  case False
  then have "B + x < 2048" using assms by simp
  with False assms show ?thesis by (simp add: tx_wrap_def BUF_SIZE_def)
qed (use assms in \<open>simp add: tx_wrap_def BUF_SIZE_def\<close>)

lemma take_load_words: "k \<le> n \<Longrightarrow> take k (load_words m a n) = load_words m a k"
  by (simp add: load_words_map take_map take_upt)

lemma drop_load_words: "drop k (load_words m a n) = load_words m (a + k) (n - k)"
  by (rule nth_equalityI) (simp_all add: nth_load_words add.assoc)

lemma tx_copy_ring:
  assumes dil: "unat dil = 4 * B" "B + N = 2048" and T: "T < N"
    and sp: "unat space = 4 * s" "s \<le> N - Suc T" and n: "n = words_of (unat Len)"
    and fits: "n \<le> s \<or> s = N - Suc T \<and> n < N"
  shows "tx_copy src Len dil space m (4 * (B + Suc T mod N))
    = (ring_put m B N (Suc T) (load_words src 0 n),
       4 * (B + (if n \<le> s \<and> Suc T < N then Suc T + n else (Suc T + n) mod N)))"
proof -
  have le: "Len \<le> space \<longleftrightarrow> n \<le> s"
    using words_of_le [of "4 * s" "unat Len"] by (simp add: word_le_nat_alt sp n)
  have k: "unat (space div 4) = s" using sp by (simp add: unat_div)
  have w: "(unat Len + 3) div 4 = n" by (simp add: n words_of_def)
  show ?thesis
  proof (cases "n \<le> s")
    case True
    have "Suc T mod N + n \<le> N" using True sp T by (cases "Suc T = N") auto
    then have "ring_put m B N (Suc T) (load_words src 0 n)
        = store_words m (B + Suc T mod N) (load_words src 0 n)"
      using ring_put_straight [of "Suc T mod N" "load_words src 0 n" N m B]
      by (simp add: ring_put_mod)
    moreover have "Suc T = N \<Longrightarrow> n = 0" using True sp by simp
    ultimately show ?thesis
      using True T le by (cases "Suc T = N") (simp_all add: tx_copy_def w Let_def)
  next
    case False
    then have s: "s = N - Suc T" and b: "n < N" "s \<le> n" using fits by auto
    have m1: "store_words m (B + Suc T mod N) (load_words src 0 s)
        = store_words m (B + Suc T) (load_words src 0 s)"
      using s T by (cases "Suc T = N") auto
    have "ring_put m B N (Suc T) (load_words src 0 n)
        = store_words (store_words m (B + Suc T) (load_words src 0 s)) B (load_words src s (n - s))"
      using ring_put_wrapped [of "Suc T" N "load_words src 0 n" m B] s b T
      by (simp add: take_load_words drop_load_words)
    moreover have "(Suc T + n) mod N = n - s"
      using s b T by (simp add: le_mod_geq)
    ultimately show ?thesis
      using False le dil(1) m1 by (simp add: tx_copy_def w Let_def k)
  qed
qed

text \<open>
  The whole routine: the length word, the payload words and the zero status word are one
  run of the ring, and the tail moves behind it; a frame that does not fit changes nothing.
\<close>

lemma EthWriteFrame_ring:
  fixes Len :: u16
  assumes ok: "tx_ok e"
  defines "B \<equiv> tx_base e" and "N \<equiv> tx_words e" and "T \<equiv> tx_tail e" and "n \<equiv> words_of (unat Len)"
  shows "EthWriteFrame src Len e =
    (if n + 2 \<le> tx_free e then
       (ERR_OK, e\<lparr>ebuf := ring_put (ebuf e) B N T (to_u32 Len # load_words src 0 n @ [0]),
                  ETH_X_Tail := of_nat (4 * (B + (T + n + 2) mod N))\<rparr>)
     else (ERR_MEM, e))"
proof -
  define H where "H = tx_head e"
  define s where "s = (if T < H then H - T else N - T)"
  note u = tx_ok_words [OF ok, folded B_def N_def T_def H_def]
  define space0 where "space0 = (if ETH_X_Head e > ETH_X_Tail e then ETH_X_Head e - ETH_X_Tail e
      else of_nat BUF_SIZE - ETH_X_Tail e)"
  define space1 where "space1 = (if ETH_X_Head e > ETH_X_Tail e then 0
      else ETH_X_Head e - ETH_Dilimiter e)"
  have lt: "ETH_X_Head e > ETH_X_Tail e \<longleftrightarrow> T < H" using u by (simp add: word_less_nat_alt)
  have s0: "unat space0 = 4 * s"
    using u by (auto simp: space0_def lt s_def unat_minus_le word_le_nat_alt BUF_SIZE_def)
  have s1: "unat space1 = (if T < H then 0 else 4 * H)"
    using u by (auto simp: space1_def lt unat_minus_le word_le_nat_alt)
  have free: "tx_free e = (if T < H then H - T else N - T + H)"
    by (simp add: tx_free_def T_def N_def H_def)
  have guard: "int (unat Len) > int (unat space0) + int (unat space1) - 8 \<longleftrightarrow> \<not> n + 2 \<le> tx_free e"
  proof -
    have "unat space0 + unat space1 = 4 * tx_free e" using u unfolding s0 s1 s_def free by auto
    then have "int (unat space0) + int (unat space1) = 4 * int (tx_free e)" by linarith
    then show ?thesis unfolding n_def by (simp only: words_of_guard)
  qed
  have code: "EthWriteFrame src Len e =
    (if n + 2 \<le> tx_free e then
       case tx_copy src Len (ETH_Dilimiter e) (space0 - 4) ((ebuf e)(B + T := to_u32 Len))
              (tx_wrap (ETH_Dilimiter e) (4 * (B + T) + 4)) of (m2, dst2) \<Rightarrow>
         let dst3 = tx_wrap (ETH_Dilimiter e) dst2
         in (ERR_OK, e\<lparr>ebuf := m2(dst3 div 4 := 0),
               ETH_X_Tail := of_nat (tx_wrap (ETH_Dilimiter e) (dst3 + 4))\<rparr>)
     else (ERR_MEM, e))"
    unfolding EthWriteFrame_def Let_def space0_def [symmetric] space1_def [symmetric] guard u(2)
    by (simp split: prod.split)
  show ?thesis
  proof (cases "n + 2 \<le> tx_free e")
    case True
    note wrap = tx_wrap_words [OF u(1,6)]
    have N: "0 < N" and TN: "T < N" using u by auto
    have "4 \<le> space0" using s0 u by (auto simp: word_le_nat_alt s_def)
    then have sp: "unat (space0 - 4) = 4 * (s - 1)" using s0 by (simp add: unat_minus_le)
    have fits: "n \<le> s - 1 \<or> s - 1 = N - Suc T \<and> n < N" and le: "s - 1 \<le> N - Suc T"
      using True u unfolding free s_def by (auto split: if_splits)
    have n_s: "n \<le> s - 1 \<Longrightarrow> Suc T < N \<Longrightarrow> Suc T + n \<le> N" using le by linarith
    have dst1: "tx_wrap (ETH_Dilimiter e) (4 * (B + T) + 4) = 4 * (B + Suc T mod N)"
      using wrap [of "Suc T"] TN by (simp add: add.commute)
    have dst3: "tx_wrap (ETH_Dilimiter e)
        (4 * (B + (if n \<le> s - 1 \<and> Suc T < N then Suc T + n else (Suc T + n) mod N)))
        = 4 * (B + (Suc T + n) mod N)"
    proof (cases "n \<le> s - 1 \<and> Suc T < N")
      case True
      then show ?thesis unfolding if_P [OF True] by (intro wrap N n_s) simp_all
    next
      case False
      have "tx_wrap (ETH_Dilimiter e) (4 * (B + (Suc T + n) mod N))
          = 4 * (B + (Suc T + n) mod N mod N)"
        by (rule wrap) (use N in \<open>simp_all add: less_imp_le\<close>)
      then show ?thesis unfolding if_not_P [OF False] mod_mod_trivial .
    qed
    have "tx_wrap (ETH_Dilimiter e) (4 * (B + Suc ((Suc T + n) mod N)))
        = 4 * (B + Suc ((Suc T + n) mod N) mod N)"
      by (rule wrap) (use N in \<open>simp_all add: Suc_le_eq\<close>)
    then have dst4: "tx_wrap (ETH_Dilimiter e) (4 * (B + (Suc T + n) mod N) + 4)
        = 4 * (B + (T + n + 2) mod N)"
      by (simp add: mod_Suc_eq add.commute)
    have put: "ring_put (ebuf e) B N T (to_u32 Len # load_words src 0 n @ [0])
        = (ring_put ((ebuf e)(B + T := to_u32 Len)) B N (Suc T) (load_words src 0 n))
            (B + (Suc T + n) mod N := 0)"
      using TN by (simp add: ring_put_append ring_pos_def)
    have div4: "4 * (B + (Suc T + n) mod N) div 4 = B + (Suc T + n) mod N" by simp
    note copy = tx_copy_ring [OF u(1,6) TN sp le n_def [THEN meta_eq_to_obj_eq] fits]
    show ?thesis
      unfolding code if_P [OF True] dst1 copy put by (simp only: prod.case Let_def dst3 dst4 div4)
  qed (simp add: code)
qed

section \<open>The transmit ring as a queue of frames\<close>

text \<open>A frame is the array it is taken from and its length.\<close>

type_synonym tx_frame = "wmem \<times> u16"

definition tx_enc1 :: "tx_frame \<Rightarrow> u32 list" where
  "tx_enc1 f = to_u32 (snd f) # load_words (fst f) 0 (words_of (unat (snd f))) @ [0]"

definition tx_weight :: "tx_frame \<Rightarrow> nat" where
  "tx_weight f = words_of (unat (snd f)) + 2"

definition tx_enc :: "tx_frame list \<Rightarrow> u32 list" where
  "tx_enc fs = concat (map tx_enc1 fs)"

definition tx_holds :: "eth \<Rightarrow> tx_frame list \<Rightarrow> bool" where
  "tx_holds e fs \<longleftrightarrow> tx_ok e \<and> length (tx_enc fs) < tx_words e
     \<and> ring_get (ebuf e) (tx_base e) (tx_words e) (tx_head e) (length (tx_enc fs)) = tx_enc fs
     \<and> tx_tail e = (tx_head e + length (tx_enc fs)) mod tx_words e"

lemma length_tx_enc1 [simp]: "length (tx_enc1 f) = tx_weight f"
  by (simp add: tx_enc1_def tx_weight_def)

lemma length_tx_enc: "length (tx_enc fs) = sum_list (map tx_weight fs)"
  by (induction fs) (simp_all add: tx_enc_def)

lemma tx_free_holds:
  assumes "tx_holds e fs"
  shows "tx_free e = tx_words e - length (tx_enc fs)"
  using assms mod_once [of "tx_head e" "tx_words e" "length (tx_enc fs)"] tx_ok_words [of e]
  by (auto simp: tx_holds_def tx_free_def split: if_splits)

text \<open>The controller after a successful call.\<close>

definition tx_after :: "tx_frame \<Rightarrow> eth \<Rightarrow> eth" where
  "tx_after f e =
     e\<lparr>ebuf := ring_put (ebuf e) (tx_base e) (tx_words e) (tx_tail e) (tx_enc1 f),
       ETH_X_Tail := of_nat (4 * (tx_base e + (tx_tail e + tx_weight f) mod tx_words e))\<rparr>"

lemma EthWriteFrame_eq:
  "tx_ok e \<Longrightarrow> EthWriteFrame (fst f) (snd f) e
    = (if tx_weight f \<le> tx_free e then (ERR_OK, tx_after f e) else (ERR_MEM, e))"
  using EthWriteFrame_ring [of e "fst f" "snd f"]
  by (simp add: tx_after_def tx_enc1_def tx_weight_def add.assoc)

lemma tx_after_sel:
  assumes "tx_ok e"
  shows "tx_ok (tx_after f e)" "tx_base (tx_after f e) = tx_base e"
    "tx_words (tx_after f e) = tx_words e" "tx_head (tx_after f e) = tx_head e"
    "tx_tail (tx_after f e) = (tx_tail e + tx_weight f) mod tx_words e"
    "ebuf (tx_after f e) = ring_put (ebuf e) (tx_base e) (tx_words e) (tx_tail e) (tx_enc1 f)"
proof -
  note w = tx_ok_words [OF assms]
  define x where "x = (tx_tail e + tx_weight f) mod tx_words e"
  have "x < tx_words e" unfolding x_def using w(4) by simp
  then have t: "unat (ETH_X_Tail (tx_after f e)) = 4 * (tx_base e + x)"
    unfolding tx_after_def x_def [symmetric] using unat_word_ptr [of "tx_base e + x"] w(6) by simp
  have "4 * (tx_base e + x) < BUF_SIZE"
    using w(6) \<open>x < tx_words e\<close> by (simp add: BUF_SIZE_def)
  moreover have "ETH_Dilimiter (tx_after f e) = ETH_Dilimiter e"
    "ETH_X_Head (tx_after f e) = ETH_X_Head e" by (simp_all add: tx_after_def)
  ultimately show "tx_ok (tx_after f e)"
    using assms w(1) unfolding tx_ok_def word_le_nat_alt t by simp
  show b: "tx_base (tx_after f e) = tx_base e" by (simp add: tx_base_def tx_after_def)
  show "tx_words (tx_after f e) = tx_words e" by (simp add: tx_words_def b)
  show "tx_head (tx_after f e) = tx_head e" by (simp add: tx_head_def b) (simp add: tx_after_def)
  show "tx_tail (tx_after f e) = (tx_tail e + tx_weight f) mod tx_words e"
    unfolding x_def [symmetric] tx_tail_def [of "tx_after f e"] t b by simp
qed (simp add: tx_after_def)

lemma EthWriteFrame_queue:
  assumes h: "tx_holds e fs" and fits: "length (tx_enc fs) + tx_weight f < tx_words e"
  shows "EthWriteFrame (fst f) (snd f) e = (ERR_OK, tx_after f e)" "tx_holds (tx_after f e) (fs @ [f])"
proof -
  have ok: "tx_ok e" using h by (simp add: tx_holds_def)
  show "EthWriteFrame (fst f) (snd f) e = (ERR_OK, tx_after f e)"
    using fits by (simp add: EthWriteFrame_eq [OF ok] tx_free_holds [OF h])
  let ?N = "tx_words e" and ?h = "tx_head e" and ?L = "length (tx_enc fs)"
  have t: "tx_tail e = (?h + ?L) mod ?N" using h by (simp add: tx_holds_def)
  have tl: "(tx_tail e + tx_weight f) mod ?N = (?h + (?L + tx_weight f)) mod ?N"
    unfolding t by (simp only: mod_add_left_eq add.assoc)
  have "?L + length (tx_enc1 f) \<le> ?N" using fits by simp
  from ring_put_behind [OF this, of "ebuf e" "tx_base e" ?h]
  have "ring_get (ring_put (ebuf e) (tx_base e) ?N (?h + ?L) (tx_enc1 f)) (tx_base e) ?N ?h
      (?L + tx_weight f) = tx_enc fs @ tx_enc1 f"
    using h by (simp add: tx_holds_def)
  moreover have "ebuf (tx_after f e) = ring_put (ebuf e) (tx_base e) ?N (?h + ?L) (tx_enc1 f)"
    unfolding tx_after_sel(6) [OF ok] t by (rule ring_put_mod)
  moreover have "tx_enc (fs @ [f]) = tx_enc fs @ tx_enc1 f" by (simp add: tx_enc_def)
  ultimately show "tx_holds (tx_after f e) (fs @ [f])"
    using fits unfolding tx_holds_def tx_after_sel(2-5) [OF ok] tl
    by (simp add: tx_after_sel(1) [OF ok])
qed

text \<open>The two regions are disjoint: sending leaves the receive ring as it is.\<close>

definition rx_same :: "eth \<Rightarrow> eth \<Rightarrow> bool" where
  "rx_same e e' \<longleftrightarrow> (\<forall>gs. rx_holds e' gs = rx_holds e gs) \<and> rx_words e' = rx_words e"

lemma tx_after_rx_same:
  assumes "tx_ok e"
  shows "rx_same e (tx_after f e)"
proof -
  have regs: "ETH_Dilimiter (tx_after f e) = ETH_Dilimiter e" "ETH_R_Head (tx_after f e) = ETH_R_Head e"
    "ETH_R_Tail (tx_after f e) = ETH_R_Tail e"
    by (simp_all add: tx_after_def)
  have "ebuf (tx_after f e) x = ebuf e x" if "x < rx_words e" for x
    unfolding tx_after_sel(6) [OF assms] using that
    by (intro ring_put_frame) (simp add: ring_pos_def rx_words_def tx_base_def)
  then have "ring_get (ebuf (tx_after f e)) 0 (rx_words e) h n = ring_get (ebuf e) 0 (rx_words e) h n"
    if "0 < rx_words e" for h n
    using that by (simp add: ring_get_def ring_pos_def)
  then show ?thesis
    by (auto simp: rx_same_def rx_holds_def rx_ok_def rx_words_def regs)
qed

text \<open>And receiving leaves the transmit ring.\<close>

definition tx_same :: "eth \<Rightarrow> eth \<Rightarrow> bool" where
  "tx_same e e' \<longleftrightarrow> (\<forall>gs. tx_holds e' gs = tx_holds e gs) \<and> tx_words e' = tx_words e"

lemma EthReadFrame_tx_regs:
  assumes "EthReadFrame e = (len, ws, e')"
  shows "ebuf e' = ebuf e" "ETH_Dilimiter e' = ETH_Dilimiter e" "ETH_X_Head e' = ETH_X_Head e" "ETH_X_Tail e' = ETH_X_Tail e"
  using assms unfolding EthReadFrame_def Let_def by (clarsimp split: prod.splits)+

lemma EthReadFrame_tx_same: "EthReadFrame e = (len, ws, e') \<Longrightarrow> tx_same e e'"
  unfolding tx_same_def tx_holds_def tx_ok_def tx_words_def tx_base_def tx_head_def tx_tail_def
  by (simp only: EthReadFrame_tx_regs) blast

interpretation txq: frame_sink "\<lambda>e fs. tx_holds e fs \<and> tx_words e = N"
  "\<lambda>f. EthWriteFrame (fst f) (snd f)" ERR_OK ERR_MEM tx_weight N for N
proof
  fix e fs f
  assume h: "tx_holds e fs \<and> tx_words e = N"
  then have ok: "tx_ok e" by (simp add: tx_holds_def)
  show "sum_list (map tx_weight fs) + tx_weight f < N \<Longrightarrow>
      \<exists>e'. EthWriteFrame (fst f) (snd f) e = (ERR_OK, e') \<and> tx_holds e' (fs @ [f]) \<and> tx_words e' = N"
    using EthWriteFrame_queue [of e fs f] h tx_after_sel(3) [OF ok] by (auto simp: length_tx_enc)
  show "N < sum_list (map tx_weight fs) + tx_weight f \<Longrightarrow>
      EthWriteFrame (fst f) (snd f) e = (ERR_MEM, e)"
    using h tx_free_holds [of e fs]
    by (auto simp: EthWriteFrame_eq [OF ok] length_tx_enc tx_holds_def)
qed

text \<open>
  C7. Frames written with \<open>EthWriteFrame\<close> that fit together into the transmit region are all
  accepted and are in the region in the order of the calls, behind those already there:
  length word, payload words, zero status word, wrapping at the end of the region. A frame
  that is too large is refused with \<open>ERR_MEM\<close> and changes nothing.
\<close>

theorem EthWriteFrame_fifo:
  assumes "tx_holds e fs"
  shows "(length (tx_enc (fs @ gs)) < tx_words e \<longrightarrow>
      (\<exists>e'. send_all (\<lambda>f. EthWriteFrame (fst f) (snd f)) gs e = (replicate (length gs) ERR_OK, e')
        \<and> tx_holds e' (fs @ gs)))
    \<and> (tx_words e < length (tx_enc fs) + tx_weight f \<longrightarrow>
      EthWriteFrame (fst f) (snd f) e = (ERR_MEM, e))"
  using txq.send_all_fits [of e fs "tx_words e" gs] txq.send_full [of e fs "tx_words e" f] assms
  by (auto simp: length_tx_enc)

text \<open>
  A frame that fills the region exactly is accepted too, and then the two pointers are
  equal, which is how the code represents an empty region: the next frame is accepted
  although nothing has been sent, and its length word replaces the oldest one.
\<close>

theorem EthWriteFrame_exact_fill:
  assumes "tx_holds e fs" "length (tx_enc fs) + tx_weight f = tx_words e" "tx_weight g \<le> tx_words e"
  shows "\<exists>e' e''. EthWriteFrame (fst f) (snd f) e = (ERR_OK, e')
    \<and> ETH_X_Tail e' = ETH_X_Head e' \<and> tx_free e' = tx_words e'
    \<and> EthWriteFrame (fst g) (snd g) e' = (ERR_OK, e'')
    \<and> ebuf e'' (unat (ETH_X_Head e) div 4) = to_u32 (snd g)"
proof -
  have ok: "tx_ok e" and L: "length (tx_enc fs) < tx_words e" using assms(1) by (simp_all add: tx_holds_def)
  note w = tx_ok_words [OF ok]
  let ?e = "tx_after f e"
  note sel = tx_after_sel [OF ok, of f] and w' = tx_ok_words [OF tx_after_sel(1) [OF ok], of f]
  have t: "tx_tail ?e = tx_head e"
    using assms(1) w(5) unfolding sel(5) tx_holds_def
    by (simp add: mod_add_left_eq add.assoc assms(2))
  then have "unat (ETH_X_Tail ?e) = unat (ETH_X_Head ?e)"
    using w'(2,3) by (simp add: sel)
  then have eq: "ETH_X_Tail ?e = ETH_X_Head ?e" by (simp add: word_unat_eq_iff)
  have free: "tx_free ?e = tx_words ?e" using t w(5) by (simp add: tx_free_def sel)
  have h: "unat (ETH_X_Head e) div 4 = ring_pos (tx_base e) (tx_words e) (tx_head e) 0"
    using w by (simp add: ring_pos_def)
  have "ebuf (tx_after g ?e) (unat (ETH_X_Head e) div 4) = tx_enc1 g ! 0"
    unfolding tx_after_sel(6) [OF sel(1)] sel(2,3) t h
    by (rule ring_put_at) (use assms(3) in \<open>simp_all add: tx_weight_def\<close>)
  then have "ebuf (tx_after g ?e) (unat (ETH_X_Head e) div 4) = to_u32 (snd g)"
    by (simp add: tx_enc1_def)
  moreover have "EthWriteFrame (fst f) (snd f) e = (ERR_OK, ?e)"
    using assms(2) by (simp add: EthWriteFrame_eq [OF ok] tx_free_holds [OF assms(1)])
  moreover have "EthWriteFrame (fst g) (snd g) ?e = (ERR_OK, tx_after g ?e)"
    using assms(3) by (simp add: EthWriteFrame_eq [OF sel(1)] free sel)
  ultimately show ?thesis using eq free by blast
qed

section \<open>Starting the controller\<close>

lemma drain_R_COUNT_clears: "drain_R_COUNT s AND ETH_STAT_R_COUNT_Msk = 0"
  by (induction s rule: drain_R_COUNT.induct) (subst drain_R_COUNT.simps, simp)

lemmas EthOn_defs = EthOn_def EthRecTrEn_def eth_reset_pointers_def FlushFIFO_def Let_def

lemma EthOn_queues: "rx_holds (EthOn e) []" "tx_holds (EthOn e) []"
  and EthOn_words: "rx_words (EthOn e) = 1024" "tx_words (EthOn e) = 1024"
    "ETH_X_Head (EthOn e) = 4096"
  by (simp_all add: rx_holds_def rx_ok_def rx_words_def rx_enc_def ring_get_def tx_holds_def tx_ok_def
      tx_words_def tx_enc_def tx_base_def tx_head_def tx_tail_def BUF_SIZE_def EthOn_defs)

lemma load_words_FlushFIFO: "load_words (ebuf (FlushFIFO e)) 0 2048 = replicate 2048 0"
  by (rule nth_equalityI) (simp_all add: nth_load_words FlushFIFO_def store_words_apply BUF_SIZE_def)

text \<open>
  \<open>EthOn\<close> ends (the loop that counts the received frames down terminates) with the frame
  counter zero, both regions cleared and empty, the resets released and the receiver and
  the transmitter enabled.
\<close>

theorem EthOn_ready:
  "rx_holds (EthOn e) [] \<and> tx_holds (EthOn e) []
   \<and> ETH_STAT (EthOn e) AND ETH_STAT_R_COUNT_Msk = 0
   \<and> load_words (ebuf (EthOn e)) 0 2048 = replicate 2048 0
   \<and> ETH_G_CFGh (EthOn e) AND (ETH_G_CFGh_XRST OR ETH_G_CFGh_RRST) = 0
   \<and> ETH_R_CFG (EthOn e) AND ETH_R_CFG_EN = ETH_R_CFG_EN
   \<and> ETH_X_CFG (EthOn e) AND ETH_X_CFG_EN = ETH_X_CFG_EN"
proof (intro conjI EthOn_queues)
  show "ETH_STAT (EthOn e) AND ETH_STAT_R_COUNT_Msk = 0"
    by (simp add: EthOn_defs drain_R_COUNT_clears)
  have "ebuf (EthOn e) = ebuf (FlushFIFO e)" by (simp add: EthOn_defs)
  then show "load_words (ebuf (EthOn e)) 0 2048 = replicate 2048 0"
    by (simp only: load_words_FlushFIFO)
qed (simp_all add: EthOn_defs reg_defs bit_eq_iff bit_simps)

section \<open>Witnesses\<close>

definition eth_zero :: eth where
  "eth_zero =
     \<lparr>ETH_Dilimiter = 0, ETH_MAC_T = 0, ETH_MAC_M = 0, ETH_MAC_H = 0, ETH_HASH0 = 0, ETH_HASH1 = 0,
      ETH_HASH2 = 0, ETH_HASH3 = 0, ETH_IPG = 0, ETH_PSC = 0, ETH_BAG = 0, ETH_JitterWnd = 0,
      ETH_R_CFG = 0, ETH_X_CFG = 0, ETH_G_CFGl = 0, ETH_G_CFGh = 0, ETH_IMR = 0, ETH_IFR = 0,
      ETH_MDIO_CTRL = 0, ETH_MDIO_DATA = 0, ETH_R_Head = 0, ETH_X_Tail = 0, ETH_R_Tail = 0,
      ETH_X_Head = 0, ETH_STAT = 0, PHY_Control = 0, PHY_Status = 0, ebuf = (\<lambda>_. 0)\<rparr>"

theorem EthReadFrame_fifo_witness:
  "let f = (64, replicate 16 7) in
   \<exists>rs gs e'. run_queue mac_receive rx_pending rx_read [Poll, Arrive f, Arrive f, Poll] (EthOn eth_zero)
       = (map rx_view rs, e') \<and> rx_holds e' gs \<and> rs @ gs = [f, f]"
proof -
  let ?f = "(64, replicate 16 7) :: rx_frame" and ?evs = "\<lambda>f. [Poll, Arrive f, Arrive f, Poll]"
  have "accepted (rx_fits (rx_words (EthOn eth_zero))) (?evs ?f) [] = [?f, ?f]"
    by (simp add: EthOn_words rx_fits_def rx_frame_ok_def rx_frame_len_def words_of_def rx_enc_def)
  with EthReadFrame_fifo [OF EthOn_queues(1), of "?evs ?f" eth_zero] show ?thesis
    unfolding Let_def by simp
qed

theorem EthWriteFrame_fifo_witness:
  "(\<exists>e'. send_all (\<lambda>f. EthWriteFrame (fst f) (snd f)) [(\<lambda>_. 1, 60), (\<lambda>_. 2, 1514)] (EthOn eth_zero)
      = ([ERR_OK, ERR_OK], e') \<and> tx_holds e' [(\<lambda>_. 1, 60), (\<lambda>_. 2, 1514)])
   \<and> EthWriteFrame (\<lambda>_. 1) 5000 (EthOn eth_zero) = (ERR_MEM, EthOn eth_zero)"
  using EthWriteFrame_fifo [OF EthOn_queues(2), of "[(\<lambda>_. 1, 60), (\<lambda>_. 2, 1514)]" eth_zero
      "(\<lambda>_. 1, 5000)"]
  by (simp add: length_tx_enc tx_weight_def words_of_def EthOn_words)

theorem EthWriteFrame_exact_fill_witness:
  "\<exists>e' e''. EthWriteFrame (\<lambda>_. 1) 4088 (EthOn eth_zero) = (ERR_OK, e')
    \<and> ETH_X_Tail e' = ETH_X_Head e' \<and> EthWriteFrame (\<lambda>_. 2) 60 e' = (ERR_OK, e'')
    \<and> ebuf e'' 1024 = 60"
  using EthWriteFrame_exact_fill [OF EthOn_queues(2), of "(\<lambda>_. 1, 4088)" eth_zero "(\<lambda>_. 2, 60)"]
  by (auto simp: length_tx_enc tx_weight_def words_of_def EthOn_words)

end
