(* ===== verification/Inet.thy ===== *)
theory Inet
  imports Prelude
begin

text \<open>
  The Internet checksum of lwIP: byte order (\<open>core/def.c\<close>) and \<open>core/inet_chksum.c\<close> with
  \<open>LWIP_CHKSUM_ALGORITHM\<close> 2, the default of the build. A pbuf is seen here as the pair of the
  parity of its payload address and its bytes; a chain is a list of such pieces.

  The specification is the residue of the little-endian number that the bytes denote modulo
  65535, which neither the alignment of the data nor its division into pieces changes.
\<close>

section \<open>Byte order\<close>

definition lwip_htons :: "u16 \<Rightarrow> u16" where
  "lwip_htons n = push_bit 8 (n AND 0xFF) OR drop_bit 8 (n AND 0xFF00)"

definition lwip_htonl :: "u32 \<Rightarrow> u32" where
  "lwip_htonl n = push_bit 24 (n AND 0xFF) OR push_bit 8 (n AND 0xFF00)
     OR drop_bit 8 (n AND 0xFF0000) OR drop_bit 24 (n AND 0xFF000000)"

text \<open>A 16-bit load from two consecutive bytes on the little-endian core.\<close>

definition load16 :: "u8 \<Rightarrow> u8 \<Rightarrow> u16" where
  "load16 a b = to_u16 a OR push_bit 8 (to_u16 b)"

text \<open>A 16-bit store, as bytes in memory.\<close>

definition store16 :: "u16 \<Rightarrow> u8 list" where
  "store16 n = [to_u8 n, to_u8 (drop_bit 8 n)]"

section \<open>The checksum of a block\<close>

definition FOLD_U32T :: "u32 \<Rightarrow> u32" where
  "FOLD_U32T u = drop_bit 16 u + (u AND 0xFFFF)"

definition SWAP_BYTES_IN_WORD :: "u32 \<Rightarrow> u32" where
  "SWAP_BYTES_IN_WORD w = push_bit 8 (w AND 0xFF) OR drop_bit 8 (w AND 0xFF00)"

text \<open>The loop \<open>while (len > 1)\<close>: the sum and the byte that may be left.\<close>

fun chksum_words :: "u8 list \<Rightarrow> u32 \<Rightarrow> u32 \<times> u8 list" where
  "chksum_words (a # b # bs) acc = chksum_words bs (acc + to_u32 (load16 a b))"
| "chksum_words bs acc = (acc, bs)"

definition lwip_standard_chksum :: "bool \<Rightarrow> u8 list \<Rightarrow> u16" where
  "lwip_standard_chksum is_odd bs =
     (let (t, bs1) = (if is_odd \<and> 0 < length bs then (push_bit 8 (to_u16 (hd bs)), tl bs) else (0, bs));
          (sm, rest) = chksum_words bs1 0;
          t1 = (if rest \<noteq> [] then (t AND 0xFF00) OR to_u16 (hd rest) else t);
          sm1 = FOLD_U32T (FOLD_U32T (sm + to_u32 t1));
          sm2 = (if is_odd then SWAP_BYTES_IN_WORD sm1 else sm1)
      in to_u16 sm2)"

definition inet_chksum :: "bool \<Rightarrow> u8 list \<Rightarrow> u16" where
  "inet_chksum is_odd bs = NOT (lwip_standard_chksum is_odd bs)"

section \<open>The checksum of a chain\<close>

type_synonym piece = "bool \<times> u8 list"

definition chain_bytes :: "piece list \<Rightarrow> u8 list" where
  "chain_bytes ps = concat (map snd ps)"

text \<open>One pass of the loop over the chain, on \<open>acc\<close> and \<open>swapped\<close>.\<close>

definition chain_pass :: "piece \<Rightarrow> u32 \<times> bool \<Rightarrow> u32 \<times> bool" where
  "chain_pass q st =
     (let (acc, swapped) = st;
          acc1 = FOLD_U32T (acc + to_u32 (lwip_standard_chksum (fst q) (snd q)))
      in if length (snd q) mod 2 \<noteq> 0 then (SWAP_BYTES_IN_WORD acc1, \<not> swapped)
         else (acc1, swapped))"

definition chain_sum :: "piece list \<Rightarrow> u32 \<Rightarrow> u32" where
  "chain_sum ps acc =
     (let (acc1, swapped) = fold chain_pass ps (acc, False)
      in if swapped then SWAP_BYTES_IN_WORD acc1 else acc1)"

definition inet_cksum_pseudo_base :: "piece list \<Rightarrow> u8 \<Rightarrow> u16 \<Rightarrow> u32 \<Rightarrow> u16" where
  "inet_cksum_pseudo_base p proto proto_len acc =
     (let acc1 = chain_sum p acc;
          acc2 = acc1 + to_u32 (lwip_htons (to_u16 proto));
          acc3 = acc2 + to_u32 (lwip_htons proto_len);
          acc4 = FOLD_U32T (FOLD_U32T acc3)
      in to_u16 (NOT (acc4 AND 0xFFFF)))"

definition inet_chksum_pseudo :: "piece list \<Rightarrow> u8 \<Rightarrow> u16 \<Rightarrow> u32 \<Rightarrow> u32 \<Rightarrow> u16" where
  "inet_chksum_pseudo p proto proto_len src dest =
     (let acc1 = src AND 0xFFFF;
          acc2 = acc1 + (drop_bit 16 src AND 0xFFFF);
          acc3 = acc2 + (dest AND 0xFFFF);
          acc4 = acc3 + (drop_bit 16 dest AND 0xFFFF)
      in inet_cksum_pseudo_base p proto proto_len (FOLD_U32T (FOLD_U32T acc4)))"

definition ip_chksum_pseudo :: "piece list \<Rightarrow> u8 \<Rightarrow> u16 \<Rightarrow> u32 \<Rightarrow> u32 \<Rightarrow> u16" where
  "ip_chksum_pseudo = inet_chksum_pseudo"

definition inet_chksum_pbuf :: "piece list \<Rightarrow> u16" where
  "inet_chksum_pbuf p = to_u16 (NOT (chain_sum p 0 AND 0xFFFF))"

section \<open>The specification\<close>

text \<open>The number that a string of bytes denotes, least significant byte first.\<close>

primrec le_value :: "u8 list \<Rightarrow> nat" where
  "le_value [] = 0"
| "le_value (b # bs) = unat b + 256 * le_value bs"

text \<open>The representative of \<open>n\<close> in ones' complement: zero only for zero.\<close>

definition ones_residue :: "nat \<Rightarrow> nat" where
  "ones_residue n = (if n = 0 then 0 else (n - 1) mod 65535 + 1)"

lemma ones_residue_le: "ones_residue n \<le> 65535"
  by (simp add: ones_residue_def Suc_le_eq)

lemma ones_residue_mod: "ones_residue n mod 65535 = n mod 65535"
proof (cases n)
  case (Suc m)
  have "Suc (m mod 65535) mod 65535 = Suc m mod 65535"
    by (rule mod_Suc_eq)
  then show ?thesis
    by (simp add: ones_residue_def Suc)
qed (simp add: ones_residue_def)

lemma ones_residue_0 [simp]: "ones_residue n = 0 \<longleftrightarrow> n = 0"
  by (simp add: ones_residue_def)

lemma ones_residue_eqI:
  assumes "m mod 65535 = n mod 65535" and "m = 0 \<longleftrightarrow> n = 0"
  shows "ones_residue m = ones_residue n"
proof (cases m)
  case 0
  then show ?thesis
    using assms(2) by simp
next
  case (Suc m')
  with assms(2) obtain n' where n: "n = Suc n'"
    by (cases n) auto
  have "(m' + 1) mod 65535 = (n' + 1) mod 65535"
    using assms(1) Suc n by simp
  from mod_add_cong [OF this refl [of "65534 mod 65535"]] have "m' mod 65535 = n' mod 65535"
    by simp
  then show ?thesis
    by (simp add: ones_residue_def Suc n)
qed


lemma ones_residue_idem: "n \<le> 65535 \<Longrightarrow> ones_residue n = n"
  by (cases n) (simp_all add: ones_residue_def)

lemma ones_residue_fold: "ones_residue (n div 65536 + n mod 65536) = ones_residue n"
proof (rule ones_residue_eqI)
  have "n = 65536 * (n div 65536) + n mod 65536"
    by simp
  then have "n = n div 65536 + n mod 65536 + 65535 * (n div 65536)"
    by linarith
  then show "(n div 65536 + n mod 65536) mod 65535 = n mod 65535"
    by (metis mod_mult_self2)
qed (auto simp: div_eq_0_iff)

lemma le_value_append: "le_value (xs @ ys) = le_value xs + 256 ^ length xs * le_value ys"
  by (induction xs) (simp_all add: algebra_simps)

lemma le_value_0: "le_value bs = 0 \<longleftrightarrow> (\<forall>b \<in> set bs. b = 0)"
  by (induction bs) (simp_all add: unat_eq_0)

section \<open>Words and folding\<close>

lemma unat_load16: "unat (load16 a b) = unat a + 256 * unat b"
proof -
  have "load16 a b = to_u16 a + push_bit 8 (to_u16 b)"
    unfolding load16_def
    by (rule disjunctive_add [symmetric]) (auto simp: bit_push_bit_iff bit_unsigned_iff dest: bit_imp_le_length)
  moreover have "unat a + 256 * unat b < 65536"
    using unat_u8_less [of a] unat_u8_less [of b] by linarith
  ultimately show ?thesis
    by (simp add: push_bit_eq_mult unat_word_ariths)
qed

lemma unat_FOLD: "unat (FOLD_U32T u) = unat u div 65536 + unat u mod 65536"
proof -
  have "unat u div 65536 < 65536" "unat u mod 65536 < 65536"
    using unat_u32_less [of u] by (simp_all add: less_mult_imp_div_less)
  then have "unat u div 65536 + unat u mod 65536 < 4294967296"
    by linarith
  moreover have "u AND 0xFFFF = take_bit 16 u"
    by (simp add: take_bit_eq_mask mask_eq_exp_minus_1)
  ultimately show ?thesis
    by (simp add: FOLD_U32T_def unat_word_ariths unsigned_drop_bit_eq drop_bit_eq_div
        unsigned_take_bit_eq take_bit_eq_mod)
qed

lemma FOLD_once:
  assumes "unat u \<le> 131070"
  shows "unat (FOLD_U32T u) = ones_residue (unat u)"
proof -
  have "unat u div 65536 + unat u mod 65536 \<le> 65535"
  proof (cases "unat u < 65536")
    case False
    then have "unat u div 65536 = 1" "unat u mod 65536 = unat u - 65536"
      using assms by (simp_all add: div_nat_eqI le_mod_geq)
    then show ?thesis
      using assms by linarith
  qed simp
  then have "unat (FOLD_U32T u) = ones_residue (unat u div 65536 + unat u mod 65536)"
    by (simp only: unat_FOLD ones_residue_idem)
  then show ?thesis
    by (simp only: ones_residue_fold)
qed

lemma FOLD_twice: "unat (FOLD_U32T (FOLD_U32T u)) = ones_residue (unat u)"
proof -
  have "unat u div 65536 < 65536" "unat u mod 65536 < 65536"
    using unat_u32_less [of u] by (simp_all add: less_mult_imp_div_less)
  then have "unat (FOLD_U32T u) \<le> 131070"
    by (simp add: unat_FOLD)
  then show ?thesis
    by (simp only: FOLD_once) (simp only: unat_FOLD ones_residue_fold)
qed

lemma second_byte: "drop_bit 8 (w AND 0xFF00) = take_bit 8 (drop_bit 8 w)" for w :: "'a::len word"
proof -
  have mask: "(0xFF00 :: 'a word) = push_bit 8 (mask 8)"
    by (simp add: mask_eq_exp_minus_1)
  show ?thesis
    unfolding mask by (auto intro!: bit_word_eqI simp: bit_simps dest: bit_imp_le_length)
qed

lemma unat_SWAP: "unat (SWAP_BYTES_IN_WORD w) = 256 * (unat w mod 256) + unat w div 256 mod 256"
proof -
  have "SWAP_BYTES_IN_WORD w = push_bit 8 (take_bit 8 w) + take_bit 8 (drop_bit 8 w)"
    unfolding SWAP_BYTES_IN_WORD_def second_byte and_255
    by (rule disjunctive_add [symmetric]) (auto simp: bit_push_bit_iff bit_take_bit_iff)
  moreover have "unat w div 256 < 4294967296"
    using unat_u32_less [of w] div_le_dividend [of "unat w" 256] by linarith
  ultimately show ?thesis
    by (simp add: unat_word_ariths unsigned_push_bit_eq unsigned_take_bit_eq unsigned_drop_bit_eq
        push_bit_eq_mult take_bit_eq_mod drop_bit_eq_div)
qed

lemma unat_htons: "unat (lwip_htons w) = 256 * (unat w mod 256) + unat w div 256"
proof -
  have "lwip_htons w = push_bit 8 (take_bit 8 w) + take_bit 8 (drop_bit 8 w)"
    unfolding lwip_htons_def second_byte and_255
    by (rule disjunctive_add [symmetric]) (auto simp: bit_push_bit_iff bit_take_bit_iff)
  moreover have "unat w div 256 < 256"
    using unat_u16_less [of w] by (simp add: less_mult_imp_div_less)
  ultimately show ?thesis
    by (simp add: unat_word_ariths unsigned_push_bit_eq unsigned_take_bit_eq unsigned_drop_bit_eq
        push_bit_eq_mult take_bit_eq_mod drop_bit_eq_div)
qed

lemma SWAP_residue:
  assumes "unat w \<le> 65535"
  shows "unat (SWAP_BYTES_IN_WORD w) = ones_residue (256 * unat w)"
proof -
  let ?n = "unat w"
  have "?n div 256 < 256"
    using assms by (simp add: less_mult_imp_div_less)
  then have swap: "unat (SWAP_BYTES_IN_WORD w) = 256 * (?n mod 256) + ?n div 256"
    by (simp add: unat_SWAP)
  have "256 * ?n = (256 * (?n mod 256) + ?n div 256) + 65535 * (?n div 256)"
    using mult_div_mod_eq [of 256 ?n] by linarith
  then have "(256 * (?n mod 256) + ?n div 256) mod 65535 = 256 * ?n mod 65535"
    by (metis mod_mult_self2)
  moreover have "256 * (?n mod 256) + ?n div 256 = 0 \<longleftrightarrow> 256 * ?n = 0"
    by (auto simp: div_eq_0_iff)
  ultimately have "ones_residue (256 * (?n mod 256) + ?n div 256) = ones_residue (256 * ?n)"
    by (rule ones_residue_eqI)
  moreover have "256 * (?n mod 256) + ?n div 256 \<le> 65535"
    using \<open>?n div 256 < 256\<close> pos_mod_bound [of 256 "int ?n"] by (simp add: zmod_int [symmetric])
  ultimately show ?thesis
    by (simp add: swap ones_residue_idem)
qed

section \<open>The checksum of a block meets the specification\<close>

text \<open>The sum of the 16-bit words of a block, the last one padded with zero.\<close>

fun word_sum :: "u8 list \<Rightarrow> nat" where
  "word_sum (a # b # bs) = unat a + 256 * unat b + word_sum bs"
| "word_sum [a] = unat a"
| "word_sum [] = 0"

lemma word_sum_bound: "word_sum bs \<le> 65535 * ((length bs + 1) div 2)"
proof (induction bs rule: word_sum.induct)
  case (1 a b bs)
  then show ?case
    using unat_u8_less [of a] unat_u8_less [of b] by (simp, linarith)
next
  case (2 a)
  then show ?case
    using unat_u8_less [of a] by (simp, linarith)
qed simp

lemma word_sum_le_value: "word_sum bs mod 65535 = le_value bs mod 65535"
proof (induction bs rule: word_sum.induct)
  case (1 a b bs)
  have "le_value (a # b # bs) = unat a + 256 * unat b + le_value bs + 65535 * le_value bs"
    by simp
  then have "le_value (a # b # bs) mod 65535 = (unat a + 256 * unat b + le_value bs) mod 65535"
    by (metis mod_mult_self2)
  also have "\<dots> = (unat a + 256 * unat b + word_sum bs) mod 65535"
    by (rule mod_add_cong) (simp_all add: 1)
  finally show ?case
    by simp
qed simp_all

lemma word_sum_0: "word_sum bs = 0 \<longleftrightarrow> le_value bs = 0"
  by (induction bs rule: word_sum.induct) simp_all

lemma residue_word_sum: "ones_residue (word_sum bs) = ones_residue (le_value bs)"
  by (rule ones_residue_eqI) (simp_all add: word_sum_le_value word_sum_0)

text \<open>What the loop leaves for the last byte is read into the low byte of \<open>t\<close>.\<close>

definition with_rest :: "u16 \<Rightarrow> u8 list \<Rightarrow> u16" where
  "with_rest t rest = (if rest \<noteq> [] then (t AND 0xFF00) OR to_u16 (hd rest) else t)"

lemma unat_with_rest:
  "unat (with_rest (push_bit 8 (to_u16 b)) rest) = 256 * unat b + (case rest of [] \<Rightarrow> 0 | x # _ \<Rightarrow> unat x)"
  for b :: u8
proof (cases rest)
  case Nil
  then show ?thesis
    using unat_load16 [of 0 b] by (simp add: with_rest_def load16_def)
next
  case (Cons x xs)
  have mask: "(0xFF00 :: u16) = push_bit 8 (mask 8)"
    by (simp add: mask_eq_exp_minus_1)
  have "push_bit 8 (to_u16 b) AND 0xFF00 = push_bit 8 (to_u16 b)"
    unfolding mask by (auto intro!: bit_word_eqI simp: bit_simps)
  then have "with_rest (push_bit 8 (to_u16 b)) rest = load16 x b"
    by (simp add: with_rest_def load16_def Cons or.commute)
  then show ?thesis
    by (simp add: unat_load16 Cons)
qed

lemma chksum_words_sum:
  assumes "unat acc + word_sum bs + n < 4294967296"
  shows "(case chksum_words bs acc of (sm, rest) \<Rightarrow>
    unat sm + (case rest of [] \<Rightarrow> 0 | x # _ \<Rightarrow> unat x) = unat acc + word_sum bs)"
  using assms
proof (induction bs acc rule: chksum_words.induct)
  case (1 a b bs acc)
  have "unat (acc + to_u32 (load16 a b)) = unat acc + unat a + 256 * unat b"
    using "1.prems" by (simp add: unat_word_ariths unat_load16)
  then show ?case
    using "1.IH" "1.prems" by (simp add: ac_simps)
qed simp_all

lemma FOLD_0 [simp]: "FOLD_U32T 0 = 0"
  by (simp add: FOLD_U32T_def)

lemma SWAP_0 [simp]: "SWAP_BYTES_IN_WORD 0 = 0"
  by (simp add: SWAP_BYTES_IN_WORD_def)

lemma residue_shifted:
  "ones_residue (256 * ones_residue (256 * unat b + word_sum bs)) = ones_residue (le_value (b # bs))"
proof (rule ones_residue_eqI)
  let ?n = "256 * unat b + word_sum bs"
  have "256 * ones_residue ?n mod 65535 = 256 * ?n mod 65535"
    by (rule mod_mult_cong) (simp_all only: ones_residue_mod)
  also have "256 * ?n = unat b + 256 * word_sum bs + 65535 * unat b"
    by simp
  also have "\<dots> mod 65535 = (unat b + 256 * word_sum bs) mod 65535"
    by (rule mod_mult_self2)
  also have "\<dots> = (unat b + 256 * le_value bs) mod 65535"
    by (rule mod_add_cong [OF refl mod_mult_cong [OF refl word_sum_le_value]])
  finally show "256 * ones_residue ?n mod 65535 = le_value (b # bs) mod 65535"
    by simp
qed (simp add: word_sum_0)

lemma to_u16_FOLD: "unat (to_u16 (FOLD_U32T (FOLD_U32T u))) = ones_residue (unat u)"
  using ones_residue_le [of "unat u"]
  by (simp add: unsigned_ucast_eq FOLD_twice take_bit_nat_eq_self)

lemma to_u16_SWAP_FOLD:
  "unat (to_u16 (SWAP_BYTES_IN_WORD (FOLD_U32T (FOLD_U32T u)))) = ones_residue (256 * ones_residue (unat u))"
  using ones_residue_le [of "unat u"] ones_residue_le [of "256 * ones_residue (unat u)"]
  by (simp add: unsigned_ucast_eq SWAP_residue FOLD_twice take_bit_nat_eq_self)

lemma chksum_aligned:
  assumes "length bs \<le> 65535"
  shows "unat (lwip_standard_chksum False bs) = ones_residue (le_value bs)"
proof -
  let ?p = "chksum_words bs 0"
  have "word_sum bs < 4294967296"
    using word_sum_bound [of bs] assms by linarith
  then have "unat (fst ?p + to_u32 (with_rest 0 (snd ?p))) = word_sum bs"
    using chksum_words_sum [of 0 bs 0] unat_with_rest [of 0 "snd ?p"]
    by (simp add: split_def unat_word_ariths)
  then show ?thesis
    by (simp add: lwip_standard_chksum_def with_rest_def [symmetric] split_def Let_def to_u16_FOLD
        residue_word_sum)
qed

lemma chksum_misaligned:
  assumes "length bs < 65535"
  shows "unat (lwip_standard_chksum True (b # bs)) = ones_residue (le_value (b # bs))"
proof -
  let ?p = "chksum_words bs 0"
  have "256 * unat b + word_sum bs < 4294967296"
    using word_sum_bound [of bs] assms unat_u8_less [of b] by linarith
  then have "unat (fst ?p + to_u32 (with_rest (push_bit 8 (to_u16 b)) (snd ?p)))
      = 256 * unat b + word_sum bs"
    using chksum_words_sum [of 0 bs 0] unat_with_rest [of b "snd ?p"]
    by (simp add: split_def unat_word_ariths)
  then show ?thesis
    by (simp only: lwip_standard_chksum_def with_rest_def [symmetric] split_def Let_def)
       (simp add: to_u16_SWAP_FOLD residue_shifted del: le_value.simps)
qed

lemma lwip_standard_chksum_spec:
  assumes "length bs \<le> 65535"
  shows "unat (lwip_standard_chksum is_odd bs) = ones_residue (le_value bs)"
proof (cases "is_odd \<and> bs \<noteq> []")
  case True
  then show ?thesis
    using chksum_misaligned assms by (cases bs) simp_all
next
  case False
  then show ?thesis
    using chksum_aligned [OF assms] by (cases is_odd) (simp_all add: lwip_standard_chksum_def)
qed

section \<open>The checksum of a chain meets the specification\<close>

lemma ones_residue_iff:
  "ones_residue m = ones_residue n \<longleftrightarrow> m mod 65535 = n mod 65535 \<and> (m = 0 \<longleftrightarrow> n = 0)"
  by (metis ones_residue_0 ones_residue_eqI ones_residue_mod)

lemma residue_add_cong:
  "ones_residue m = ones_residue m' \<Longrightarrow> ones_residue n = ones_residue n'
   \<Longrightarrow> ones_residue (m + n) = ones_residue (m' + n')"
  by (auto simp: ones_residue_iff intro: mod_add_cong)

lemma residue_mult_cong: "ones_residue m = ones_residue n \<Longrightarrow> ones_residue (k * m) = ones_residue (k * n)"
  by (auto simp: ones_residue_iff intro: mod_mult_cong)

lemma residue_idem [simp]: "ones_residue (ones_residue n) = ones_residue n"
  by (rule ones_residue_idem) (rule ones_residue_le)

lemma residue_65536: "ones_residue (65536 * n) = ones_residue n"
proof -
  have "65536 * n = n + 65535 * n"
    by simp
  then have "65536 * n mod 65535 = n mod 65535"
    by (metis mod_mult_self2)
  then show ?thesis
    by (simp add: ones_residue_iff)
qed

lemma residue_power: "ones_residue (256 ^ k * n) = ones_residue ((if even k then 1 else 256) * n)"
proof (induction k rule: nat_less_induct)
  case (1 k)
  show ?case
  proof (cases "k < 2")
    case True
    then have "k = 0 \<or> k = 1"
      by auto
    then show ?thesis
      by auto
  next
    case False
    then obtain j where k: "k = j + 2"
      by (metis add.commute le_Suc_ex not_less)
    have "256 ^ k * n = 65536 * (256 ^ j * n)"
      by (simp add: k power_add)
    then have "ones_residue (256 ^ k * n) = ones_residue (256 ^ j * n)"
      by (simp only: residue_65536)
    then show ?thesis
      using 1 [rule_format, of j] by (simp add: k)
  qed
qed

definition chain_ok :: "piece list \<Rightarrow> bool" where
  "chain_ok ps \<longleftrightarrow> (\<forall>q \<in> set ps. length (snd q) \<le> 65535)"

definition finish :: "u32 \<times> bool \<Rightarrow> u32" where
  "finish st = (if snd st then SWAP_BYTES_IN_WORD (fst st) else fst st)"

lemma chain_pass_result:
  assumes "unat acc \<le> 65535" and "length (snd q) \<le> 65535"
  shows "unat (fst (chain_pass q (acc, sw))) = ones_residue
      ((if odd (length (snd q)) then 256 else 1) * ones_residue (unat acc + le_value (snd q)))"
    and "snd (chain_pass q (acc, sw)) = (sw = even (length (snd q)))"
proof -
  let ?c = "lwip_standard_chksum (fst q) (snd q)"
  have c: "unat ?c = ones_residue (le_value (snd q))"
    by (rule lwip_standard_chksum_spec) (rule assms(2))
  have "unat acc + unat ?c \<le> 131070"
    using assms(1) ones_residue_le [of "le_value (snd q)"] c by linarith
  then have "unat (FOLD_U32T (acc + to_u32 ?c)) = ones_residue (unat acc + unat ?c)"
    by (subst FOLD_once) (simp_all add: unat_word_ariths)
  also have "\<dots> = ones_residue (unat acc + le_value (snd q))"
    by (rule residue_add_cong) (simp_all add: c)
  finally have fold: "unat (FOLD_U32T (acc + to_u32 ?c)) = ones_residue (unat acc + le_value (snd q))" .
  then have swap: "unat (SWAP_BYTES_IN_WORD (FOLD_U32T (acc + to_u32 ?c)))
      = ones_residue (256 * ones_residue (unat acc + le_value (snd q)))"
    using ones_residue_le by (simp add: SWAP_residue)
  show "unat (fst (chain_pass q (acc, sw))) = ones_residue
      ((if odd (length (snd q)) then 256 else 1) * ones_residue (unat acc + le_value (snd q)))"
    using fold swap by (simp add: chain_pass_def Let_def even_iff_mod_2_eq_zero)
  show "snd (chain_pass q (acc, sw)) = (sw = even (length (snd q)))"
    by (auto simp: chain_pass_def Let_def even_iff_mod_2_eq_zero)
qed

lemma residue_step:
  fixes A L :: nat
  defines "f \<equiv> \<lambda>b. if b then 256 else 1 :: nat"
  shows "ones_residue (f (sw = even k) * (ones_residue (f (odd k) * ones_residue A) + L))
    = ones_residue (f sw * (A + 256 ^ k * L))"
proof -
  have "ones_residue (f (odd k) * ones_residue A) = ones_residue (f (odd k) * A)"
    by (rule residue_mult_cong) simp
  then have "ones_residue (f (sw = even k) * (ones_residue (f (odd k) * ones_residue A) + L))
      = ones_residue (f (sw = even k) * (f (odd k) * A + L))"
    by (intro residue_mult_cong residue_add_cong) simp_all
  also have "\<dots> = ones_residue (f sw * (A + f (odd k) * L))"
  proof -
    have "ones_residue (65536 * A + 256 * L) = ones_residue (A + 256 * L)"
      "ones_residue (256 * A + 65536 * L) = ones_residue (256 * A + L)"
      by (rule residue_add_cong, simp_all add: residue_65536)+
    then show ?thesis
      by (cases sw; cases "even k") (simp_all add: f_def algebra_simps)
  qed
  also have "\<dots> = ones_residue (f sw * (A + 256 ^ k * L))"
    by (intro residue_mult_cong residue_add_cong) (simp_all add: residue_power f_def)
  finally show ?thesis .
qed

lemma finish_chain:
  assumes "unat acc \<le> 65535" and "chain_ok ps"
  shows "unat (finish (fold chain_pass ps (acc, sw)))
    = ones_residue ((if sw then 256 else 1) * (unat acc + le_value (chain_bytes ps)))"
  using assms
proof (induction ps arbitrary: acc sw)
  case Nil
  then show ?case
    by (simp add: finish_def SWAP_residue chain_bytes_def ones_residue_idem)
next
  case (Cons q ps)
  define acc1 where "acc1 = fst (chain_pass q (acc, sw))"
  let ?k = "length (snd q)"
  have q: "?k \<le> 65535" and ps: "chain_ok ps"
    using Cons.prems(2) by (simp_all add: chain_ok_def)
  note pass = chain_pass_result [OF Cons.prems(1) q, of sw, folded acc1_def]
  have step: "chain_pass q (acc, sw) = (acc1, sw = even ?k)"
    by (simp add: acc1_def prod_eq_iff pass(2))
  have "unat acc1 \<le> 65535"
    using pass(1) ones_residue_le by simp
  from Cons.IH [OF this ps, of "sw = even ?k"]
  have "unat (finish (fold chain_pass (q # ps) (acc, sw))) =
    ones_residue ((if sw = even ?k then 256 else 1) * (ones_residue
      ((if odd ?k then 256 else 1) * ones_residue (unat acc + le_value (snd q))) +
      le_value (chain_bytes ps)))"
    by (simp only: fold_simps step pass(1))
  also note residue_step
  finally show ?case
    by (simp only: chain_bytes_def list.map concat.simps le_value_append add.assoc)
qed

lemma chain_sum_spec:
  assumes "unat acc \<le> 65535" and "chain_ok ps"
  shows "unat (chain_sum ps acc) = ones_residue (unat acc + le_value (chain_bytes ps))"
  using finish_chain [OF assms, of False] by (simp add: chain_sum_def finish_def split_def Let_def)

section \<open>Checking a received checksum\<close>

lemma le_value_store16: "le_value (store16 n) = unat n"
proof -
  have "unat n div 256 < 256"
    using unat_u16_less [of n] by (simp add: less_mult_imp_div_less)
  then show ?thesis
    using mult_div_mod_eq [of 256 "unat n"]
    by (simp add: store16_def unsigned_ucast_eq unsigned_drop_bit_eq take_bit_eq_mod
        drop_bit_eq_div unat_div)
qed

lemma length_store16 [simp]: "length (store16 n) = 2"
  by (simp add: store16_def)

lemma unat_NOT_u16: "unat (NOT n :: u16) = 65535 - unat n"
proof -
  have "NOT n = - 1 - n"
    by (simp add: not_eq_complement)
  moreover have "unat (- 1 :: u16) = 65535"
    by (simp add: unsigned_minus_1_eq_mask mask_eq_exp_minus_1)
  ultimately show ?thesis
    using unat_sub [of n "- 1"] by simp
qed

lemma NOT_16_of_32: "to_u16 (NOT (w AND 0xFFFF)) = NOT (to_u16 w)" for w :: u32
proof -
  have "w AND 0xFFFF = take_bit 16 w"
    by (simp add: take_bit_eq_mask mask_eq_exp_minus_1)
  then show ?thesis
    by (auto intro!: bit_word_eqI simp: bit_simps)
qed

text \<open>A field with the complement of the sum, at an even offset, completes the sum to ones.\<close>

lemma residue_completed:
  assumes "even (length xs)" and "k = 65535 - ones_residue (a + le_value (xs @ [0, 0] @ ys)) \<or>
      k = 65535 \<and> ones_residue (a + le_value (xs @ [0, 0] @ ys)) = 65535"
    and "unat c = k"
  shows "ones_residue (a + le_value (xs @ store16 c @ ys)) = 65535"
proof -
  let ?n = "a + le_value (xs @ [0, 0] @ ys)"
  have "a + le_value (xs @ store16 c @ ys) = ?n + 256 ^ length xs * unat c"
    by (simp add: le_value_append le_value_store16 algebra_simps)
  then have "ones_residue (a + le_value (xs @ store16 c @ ys)) = ones_residue (ones_residue ?n + k)"
    using assms(1,3) by (simp only:) (intro residue_add_cong, simp_all add: residue_power)
  moreover have "ones_residue ?n \<le> 65535"
    by (rule ones_residue_le)
  ultimately show ?thesis
    using assms(2) by (auto simp: ones_residue_def)
qed

lemma inet_chksum_zero:
  assumes "length bs \<le> 65535"
  shows "inet_chksum is_odd bs = 0 \<longleftrightarrow> ones_residue (le_value bs) = 65535"
proof -
  have "inet_chksum is_odd bs = 0 \<longleftrightarrow> unat (inet_chksum is_odd bs) = 0"
    by (simp add: unat_eq_0)
  also have "\<dots> \<longleftrightarrow> 65535 - ones_residue (le_value bs) = 0"
    unfolding inet_chksum_def unat_NOT_u16 using assms by (subst lwip_standard_chksum_spec) simp_all
  finally show ?thesis
    using ones_residue_le [of "le_value bs"] by simp
qed

lemma ip_chksum_completed:
  assumes "even (length xs)" "length (xs @ [0, 0] @ ys) \<le> 65535"
  shows "inet_chksum here (xs @ store16 (inet_chksum there (xs @ [0, 0] @ ys)) @ ys) = 0"
proof -
  have "unat (inet_chksum there (xs @ [0, 0] @ ys)) = 65535 - ones_residue (0 + le_value (xs @ [0, 0] @ ys))"
    unfolding inet_chksum_def unat_NOT_u16 using assms(2) by (subst lwip_standard_chksum_spec) simp_all
  then have "ones_residue (0 + le_value (xs @ store16 (inet_chksum there (xs @ [0, 0] @ ys)) @ ys)) = 65535"
    by (intro residue_completed [OF assms(1)]) simp_all
  then show ?thesis
    using assms(2) by (subst inet_chksum_zero) simp_all
qed

lemma inet_chksum_alignment: "length bs \<le> 65535 \<Longrightarrow> inet_chksum here bs = 0 \<longleftrightarrow> inet_chksum there bs = 0"
  by (simp add: inet_chksum_zero)

text \<open>
  C17. A header into which \<open>inet_chksum\<close> of the header, with the checksum field cleared, is stored
  passes the check of the receiver, for which the same routine must give zero, whatever the
  alignments of the header at the two ends.
\<close>

theorem inet_chksum_verifies:
  assumes "even (length xs)" and "length (xs @ [0, 0] @ ys) \<le> 65535"
  shows "inet_chksum here (xs @ store16 (inet_chksum there (xs @ [0, 0] @ ys)) @ ys) = 0"
  using assms by (rule ip_chksum_completed)

lemma inet_chksum_verifies_witness:
  "inet_chksum True ([0x45, 0, 0, 30] @ store16 (inet_chksum False ([0x45, 0, 0, 30] @ [0, 0] @ [192, 168, 1]))
     @ [192, 168, 1]) = 0"
  by (rule inet_chksum_verifies) simp_all

text \<open>
  C18. The checksum over a chain of buffers is the one of its bytes in one block: neither the
  places where the chain is divided, odd lengths included, nor the alignments of the pieces
  matter.
\<close>

theorem inet_chksum_pbuf_flat:
  assumes "length (chain_bytes ps) \<le> 65535"
  shows "inet_chksum_pbuf ps = inet_chksum is_odd (chain_bytes ps)"
proof -
  have "chain_ok ps"
    using assms by (induction ps) (auto simp: chain_ok_def chain_bytes_def)
  then have "unat (chain_sum ps 0) = ones_residue (le_value (chain_bytes ps))"
    using chain_sum_spec [of 0 ps] by simp
  then have "unat (to_u16 (chain_sum ps 0)) = unat (lwip_standard_chksum is_odd (chain_bytes ps))"
    using ones_residue_le [of "le_value (chain_bytes ps)"]
    by (simp add: lwip_standard_chksum_spec [OF assms] unsigned_ucast_eq take_bit_nat_eq_self)
  then have "to_u16 (chain_sum ps 0) = lwip_standard_chksum is_odd (chain_bytes ps)"
    by (rule unsigned_word_eqI)
  then show ?thesis
    by (simp only: inet_chksum_pbuf_def inet_chksum_def NOT_16_of_32)
qed

lemma inet_chksum_pbuf_flat_witness:
  "inet_chksum_pbuf [(True, [1, 2, 3]), (False, [4]), (True, [5, 6])] = inet_chksum False [1, 2, 3, 4, 5, 6]"
  using inet_chksum_pbuf_flat [of "[(True, [1, 2, 3]), (False, [4]), (True, [5, 6])]" False]
  by (simp add: chain_bytes_def)

section \<open>The checksum with a pseudo header\<close>

definition pseudo_value :: "u8 \<Rightarrow> u16 \<Rightarrow> u32 \<Rightarrow> u32 \<Rightarrow> nat" where
  "pseudo_value proto proto_len src dest =
     unat src mod 65536 + unat src div 65536 + (unat dest mod 65536 + unat dest div 65536)
     + unat (lwip_htons (to_u16 proto)) + unat (lwip_htons proto_len)"

lemma unat_half:
  "unat (w AND 0xFFFF) = unat w mod 65536" "unat (drop_bit 16 w AND 0xFFFF) = unat w div 65536"
  for w :: u32
proof -
  have mask: "v AND 0xFFFF = take_bit 16 v" for v :: u32
    by (simp add: take_bit_eq_mask mask_eq_exp_minus_1)
  have "unat w div 65536 < 65536"
    using unat_u32_less [of w] by (simp add: less_mult_imp_div_less)
  then show "unat (w AND 0xFFFF) = unat w mod 65536"
    "unat (drop_bit 16 w AND 0xFFFF) = unat w div 65536"
    by (simp_all add: mask take_bit_eq_mod drop_bit_eq_div unat_div unat_mod)
qed

lemma inet_chksum_pseudo_value:
  assumes "chain_ok ps"
  shows "unat (inet_chksum_pseudo ps proto proto_len src dest)
    = 65535 - ones_residue (pseudo_value proto proto_len src dest + le_value (chain_bytes ps))"
proof -
  let ?h = "unat src mod 65536 + unat src div 65536 + (unat dest mod 65536 + unat dest div 65536)"
  let ?acc = "(src AND 0xFFFF) + (drop_bit 16 src AND 0xFFFF) + (dest AND 0xFFFF) + (drop_bit 16 dest AND 0xFFFF)"
  let ?p = "unat (lwip_htons (to_u16 proto))" and ?l = "unat (lwip_htons proto_len)"
  have half: "unat w mod 65536 < 65536" "unat w div 65536 < 65536" for w :: u32
    using unat_u32_less [of w] by (simp_all add: less_mult_imp_div_less)
  have "unat ?acc = ?h"
    using half [of src] half [of dest] by (simp add: unat_word_ariths(1) unat_half(1) drop_bit_eq_div unat_div)
  then have acc: "unat (FOLD_U32T (FOLD_U32T ?acc)) = ones_residue ?h"
    by (simp add: FOLD_twice)
  define sm where "sm = chain_sum ps (FOLD_U32T (FOLD_U32T ?acc))"
  have sm: "unat sm = ones_residue (ones_residue ?h + le_value (chain_bytes ps))"
    unfolding sm_def using chain_sum_spec [OF _ assms, of "FOLD_U32T (FOLD_U32T ?acc)"]
    by (simp add: acc ones_residue_le)
  have "unat sm + ?p + ?l < 4294967296"
    using ones_residue_le [of "ones_residue ?h + le_value (chain_bytes ps)", folded sm]
      unat_u16_less [of "lwip_htons (to_u16 proto)"] unat_u16_less [of "lwip_htons proto_len"]
    by linarith
  then have "unat (sm + to_u32 (lwip_htons (to_u16 proto)) + to_u32 (lwip_htons proto_len)) = unat sm + ?p + ?l"
    by (simp add: unat_word_ariths(1))
  moreover have "ones_residue (unat sm + ?p + ?l)
      = ones_residue (pseudo_value proto proto_len src dest + le_value (chain_bytes ps))"
  proof -
    have "ones_residue (unat sm) = ones_residue (?h + le_value (chain_bytes ps))"
      unfolding sm residue_idem by (rule residue_add_cong) simp_all
    then have "ones_residue (unat sm + (?p + ?l)) = ones_residue (?h + le_value (chain_bytes ps) + (?p + ?l))"
      by (rule residue_add_cong) simp
    then show ?thesis
      by (simp add: pseudo_value_def ac_simps)
  qed
  ultimately show ?thesis
    by (simp only: inet_chksum_pseudo_def inet_cksum_pseudo_base_def Let_def sm_def [symmetric]
        NOT_16_of_32 unat_NOT_u16 to_u16_FOLD)
qed

text \<open>
  The check of a received datagram: with the complement stored, or with ones for a
  complement of zero, the same routine gives zero.
\<close>

lemma inet_chksum_pseudo_verifies:
  assumes "chain_ok ps" "chain_bytes ps = xs @ [0, 0] @ ys" "even (length xs)"
    and "c = inet_chksum_pseudo ps proto proto_len src dest"
    and "chain_ok ps'" "chain_bytes ps' = xs @ store16 (if c = 0 then 0xFFFF else c) @ ys"
  shows "inet_chksum_pseudo ps' proto proto_len src dest = 0"
proof -
  let ?a = "pseudo_value proto proto_len src dest"
  let ?r = "ones_residue (?a + le_value (xs @ [0, 0] @ ys))"
  have c: "unat c = 65535 - ?r"
    by (simp only: assms(4) inet_chksum_pseudo_value [OF assms(1)] assms(2))
  have "c = 0 \<longleftrightarrow> ?r = 65535"
    using c ones_residue_le [of "?a + le_value (xs @ [0, 0] @ ys)"] by (simp add: unat_eq_0 [symmetric])
  then have "ones_residue (?a + le_value (xs @ store16 (if c = 0 then 0xFFFF else c) @ ys)) = 65535"
    using c by (intro residue_completed [OF assms(3) _ refl]) auto
  then have "unat (inet_chksum_pseudo ps' proto proto_len src dest) = 0"
    by (simp only: inet_chksum_pseudo_value [OF assms(5)] assms(6))
  then show ?thesis
    by (simp add: unat_eq_0)
qed

lemma inet_chksum_pbuf_zero:
  assumes "length (chain_bytes ps) \<le> 65535"
  shows "inet_chksum_pbuf ps = 0 \<longleftrightarrow> ones_residue (le_value (chain_bytes ps)) = 65535"
proof -
  have "chain_ok ps"
    using assms by (induction ps) (auto simp: chain_ok_def chain_bytes_def)
  then have "unat (chain_sum ps 0) = ones_residue (le_value (chain_bytes ps))"
    using chain_sum_spec [of 0 ps] by simp
  then have "unat (to_u16 (chain_sum ps 0)) = ones_residue (le_value (chain_bytes ps))"
    using ones_residue_le [of "le_value (chain_bytes ps)"] by (simp add: unsigned_ucast_eq take_bit_nat_eq_self)
  moreover have "inet_chksum_pbuf ps = 0 \<longleftrightarrow> unat (inet_chksum_pbuf ps) = 0"
    by (simp add: unat_eq_0)
  moreover have "unat (inet_chksum_pbuf ps) = 65535 - unat (to_u16 (chain_sum ps 0))"
    by (simp only: inet_chksum_pbuf_def NOT_16_of_32 unat_NOT_u16)
  ultimately show ?thesis
    using ones_residue_le [of "le_value (chain_bytes ps)"] by simp
qed

lemma store16_load16: "store16 (load16 a b) = [a, b]"
  by (auto simp: store16_def load16_def intro!: bit_word_eqI) (auto simp: bit_simps dest: bit_imp_le_length)

lemma pseudo_flat:
  assumes "length (chain_bytes ps) \<le> 65535"
  shows "ip_chksum_pseudo ps proto len src dest = inet_chksum_pseudo [(False, chain_bytes ps)] proto len src dest"
proof -
  have ok: "chain_ok ps" "chain_ok [(False, chain_bytes ps)]" "chain_bytes [(False, chain_bytes ps)] = chain_bytes ps"
    using assms by (induction ps) (auto simp: chain_ok_def chain_bytes_def)
  then have "unat (inet_chksum_pseudo ps proto len src dest)
      = unat (inet_chksum_pseudo [(False, chain_bytes ps)] proto len src dest)"
    by (simp add: inet_chksum_pseudo_value)
  then show ?thesis
    unfolding ip_chksum_pseudo_def by (rule unsigned_word_eqI)
qed

end
