(* ===== verification/Pbuf.thy ===== *)
theory Pbuf
  imports Inet
begin

text \<open>
  Packet buffers, \<open>core/pbuf.c\<close> of lwIP. A pbuf is a record with the bytes between the structure
  and the payload (the room for headers), the payload itself, and the address of the
  payload, on which the checksum routine depends; a chain is the list of its pbufs.

  The heap is a parameter: \<open>heap i n\<close> is what the \<open>i\<close>-th call of \<open>mem_malloc (n)\<close> inside an
  operation returns, the address of a block and its old content, or \<open>None\<close> for \<open>NULL\<close>. With
  \<open>MEMP_MEM_MALLOC = 1\<close> the pools are taken from the same heap. What \<open>mem.c\<close> promises of a
  block is \<open>heap_ok\<close>.
\<close>

section \<open>Types and constants\<close>

datatype pbuf_layer = PBUF_TRANSPORT | PBUF_IP | PBUF_LINK | PBUF_RAW_TX | PBUF_RAW

fun layer_offset :: "pbuf_layer \<Rightarrow> u16" where
  "layer_offset PBUF_TRANSPORT = 0 + 14 + 20 + 20"
| "layer_offset PBUF_IP = 0 + 14 + 20"
| "layer_offset PBUF_LINK = 0 + 14"
| "layer_offset PBUF_RAW_TX = 0"
| "layer_offset PBUF_RAW = 0"

datatype pbuf_type = PBUF_RAM | PBUF_ROM | PBUF_REF | PBUF_POOL

record pbuf =
  pb_room :: "u8 list"
  pb_payload :: "u8 list"
  pb_tot_len :: u16
  pb_type :: pbuf_type
  pb_at :: u32

definition pb_len :: "pbuf \<Rightarrow> u16" where
  "pb_len p = of_nat (length (pb_payload p))"

type_synonym heap = "nat \<Rightarrow> u16 \<Rightarrow> (u32 \<times> u8 list) option"

definition heap_ok :: "heap \<Rightarrow> bool" where
  "heap_ok heap \<longleftrightarrow> (\<forall>i n a bs. heap i n = Some (a, bs) \<longrightarrow> length bs = unat n \<and> 4 dvd unat a)"

definition LWIP_MEM_ALIGN_SIZE :: "u32 \<Rightarrow> u32" where
  "LWIP_MEM_ALIGN_SIZE n = (n + 4 - 1) AND NOT (4 - 1)"

definition SIZEOF_STRUCT_PBUF :: u32 where
  "SIZEOF_STRUCT_PBUF = LWIP_MEM_ALIGN_SIZE 16"

definition PBUF_POOL_BUFSIZE_ALIGNED :: u32 where
  "PBUF_POOL_BUFSIZE_ALIGNED = LWIP_MEM_ALIGN_SIZE 500"

section \<open>Allocation\<close>

text \<open>The fields of a new pbuf in the block at \<open>a\<close> with content \<open>bs\<close>.\<close>

definition pbuf_init_alloced_pbuf ::
  "u32 \<Rightarrow> u8 list \<Rightarrow> u16 \<Rightarrow> u16 \<Rightarrow> u16 \<Rightarrow> pbuf_type \<Rightarrow> pbuf" where
  "pbuf_init_alloced_pbuf a bs offset tot_len len type =
     (let payload = LWIP_MEM_ALIGN_SIZE (a + SIZEOF_STRUCT_PBUF + to_u32 offset);
          k = unat (payload - (a + SIZEOF_STRUCT_PBUF));
          body = drop (unat SIZEOF_STRUCT_PBUF) bs
      in \<lparr>pb_room = take k body, pb_payload = take (unat len) (drop k body), pb_tot_len = tot_len,
          pb_type = type, pb_at = payload\<rparr>)"

definition pbuf_alloc_RAM :: "heap \<Rightarrow> pbuf_layer \<Rightarrow> u16 \<Rightarrow> pbuf option" where
  "pbuf_alloc_RAM heap layer len =
     (let offset = layer_offset layer; alen = LWIP_MEM_ALIGN_SIZE (to_u32 len);
          payload_len = to_u16 (LWIP_MEM_ALIGN_SIZE (to_u32 offset) + alen);
          alloc_len = to_u16 (LWIP_MEM_ALIGN_SIZE SIZEOF_STRUCT_PBUF + to_u32 payload_len)
      in if to_u32 payload_len < alen \<or> to_u32 alloc_len < alen then None
         else case heap 0 alloc_len of
           None \<Rightarrow> None
         | Some (a, bs) \<Rightarrow> Some (pbuf_init_alloced_pbuf a bs offset len len PBUF_RAM))"

text \<open>The loop over the pool: the \<open>i\<close>-th pbuf for the last \<open>rem_len\<close> bytes.\<close>

definition pool_qlen :: "u16 \<Rightarrow> u16 \<Rightarrow> u16" where
  "pool_qlen offset rem_len =
     (let room = to_u16 (PBUF_POOL_BUFSIZE_ALIGNED - LWIP_MEM_ALIGN_SIZE (to_u32 offset))
      in if rem_len < room then rem_len else room)"

lemma align_simps [simp]:
  "LWIP_MEM_ALIGN_SIZE 0 = 0" "LWIP_MEM_ALIGN_SIZE 14 = 16" "LWIP_MEM_ALIGN_SIZE 34 = 36"
  "LWIP_MEM_ALIGN_SIZE 54 = 56" "LWIP_MEM_ALIGN_SIZE 16 = 16" "LWIP_MEM_ALIGN_SIZE 500 = 500"
  by (simp_all add: LWIP_MEM_ALIGN_SIZE_def)

lemma size_simps [simp]: "SIZEOF_STRUCT_PBUF = 16" "PBUF_POOL_BUFSIZE_ALIGNED = 500"
  by (simp_all add: SIZEOF_STRUCT_PBUF_def PBUF_POOL_BUFSIZE_ALIGNED_def)

definition pool_block_size :: u16 where
  "pool_block_size = to_u16 (SIZEOF_STRUCT_PBUF + PBUF_POOL_BUFSIZE_ALIGNED)"

text \<open>
  The loop ends because a pool buffer takes at least one byte; \<open>offset\<close> is zero from the
  second pass on.
\<close>

function pbuf_alloc_pool :: "heap \<Rightarrow> nat \<Rightarrow> pbuf_layer option \<Rightarrow> u16 \<Rightarrow> pbuf list option" where
  "pbuf_alloc_pool heap i layer rem_len =
     (let offset = (case layer of None \<Rightarrow> 0 | Some l \<Rightarrow> layer_offset l);
          qlen = pool_qlen offset rem_len
      in case heap i pool_block_size of
           None \<Rightarrow> None
         | Some (a, bs) \<Rightarrow>
             let q = pbuf_init_alloced_pbuf a bs offset rem_len qlen PBUF_POOL
             in if rem_len - qlen > 0 then
                  map_option ((#) q) (pbuf_alloc_pool heap (i + 1) None (rem_len - qlen))
                else Some [q])"
  by pat_completeness auto
termination
proof (relation "measure (\<lambda>(heap, i, layer, rem_len). unat rem_len)", goal_cases)
  case (2 heap i layer rem_len offset qlen z a bs q)
  have "0 < qlen"
    using 2 by (cases layer; cases "the layer")
      (auto simp: pool_qlen_def Let_def word_gt_0 split: if_splits)
  moreover have "qlen \<le> rem_len"
    using 2 by (auto simp: pool_qlen_def Let_def not_less)
  ultimately show ?case
    by (simp add: unat_minus_le word_less_nat_alt word_le_nat_alt)
qed simp

declare pbuf_alloc_pool.simps [simp del]

section \<open>Headers\<close>

text \<open>\<open>pbuf_add_header (p, n)\<close>: \<open>None\<close> is the result 1, with the pbuf unchanged.\<close>

definition contiguous :: "pbuf_type \<Rightarrow> bool" where
  "contiguous t \<longleftrightarrow> t = PBUF_RAM \<or> t = PBUF_POOL"

definition pbuf_add_header :: "pbuf \<Rightarrow> nat \<Rightarrow> pbuf option" where
  "pbuf_add_header p n =
     (if n > 0xFFFF then None
      else if n = 0 then Some p
      else
        let m = of_nat n :: u16; k = length (pb_room p) - n
        in if m + pb_tot_len p < m then None
           else if contiguous (pb_type p) \<and> n \<le> length (pb_room p) then
             Some (p\<lparr>pb_room := take k (pb_room p), pb_payload := drop k (pb_room p) @ pb_payload p,
                     pb_tot_len := pb_tot_len p + m, pb_at := pb_at p - of_nat n\<rparr>)
           else None)"

definition pbuf_remove_header :: "pbuf \<Rightarrow> nat \<Rightarrow> pbuf option" where
  "pbuf_remove_header p n =
     (if n > 0xFFFF then None
      else if n = 0 then Some p
      else if of_nat n > pb_len p then None
      else Some (p\<lparr>pb_room := pb_room p @ take n (pb_payload p), pb_payload := drop n (pb_payload p),
                   pb_tot_len := pb_tot_len p - of_nat n, pb_at := pb_at p + of_nat n\<rparr>))"

text \<open>\<open>pbuf_chain (h, t)\<close>: the total lengths of \<open>h\<close> grow by the one of \<open>t\<close>.\<close>

definition pbuf_chain :: "pbuf list \<Rightarrow> pbuf list \<Rightarrow> pbuf list" where
  "pbuf_chain h t = map (\<lambda>p. p\<lparr>pb_tot_len := pb_tot_len p + pb_tot_len (hd t)\<rparr>) h @ t"

text \<open>A store of bytes at an offset of the payload.\<close>

definition put_bytes :: "nat \<Rightarrow> u8 list \<Rightarrow> pbuf \<Rightarrow> pbuf" where
  "put_bytes off bs p =
     p\<lparr>pb_payload := take off (pb_payload p) @ bs @ drop (off + length bs) (pb_payload p)\<rparr>"

section \<open>Copying\<close>

text \<open>
  \<open>pbuf_copy (p_to, p_from)\<close>: the loop from a position in the target and a position in the source,
  with the rest of the target as it leaves it. Each pass finishes a pbuf of one of the two
  chains: the one with fewer bytes left, or both.
\<close>

definition queue_like :: "pbuf list \<Rightarrow> bool" where
  "queue_like ps \<longleftrightarrow> ps \<noteq> [] \<and> pb_len (hd ps) = pb_tot_len (hd ps) \<and> tl ps \<noteq> []"

definition left_from :: "nat \<Rightarrow> pbuf \<Rightarrow> nat" where
  "left_from off p = length (pb_payload p) - off"

function pbuf_copy_loop :: "pbuf list \<Rightarrow> nat \<Rightarrow> pbuf list \<Rightarrow> nat \<Rightarrow> err_t \<times> pbuf list" where
  "pbuf_copy_loop (t # ts) ot (f # fs) ofr =
     (if left_from ot t = left_from ofr f then
        (if ts = [] \<and> fs \<noteq> [] then (ERR_ARG, [put_bytes ot (drop ofr (pb_payload f)) t])
         else if queue_like fs \<or> queue_like ts then (ERR_VAL, put_bytes ot (drop ofr (pb_payload f)) t # ts)
         else apsnd ((#) (put_bytes ot (drop ofr (pb_payload f)) t)) (pbuf_copy_loop ts 0 fs 0))
      else if left_from ot t > left_from ofr f then
        (if queue_like fs \<or> queue_like (t # ts) then (ERR_VAL, put_bytes ot (drop ofr (pb_payload f)) t # ts)
         else pbuf_copy_loop (put_bytes ot (drop ofr (pb_payload f)) t # ts) (ot + left_from ofr f) fs 0)
      else if ts = [] then (ERR_ARG, [put_bytes ot (take (left_from ot t) (drop ofr (pb_payload f))) t])
      else if queue_like (f # fs) \<or> queue_like ts
        then (ERR_VAL, put_bytes ot (take (left_from ot t) (drop ofr (pb_payload f))) t # ts)
      else apsnd ((#) (put_bytes ot (take (left_from ot t) (drop ofr (pb_payload f))) t))
             (pbuf_copy_loop ts 0 (f # fs) (ofr + left_from ot t)))"
| "pbuf_copy_loop ts ot [] ofr = (ERR_OK, ts)"
| "pbuf_copy_loop [] ot (f # fs) ofr = (ERR_ARG, [])"
  by pat_completeness auto
termination
  by (relation "measure (\<lambda>(ts, ot, fs, ofr). length ts + length fs)") (auto split: if_splits)

declare pbuf_copy_loop.simps [simp del]

definition pbuf_copy :: "pbuf list \<Rightarrow> pbuf list \<Rightarrow> err_t \<times> pbuf list" where
  "pbuf_copy p_to p_from =
     (if p_to \<noteq> [] \<and> p_from \<noteq> [] \<and> pb_tot_len (hd p_from) \<le> pb_tot_len (hd p_to)
      then pbuf_copy_loop p_to 0 p_from 0 else (ERR_ARG, p_to))"

text \<open>\<open>pbuf_clone (layer, PBUF_RAM, p)\<close>; the result of the copy is not used.\<close>

definition pbuf_clone_RAM :: "heap \<Rightarrow> pbuf_layer \<Rightarrow> pbuf list \<Rightarrow> pbuf list option" where
  "pbuf_clone_RAM heap layer p =
     map_option (\<lambda>q. snd (pbuf_copy [q] p)) (pbuf_alloc_RAM heap layer (pb_tot_len (hd p)))"

text \<open>
  The loop of \<open>pbuf_realloc\<close> and the cut in the pbuf where it ends. \<open>mem_trim\<close> gives the rest of
  the block back and leaves the block where it is.
\<close>

fun pbuf_realloc_loop :: "u16 \<Rightarrow> u16 \<Rightarrow> pbuf list \<Rightarrow> pbuf list option" where
  "pbuf_realloc_loop shrink rem_len [] = None"
| "pbuf_realloc_loop shrink rem_len (q # qs) =
     (if rem_len > pb_len q
      then map_option ((#) (q\<lparr>pb_tot_len := pb_tot_len q - shrink\<rparr>))
             (pbuf_realloc_loop shrink (rem_len - pb_len q) qs)
      else Some [q\<lparr>pb_payload := take (unat rem_len) (pb_payload q), pb_tot_len := rem_len\<rparr>])"

definition pbuf_realloc :: "pbuf list \<Rightarrow> u16 \<Rightarrow> pbuf list option" where
  "pbuf_realloc p new_len =
     (if new_len \<ge> pb_tot_len (hd p) then Some p
      else pbuf_realloc_loop (pb_tot_len (hd p) - new_len) new_len p)"

text \<open>
  \<open>pbuf_header_force\<close> with an increment that is not negative: the inner \<open>None\<close> is the result 1; the
  outer one is a move in front of the known bytes, which the code makes with data outside
  the pbuf only.
\<close>

definition pbuf_header_force :: "pbuf \<Rightarrow> nat \<Rightarrow> pbuf option option" where
  "pbuf_header_force p n =
     (if contiguous (pb_type p) then Some (pbuf_add_header p n)
      else if n \<le> length (pb_room p) then Some (pbuf_add_header (p\<lparr>pb_type := PBUF_RAM\<rparr>) n)
      else None)"

section \<open>Alignment\<close>

lemma align_eq: "LWIP_MEM_ALIGN_SIZE n = (n + 3) - take_bit 2 (n + 3)"
proof -
  have "w AND NOT 3 = w - take_bit 2 w" for w :: u32
  proof -
    have three: "(3 :: u32) = mask 2"
      by (simp add: mask_eq_exp_minus_1)
    have "take_bit 2 w + (w AND NOT 3) = take_bit 2 w OR (w AND NOT 3)"
      unfolding three by (rule disjunctive_add) (auto simp: bit_simps)
    also have "\<dots> = w"
      unfolding three by (auto intro!: bit_word_eqI simp: bit_simps)
    finally show ?thesis
      by (simp add: algebra_simps)
  qed
  from this [of "n + 3"] show ?thesis
    by (simp add: LWIP_MEM_ALIGN_SIZE_def add.commute)
qed

lemma aligned_iff: "4 dvd unat a \<longleftrightarrow> take_bit 2 a = 0" for a :: u32
  by (simp add: take_bit_eq_mod word_eq_iff_unsigned [where ?'a = nat] unat_mod mod_eq_0_iff_dvd)

lemma take_bit_2_add:
  fixes a b :: u32
  assumes "take_bit 2 a = 0"
  shows "take_bit 2 (a + b) = take_bit 2 b"
proof -
  have "unat (a + b) mod 4 = (unat a + unat b) mod 4"
    by (simp add: unat_word_ariths(1) mod_mod_cancel)
  also have "\<dots> = unat b mod 4"
    using assms by (simp add: aligned_iff [symmetric] mod_add_eq [symmetric])
  finally show ?thesis
    by (simp add: take_bit_eq_mod word_eq_iff_unsigned [where ?'a = nat] unat_mod)
qed

lemma align_add:
  assumes "take_bit 2 a = 0"
  shows "LWIP_MEM_ALIGN_SIZE (a + n) = a + LWIP_MEM_ALIGN_SIZE n"
proof -
  have "take_bit 2 (a + (n + 3)) = take_bit 2 (n + 3)"
    using assms by (rule take_bit_2_add)
  then show ?thesis
    by (simp add: align_eq add.assoc)
qed

lemma pbuf_init_room:
  fixes tot type
  assumes "4 dvd unat a" and "unat (LWIP_MEM_ALIGN_SIZE (to_u32 offset)) + unat len + 16 \<le> length bs"
  defines "p \<equiv> pbuf_init_alloced_pbuf a bs offset tot len type"
  shows "length (pb_room p) = unat (LWIP_MEM_ALIGN_SIZE (to_u32 offset))"
    and "length (pb_payload p) = unat len"
    and "pb_at p = a + 16 + LWIP_MEM_ALIGN_SIZE (to_u32 offset)"
proof -
  have "take_bit 2 (a + 16) = 0"
    using assms(1) take_bit_2_add [of a 16] by (simp add: aligned_iff)
  then have at: "LWIP_MEM_ALIGN_SIZE (a + 16 + to_u32 offset) = a + 16 + LWIP_MEM_ALIGN_SIZE (to_u32 offset)"
    by (rule align_add)
  show "length (pb_room p) = unat (LWIP_MEM_ALIGN_SIZE (to_u32 offset))"
    "length (pb_payload p) = unat len"
    "pb_at p = a + 16 + LWIP_MEM_ALIGN_SIZE (to_u32 offset)"
    using assms(2) unfolding p_def pbuf_init_alloced_pbuf_def Let_def size_simps at by simp_all
qed

lemma unat_align:
  assumes "unat n < 4294967292"
  shows "unat (LWIP_MEM_ALIGN_SIZE n) = (unat n + 3) div 4 * 4"
proof -
  have n3: "unat (n + 3) = unat n + 3"
    using assms by (simp add: unat_word_ariths(1))
  have "take_bit 2 (n + 3) \<le> n + 3"
    by (simp add: take_bit_eq_mod word_le_nat_alt unat_mod)
  then have "unat (LWIP_MEM_ALIGN_SIZE n) = (unat n + 3) - (unat n + 3) mod 4"
    by (simp add: align_eq unat_minus_le n3 take_bit_eq_mod unat_mod)
  then show ?thesis
    by (simp add: minus_mod_eq_div_mult)
qed

lemma layer_offset_le: "unat (LWIP_MEM_ALIGN_SIZE (to_u32 (layer_offset layer))) \<le> 56"
  by (cases layer) simp_all

lemma ram_sizes:
  fixes layer and len :: u16
  assumes "unat len \<le> 65000"
  defines "alen \<equiv> LWIP_MEM_ALIGN_SIZE (to_u32 len)"
    and "off \<equiv> LWIP_MEM_ALIGN_SIZE (to_u32 (layer_offset layer))"
  defines "payload_len \<equiv> to_u16 (off + alen)"
  shows "unat payload_len = unat off + unat alen"
    and "unat (to_u16 (LWIP_MEM_ALIGN_SIZE SIZEOF_STRUCT_PBUF + to_u32 payload_len))
      = 16 + unat off + unat alen"
    and "unat len \<le> unat alen"
proof -
  have alen: "unat alen = (unat len + 3) div 4 * 4"
    unfolding alen_def using assms(1) by (subst unat_align) simp_all
  then have b: "unat alen \<le> 65003" "unat off \<le> 56"
    using assms(1) layer_offset_le [of layer] by (simp_all add: off_def)
  show "unat len \<le> unat alen"
    unfolding alen by linarith
  show p: "unat payload_len = unat off + unat alen"
    using b by (simp add: payload_len_def unsigned_ucast_eq unat_word_ariths(1) take_bit_nat_eq_self)
  show "unat (to_u16 (LWIP_MEM_ALIGN_SIZE SIZEOF_STRUCT_PBUF + to_u32 payload_len))
      = 16 + unat off + unat alen"
    using b p by (simp add: unsigned_ucast_eq unat_word_ariths(1) take_bit_nat_eq_self)
qed

definition ram_block_size :: "pbuf_layer \<Rightarrow> u16 \<Rightarrow> u16" where
  "ram_block_size layer len =
     to_u16 (LWIP_MEM_ALIGN_SIZE SIZEOF_STRUCT_PBUF + to_u32 (to_u16
       (LWIP_MEM_ALIGN_SIZE (to_u32 (layer_offset layer)) + LWIP_MEM_ALIGN_SIZE (to_u32 len))))"

text \<open>What a client of \<open>pbuf_alloc\<close> relies on: room in front, length, alignment.\<close>

definition fresh :: "pbuf_layer \<Rightarrow> u16 \<Rightarrow> pbuf \<Rightarrow> bool" where
  "fresh layer len p \<longleftrightarrow> length (pb_room p) = unat (LWIP_MEM_ALIGN_SIZE (to_u32 (layer_offset layer)))
     \<and> length (pb_payload p) = unat len \<and> pb_tot_len p = len \<and> pb_type p = PBUF_RAM
     \<and> 4 dvd unat (pb_at p)"

lemma pbuf_alloc_RAM_eq:
  assumes "heap_ok heap" and "unat len \<le> 65000"
  shows "case pbuf_alloc_RAM heap layer len of
      None \<Rightarrow> heap 0 (ram_block_size layer len) = None | Some p \<Rightarrow> fresh layer len p"
proof -
  let ?off = "LWIP_MEM_ALIGN_SIZE (to_u32 (layer_offset layer))"
  let ?alen = "LWIP_MEM_ALIGN_SIZE (to_u32 len)"
  let ?n = "ram_block_size layer len"
  note sz = ram_sizes(1,2) [OF assms(2), of layer, folded ram_block_size_def] ram_sizes(3) [OF assms(2)]
  have "\<not> (to_u32 (to_u16 (?off + ?alen)) < ?alen \<or> to_u32 ?n < ?alen)"
    using sz by (simp add: word_less_nat_alt)
  then have code: "pbuf_alloc_RAM heap layer len = (case heap 0 ?n of None \<Rightarrow> None
      | Some (a, bs) \<Rightarrow> Some (pbuf_init_alloced_pbuf a bs (layer_offset layer) len len PBUF_RAM))"
    by (simp only: pbuf_alloc_RAM_def Let_def if_False ram_block_size_def)
  show ?thesis
  proof (cases "heap 0 ?n")
    case (Some ab)
    obtain a bs where ab: "ab = (a, bs)" by force
    have blk: "length bs = 16 + unat ?off + unat ?alen" "4 dvd unat a"
      using assms(1) Some sz(2) unfolding heap_ok_def ab by metis+
    let ?p = "pbuf_init_alloced_pbuf a bs (layer_offset layer) len len PBUF_RAM"
    have "unat ?off + unat len + 16 \<le> length bs"
      using blk sz(3) by simp
    note room = pbuf_init_room [OF blk(2) this, of len PBUF_RAM]
    have "take_bit 2 (a + (16 + ?off)) = 0"
      using take_bit_2_add [of a "16 + ?off"] blk(2) by (cases layer) (simp_all add: aligned_iff)
    then have "4 dvd unat (pb_at ?p)"
      by (simp add: room(3) aligned_iff add.assoc)
    moreover have "pb_tot_len ?p = len" "pb_type ?p = PBUF_RAM"
      by (simp_all add: pbuf_init_alloced_pbuf_def Let_def)
    ultimately have "fresh layer len ?p"
      using room(1,2) by (simp add: fresh_def)
    then show ?thesis
      by (simp only: code Some ab option.case prod.case)
  qed (simp only: code option.case)
qed

section \<open>Chains\<close>

text \<open>The bytes of a chain, and its pieces as the checksum routines see them.\<close>

definition pbuf_bytes :: "pbuf list \<Rightarrow> u8 list" where
  "pbuf_bytes ps = concat (map pb_payload ps)"

definition pieces :: "pbuf list \<Rightarrow> piece list" where
  "pieces ps = map (\<lambda>p. (bit (pb_at p) 0, pb_payload p)) ps"

lemma chain_bytes_pieces [simp]: "chain_bytes (pieces ps) = pbuf_bytes ps"
  by (simp add: chain_bytes_def pieces_def pbuf_bytes_def o_def)

text \<open>Every total length is the number of bytes from there to the end of the chain.\<close>

fun tot_len_ok :: "pbuf list \<Rightarrow> bool" where
  "tot_len_ok [] \<longleftrightarrow> True"
| "tot_len_ok (p # ps) \<longleftrightarrow> unat (pb_tot_len p) = length (pbuf_bytes (p # ps)) \<and> tot_len_ok ps"

lemma pool_qlen_bounds:
  assumes "case layer of None \<Rightarrow> offset = 0 | Some l \<Rightarrow> offset = layer_offset l"
  shows "pool_qlen offset rem_len \<le> rem_len"
    and "unat (pool_qlen offset rem_len) + unat (LWIP_MEM_ALIGN_SIZE (to_u32 offset)) \<le> 500"
  using assms
  by (cases layer; cases "the layer"; simp add: pool_qlen_def Let_def word_le_nat_alt word_less_nat_alt)+

lemma pbuf_alloc_pool_ok:
  assumes "heap_ok heap"
  shows "case pbuf_alloc_pool heap i layer rem_len of
      None \<Rightarrow> \<exists>j\<ge>i. heap j pool_block_size = None
    | Some ps \<Rightarrow> length (pbuf_bytes ps) = unat rem_len \<and> tot_len_ok ps \<and> ps \<noteq> []
        \<and> (\<forall>p \<in> set ps. length (pb_payload p) \<le> 500 \<and> pb_type p = PBUF_POOL)"
  using assms
proof (induction heap i layer rem_len rule: pbuf_alloc_pool.induct)
  case (1 heap i layer rem_len)
  define offset where "offset = (case layer of None \<Rightarrow> 0 | Some l \<Rightarrow> layer_offset l)"
  define qlen where "qlen = pool_qlen offset rem_len"
  have "case layer of None \<Rightarrow> offset = 0 | Some l \<Rightarrow> offset = layer_offset l"
    by (cases layer) (simp_all add: offset_def)
  note q = pool_qlen_bounds [OF this, of rem_len, folded qlen_def]
  show ?case
  proof (cases "heap i pool_block_size")
    case None
    then show ?thesis
      by (subst pbuf_alloc_pool.simps) auto
  next
    case (Some ab)
    obtain a bs where ab: "ab = (a, bs)" by force
    have blk: "length bs = 516" "4 dvd unat a"
      using 1(2) Some unfolding heap_ok_def ab by (force simp: pool_block_size_def)+
    define p where "p = pbuf_init_alloced_pbuf a bs offset rem_len qlen PBUF_POOL"
    have "unat (LWIP_MEM_ALIGN_SIZE (to_u32 offset)) + unat qlen + 16 \<le> length bs"
      using q blk by simp
    note room = pbuf_init_room [OF blk(2) this, of rem_len PBUF_POOL, folded p_def]
    have fields: "pb_tot_len p = rem_len" "pb_type p = PBUF_POOL"
      by (simp_all add: p_def pbuf_init_alloced_pbuf_def Let_def)
    have rest: "unat (rem_len - qlen) = unat rem_len - unat qlen" "unat qlen \<le> unat rem_len"
      using q(1) by (simp_all add: unat_minus_le word_le_nat_alt)
    have code: "pbuf_alloc_pool heap i layer rem_len = (if rem_len - qlen > 0
        then map_option ((#) p) (pbuf_alloc_pool heap (i + 1) None (rem_len - qlen)) else Some [p])"
      by (subst pbuf_alloc_pool.simps)
         (simp add: Some ab Let_def offset_def [symmetric] qlen_def [symmetric] p_def [symmetric])
    show ?thesis
    proof (cases "rem_len - qlen > 0")
      case True
      from 1(1) [OF offset_def qlen_def Some ab [symmetric] p_def True 1(2)] show ?thesis
        using True q(2) room(2) rest
        by (cases "pbuf_alloc_pool heap (i + 1) None (rem_len - qlen)")
           (auto simp: code fields pbuf_bytes_def intro: Suc_leD)
    next
      case False
      then have "unat qlen = unat rem_len"
        using rest by (simp add: word_less_nat_alt)
      then show ?thesis
        using False room(2) q(2) by (simp add: code fields pbuf_bytes_def)
    qed
  qed
qed

text \<open>
  A chain from the pool. \<open>pbuf_alloc (layer, length, PBUF_POOL)\<close> always ends. When every
  \<open>mem_malloc\<close> it makes succeeds it returns a chain whose buffers hold together exactly
  \<open>length\<close> bytes, each at most 500, with every \<open>tot_len\<close> equal to the bytes from there on; it
  returns \<open>NULL\<close> only if a \<open>mem_malloc\<close> failed.
\<close>

theorem pbuf_alloc_pool_chain:
  assumes "heap_ok heap"
  shows "case pbuf_alloc_pool heap 0 (Some layer) len of
      None \<Rightarrow> \<exists>j. heap j pool_block_size = None
    | Some ps \<Rightarrow> length (pbuf_bytes ps) = unat len \<and> tot_len_ok ps
        \<and> (\<forall>p \<in> set ps. length (pb_payload p) \<le> 500)"
  using pbuf_alloc_pool_ok [OF assms, of 0 len "Some layer"] by (auto split: option.splits)

definition sample_heap :: heap where
  "sample_heap i n = Some (0x20000000, replicate (unat n) 0)"

lemma sample_heap_ok: "heap_ok sample_heap"
  by (auto simp: heap_ok_def sample_heap_def)

lemma pbuf_alloc_pool_chain_witness:
  "\<exists>ps. pbuf_alloc_pool sample_heap 0 (Some PBUF_RAW) 1514 = Some ps
     \<and> length (pbuf_bytes ps) = 1514 \<and> tot_len_ok ps"
  using pbuf_alloc_pool_chain [OF sample_heap_ok, of 1514 PBUF_RAW]
  by (auto simp: sample_heap_def split: option.splits)

section \<open>Headers in front of a payload\<close>

lemma pbuf_add_header_Some:
  assumes "pb_type p = PBUF_RAM" "0 < n" "n \<le> length (pb_room p)" "n + unat (pb_tot_len p) < 65536"
  obtains h where "length h = n" and "pbuf_add_header p n =
    Some (p\<lparr>pb_room := take (length (pb_room p) - n) (pb_room p), pb_payload := h @ pb_payload p,
            pb_tot_len := pb_tot_len p + of_nat n, pb_at := pb_at p - of_nat n\<rparr>)"
proof
  let ?h = "drop (length (pb_room p) - n) (pb_room p)"
  show "length ?h = n"
    using assms(3) by simp
  have n: "unat (of_nat n :: u16) = n"
    using assms(4) by (intro unat_of_nat_u16) simp
  then have "\<not> of_nat n + pb_tot_len p < of_nat n"
    using assms(4) by (simp add: word_less_nat_alt unat_word_ariths(1))
  then show "pbuf_add_header p n =
    Some (p\<lparr>pb_room := take (length (pb_room p) - n) (pb_room p), pb_payload := ?h @ pb_payload p,
            pb_tot_len := pb_tot_len p + of_nat n, pb_at := pb_at p - of_nat n\<rparr>)"
    using assms by (simp add: pbuf_add_header_def contiguous_def Let_def)
qed

lemma put_bytes_front: "length bs = n \<Longrightarrow> length h = n \<Longrightarrow>
    put_bytes 0 bs (p\<lparr>pb_payload := h @ q\<rparr>) = p\<lparr>pb_payload := bs @ q\<rparr>"
  by (simp add: put_bytes_def)

lemma put_bytes_at:
  assumes "pb_payload q = xs @ old @ ys" "length xs = n" "length bs = length old"
  shows "put_bytes n bs q = q\<lparr>pb_payload := xs @ bs @ ys\<rparr>"
  using assms by (simp add: put_bytes_def)

lemma unat_pb_len: "length (pb_payload q) < 65536 \<Longrightarrow> unat (pb_len q) = length (pb_payload q)"
  unfolding pb_len_def by (rule unat_of_nat_u16)

lemma tot_len_ok_less: "tot_len_ok (q # qs) \<Longrightarrow> length (pb_payload q) + length (pbuf_bytes qs) < 65536"
  using unat_u16_less [of "pb_tot_len q"] by (simp add: pbuf_bytes_def)

lemma pbuf_bytes_chain: "pbuf_bytes (pbuf_chain p t) = pbuf_bytes p @ pbuf_bytes t"
  by (simp add: pbuf_chain_def pbuf_bytes_def o_def)

lemma tot_len_ok_chain:
  assumes "tot_len_ok p" "tot_len_ok (q # qs)" "length (pbuf_bytes p) + length (pbuf_bytes (q # qs)) < 65536"
  shows "tot_len_ok (pbuf_chain p (q # qs))"
  using assms
proof (induction p)
  case (Cons a p)
  have "pbuf_bytes (map (\<lambda>p. p\<lparr>pb_tot_len := pb_tot_len p + pb_tot_len q\<rparr>) p) = pbuf_bytes p"
    by (simp add: pbuf_bytes_def o_def)
  then show ?case
    using Cons by (simp add: pbuf_chain_def pbuf_bytes_def unat_word_ariths(1))
qed (simp add: pbuf_chain_def)

lemma pbuf_add_header_eq:
  assumes "contiguous (pb_type q)" "pb_room q = r0 @ h" "h \<noteq> []" "length h + unat (pb_tot_len q) < 65536"
  shows "pbuf_add_header q (length h) = Some (q\<lparr>pb_room := r0, pb_payload := h @ pb_payload q,
    pb_tot_len := pb_tot_len q + of_nat (length h), pb_at := pb_at q - of_nat (length h)\<rparr>)"
proof -
  have "unat (of_nat (length h) :: u16) = length h"
    using assms(4) by (intro unat_of_nat_u16) simp
  then have "\<not> of_nat (length h) + pb_tot_len q < of_nat (length h)"
    using assms(4) by (simp add: word_less_nat_alt unat_word_ariths(1))
  then show ?thesis
    using assms by (simp add: pbuf_add_header_def Let_def)
qed

lemma pbuf_remove_header_eq:
  assumes "pb_payload q = h @ rest" "h \<noteq> []" "length (pb_payload q) < 65536"
  shows "pbuf_remove_header q (length h) = Some (q\<lparr>pb_room := pb_room q @ h, pb_payload := rest,
    pb_tot_len := pb_tot_len q - of_nat (length h), pb_at := pb_at q + of_nat (length h)\<rparr>)"
proof -
  have "unat (of_nat (length h) :: u16) = length h"
    using assms by (intro unat_of_nat_u16) simp
  then have "\<not> of_nat (length h) > pb_len q"
    using unat_pb_len [OF assms(3)] assms(1) by (simp add: word_less_nat_alt)
  then show ?thesis
    using assms by (simp add: pbuf_remove_header_def)
qed

lemma strip_header:
  assumes "tot_len_ok (q # qs)" "0 < n" "n \<le> length (pb_payload q)"
  obtains q1 h where "pbuf_remove_header q n = Some q1" "pb_payload q = h @ pb_payload q1" "length h = n"
    "pb_room q1 = pb_room q @ h" "pb_type q1 = pb_type q" "tot_len_ok (q1 # qs)"
    "pbuf_bytes (q # qs) = h @ pbuf_bytes (q1 # qs)"
proof -
  define h rest where "h = take n (pb_payload q)" and "rest = drop n (pb_payload q)"
  have pay: "pb_payload q = h @ rest" "length h = n" "h \<noteq> []"
    using assms(2,3) by (auto simp: h_def rest_def)
  have len: "length (pb_payload q) < 65536" "unat (pb_tot_len q) = n + length rest + length (pbuf_bytes qs)"
    using assms(1) tot_len_ok_less [OF assms(1)] pay by (simp_all add: pbuf_bytes_def)
  define q1 where "q1 = q\<lparr>pb_room := pb_room q @ h, pb_payload := rest, pb_tot_len := pb_tot_len q - of_nat n,
    pb_at := pb_at q + of_nat n\<rparr>"
  have n: "unat (of_nat n :: u16) = n"
    using assms(3) len(1) by (intro unat_of_nat_u16) simp
  have "unat (pb_tot_len q - of_nat n) = length rest + length (pbuf_bytes qs)"
    using len(2) n by (subst unat_minus_le) (simp_all add: word_le_nat_alt)
  then have "tot_len_ok (q1 # qs)"
    using assms(1) by (simp add: q1_def pbuf_bytes_def)
  moreover have "pbuf_remove_header q n = Some q1"
    using pbuf_remove_header_eq [OF pay(1,3) len(1)] pay(2) by (simp add: q1_def)
  ultimately show thesis
    using pay by (intro that [of q1 h]) (simp_all add: q1_def pbuf_bytes_def)
qed

section \<open>Cutting a chain\<close>

lemma pbuf_realloc_loop_cut:
  assumes "tot_len_ok p" "p \<noteq> []" "unat n \<le> length (pbuf_bytes p)" "unat shrink = length (pbuf_bytes p) - unat n"
  shows "\<exists>q' qs'. pbuf_realloc_loop shrink n p = Some (q' # qs') \<and> pbuf_bytes (q' # qs') = take (unat n) (pbuf_bytes p)
    \<and> tot_len_ok (q' # qs') \<and> q' = (hd p)\<lparr>pb_payload := take (unat n) (pb_payload (hd p)), pb_tot_len := n\<rparr>"
  using assms
proof (induction p arbitrary: n)
  case (Cons q qs)
  let ?k = "length (pb_payload q)"
  have k: "unat (pb_len q) = ?k" and tot: "unat (pb_tot_len q) = ?k + length (pbuf_bytes qs)"
    using Cons.prems(1) tot_len_ok_less [OF Cons.prems(1)] by (simp_all add: unat_pb_len pbuf_bytes_def)
  have all: "length (pbuf_bytes (q # qs)) = ?k + length (pbuf_bytes qs)"
    by (simp add: pbuf_bytes_def)
  show ?case
  proof (cases "unat n > ?k")
    case True
    have sub: "unat (n - pb_len q) = unat n - ?k"
      using True k by (subst unat_minus_le) (simp_all add: word_le_nat_alt)
    have "unat (pb_tot_len q - shrink) = ?k + length (pbuf_bytes qs) - unat shrink"
      using Cons.prems(3,4) tot all by (subst unat_minus_le) (simp_all add: word_le_nat_alt)
    then have "unat (pb_tot_len q - shrink) = unat n"
      using Cons.prems(3,4) all by simp
    then have n: "pb_tot_len q - shrink = n"
      by (rule unsigned_word_eqI)
    have qs: "qs \<noteq> []"
      using True Cons.prems(3) all by (auto simp: pbuf_bytes_def)
    have "tot_len_ok qs" "unat (n - pb_len q) \<le> length (pbuf_bytes qs)"
      "unat shrink = length (pbuf_bytes qs) - unat (n - pb_len q)"
      using Cons.prems True sub all by simp_all
    from Cons.IH [OF this(1) qs this(2,3)] obtain q' qs' where
      "pbuf_realloc_loop shrink (n - pb_len q) qs = Some (q' # qs')"
      "pbuf_bytes (q' # qs') = take (unat n - ?k) (pbuf_bytes qs)" "tot_len_ok (q' # qs')"
      unfolding sub by blast
    then show ?thesis
      using True k n Cons.prems(3) all by (auto simp: word_less_nat_alt pbuf_bytes_def)
  next
    case False
    then show ?thesis
      using k by (simp add: word_less_nat_alt pbuf_bytes_def)
  qed
qed simp

lemma pbuf_realloc_cut:
  assumes "tot_len_ok p" "p \<noteq> []" "unat n \<le> length (pbuf_bytes p)"
  shows "\<exists>q' qs'. (if n < pb_tot_len (hd p) then pbuf_realloc p n else Some p) = Some (q' # qs')
    \<and> pbuf_bytes (q' # qs') = take (unat n) (pbuf_bytes p) \<and> tot_len_ok (q' # qs')
    \<and> q' = (hd p)\<lparr>pb_payload := take (unat n) (pb_payload (hd p)), pb_tot_len := n\<rparr>"
proof -
  obtain q qs where p: "p = q # qs"
    using assms(2) by (cases p) auto
  have tot: "unat (pb_tot_len q) = length (pbuf_bytes p)"
    using assms(1) by (simp add: p)
  show ?thesis
  proof (cases "n < pb_tot_len q")
    case True
    then have "unat (pb_tot_len q - n) = length (pbuf_bytes p) - unat n"
      using tot by (subst unat_minus_le) (simp_all add: word_le_nat_alt word_less_nat_alt)
    moreover have "\<not> pb_tot_len q \<le> n"
      using True by simp
    ultimately show ?thesis
      using pbuf_realloc_loop_cut [OF assms, of "pb_tot_len q - n"] True
      by (simp only: p pbuf_realloc_def list.sel if_True if_False)
  next
    case False
    then have "unat n = length (pbuf_bytes p)"
      using tot assms(3) by (simp add: word_less_nat_alt)
    moreover have "n = pb_tot_len q"
      using of_nat_tot [OF calculation] of_nat_tot [OF tot] by simp
    ultimately have "n = pb_tot_len q" "length (pb_payload q) \<le> unat n"
      by (simp_all add: p pbuf_bytes_def)
    then show ?thesis
      using False assms(1) \<open>unat n = _\<close> by (simp add: p)
  qed
qed

end
