(* ===== verification/NetIf.thy ===== *)
theory NetIf
  imports EthIf Pbuf
begin

text \<open>
  The two ends of the network interface in \<open>ethernetif.c\<close> that the stack calls:
  \<open>low_level_output\<close> and \<open>low_level_input\<close>, with the arrays \<open>EthFrameTX\<close> and \<open>EthFrameRX\<close> through
  which the frames go, and \<open>ethernetif_input\<close>.

  An array is the memory from its start; a copy that leaves its 1514 bytes makes the
  operation \<open>None\<close>.
\<close>

section \<open>State\<close>

record port =
  dev :: eth
  EthFrameTX :: "nat \<Rightarrow> u8"
  EthFrameRX :: "nat \<Rightarrow> u8"

definition ETH_FRAME_SIZE :: nat where
  "ETH_FRAME_SIZE = 1514"

text \<open>\<open>memcpy\<close> to offset \<open>l\<close> of an array, and a read of \<open>n\<close> bytes from it.\<close>

definition copy_to :: "(nat \<Rightarrow> u8) \<Rightarrow> nat \<Rightarrow> u8 list \<Rightarrow> nat \<Rightarrow> u8" where
  "copy_to m l bs = (\<lambda>i. if l \<le> i \<and> i < l + length bs then bs ! (i - l) else m i)"

definition copy_from :: "(nat \<Rightarrow> u8) \<Rightarrow> nat \<Rightarrow> nat \<Rightarrow> u8 list" where
  "copy_from m l n = map m [l..<l + n]"

text \<open>The words of a byte array on the little-endian core, and the bytes of words.\<close>

definition word_at :: "(nat \<Rightarrow> u8) \<Rightarrow> nat \<Rightarrow> u32" where
  "word_at m i = to_u32 (m (4 * i)) OR push_bit 8 (to_u32 (m (4 * i + 1)))
     OR push_bit 16 (to_u32 (m (4 * i + 2))) OR push_bit 24 (to_u32 (m (4 * i + 3)))"

definition word_bytes :: "u32 \<Rightarrow> u8 list" where
  "word_bytes w = [to_u8 w, to_u8 (drop_bit 8 w), to_u8 (drop_bit 16 w), to_u8 (drop_bit 24 w)]"

section \<open>Output\<close>

text \<open>The loop over the chain, with \<open>l\<close>.\<close>

fun gather :: "pbuf list \<Rightarrow> nat \<Rightarrow> (nat \<Rightarrow> u8) \<Rightarrow> (nat \<times> (nat \<Rightarrow> u8)) option" where
  "gather [] l m = Some (l, m)"
| "gather (q # qs) l m =
     (if l + length (pb_payload q) \<le> ETH_FRAME_SIZE
      then gather qs (l + length (pb_payload q)) (copy_to m l (pb_payload q)) else None)"

definition low_level_output :: "pbuf list \<Rightarrow> port \<Rightarrow> (err_t \<times> port) option" where
  "low_level_output p s =
     (case gather p 0 (EthFrameTX s) of
        None \<Rightarrow> None
      | Some (l, m) \<Rightarrow>
          let (Err, e) = EthWriteFrame (word_at m) (of_nat l) (dev s)
          in Some (Err, s\<lparr>EthFrameTX := m, dev := e\<rparr>))"

section \<open>Input\<close>

text \<open>The words that \<open>EthReadFrame\<close> stores, as bytes of \<open>EthFrameRX\<close>.\<close>

definition bytes_of_words :: "u32 list \<Rightarrow> u8 list" where
  "bytes_of_words ws = concat (map word_bytes ws)"

fun scatter :: "(nat \<Rightarrow> u8) \<Rightarrow> nat \<Rightarrow> pbuf list \<Rightarrow> pbuf list" where
  "scatter m l [] = []"
| "scatter m l (q # qs) =
     q\<lparr>pb_payload := copy_from m l (length (pb_payload q))\<rparr> # scatter m (l + length (pb_payload q)) qs"

definition low_level_input :: "heap \<Rightarrow> port \<Rightarrow> (pbuf list option \<times> port) option" where
  "low_level_input heap s =
     (let (len, frame, e) = EthReadFrame (dev s);
          bs = bytes_of_words frame
      in if length bs > ETH_FRAME_SIZE then None
         else
           let m = copy_to (EthFrameRX s) 0 bs;
               s1 = s\<lparr>dev := e, EthFrameRX := m\<rparr>
           in case pbuf_alloc_pool heap 0 (Some PBUF_RAW) len of
                None \<Rightarrow> Some (None, s1)
              | Some p \<Rightarrow> Some (Some (scatter m 0 p), s1))"

text \<open>
  \<open>ethernetif_input\<close>: what is handed to \<open>netif->input\<close>, if anything; \<open>Some None\<close> is a call with
  a \<open>NULL\<close> pbuf, which the code makes when there is no memory.
\<close>

definition ethernetif_input :: "heap \<Rightarrow> port \<Rightarrow> (pbuf list option option \<times> port) option" where
  "ethernetif_input heap s =
     (if ETH_R_Head (dev s) \<noteq> ETH_R_Tail (dev s)
      then map_option (\<lambda>(p, s'). (Some p, s')) (low_level_input heap s)
      else Some (None, s))"

section \<open>Bytes and words\<close>

lemma word_bytes_word_at: "word_bytes (word_at m i) = [m (4 * i), m (4 * i + 1), m (4 * i + 2), m (4 * i + 3)]"
  by (auto simp: word_bytes_def word_at_def intro!: bit_word_eqI)
     (auto simp: bit_simps dest: bit_imp_le_length)

lemma copy_from_Suc: "copy_from m l (Suc n) = m l # copy_from m (Suc l) n"
  by (simp add: copy_from_def upt_conv_Cons del: upt_Suc)

lemma copy_from_4: "copy_from m l (4 + n) = [m l, m (l + 1), m (l + 2), m (l + 3)] @ copy_from m (l + 4) n"
  by (simp add: copy_from_Suc eval_nat_numeral)

lemma bytes_of_words_load: "bytes_of_words (load_words (word_at m) k n) = copy_from m (4 * k) (4 * n)"
proof (induction n arbitrary: k)
  case (Suc n)
  have "copy_from m (4 * k) (4 * Suc n) = [m (4 * k), m (4 * k + 1), m (4 * k + 2), m (4 * k + 3)]
      @ copy_from m (4 * Suc k) (4 * n)"
    using copy_from_4 [of m "4 * k" "4 * n"] by (simp add: add.commute)
  then show ?case
    using Suc [of "Suc k"] by (simp add: bytes_of_words_def word_bytes_word_at)
qed (simp add: bytes_of_words_def copy_from_def)

lemma length_bytes_of_words [simp]: "length (bytes_of_words ws) = 4 * length ws"
  by (induction ws) (simp_all add: bytes_of_words_def word_bytes_def)

lemma take_copy_from: "n \<le> k \<Longrightarrow> take n (copy_from m l k) = copy_from m l n"
  by (simp add: copy_from_def take_map take_upt)

lemma copy_from_to: "copy_from (copy_to m 0 bs) 0 (length bs) = bs"
  by (rule nth_equalityI) (simp_all add: copy_from_def copy_to_def)

lemma copy_from_add: "copy_from m l (a + b) = copy_from m l a @ copy_from m (l + a) b"
  using upt_add_eq_append [of l "l + a" b] by (simp add: copy_from_def add.assoc)

text \<open>The bytes of a frame in the transmit region.\<close>

definition tx_bytes :: "tx_frame \<Rightarrow> u8 list" where
  "tx_bytes f = take (unat (snd f)) (bytes_of_words (load_words (fst f) 0 (words_of (unat (snd f)))))"

lemma tx_bytes_word_at: "tx_bytes (word_at m, n) = copy_from m 0 (unat n)"
  using words_of_bounds(1) [of "unat n"] bytes_of_words_load [of m 0 "words_of (unat n)"]
  by (simp add: tx_bytes_def take_copy_from)

lemma gather_result:
  assumes "l + length (pbuf_bytes ps) \<le> ETH_FRAME_SIZE"
  shows "\<exists>m'. gather ps l m = Some (l + length (pbuf_bytes ps), m')
    \<and> copy_from m' l (length (pbuf_bytes ps)) = pbuf_bytes ps \<and> copy_from m' 0 l = copy_from m 0 l"
  using assms
proof (induction ps arbitrary: l m)
  case (Cons q qs)
  let ?n = "length (pb_payload q)" and ?m = "copy_to m l (pb_payload q)"
  have "l + ?n + length (pbuf_bytes qs) \<le> ETH_FRAME_SIZE"
    using Cons.prems by (simp add: pbuf_bytes_def)
  from Cons.IH [OF this, of ?m] obtain m' where
    m': "gather qs (l + ?n) ?m = Some (l + ?n + length (pbuf_bytes qs), m')"
    "copy_from m' (l + ?n) (length (pbuf_bytes qs)) = pbuf_bytes qs"
    "copy_from m' 0 (l + ?n) = copy_from ?m 0 (l + ?n)"
    by blast
  have "copy_from ?m 0 l = copy_from m 0 l" "copy_from ?m l ?n = pb_payload q"
    by (rule nth_equalityI, simp_all add: copy_from_def copy_to_def)+
  then have "copy_from m' 0 l = copy_from m 0 l" "copy_from m' l ?n = pb_payload q"
    using m'(3) by (simp_all add: copy_from_add [of _ 0])  (simp_all add: copy_from_def)
  then show ?case
    using m' Cons.prems by (simp add: pbuf_bytes_def copy_from_add add.assoc)
qed (simp add: pbuf_bytes_def copy_from_def)

section \<open>Frames through the interface\<close>

lemma low_level_output_queue:
  assumes "tx_holds (dev s) fs" and "length (pbuf_bytes p) \<le> ETH_FRAME_SIZE"
    and "length (tx_enc fs) + words_of (length (pbuf_bytes p)) + 2 < tx_words (dev s)"
  shows "\<exists>s' f. low_level_output p s = Some (ERR_OK, s') \<and> tx_holds (dev s') (fs @ [f])
    \<and> tx_bytes f = pbuf_bytes p \<and> tx_words (dev s') = tx_words (dev s) \<and> rx_same (dev s) (dev s')"
proof -
  let ?n = "length (pbuf_bytes p)"
  obtain m where m: "gather p 0 (EthFrameTX s) = Some (?n, m)" "copy_from m 0 ?n = pbuf_bytes p"
    using gather_result [of 0 p "EthFrameTX s"] assms(2) by auto
  define f where "f = (word_at m, of_nat ?n :: u16)"
  have n: "unat (of_nat ?n :: u16) = ?n"
    using assms(2) by (intro unat_of_nat_u16) (simp add: ETH_FRAME_SIZE_def)
  have fits: "length (tx_enc fs) + tx_weight f < tx_words (dev s)"
    using assms(3) n by (simp add: tx_weight_def f_def)
  note sent = EthWriteFrame_queue [OF assms(1) fits]
  have "low_level_output p s = Some (ERR_OK, s\<lparr>EthFrameTX := m, dev := tx_after f (dev s)\<rparr>)"
    using sent(1) by (simp add: low_level_output_def m f_def)
  moreover have "tx_bytes f = pbuf_bytes p"
    using tx_bytes_word_at [of m "of_nat ?n"] m(2) n by (simp add: f_def)
  moreover have "tx_words (tx_after f (dev s)) = tx_words (dev s)" "rx_same (dev s) (tx_after f (dev s))"
    using assms(1) by (simp_all add: tx_after_sel(3) tx_after_rx_same tx_holds_def)
  ultimately show ?thesis
    using sent(2) by (intro exI [of _ "s\<lparr>EthFrameTX := m, dev := tx_after f (dev s)\<rparr>"] exI [of _ f]) simp
qed

lemma length_pbuf_scatter: "map (length \<circ> pb_payload) (scatter m l ps) = map (length \<circ> pb_payload) ps"
  by (induction ps arbitrary: l) (simp_all add: copy_from_def)

lemma pbuf_bytes_scatter: "pbuf_bytes (scatter m l ps) = copy_from m l (length (pbuf_bytes ps))"
proof (induction ps arbitrary: l)
  case (Cons q qs)
  from Cons [of "l + length (pb_payload q)"] show ?case
    by (simp add: pbuf_bytes_def copy_from_add)
qed (simp add: pbuf_bytes_def copy_from_def)

text \<open>The bytes of a received frame, without the frame check sequence.\<close>

definition rx_bytes :: "rx_frame \<Rightarrow> u8 list" where
  "rx_bytes f = take (rx_frame_len f - 4) (bytes_of_words (snd f))"

lemma bytes_of_words_butlast: "ws \<noteq> [] \<Longrightarrow> bytes_of_words ws = bytes_of_words (butlast ws) @ word_bytes (last ws)"
  by (induction ws) (auto simp: bytes_of_words_def)

lemma rx_bytes_butlast:
  assumes "rx_frame_ok f"
  shows "rx_bytes f = take (rx_frame_len f - 4) (bytes_of_words (butlast (snd f)))"
    and "rx_frame_len f - 4 \<le> length (bytes_of_words (butlast (snd f)))"
proof -
  have w: "4 \<le> rx_frame_len f" "length (snd f) = words_of (rx_frame_len f)"
    using assms by (simp_all add: rx_frame_ok_def)
  then show le: "rx_frame_len f - 4 \<le> length (bytes_of_words (butlast (snd f)))"
    using words_of_bounds(1) [of "rx_frame_len f"] by simp
  have "snd f \<noteq> []"
    using w words_of_bounds(1) [of "rx_frame_len f"] by auto
  then show "rx_bytes f = take (rx_frame_len f - 4) (bytes_of_words (butlast (snd f)))"
    using le by (simp add: rx_bytes_def bytes_of_words_butlast)
qed

text \<open>
  C38. Output. A chain of at most 1514 bytes for which the transmit region has room is put
  behind the frames already there, as one frame whose bytes are those of the chain, and the
  call reports success.
\<close>

theorem low_level_output_correct:
  assumes "tx_holds (dev s) fs" and "length (pbuf_bytes p) \<le> 1514"
    and "length (tx_enc fs) + words_of (length (pbuf_bytes p)) + 2 < tx_words (dev s)"
  shows "\<exists>s' f. low_level_output p s = Some (ERR_OK, s') \<and> tx_holds (dev s') (fs @ [f])
    \<and> tx_bytes f = pbuf_bytes p"
  using low_level_output_queue [OF assms(1), of p] assms(2,3) by (auto simp: ETH_FRAME_SIZE_def)

definition port_zero :: port where
  "port_zero = \<lparr>dev = EthOn eth_zero, EthFrameTX = (\<lambda>_. 0), EthFrameRX = (\<lambda>_. 0)\<rparr>"

definition sample_pbuf :: "u8 list \<Rightarrow> pbuf" where
  "sample_pbuf bs = \<lparr>pb_room = [], pb_payload = bs, pb_tot_len = of_nat (length bs), pb_type = PBUF_RAM,
     pb_at = 0x20000000\<rparr>"

lemma low_level_output_correct_witness:
  "\<exists>s' f. low_level_output [sample_pbuf [1, 2, 3], sample_pbuf [4, 5]] port_zero = Some (ERR_OK, s')
     \<and> tx_holds (dev s') [f] \<and> tx_bytes f = [1, 2, 3, 4, 5]"
proof -
  have "tx_holds (dev port_zero) []" "tx_words (dev port_zero) = 1024"
    by (simp_all add: port_zero_def EthOn_queues EthOn_words)
  with low_level_output_correct [of port_zero "[]" "[sample_pbuf [1, 2, 3], sample_pbuf [4, 5]]"]
  show ?thesis
    by (simp add: sample_pbuf_def pbuf_bytes_def words_of_def tx_enc_def)
qed

text \<open>The first buffer of a chain for a frame holds all its headers.\<close>

lemma pool_first:
  assumes "heap_ok heap" "pbuf_alloc_pool heap 0 (Some PBUF_RAW) len = Some (q # qs)"
  shows "length (pb_payload q) = min 500 (unat len)" "pb_type q = PBUF_POOL"
proof -
  show "pb_type q = PBUF_POOL"
    using pbuf_alloc_pool_ok [OF assms(1), of 0 len "Some PBUF_RAW"] assms(2) by simp
  obtain a bs where h: "heap 0 pool_block_size = Some (a, bs)"
    using assms(2) by (cases "heap 0 pool_block_size") (auto simp: pbuf_alloc_pool.simps [of heap 0] Let_def)
  then have blk: "length bs = 516" "4 dvd unat a"
    using assms(1) unfolding heap_ok_def by (force simp: pool_block_size_def)+
  have qlen: "unat (pool_qlen 0 len) = min 500 (unat len)"
    by (simp add: pool_qlen_def Let_def word_less_nat_alt min_def)
  have "q = pbuf_init_alloced_pbuf a bs 0 len (pool_qlen 0 len) PBUF_POOL"
    using assms(2) h by (subst (asm) pbuf_alloc_pool.simps) (auto simp: Let_def split: if_splits)
  then show "length (pb_payload q) = min 500 (unat len)"
    using pbuf_init_room(2) [OF blk(2), of 0 "pool_qlen 0 len" bs] blk(1) qlen by simp
qed

lemma tot_len_ok_scatter: "tot_len_ok (scatter m l ps) = tot_len_ok ps"
proof (induction ps arbitrary: l)
  case (Cons q qs)
  then show ?case
    using pbuf_bytes_scatter [of m l "q # qs"] by (simp add: copy_from_def)
qed simp

lemma ethernetif_input_chain:
  assumes "rx_holds (dev s) (f # fs)" and "heap_ok heap" and "\<forall>j. heap j pool_block_size \<noteq> None"
  shows "if rx_frame_len f \<le> 1516
    then \<exists>q qs s'. ethernetif_input heap s = Some (Some (Some (q # qs)), s') \<and> rx_holds (dev s') fs
      \<and> tx_same (dev s) (dev s') \<and> pbuf_bytes (q # qs) = rx_bytes f \<and> tot_len_ok (q # qs) \<and> pb_type q = PBUF_POOL
      \<and> length (pb_payload q) = min 500 (length (rx_bytes f))
    else ethernetif_input heap s = None"
proof -
  obtain e where e: "EthReadFrame (dev s) = (of_nat (rx_frame_len f - 4), butlast (snd f), e)"
    "rx_holds e fs"
    using EthReadFrame_queue [OF assms(1)] by blast
  note tx = EthReadFrame_tx_same [OF e(1)]
  have ok: "rx_frame_ok f"
    using assms(1) by (simp add: rx_holds_def)
  have pending: "ETH_R_Head (dev s) \<noteq> ETH_R_Tail (dev s)"
    using rx_pending_holds [OF assms(1)] by (simp add: rx_pending_def)
  let ?bs = "bytes_of_words (butlast (snd f))" and ?len = "of_nat (rx_frame_len f - 4) :: u16"
  let ?m = "copy_to (EthFrameRX s) 0 ?bs"
  have stored: "length ?bs = 4 * (words_of (rx_frame_len f) - 1)"
    using ok by (simp add: rx_frame_ok_def)
  have len: "unat ?len = rx_frame_len f - 4"
    by (intro unat_of_nat_u16) (simp add: rx_frame_len_def less_imp_diff_less)
  note alloc = pbuf_alloc_pool_ok [OF assms(2), of 0 ?len "Some PBUF_RAW"]
  have "pbuf_alloc_pool heap 0 (Some PBUF_RAW) ?len \<noteq> None"
  proof
    assume "pbuf_alloc_pool heap 0 (Some PBUF_RAW) ?len = None"
    with alloc have "\<exists>j. heap j pool_block_size = None"
      by auto
    with assms(3) show False
      by blast
  qed
  then obtain p where p: "pbuf_alloc_pool heap 0 (Some PBUF_RAW) ?len = Some p"
    by blast
  then obtain q qs where q: "p = q # qs" "length (pb_payload q) = min 500 (unat ?len)" "pb_type q = PBUF_POOL"
    using alloc pool_first [OF assms(2)] by (cases p) auto
  have p_len: "length (pbuf_bytes p) = rx_frame_len f - 4"
    using alloc p len by simp
  have in_bs: "copy_from ?m 0 (rx_frame_len f - 4) = take (rx_frame_len f - 4) ?bs"
    using take_copy_from [OF rx_bytes_butlast(2) [OF ok], of ?m 0] by (simp only: copy_from_to)
  show ?thesis
  proof (cases "rx_frame_len f \<le> 1516")
    case True
    then have "words_of (rx_frame_len f) \<le> 379"
      by (simp add: words_of_def)
    then have "\<not> length ?bs > ETH_FRAME_SIZE"
      unfolding stored ETH_FRAME_SIZE_def by linarith
    then have "ethernetif_input heap s
        = Some (Some (Some (scatter ?m 0 p)), s\<lparr>dev := e, EthFrameRX := ?m\<rparr>)"
      using pending by (simp add: ethernetif_input_def low_level_input_def e(1) p Let_def)
    moreover have "pbuf_bytes (scatter ?m 0 p) = rx_bytes f" "tot_len_ok (scatter ?m 0 p)"
      using alloc p by (simp_all add: pbuf_bytes_scatter p_len in_bs rx_bytes_butlast(1) [OF ok] tot_len_ok_scatter)
    moreover have "length (rx_bytes f) = unat ?len"
      using rx_bytes_butlast [OF ok] len by simp
    ultimately show ?thesis
      using True e(2) tx q(2,3) by (simp add: q(1) copy_from_def)
  next
    case False
    then have "380 \<le> words_of (rx_frame_len f)"
      using words_of_bounds(1) [of "rx_frame_len f"] by linarith
    then have "length ?bs > ETH_FRAME_SIZE"
      unfolding stored ETH_FRAME_SIZE_def by linarith
    then show ?thesis
      using False pending by (simp add: ethernetif_input_def low_level_input_def e(1) Let_def)
  qed
qed

text \<open>
  C22. Input. When a frame is pending and memory is available, \<open>ethernetif_input\<close> hands the stack
  a chain with exactly the bytes of the oldest frame less its check sequence, and the frame
  leaves the region; the lengths in the chain are consistent. A frame of 1517 or 1518 bytes,
  the longest ones that Ethernet allows, is stored beyond the end of \<open>EthFrameRX\<close>.
\<close>

theorem ethernetif_input_correct:
  assumes "rx_holds (dev s) (f # fs)" and "heap_ok heap" and "\<forall>j. heap j pool_block_size \<noteq> None"
  shows "if rx_frame_len f \<le> 1516
    then \<exists>p s'. ethernetif_input heap s = Some (Some (Some p), s') \<and> rx_holds (dev s') fs
      \<and> pbuf_bytes p = rx_bytes f
    else ethernetif_input heap s = None"
  using ethernetif_input_chain [OF assms] by (auto split: if_splits)

lemma ethernetif_input_correct_witness:
  "\<exists>p s'. ethernetif_input sample_heap (port_zero\<lparr>dev := mac_receive (64, replicate 16 7) (EthOn eth_zero)\<rparr>)
      = Some (Some (Some p), s') \<and> rx_holds (dev s') [] \<and> length (pbuf_bytes p) = 60"
proof -
  let ?f = "(64, replicate 16 7) :: rx_frame"
  let ?s = "port_zero\<lparr>dev := mac_receive ?f (EthOn eth_zero)\<rparr>"
  have ok: "rx_frame_len ?f = 64" "rx_frame_ok ?f"
    by (simp_all add: rx_frame_ok_def rx_frame_len_def words_of_def)
  then have "rx_fits (rx_words (EthOn eth_zero)) [] ?f"
    by (simp add: rx_fits_def EthOn_words rx_enc_def)
  then have "rx_holds (dev ?s) [?f]"
    using mac_receive_queue [OF EthOn_queues(1), of ?f eth_zero] by simp
  from ethernetif_input_correct [OF this sample_heap_ok] show ?thesis
    using ok(1) by (auto simp: sample_heap_def rx_bytes_def)
qed

end
