(* ===== verification/Netstack.thy ===== *)
theory Netstack
  imports NetIf
begin

text \<open>
  What the layers of lwIP 2.1.2 share: IP addresses (\<open>ip4_addr.h\<close>, \<open>core/ipv4/ip4_addr.c\<close>), the
  state of interfaces, control blocks and ARP cache, and the link layer \<open>netif/ethernet.c\<close>
  down to \<open>low_level_output\<close>, with the options of \<open>lwipopts.h\<close>.

  Addresses are in network order, as in the code: the low byte is the first one. Control
  blocks and interfaces are referenced by address, \<open>None\<close> being \<open>NULL\<close>. \<open>None\<close> as the result of
  an output is a copy beyond the end of \<open>EthFrameTX\<close>. Debug output and statistics are left
  out.
\<close>

section \<open>Addresses\<close>

definition LWIP_MAKEU32 :: "u32 \<Rightarrow> u32 \<Rightarrow> u32 \<Rightarrow> u32 \<Rightarrow> u32" where
  "LWIP_MAKEU32 a b c d = push_bit 24 (a AND 0xFF) OR push_bit 16 (b AND 0xFF) OR push_bit 8 (c AND 0xFF)
     OR (d AND 0xFF)"

definition IP4_ADDR :: "u32 \<Rightarrow> u32 \<Rightarrow> u32 \<Rightarrow> u32 \<Rightarrow> u32" where
  "IP4_ADDR a b c d = lwip_htonl (LWIP_MAKEU32 a b c d)"

definition ip4_addr_netcmp :: "u32 \<Rightarrow> u32 \<Rightarrow> u32 \<Rightarrow> bool" where
  "ip4_addr_netcmp a b m \<longleftrightarrow> a AND m = b AND m"

definition ip4_addr_ismulticast :: "u32 \<Rightarrow> bool" where
  "ip4_addr_ismulticast a \<longleftrightarrow> a AND lwip_htonl 0xF0000000 = lwip_htonl 0xE0000000"

definition ip4_addr_isloopback :: "u32 \<Rightarrow> bool" where
  "ip4_addr_isloopback a \<longleftrightarrow> a AND lwip_htonl 0xFF000000 = lwip_htonl (push_bit 24 127)"

definition ip4_addr_islinklocal :: "u32 \<Rightarrow> bool" where
  "ip4_addr_islinklocal a \<longleftrightarrow> a AND lwip_htonl 0xFFFF0000 = lwip_htonl 0xA9FE0000"

text \<open>A 32-bit store as bytes.\<close>

definition store32 :: "u32 \<Rightarrow> u8 list" where
  "store32 n = store16 (to_u16 n) @ store16 (to_u16 (drop_bit 16 n))"

section \<open>State\<close>

text \<open>\<open>netif_no\<close> is the member \<open>num\<close>.\<close>

record netif =
  ip_addr :: u32
  netmask :: u32
  gw :: u32
  mtu :: u16
  hwaddr :: "u8 list"
  hwaddr_len :: u8
  netif_flags :: u8
  netif_name :: "char list"
  netif_no :: u8

definition NETIF_FLAG_UP :: u8 where [reg_defs]: "NETIF_FLAG_UP = 0x01"
definition NETIF_FLAG_BROADCAST :: u8 where [reg_defs]: "NETIF_FLAG_BROADCAST = 0x02"
definition NETIF_FLAG_LINK_UP :: u8 where [reg_defs]: "NETIF_FLAG_LINK_UP = 0x04"
definition NETIF_FLAG_ETHARP :: u8 where [reg_defs]: "NETIF_FLAG_ETHARP = 0x08"

text \<open>\<open>pcb_recv\<close> is the address of the receive function, or \<open>NULL\<close>.\<close>

record udp_pcb =
  local_ip :: u32
  remote_ip :: u32
  pcb_tos :: u8
  pcb_ttl :: u8
  pcb_flags :: u8
  local_port :: u16
  remote_port :: u16
  pcb_netif_idx :: u8
  pcb_recv :: "u32 option"
  pcb_recv_arg :: u32

text \<open>The ARP cache of \<open>etharp.c\<close>. \<open>ARP_QUEUEING\<close> is 0: an entry holds at most one waiting packet.\<close>

datatype etharp_state = ETHARP_STATE_EMPTY | ETHARP_STATE_PENDING | ETHARP_STATE_STABLE
  | ETHARP_STATE_STABLE_REREQUESTING_1 | ETHARP_STATE_STABLE_REREQUESTING_2

record etharp_entry =
  ent_q :: "pbuf list option"
  ent_ipaddr :: u32
  ent_netif :: "u32 option"
  ent_ethaddr :: "u8 list"
  ent_ctime :: u16
  ent_state :: etharp_state

text \<open>
  Fragments that wait for the rest of their datagram (\<open>core/ipv4/ip4_frag.c\<close>). A fragment is a chain whose IP header is
  overwritten by a \<open>struct ip_reass_helper\<close> with \<open>start\<close>, \<open>end\<close> and the link to the next fragment; the link is the order of
  the list. The list \<open>reassdatagrams\<close> is linked likewise.
\<close>

record ip_reass_frag =
  fr_start :: u16
  fr_end :: u16
  fr_pbuf :: "pbuf list"

record ip_reassdata =
  ra_p :: "ip_reass_frag list"
  ra_iphdr :: "u8 list"
  ra_datagram_len :: u16
  ra_flags :: u8
  ra_timer :: u8

record stack =
  netifs :: "u32 \<Rightarrow> netif"
  netif_list :: "u32 list"
  netif_default :: "u32 option"
  pcbs :: "u32 \<Rightarrow> udp_pcb"
  udp_pcbs :: "u32 list"
  udp_port :: u16
  ip_id :: u16
  arp_table :: "etharp_entry list"
  etharp_cached_entry :: nat
  sport :: port
  netif_num :: u8
  reassdatagrams :: "ip_reassdata list"
  ip_reass_pbufcount :: u16

type_synonym outfn = "u32 \<Rightarrow> pbuf list \<Rightarrow> u32 \<Rightarrow> stack \<Rightarrow> (err_t \<times> stack) option"

section \<open>Broadcast addresses\<close>

definition ip4_addr_isbroadcast_u32 :: "u32 \<Rightarrow> netif \<Rightarrow> bool" where
  "ip4_addr_isbroadcast_u32 addr n \<longleftrightarrow>
     (if NOT addr = 0 \<or> addr = 0 then True
      else if netif_flags n AND NETIF_FLAG_BROADCAST = 0 then False
      else if addr = ip_addr n then False
      else ip4_addr_netcmp addr (ip_addr n) (netmask n)
           \<and> addr AND NOT (netmask n) = 0xFFFFFFFF AND NOT (netmask n))"

section \<open>The link layer\<close>

definition SIZEOF_ETH_HDR :: nat where "SIZEOF_ETH_HDR = 14"
definition ETHTYPE_IP :: u16 where "ETHTYPE_IP = 0x0800"
definition ethbroadcast :: "u8 list" where "ethbroadcast = [0xFF, 0xFF, 0xFF, 0xFF, 0xFF, 0xFF]"

text \<open>\<open>pbuf_add_header\<close> on the first pbuf of a chain.\<close>

definition add_header :: "nat \<Rightarrow> pbuf list \<Rightarrow> pbuf list option" where
  "add_header n ps = (case ps of [] \<Rightarrow> None | p # qs \<Rightarrow> map_option (\<lambda>p'. p' # qs) (pbuf_add_header p n))"

definition put_header :: "u8 list \<Rightarrow> pbuf list \<Rightarrow> pbuf list" where
  "put_header bs ps = (case ps of [] \<Rightarrow> [] | p # qs \<Rightarrow> put_bytes 0 bs p # qs)"

text \<open>\<open>netif->linkoutput\<close> is \<open>low_level_output\<close>.\<close>

definition linkoutput :: "pbuf list \<Rightarrow> stack \<Rightarrow> (err_t \<times> stack) option" where
  "linkoutput p st = map_option (\<lambda>(e, s). (e, st\<lparr>sport := s\<rparr>)) (low_level_output p (sport st))"

definition ethernet_output ::
  "pbuf list \<Rightarrow> u8 list \<Rightarrow> u8 list \<Rightarrow> u16 \<Rightarrow> stack \<Rightarrow> (err_t \<times> stack) option" where
  "ethernet_output p src dst eth_type st =
     (case add_header SIZEOF_ETH_HDR p of
        None \<Rightarrow> Some (ERR_BUF, st)
      | Some p1 \<Rightarrow>
          let eth_type_be = lwip_htons eth_type
          in linkoutput (put_header (dst @ src @ store16 eth_type_be) p1) st)"

section \<open>Headers in front of a datagram\<close>

text \<open>One buffer of RAM with room for \<open>r\<close> bytes of headers.\<close>

definition headroom :: "nat \<Rightarrow> pbuf \<Rightarrow> bool" where
  "headroom r p \<longleftrightarrow> pb_type p = PBUF_RAM \<and> r \<le> length (pb_room p)
     \<and> unat (pb_tot_len p) = length (pb_payload p) \<and> length (pb_payload p) + r < 65536"

lemma headroom_fresh:
  "fresh PBUF_TRANSPORT len p \<Longrightarrow> unat len \<le> 65000 \<Longrightarrow> headroom 42 p"
  by (simp add: fresh_def headroom_def)

lemma add_header_headroom:
  assumes "headroom (n + r) p" and "0 < n"
  shows "\<exists>p1. add_header n [p] = Some [p1] \<and> unat (pb_tot_len p1) = length (pb_payload p) + n
    \<and> (\<forall>bs. length bs = n \<longrightarrow> (\<exists>p2. put_header bs [p1] = [p2] \<and> headroom r p2
          \<and> pb_payload p2 = bs @ pb_payload p \<and> pb_tot_len p2 = pb_tot_len p1))"
proof -
  have p: "pb_type p = PBUF_RAM" "n + r \<le> length (pb_room p)"
    "unat (pb_tot_len p) = length (pb_payload p)" "length (pb_payload p) + (n + r) < 65536"
    using assms(1) by (simp_all add: headroom_def)
  have "n \<le> length (pb_room p)" "n + unat (pb_tot_len p) < 65536"
    using p by simp_all
  from pbuf_add_header_Some [OF p(1) assms(2) this]
  obtain h where h: "length h = n" "pbuf_add_header p n =
    Some (p\<lparr>pb_room := take (length (pb_room p) - n) (pb_room p), pb_payload := h @ pb_payload p,
            pb_tot_len := pb_tot_len p + of_nat n, pb_at := pb_at p - of_nat n\<rparr>)"
    by blast
  have "unat (of_nat n :: u16) = n"
    using p(4) by (intro unat_of_nat_u16) simp
  then have tot: "unat (pb_tot_len p + of_nat n) = length (pb_payload p) + n"
    using p by (simp add: unat_word_ariths(1))
  show ?thesis
    using h p tot
    by (intro exI conjI) (auto simp: add_header_def put_header_def headroom_def put_bytes_def)
qed

lemma ethernet_output_frame:
  assumes "headroom 14 p" "length dst = 6" "length src = 6"
  shows "\<exists>p'. ethernet_output [p] src dst ty st = linkoutput [p'] st
    \<and> pb_payload p' = dst @ src @ store16 (lwip_htons ty) @ pb_payload p"
proof -
  obtain p1 where p1: "add_header 14 [p] = Some [p1]"
    and put: "\<forall>bs. length bs = 14 \<longrightarrow> (\<exists>p2. put_header bs [p1] = [p2] \<and> headroom 0 p2
          \<and> pb_payload p2 = bs @ pb_payload p \<and> pb_tot_len p2 = pb_tot_len p1)"
    using add_header_headroom [of 14 0 p] assms(1) by auto
  let ?h = "dst @ src @ store16 (lwip_htons ty)"
  obtain p2 where p2: "put_header ?h [p1] = [p2]" "pb_payload p2 = ?h @ pb_payload p"
    using put [rule_format, of ?h] assms(2,3) by auto
  then show ?thesis
    by (intro exI [of _ p2]) (simp add: ethernet_output_def SIZEOF_ETH_HDR_def p1 Let_def)
qed

lemma ethernet_output_queue:
  assumes "headroom 14 p" "length dst = 6" "length src = 6" and "length (pb_payload p) + 14 \<le> ETH_FRAME_SIZE"
    and "tx_holds (dev (sport st)) fs"
    and "length (tx_enc fs) + words_of (length (pb_payload p) + 14) + 2 < tx_words (dev (sport st))"
  shows "\<exists>s' f. ethernet_output [p] src dst ty st = Some (ERR_OK, st\<lparr>sport := s'\<rparr>)
    \<and> tx_holds (dev s') (fs @ [f]) \<and> tx_words (dev s') = tx_words (dev (sport st))
    \<and> rx_same (dev (sport st)) (dev s')
    \<and> tx_bytes f = dst @ src @ store16 (lwip_htons ty) @ pb_payload p"
proof -
  obtain p' where p': "ethernet_output [p] src dst ty st = linkoutput [p'] st"
    "pb_payload p' = dst @ src @ store16 (lwip_htons ty) @ pb_payload p"
    using ethernet_output_frame [OF assms(1-3)] by blast
  then have "length (pbuf_bytes [p']) = length (pb_payload p) + 14"
    using assms(2,3) by (simp add: pbuf_bytes_def)
  then obtain s' f where "low_level_output [p'] (sport st) = Some (ERR_OK, s')"
    "tx_holds (dev s') (fs @ [f])" "tx_bytes f = pbuf_bytes [p']" "tx_words (dev s') = tx_words (dev (sport st))"
    "rx_same (dev (sport st)) (dev s')"
    using low_level_output_queue [OF assms(5), of "[p']"] assms(4,6) by auto
  then show ?thesis
    using p' by (intro exI [of _ s'] exI [of _ f]) (simp add: linkoutput_def pbuf_bytes_def)
qed

lemma ethernet_output_chain:
  assumes "contiguous (pb_type q)" "14 \<le> length (pb_room q)" "unat (pb_tot_len q) + 14 < 65536" "length dst = 6" "length src = 6"
  shows "\<exists>q'. ethernet_output (q # qs) src dst ty st = linkoutput (q' # qs) st
    \<and> pb_payload q' = dst @ src @ store16 (lwip_htons ty) @ pb_payload q"
proof -
  define h where "h = drop (length (pb_room q) - 14) (pb_room q)"
  have h: "pb_room q = take (length (pb_room q) - 14) (pb_room q) @ h" "length h = 14"
    using assms(2) by (simp_all add: h_def)
  have "h \<noteq> []" "length h + unat (pb_tot_len q) < 65536"
    using h(2) assms(3) by auto
  from pbuf_add_header_eq [OF assms(1) h(1) this, unfolded h(2)]
  have add: "add_header 14 (q # qs) = Some (q\<lparr>pb_room := take (length (pb_room q) - 14) (pb_room q), pb_payload := h @ pb_payload q,
    pb_tot_len := pb_tot_len q + 14, pb_at := pb_at q - 14\<rparr> # qs)"
    by (simp add: add_header_def)
  show ?thesis
    using h(2) assms(4,5)
    by (intro exI conjI, simp add: ethernet_output_def SIZEOF_ETH_HDR_def add Let_def put_header_def put_bytes_def)
       simp
qed

lemma linkoutput_queue:
  assumes "tx_holds (dev (sport st)) fs" "length (pbuf_bytes p) \<le> 1514"
    "length (tx_enc fs) + words_of (length (pbuf_bytes p)) + 2 < tx_words (dev (sport st))"
  shows "\<exists>s' f. linkoutput p st = Some (ERR_OK, st\<lparr>sport := s'\<rparr>) \<and> tx_holds (dev s') (fs @ [f]) \<and> tx_bytes f = pbuf_bytes p
    \<and> rx_same (dev (sport st)) (dev s')"
  using low_level_output_queue [OF assms(1), of p] assms(2,3) by (auto simp: linkoutput_def ETH_FRAME_SIZE_def)

section \<open>The state before the program starts\<close>

text \<open>The static variables of the stack: zero, but for the next port; \<open>s\<close> is the port.\<close>

definition netif_zero :: netif where
  "netif_zero = \<lparr>ip_addr = 0, netmask = 0, gw = 0, mtu = 0, hwaddr = replicate 6 0, hwaddr_len = 0,
     netif_flags = 0, netif_name = [], netif_no = 0\<rparr>"

definition udp_pcb_zero :: udp_pcb where
  "udp_pcb_zero = \<lparr>local_ip = 0, remote_ip = 0, pcb_tos = 0, pcb_ttl = 0, pcb_flags = 0, local_port = 0,
     remote_port = 0, pcb_netif_idx = 0, pcb_recv = None, pcb_recv_arg = 0\<rparr>"

definition empty_entry :: etharp_entry where
  "empty_entry = \<lparr>ent_q = None, ent_ipaddr = 0, ent_netif = None, ent_ethaddr = [0, 0, 0, 0, 0, 0], ent_ctime = 0,
     ent_state = ETHARP_STATE_EMPTY\<rparr>"

definition lwip_start :: "port \<Rightarrow> stack" where
  "lwip_start s = \<lparr>netifs = (\<lambda>_. netif_zero), netif_list = [], netif_default = None, pcbs = (\<lambda>_. udp_pcb_zero),
     udp_pcbs = [], udp_port = 0xC000, ip_id = 0, arp_table = replicate 10 empty_entry, etharp_cached_entry = 0,
     sport = s, netif_num = 0, reassdatagrams = [], ip_reass_pbufcount = 0\<rparr>"

end
