(* ===== verification/AddressCache.thy ===== *)
theory AddressCache
  imports Main
begin

text \<open>
  The interface of a cache of addresses: entries are learned, age with a timer and may be evicted
  at any time. The operations are relations on the state of the client, so that they may do
  other things as well. The history of a run has its newest event first.
\<close>

datatype ('k, 'v) cache_event = Learn 'k 'v | Tick | Other

inductive cache_run ::
  "('k \<Rightarrow> 'v \<Rightarrow> 's \<Rightarrow> 's \<Rightarrow> bool) \<Rightarrow> ('s \<Rightarrow> 's \<Rightarrow> bool) \<Rightarrow> ('s \<Rightarrow> 's \<Rightarrow> bool)
    \<Rightarrow> ('k, 'v) cache_event list \<Rightarrow> 's \<Rightarrow> 's \<Rightarrow> bool"
  for learn tick other where
  run_start: "cache_run learn tick other [] s s"
| run_learn: "cache_run learn tick other h s t \<Longrightarrow> learn k v t u \<Longrightarrow> cache_run learn tick other (Learn k v # h) s u"
| run_tick: "cache_run learn tick other h s t \<Longrightarrow> tick t u \<Longrightarrow> cache_run learn tick other (Tick # h) s u"
| run_other: "cache_run learn tick other h s t \<Longrightarrow> other t u \<Longrightarrow> cache_run learn tick other (Other # h) s u"

text \<open>The value last learned for a key, and the number of ticks since.\<close>

fun last_learned :: "'k \<Rightarrow> ('k, 'v) cache_event list \<Rightarrow> ('v \<times> nat) option" where
  "last_learned k [] = None"
| "last_learned k (Learn k' v # h) = (if k = k' then Some (v, 0) else last_learned k h)"
| "last_learned k (Tick # h) = map_option (\<lambda>(v, n). (v, Suc n)) (last_learned k h)"
| "last_learned k (Other # h) = last_learned k h"

locale address_cache =
  fixes inv :: "'s \<Rightarrow> bool"
    and lookup :: "'s \<Rightarrow> 'k \<Rightarrow> ('v \<times> nat) option"
    and learn :: "'k \<Rightarrow> 'v \<Rightarrow> 's \<Rightarrow> 's \<Rightarrow> bool"
    and tick other :: "'s \<Rightarrow> 's \<Rightarrow> bool"
    and limit :: nat
  assumes learn_inv: "inv s \<Longrightarrow> learn k v s s' \<Longrightarrow> inv s'"
    and tick_inv: "inv s \<Longrightarrow> tick s s' \<Longrightarrow> inv s'"
    and other_inv: "inv s \<Longrightarrow> other s s' \<Longrightarrow> inv s'"
    and lookup_limit: "inv s \<Longrightarrow> lookup s k = Some (v, n) \<Longrightarrow> n < limit"
    and lookup_learn: "inv s \<Longrightarrow> learn k v s s' \<Longrightarrow> lookup s' k \<in> {None, Some (v, 0)}"
    and lookup_learn_other: "inv s \<Longrightarrow> learn k v s s' \<Longrightarrow> k' \<noteq> k \<Longrightarrow> lookup s' k' \<in> {None, lookup s k'}"
    and lookup_tick: "inv s \<Longrightarrow> tick s s' \<Longrightarrow>
      lookup s' k \<in> {None, map_option (\<lambda>(v, n). (v, Suc n)) (lookup s k)}"
    and lookup_other: "inv s \<Longrightarrow> other s s' \<Longrightarrow> lookup s' k \<in> {None, lookup s k}"
begin

lemma run_inv: "cache_run learn tick other h s t \<Longrightarrow> inv s \<Longrightarrow> inv t"
  by (induction rule: cache_run.induct) (blast intro: learn_inv tick_inv other_inv)+

lemma lookup_history:
  assumes "cache_run learn tick other h s t" "inv s" "\<And>k. lookup s k = None"
  shows "lookup t k \<in> {None, last_learned k h}"
  using assms
proof (induction rule: cache_run.induct)
  case (run_start s)
  then show ?case by simp
next
  case (run_learn h s t k' v u)
  then have "inv t" using run_inv by blast
  then show ?case
    using run_learn lookup_learn [of t k' v u] lookup_learn_other [of t k' v u k] by (cases "k = k'") auto
next
  case (run_tick h s t u)
  then have "inv t" using run_inv by blast
  then show ?case
    using run_tick lookup_tick [of t u k] by auto
next
  case (run_other h s t u)
  then have "inv t" using run_inv by blast
  then show ?case
    using run_other lookup_other [of t u k] by auto
qed

text \<open>A cached value is the one learned last, fewer than \<open>limit\<close> ticks ago.\<close>

lemma lookup_recent:
  assumes "cache_run learn tick other h s t" "inv s" "\<And>k. lookup s k = None" "lookup t k = Some (v, n)"
  shows "last_learned k h = Some (v, n) \<and> n < limit"
  using lookup_history [OF assms(1,2,3), of k] lookup_limit [OF run_inv [OF assms(1,2)] assms(4)] assms(4)
  by auto

end

end
