(* ===== verification/Etharp.thy ===== *)
theory Etharp
  imports Netstack AddressCache
begin

text \<open>
  Address resolution, \<open>core/ipv4/etharp.c\<close> of lwIP 2.1.2: the table of ten entries with its
  states, the search for an entry with recycling, learning, ageing, and the output of an IP
  packet through it. The options are those of the build: \<open>ARP_QUEUEING\<close> is 0, static entries
  are off, entries are matched with the interface, and \<open>LWIP_DEBUG\<close> is defined (as 0), so that
  \<open>etharp_free_entry\<close> clears all fields.

  \<open>heap i\<close> is the \<open>i\<close>-th allocation that an operation can make. A reference to a queued packet is
  the packet itself: no caller changes a packet after handing it down.
\<close>

section \<open>Constants\<close>

definition ARP_TABLE_SIZE :: nat where "ARP_TABLE_SIZE = 10"
definition ARP_MAXAGE :: u16 where [reg_defs]: "ARP_MAXAGE = 300"
definition ARP_AGE_REREQUEST_USED_UNICAST :: u16 where [reg_defs]: "ARP_AGE_REREQUEST_USED_UNICAST = ARP_MAXAGE - 30"
definition ARP_AGE_REREQUEST_USED_BROADCAST :: u16 where [reg_defs]: "ARP_AGE_REREQUEST_USED_BROADCAST = ARP_MAXAGE - 15"
definition ARP_MAXPENDING :: u16 where [reg_defs]: "ARP_MAXPENDING = 5"
definition ETHARP_FLAG_TRY_HARD :: u8 where [reg_defs]: "ETHARP_FLAG_TRY_HARD = 1"
definition ETHARP_FLAG_FIND_ONLY :: u8 where [reg_defs]: "ETHARP_FLAG_FIND_ONLY = 2"
definition ETHTYPE_ARP :: u16 where "ETHTYPE_ARP = 0x0806"
definition ARP_REQUEST :: u16 where "ARP_REQUEST = 1"
definition ARP_REPLY :: u16 where "ARP_REPLY = 2"
definition ethzero :: "u8 list" where "ethzero = [0, 0, 0, 0, 0, 0]"

text \<open>\<open>state >= ETHARP_STATE_STABLE\<close>.\<close>

fun is_stable :: "etharp_state \<Rightarrow> bool" where
  "is_stable ETHARP_STATE_EMPTY = False"
| "is_stable ETHARP_STATE_PENDING = False"
| "is_stable ETHARP_STATE_STABLE = True"
| "is_stable ETHARP_STATE_STABLE_REREQUESTING_1 = True"
| "is_stable ETHARP_STATE_STABLE_REREQUESTING_2 = True"

type_synonym arp = "etharp_entry list"

definition etharp_free_entry :: "nat \<Rightarrow> arp \<Rightarrow> arp" where
  "etharp_free_entry i tab = tab[i := (tab ! i)\<lparr>ent_q := None, ent_state := ETHARP_STATE_EMPTY,
     ent_ctime := 0, ent_netif := None, ent_ipaddr := 0, ent_ethaddr := ethzero\<rparr>]"

section \<open>Sending ARP packets\<close>

definition etharp_hdr :: "u16 \<Rightarrow> u8 list \<Rightarrow> u32 \<Rightarrow> u8 list \<Rightarrow> u32 \<Rightarrow> u8 list" where
  "etharp_hdr opcode shwaddr sipaddr dhwaddr dipaddr =
     store16 (lwip_htons 1) @ store16 (lwip_htons ETHTYPE_IP) @ [6, 4] @ store16 (lwip_htons opcode)
     @ shwaddr @ store32 sipaddr @ dhwaddr @ store32 dipaddr"

definition etharp_raw ::
  "heap \<Rightarrow> u8 list \<Rightarrow> u8 list \<Rightarrow> u8 list \<Rightarrow> u32 \<Rightarrow> u8 list \<Rightarrow> u32 \<Rightarrow> u16 \<Rightarrow> stack
    \<Rightarrow> (err_t \<times> stack) option" where
  "etharp_raw heap ethsrc ethdst hwsrc ipsrc hwdst ipdst opcode st =
     (case pbuf_alloc_RAM heap PBUF_LINK 28 of
        None \<Rightarrow> Some (ERR_MEM, st)
      | Some p \<Rightarrow>
          map_option (\<lambda>(_, st1). (ERR_OK, st1))
            (ethernet_output (put_header (etharp_hdr opcode hwsrc ipsrc hwdst ipdst) [p])
               ethsrc ethdst ETHTYPE_ARP st))"

definition etharp_request_dst :: "heap \<Rightarrow> u32 \<Rightarrow> u32 \<Rightarrow> u8 list \<Rightarrow> stack \<Rightarrow> (err_t \<times> stack) option" where
  "etharp_request_dst heap i ipaddr hw_dst_addr st =
     (let n = netifs st i
      in etharp_raw heap (hwaddr n) hw_dst_addr (hwaddr n) (ip_addr n) ethzero ipaddr ARP_REQUEST st)"

definition etharp_request :: "heap \<Rightarrow> u32 \<Rightarrow> u32 \<Rightarrow> stack \<Rightarrow> (err_t \<times> stack) option" where
  "etharp_request heap i ipaddr st = etharp_request_dst heap i ipaddr ethbroadcast st"

section \<open>The search for an entry\<close>

text \<open>The local variables of the loop; \<open>ARP_TABLE_SIZE\<close> as an index is \<^emph>\<open>none\<close>.\<close>

record scan =
  sc_empty :: nat
  old_pending :: nat
  old_stable :: nat
  old_queue :: nat
  age_queue :: u16
  age_pending :: u16
  age_stable :: u16

definition scan0 :: scan where
  "scan0 = \<lparr>sc_empty = ARP_TABLE_SIZE, old_pending = ARP_TABLE_SIZE, old_stable = ARP_TABLE_SIZE,
     old_queue = ARP_TABLE_SIZE, age_queue = 0, age_pending = 0, age_stable = 0\<rparr>"

definition entry_match :: "u32 \<Rightarrow> u32 option \<Rightarrow> etharp_entry \<Rightarrow> bool" where
  "entry_match ipaddr nif e \<longleftrightarrow> ipaddr = ent_ipaddr e \<and> (nif = None \<or> nif = ent_netif e)"

definition scan_used :: "nat \<Rightarrow> etharp_entry \<Rightarrow> scan \<Rightarrow> scan" where
  "scan_used i e sc =
     (if ent_state e = ETHARP_STATE_PENDING then
        if ent_q e \<noteq> None then
          (if ent_ctime e \<ge> age_queue sc then sc\<lparr>old_queue := i, age_queue := ent_ctime e\<rparr> else sc)
        else (if ent_ctime e \<ge> age_pending sc then sc\<lparr>old_pending := i, age_pending := ent_ctime e\<rparr> else sc)
      else if is_stable (ent_state e) then
        (if ent_ctime e \<ge> age_stable sc then sc\<lparr>old_stable := i, age_stable := ent_ctime e\<rparr> else sc)
      else sc)"

fun find_scan :: "u32 \<Rightarrow> u32 option \<Rightarrow> arp \<Rightarrow> nat \<Rightarrow> scan \<Rightarrow> nat + scan" where
  "find_scan ipaddr nif [] i sc = Inr sc"
| "find_scan ipaddr nif (e # es) i sc =
     (if sc_empty sc = ARP_TABLE_SIZE \<and> ent_state e = ETHARP_STATE_EMPTY
      then find_scan ipaddr nif es (i + 1) (sc\<lparr>sc_empty := i\<rparr>)
      else if ent_state e \<noteq> ETHARP_STATE_EMPTY then
        (if entry_match ipaddr nif e then Inl i else find_scan ipaddr nif es (i + 1) (scan_used i e sc))
      else find_scan ipaddr nif es (i + 1) sc)"

text \<open>\<open>None\<close> is \<open>ERR_MEM\<close>.\<close>

definition recycled :: "scan \<Rightarrow> nat option" where
  "recycled sc =
     (if old_stable sc < ARP_TABLE_SIZE then Some (old_stable sc)
      else if old_pending sc < ARP_TABLE_SIZE then Some (old_pending sc)
      else if old_queue sc < ARP_TABLE_SIZE then Some (old_queue sc)
      else None)"

definition etharp_find_entry :: "u32 \<Rightarrow> u8 \<Rightarrow> u32 option \<Rightarrow> arp \<Rightarrow> nat option \<times> arp" where
  "etharp_find_entry ipaddr flags nif tab =
     (case find_scan ipaddr nif tab 0 scan0 of
        Inl i \<Rightarrow> (Some i, tab)
      | Inr sc \<Rightarrow>
          if flags AND ETHARP_FLAG_FIND_ONLY \<noteq> 0
             \<or> sc_empty sc = ARP_TABLE_SIZE \<and> flags AND ETHARP_FLAG_TRY_HARD = 0
          then (None, tab)
          else
            (case (if sc_empty sc < ARP_TABLE_SIZE then Some (sc_empty sc, tab)
                   else map_option (\<lambda>i. (i, etharp_free_entry i tab)) (recycled sc)) of
               None \<Rightarrow> (None, tab)
             | Some (i, tab1) \<Rightarrow>
                 (Some i, tab1[i := (tab1 ! i)\<lparr>ent_ipaddr := ipaddr, ent_ctime := 0, ent_netif := nif\<rparr>])))"

section \<open>Learning, ageing, removing\<close>

definition set_entry :: "nat \<Rightarrow> (etharp_entry \<Rightarrow> etharp_entry) \<Rightarrow> stack \<Rightarrow> stack" where
  "set_entry i f st = st\<lparr>arp_table := (arp_table st)[i := f (arp_table st ! i)]\<rparr>"

definition unicast_addr :: "u32 \<Rightarrow> netif \<Rightarrow> bool" where
  "unicast_addr ipaddr n \<longleftrightarrow>
     \<not> (ipaddr = 0 \<or> ip4_addr_isbroadcast_u32 ipaddr n \<or> ip4_addr_ismulticast ipaddr)"

definition etharp_update_arp_entry ::
  "u32 \<Rightarrow> u32 \<Rightarrow> u8 list \<Rightarrow> u8 \<Rightarrow> stack \<Rightarrow> (err_t \<times> stack) option" where
  "etharp_update_arp_entry i ipaddr ethaddr flags st =
     (if \<not> unicast_addr ipaddr (netifs st i) then Some (ERR_ARG, st)
      else
        (case etharp_find_entry ipaddr flags (Some i) (arp_table st) of
           (None, tab) \<Rightarrow> Some (ERR_MEM, st\<lparr>arp_table := tab\<rparr>)
         | (Some k, tab) \<Rightarrow>
             let st1 = set_entry k (\<lambda>e. e\<lparr>ent_state := ETHARP_STATE_STABLE, ent_netif := Some i,
                         ent_ethaddr := ethaddr, ent_ctime := 0\<rparr>) (st\<lparr>arp_table := tab\<rparr>)
             in (case ent_q (arp_table st1 ! k) of
                   None \<Rightarrow> Some (ERR_OK, st1)
                 | Some p \<Rightarrow>
                     map_option (\<lambda>(_, st2). (ERR_OK, st2))
                       (ethernet_output p (hwaddr (netifs st1 i)) ethaddr ETHTYPE_IP
                          (set_entry k (\<lambda>e. e\<lparr>ent_q := None\<rparr>) st1)))))"

text \<open>One pass of the loop of \<open>etharp_tmr\<close>. A pending entry without interface cannot arise.\<close>

definition etharp_tmr_entry :: "heap \<Rightarrow> nat \<Rightarrow> stack \<Rightarrow> stack option" where
  "etharp_tmr_entry heap i st =
     (if ent_state (arp_table st ! i) = ETHARP_STATE_EMPTY then Some st
      else
        let st1 = set_entry i (\<lambda>e. e\<lparr>ent_ctime := ent_ctime e + 1\<rparr>) st;
            e = arp_table st1 ! i
        in if ent_ctime e \<ge> ARP_MAXAGE \<or> ent_state e = ETHARP_STATE_PENDING \<and> ent_ctime e \<ge> ARP_MAXPENDING
           then Some (st1\<lparr>arp_table := etharp_free_entry i (arp_table st1)\<rparr>)
           else
             (case ent_state e of
                ETHARP_STATE_STABLE_REREQUESTING_1 \<Rightarrow>
                  Some (set_entry i (\<lambda>e. e\<lparr>ent_state := ETHARP_STATE_STABLE_REREQUESTING_2\<rparr>) st1)
              | ETHARP_STATE_STABLE_REREQUESTING_2 \<Rightarrow>
                  Some (set_entry i (\<lambda>e. e\<lparr>ent_state := ETHARP_STATE_STABLE\<rparr>) st1)
              | ETHARP_STATE_PENDING \<Rightarrow>
                  (case ent_netif e of
                     None \<Rightarrow> None
                   | Some n \<Rightarrow> map_option snd (etharp_request (\<lambda>j. heap (i + j)) n (ent_ipaddr e) st1))
              | _ \<Rightarrow> Some st1))"

fun etharp_tmr_loop :: "heap \<Rightarrow> nat list \<Rightarrow> stack \<Rightarrow> stack option" where
  "etharp_tmr_loop heap [] st = Some st"
| "etharp_tmr_loop heap (i # is) st =
     (case etharp_tmr_entry heap i st of None \<Rightarrow> None | Some st1 \<Rightarrow> etharp_tmr_loop heap is st1)"

definition etharp_tmr :: "heap \<Rightarrow> stack \<Rightarrow> stack option" where
  "etharp_tmr heap st = etharp_tmr_loop heap [0..<ARP_TABLE_SIZE] st"

fun cleanup_loop :: "u32 \<Rightarrow> nat list \<Rightarrow> arp \<Rightarrow> arp" where
  "cleanup_loop n [] tab = tab"
| "cleanup_loop n (i # is) tab =
     cleanup_loop n is (if ent_state (tab ! i) \<noteq> ETHARP_STATE_EMPTY \<and> ent_netif (tab ! i) = Some n
                        then etharp_free_entry i tab else tab)"

definition etharp_cleanup_netif :: "u32 \<Rightarrow> stack \<Rightarrow> stack" where
  "etharp_cleanup_netif n st = st\<lparr>arp_table := cleanup_loop n [0..<ARP_TABLE_SIZE] (arp_table st)\<rparr>"

text \<open>\<open>etharp_find_addr\<close>: index, hardware address and IP address, or \<open>-1\<close>. \<open>etharp_get_entry\<close>.\<close>

definition etharp_find_addr :: "u32 option \<Rightarrow> u32 \<Rightarrow> arp \<Rightarrow> (nat \<times> u8 list \<times> u32) option" where
  "etharp_find_addr nif ipaddr tab =
     (case fst (etharp_find_entry ipaddr ETHARP_FLAG_FIND_ONLY nif tab) of
        Some i \<Rightarrow> if is_stable (ent_state (tab ! i)) then Some (i, ent_ethaddr (tab ! i), ent_ipaddr (tab ! i)) else None
      | None \<Rightarrow> None)"

definition etharp_get_entry :: "nat \<Rightarrow> arp \<Rightarrow> (u32 \<times> u32 option \<times> u8 list) option" where
  "etharp_get_entry i tab =
     (if i < ARP_TABLE_SIZE \<and> is_stable (ent_state (tab ! i))
      then Some (ent_ipaddr (tab ! i), ent_netif (tab ! i), ent_ethaddr (tab ! i)) else None)"

section \<open>Output\<close>

definition etharp_output_to_arp_index ::
  "heap \<Rightarrow> u32 \<Rightarrow> pbuf list \<Rightarrow> nat \<Rightarrow> stack \<Rightarrow> (err_t \<times> stack) option" where
  "etharp_output_to_arp_index heap i q k st =
     (let e = arp_table st ! k;
          mark = (\<lambda>r. map_option (\<lambda>(err, st1). if err = ERR_OK
            then set_entry k (\<lambda>e. e\<lparr>ent_state := ETHARP_STATE_STABLE_REREQUESTING_1\<rparr>) st1 else st1) r)
      in case (if ent_state e = ETHARP_STATE_STABLE then
                 if ent_ctime e \<ge> ARP_AGE_REREQUEST_USED_BROADCAST
                 then mark (etharp_request heap i (ent_ipaddr e) st)
                 else if ent_ctime e \<ge> ARP_AGE_REREQUEST_USED_UNICAST
                 then mark (etharp_request_dst heap i (ent_ipaddr e) (ent_ethaddr e) st)
                 else Some st
               else Some st) of
           None \<Rightarrow> None
         | Some st1 \<Rightarrow> ethernet_output q (hwaddr (netifs st1 i)) (ent_ethaddr (arp_table st1 ! k)) ETHTYPE_IP st1)"

text \<open>
  \<open>etharp_query\<close> in three parts: the entry for the address, made pending when it is new; the
  request; and what becomes of the packet. \<open>PBUF_NEEDS_COPY\<close> holds of \<open>PBUF_REF\<close> only.
\<close>

definition query_start :: "u32 \<Rightarrow> nat \<Rightarrow> arp \<Rightarrow> stack \<Rightarrow> stack" where
  "query_start i k tab st =
     (if ent_state (tab ! k) = ETHARP_STATE_EMPTY
      then set_entry k (\<lambda>e. e\<lparr>ent_state := ETHARP_STATE_PENDING, ent_netif := Some i\<rparr>) (st\<lparr>arp_table := tab\<rparr>)
      else st\<lparr>arp_table := tab\<rparr>)"

definition query_send :: "heap \<Rightarrow> u32 \<Rightarrow> nat \<Rightarrow> pbuf list \<Rightarrow> err_t \<Rightarrow> stack \<Rightarrow> (err_t \<times> stack) option" where
  "query_send heap i k p result st =
     (let e = arp_table st ! k
      in if is_stable (ent_state e)
         then ethernet_output p (hwaddr (netifs st i)) (ent_ethaddr e) ETHTYPE_IP (st\<lparr>etharp_cached_entry := k\<rparr>)
         else if ent_state e = ETHARP_STATE_PENDING then
           (case (if list_ex (\<lambda>b. pb_type b = PBUF_REF) p
                  then pbuf_clone_RAM (\<lambda>j. heap (1 + j)) PBUF_LINK p else Some p) of
              Some p1 \<Rightarrow> Some (ERR_OK, set_entry k (\<lambda>e. e\<lparr>ent_q := Some p1\<rparr>) st)
            | None \<Rightarrow> Some (ERR_MEM, st))
         else Some (result, st))"

definition etharp_query :: "heap \<Rightarrow> u32 \<Rightarrow> u32 \<Rightarrow> pbuf list option \<Rightarrow> stack \<Rightarrow> (err_t \<times> stack) option" where
  "etharp_query heap i ipaddr q st =
     (if \<not> unicast_addr ipaddr (netifs st i) then Some (ERR_ARG, st)
      else
        (case etharp_find_entry ipaddr ETHARP_FLAG_TRY_HARD (Some i) (arp_table st) of
           (None, tab) \<Rightarrow> Some (ERR_MEM, st\<lparr>arp_table := tab\<rparr>)
         | (Some k, tab) \<Rightarrow>
             let is_new_entry = (ent_state (tab ! k) = ETHARP_STATE_EMPTY);
                 st1 = query_start i k tab st
             in case (if is_new_entry \<or> q = None then etharp_request heap i ipaddr st1 else Some (ERR_MEM, st1)) of
                  None \<Rightarrow> None
                | Some (result, st2) \<Rightarrow>
                    (case q of None \<Rightarrow> Some (result, st2) | Some p \<Rightarrow> query_send heap i k p result st2)))"

definition arp_hit :: "u32 \<Rightarrow> u32 \<Rightarrow> etharp_entry \<Rightarrow> bool" where
  "arp_hit i ipaddr e \<longleftrightarrow> is_stable (ent_state e) \<and> ent_netif e = Some i \<and> ipaddr = ent_ipaddr e"

definition etharp_output :: "heap \<Rightarrow> outfn" where
  "etharp_output heap i q ipaddr st =
     (let n = netifs st i in
      if ip4_addr_isbroadcast_u32 ipaddr n
      then ethernet_output q (hwaddr n) ethbroadcast ETHTYPE_IP st
      else if ip4_addr_ismulticast ipaddr
      then ethernet_output q (hwaddr n)
             [0x01, 0x00, 0x5E, to_u8 (drop_bit 8 ipaddr) AND 0x7F, to_u8 (drop_bit 16 ipaddr),
              to_u8 (drop_bit 24 ipaddr)] ETHTYPE_IP st
      else
        let off_link = \<not> ip4_addr_netcmp ipaddr (ip_addr n) (netmask n) \<and> \<not> ip4_addr_islinklocal ipaddr;
            dst_addr = (if off_link then gw n else ipaddr)
        in if off_link \<and> gw n = 0 then Some (ERR_RTE, st)
           else if arp_hit i dst_addr (arp_table st ! etharp_cached_entry st)
           then etharp_output_to_arp_index heap i q (etharp_cached_entry st) st
           else
             (case find (\<lambda>k. arp_hit i dst_addr (arp_table st ! k)) [0..<ARP_TABLE_SIZE] of
                Some k \<Rightarrow> etharp_output_to_arp_index heap i q k (st\<lparr>etharp_cached_entry := k\<rparr>)
              | None \<Rightarrow> etharp_query heap i dst_addr (Some q) st))"

section \<open>Input\<close>

text \<open>
  \<open>etharp_input\<close> on the bytes of the first pbuf behind the Ethernet header; \<open>None\<close> when the
  header lies beyond the bytes received (the code has no check). The reply needs one
  allocation. The call of \<open>dhcp_arp_reply\<close> for a reply is left out: it does nothing as DHCP is never started.
\<close>

definition load32 :: "u8 list \<Rightarrow> u32" where
  "load32 bs = to_u32 (load16 (bs ! 0) (bs ! 1)) OR push_bit 16 (to_u32 (load16 (bs ! 2) (bs ! 3)))"

definition etharp_input :: "heap \<Rightarrow> u8 list \<Rightarrow> u32 \<Rightarrow> stack \<Rightarrow> stack option" where
  "etharp_input heap hdr i st =
     (if length hdr < 28 then None
      else if load16 (hdr ! 0) (hdr ! 1) \<noteq> lwip_htons 1 \<or> hdr ! 4 \<noteq> 6 \<or> hdr ! 5 \<noteq> 4
              \<or> load16 (hdr ! 2) (hdr ! 3) \<noteq> lwip_htons ETHTYPE_IP
      then Some st
      else
        let shwaddr = take 6 (drop 8 hdr); sipaddr = load32 (drop 14 hdr); dipaddr = load32 (drop 24 hdr);
            n = netifs st i;
            for_us = (ip_addr n \<noteq> 0 \<and> dipaddr = ip_addr n)
        in case etharp_update_arp_entry i sipaddr shwaddr
                  (if for_us then ETHARP_FLAG_TRY_HARD else ETHARP_FLAG_FIND_ONLY) st of
             None \<Rightarrow> None
           | Some (_, st1) \<Rightarrow>
               if load16 (hdr ! 6) (hdr ! 7) = lwip_htons ARP_REQUEST \<and> for_us
               then map_option snd (etharp_raw heap (hwaddr n) shwaddr (hwaddr n) (ip_addr n)
                      shwaddr sipaddr ARP_REPLY st1)
               else Some st1)"

section \<open>The search finds the entry to use\<close>

text \<open>
  What the loop knows after the first \<open>i\<close> entries of one of the three kinds of used entries: \<open>k\<close> is
  the oldest of the kind, the last one among equals.
\<close>

definition oldest :: "arp \<Rightarrow> nat \<Rightarrow> (etharp_entry \<Rightarrow> bool) \<Rightarrow> nat \<Rightarrow> u16 \<Rightarrow> bool" where
  "oldest tab i P k age \<longleftrightarrow>
     (if k = ARP_TABLE_SIZE then age = 0 \<and> (\<forall>j<i. \<not> P (tab ! j))
      else k < i \<and> P (tab ! k) \<and> age = ent_ctime (tab ! k) \<and> (\<forall>j<i. P (tab ! j) \<longrightarrow> ent_ctime (tab ! j) \<le> age))"

lemma oldest_step:
  assumes "oldest tab i P k age" "i < ARP_TABLE_SIZE"
  shows "oldest tab (Suc i) P (if P (tab ! i) \<and> age \<le> ent_ctime (tab ! i) then i else k)
    (if P (tab ! i) \<and> age \<le> ent_ctime (tab ! i) then ent_ctime (tab ! i) else age)"
  using assms by (auto simp: oldest_def less_Suc_eq split: if_splits)

lemma oldest_keep: "oldest tab i P k age \<Longrightarrow> \<not> P (tab ! i) \<Longrightarrow> oldest tab (Suc i) P k age"
  by (auto simp: oldest_def less_Suc_eq split: if_splits)

definition kind_pending :: "etharp_entry \<Rightarrow> bool" where
  "kind_pending e \<longleftrightarrow> ent_state e = ETHARP_STATE_PENDING \<and> ent_q e = None"

definition kind_queue :: "etharp_entry \<Rightarrow> bool" where
  "kind_queue e \<longleftrightarrow> ent_state e = ETHARP_STATE_PENDING \<and> ent_q e \<noteq> None"

definition kind_stable :: "etharp_entry \<Rightarrow> bool" where
  "kind_stable e \<longleftrightarrow> is_stable (ent_state e)"

definition in_use :: "etharp_entry \<Rightarrow> bool" where
  "in_use e \<longleftrightarrow> ent_state e \<noteq> ETHARP_STATE_EMPTY"

lemmas kind_defs = kind_pending_def kind_queue_def kind_stable_def in_use_def

lemma used_kinds: "in_use e \<longleftrightarrow> kind_pending e \<or> kind_queue e \<or> kind_stable e"
  by (cases "ent_state e") (auto simp: kind_defs)

definition first_empty :: "arp \<Rightarrow> nat \<Rightarrow> nat \<Rightarrow> bool" where
  "first_empty tab i k \<longleftrightarrow>
     (if k = ARP_TABLE_SIZE then \<forall>j<i. in_use (tab ! j) else k < i \<and> \<not> in_use (tab ! k) \<and> (\<forall>j<k. in_use (tab ! j)))"

definition scan_ok :: "arp \<Rightarrow> nat \<Rightarrow> scan \<Rightarrow> bool" where
  "scan_ok tab i sc \<longleftrightarrow> first_empty tab i (sc_empty sc)
     \<and> oldest tab i kind_stable (old_stable sc) (age_stable sc)
     \<and> oldest tab i kind_pending (old_pending sc) (age_pending sc)
     \<and> oldest tab i kind_queue (old_queue sc) (age_queue sc)"

lemma scan_ok_start: "scan_ok tab 0 scan0"
  by (simp add: scan_ok_def scan0_def oldest_def first_empty_def)

lemma scan_ok_empty:
  assumes "scan_ok tab i sc" "i < ARP_TABLE_SIZE" "\<not> in_use (tab ! i)"
  shows "scan_ok tab (Suc i) (if sc_empty sc = ARP_TABLE_SIZE then sc\<lparr>sc_empty := i\<rparr> else sc)"
proof -
  have "\<not> kind_stable (tab ! i)" "\<not> kind_pending (tab ! i)" "\<not> kind_queue (tab ! i)"
    using assms(3) used_kinds by blast+
  then show ?thesis
    using assms by (auto simp: scan_ok_def first_empty_def less_Suc_eq intro!: oldest_keep split: if_splits)
qed

lemma scan_used_fields:
  "sc_empty (scan_used i e sc) = sc_empty sc"
  "old_stable (scan_used i e sc) = (if kind_stable e \<and> age_stable sc \<le> ent_ctime e then i else old_stable sc)"
  "age_stable (scan_used i e sc) = (if kind_stable e \<and> age_stable sc \<le> ent_ctime e then ent_ctime e else age_stable sc)"
  "old_pending (scan_used i e sc) = (if kind_pending e \<and> age_pending sc \<le> ent_ctime e then i else old_pending sc)"
  "age_pending (scan_used i e sc) = (if kind_pending e \<and> age_pending sc \<le> ent_ctime e then ent_ctime e else age_pending sc)"
  "old_queue (scan_used i e sc) = (if kind_queue e \<and> age_queue sc \<le> ent_ctime e then i else old_queue sc)"
  "age_queue (scan_used i e sc) = (if kind_queue e \<and> age_queue sc \<le> ent_ctime e then ent_ctime e else age_queue sc)"
  by (simp_all add: scan_used_def kind_defs)

lemma scan_ok_used:
  assumes "scan_ok tab i sc" "i < ARP_TABLE_SIZE" "in_use (tab ! i)"
  shows "scan_ok tab (Suc i) (scan_used i (tab ! i) sc)"
proof -
  have "first_empty tab (Suc i) (sc_empty sc)"
    using assms by (auto simp: scan_ok_def first_empty_def less_Suc_eq split: if_splits)
  then show ?thesis
    using assms(1) unfolding scan_ok_def scan_used_fields by (blast intro: oldest_step [OF _ assms(2)])
qed

lemma find_scan_correct:
  assumes "length tab = ARP_TABLE_SIZE" "drop i tab = es" "i \<le> ARP_TABLE_SIZE" "scan_ok tab i sc"
    "\<forall>j<i. in_use (tab ! j) \<longrightarrow> \<not> entry_match ip nif (tab ! j)"
  shows "case find_scan ip nif es i sc of
      Inl k \<Rightarrow> k < ARP_TABLE_SIZE \<and> in_use (tab ! k) \<and> entry_match ip nif (tab ! k)
    | Inr sc' \<Rightarrow> scan_ok tab ARP_TABLE_SIZE sc' \<and> (\<forall>j<ARP_TABLE_SIZE. in_use (tab ! j) \<longrightarrow> \<not> entry_match ip nif (tab ! j))"
  using assms
proof (induction es arbitrary: i sc)
  case Nil
  then show ?case by auto
next
  case (Cons e es)
  have i: "i < ARP_TABLE_SIZE" "tab ! i = e" "drop (Suc i) tab = es"
    using Cons.prems(1,2,3) by (metis drop_all leI list.distinct(1), metis nth_via_drop, metis drop_Suc list.sel(3) tl_drop)
  have pre: "\<forall>j<Suc i. in_use (tab ! j) \<longrightarrow> \<not> entry_match ip nif (tab ! j)"
    if "in_use e \<longrightarrow> \<not> entry_match ip nif e"
    using Cons.prems(5) that i(2) by (auto simp: less_Suc_eq)
  note IH = Cons.IH [OF Cons.prems(1) i(3)]
  show ?case
  proof (cases "in_use e")
    case False
    let ?sc = "if sc_empty sc = ARP_TABLE_SIZE then sc\<lparr>sc_empty := i\<rparr> else sc"
    have "find_scan ip nif (e # es) i sc = find_scan ip nif es (Suc i) ?sc"
      using False by (simp add: in_use_def)
    then show ?thesis
      using IH [of ?sc] scan_ok_empty [of tab i sc] False i pre Cons.prems(4) by simp
  next
    case True
    then show ?thesis
      using IH [of "scan_used i e sc"] scan_ok_used [of tab i sc] i pre Cons.prems(4)
      by (auto simp: in_use_def)
  qed
qed

text \<open>The entry that a search that may recycle takes when the address has none.\<close>

definition oldest_of :: "(etharp_entry \<Rightarrow> bool) \<Rightarrow> arp \<Rightarrow> nat \<Rightarrow> bool" where
  "oldest_of P tab k \<longleftrightarrow> P (tab ! k) \<and> (\<forall>j<ARP_TABLE_SIZE. P (tab ! j) \<longrightarrow> ent_ctime (tab ! j) \<le> ent_ctime (tab ! k))"

definition victim :: "arp \<Rightarrow> nat \<Rightarrow> bool" where
  "victim tab k \<longleftrightarrow>
     (if \<exists>j<ARP_TABLE_SIZE. \<not> in_use (tab ! j) then \<not> in_use (tab ! k) \<and> (\<forall>j<k. in_use (tab ! j))
      else if \<exists>j<ARP_TABLE_SIZE. kind_stable (tab ! j) then oldest_of kind_stable tab k
      else if \<exists>j<ARP_TABLE_SIZE. kind_pending (tab ! j) then oldest_of kind_pending tab k
      else oldest_of kind_queue tab k)"

definition known :: "u32 \<Rightarrow> u32 option \<Rightarrow> arp \<Rightarrow> bool" where
  "known ip nif tab \<longleftrightarrow> (\<exists>j<ARP_TABLE_SIZE. in_use (tab ! j) \<and> entry_match ip nif (tab ! j))"

lemma oldest_end:
  assumes "oldest tab ARP_TABLE_SIZE P k age"
  shows "k \<noteq> ARP_TABLE_SIZE \<Longrightarrow> k < ARP_TABLE_SIZE \<and> oldest_of P tab k \<and> (\<exists>j<ARP_TABLE_SIZE. P (tab ! j))"
    and "k = ARP_TABLE_SIZE \<Longrightarrow> \<not> (\<exists>j<ARP_TABLE_SIZE. P (tab ! j))"
    and "k \<le> ARP_TABLE_SIZE"
  using assms by (auto simp: oldest_def oldest_of_def split: if_splits)

lemma scan_victim:
  assumes sc: "scan_ok tab ARP_TABLE_SIZE sc"
  shows "\<exists>k<ARP_TABLE_SIZE. victim tab k
    \<and> (if sc_empty sc < ARP_TABLE_SIZE then k = sc_empty sc else recycled sc = Some k \<and> in_use (tab ! k))"
proof (cases "sc_empty sc < ARP_TABLE_SIZE")
  case True
  then show ?thesis
    using sc by (intro exI [of _ "sc_empty sc"]) (auto simp: scan_ok_def first_empty_def victim_def)
next
  case False
  then have all: "\<forall>j<ARP_TABLE_SIZE. in_use (tab ! j)"
    using sc by (auto simp: scan_ok_def first_empty_def split: if_splits)
  have o: "oldest tab ARP_TABLE_SIZE kind_stable (old_stable sc) (age_stable sc)"
    "oldest tab ARP_TABLE_SIZE kind_pending (old_pending sc) (age_pending sc)"
    "oldest tab ARP_TABLE_SIZE kind_queue (old_queue sc) (age_queue sc)"
    using sc by (simp_all add: scan_ok_def)
  have "kind_pending (tab ! 0) \<or> kind_queue (tab ! 0) \<or> kind_stable (tab ! 0)" "0 < ARP_TABLE_SIZE"
    using all used_kinds by (simp_all add: ARP_TABLE_SIZE_def)
  then have some: "(\<exists>j<ARP_TABLE_SIZE. kind_pending (tab ! j)) \<or> (\<exists>j<ARP_TABLE_SIZE. kind_queue (tab ! j))
      \<or> (\<exists>j<ARP_TABLE_SIZE. kind_stable (tab ! j))"
    by blast
  consider "old_stable sc \<noteq> ARP_TABLE_SIZE" | "old_stable sc = ARP_TABLE_SIZE" "old_pending sc \<noteq> ARP_TABLE_SIZE"
    | "old_stable sc = ARP_TABLE_SIZE" "old_pending sc = ARP_TABLE_SIZE" by blast
  then show ?thesis
  proof cases
    case 1
    then show ?thesis
      using oldest_end(1) [OF o(1)] all False
      by (intro exI [of _ "old_stable sc"]) (auto simp: victim_def recycled_def)
  next
    case 2
    then show ?thesis
      using oldest_end(2) [OF o(1)] oldest_end(1) [OF o(2)] all False
      by (intro exI [of _ "old_pending sc"]) (auto simp: victim_def recycled_def)
  next
    case 3
    then have "old_queue sc \<noteq> ARP_TABLE_SIZE"
      using some oldest_end(2) [OF o(1)] oldest_end(2) [OF o(2)] oldest_end(2) [OF o(3)] by blast
    then show ?thesis
      using 3 oldest_end(2) [OF o(1)] oldest_end(2) [OF o(2)] oldest_end(1) [OF o(3)] all False
      by (intro exI [of _ "old_queue sc"]) (auto simp: victim_def recycled_def)
  qed
qed

lemma free_entry_empty: "etharp_free_entry i tab = tab[i := empty_entry]"
  by (cases "tab ! i") (simp add: etharp_free_entry_def empty_entry_def ethzero_def)

section \<open>The invariant of the table\<close>

definition entry_ok :: "etharp_entry \<Rightarrow> bool" where
  "entry_ok e \<longleftrightarrow> (\<not> in_use e \<longrightarrow> e = empty_entry)
     \<and> (in_use e \<longrightarrow> ent_netif e \<noteq> None \<and> ent_ctime e < ARP_MAXAGE)
     \<and> (kind_stable e \<longrightarrow> ent_q e = None)
     \<and> (ent_state e = ETHARP_STATE_PENDING \<longrightarrow> ent_ctime e < ARP_MAXPENDING)"

definition arp_inv :: "arp \<Rightarrow> bool" where
  "arp_inv tab \<longleftrightarrow> length tab = ARP_TABLE_SIZE \<and> (\<forall>j<ARP_TABLE_SIZE. entry_ok (tab ! j))
     \<and> (\<forall>j<ARP_TABLE_SIZE. \<forall>k<ARP_TABLE_SIZE. j \<noteq> k \<and> in_use (tab ! j) \<and> in_use (tab ! k)
          \<longrightarrow> (ent_ipaddr (tab ! j), ent_netif (tab ! j)) \<noteq> (ent_ipaddr (tab ! k), ent_netif (tab ! k)))"

text \<open>The search for an address that is not in the table fails.\<close>

definition find_fails :: "u8 \<Rightarrow> arp \<Rightarrow> bool" where
  "find_fails flags tab \<longleftrightarrow> flags AND ETHARP_FLAG_FIND_ONLY \<noteq> 0
     \<or> flags AND ETHARP_FLAG_TRY_HARD = 0 \<and> (\<forall>j<ARP_TABLE_SIZE. in_use (tab ! j))"

lemma find_entry_cases:
  assumes inv: "arp_inv tab"
  obtains (none) "etharp_find_entry ip flags (Some n) tab = (None, tab)" "flags \<noteq> ETHARP_FLAG_TRY_HARD"
      "\<not> known ip (Some n) tab" "find_fails flags tab"
    | (found) k where "etharp_find_entry ip flags (Some n) tab = (Some k, tab)" "k < ARP_TABLE_SIZE"
      "in_use (tab ! k)" "ent_ipaddr (tab ! k) = ip" "ent_netif (tab ! k) = Some n"
    | (new) k where "etharp_find_entry ip flags (Some n) tab =
        (Some k, tab[k := empty_entry\<lparr>ent_ipaddr := ip, ent_netif := Some n\<rparr>])" "k < ARP_TABLE_SIZE"
      "victim tab k" "\<not> known ip (Some n) tab" "flags AND ETHARP_FLAG_FIND_ONLY = 0" "\<not> find_fails flags tab"
proof -
  have len: "length tab = ARP_TABLE_SIZE"
    using inv by (simp add: arp_inv_def)
  have scan: "case find_scan ip (Some n) tab 0 scan0 of
      Inl k \<Rightarrow> k < ARP_TABLE_SIZE \<and> in_use (tab ! k) \<and> entry_match ip (Some n) (tab ! k)
    | Inr sc' \<Rightarrow> scan_ok tab ARP_TABLE_SIZE sc' \<and> \<not> known ip (Some n) tab"
    using find_scan_correct [OF len, of 0 tab scan0 ip "Some n"] scan_ok_start by (auto simp: known_def split: sum.splits)
  show thesis
  proof (cases "find_scan ip (Some n) tab 0 scan0")
    case (Inl k)
    then show thesis
      using scan by (intro found [of k]) (auto simp: etharp_find_entry_def entry_match_def)
  next
    case (Inr sc)
    then have sc: "scan_ok tab ARP_TABLE_SIZE sc" and unknown: "\<not> known ip (Some n) tab"
      using scan by simp_all
    obtain k where k: "k < ARP_TABLE_SIZE" "victim tab k"
      "if sc_empty sc < ARP_TABLE_SIZE then k = sc_empty sc else recycled sc = Some k \<and> in_use (tab ! k)"
      using scan_victim [OF sc] by blast
    have fails: "find_fails flags tab \<longleftrightarrow> flags AND ETHARP_FLAG_FIND_ONLY \<noteq> 0
        \<or> sc_empty sc = ARP_TABLE_SIZE \<and> flags AND ETHARP_FLAG_TRY_HARD = 0"
      using sc by (auto simp: find_fails_def scan_ok_def first_empty_def split: if_splits)
    show thesis
    proof (cases "flags AND ETHARP_FLAG_FIND_ONLY \<noteq> 0
        \<or> sc_empty sc = ARP_TABLE_SIZE \<and> flags AND ETHARP_FLAG_TRY_HARD = 0")
      case True
      then show thesis
        using unknown fails by (intro none) (auto simp: etharp_find_entry_def Inr reg_defs)
    next
      case False
      have "\<not> in_use (tab ! k) \<Longrightarrow> tab ! k = empty_entry"
        using inv k(1) by (simp add: arp_inv_def entry_ok_def)
      moreover have "\<not> in_use (tab ! k)" if "sc_empty sc < ARP_TABLE_SIZE"
        using that k sc by (auto simp: scan_ok_def first_empty_def)
      ultimately have "etharp_find_entry ip flags (Some n) tab =
        (Some k, tab[k := empty_entry\<lparr>ent_ipaddr := ip, ent_netif := Some n\<rparr>])"
        using False k(1,3) len
        by (cases "sc_empty sc < ARP_TABLE_SIZE")
           (auto simp: etharp_find_entry_def Inr free_entry_empty empty_entry_def)
      then show thesis
        using k(1,2) unknown False fails by (intro new) auto
    qed
  qed
qed

lemma arp_inv_put:
  assumes "arp_inv tab" "k < ARP_TABLE_SIZE" "entry_ok e"
    "in_use e \<Longrightarrow> \<forall>j<ARP_TABLE_SIZE. j \<noteq> k \<and> in_use (tab ! j)
       \<longrightarrow> (ent_ipaddr (tab ! j), ent_netif (tab ! j)) \<noteq> (ent_ipaddr e, ent_netif e)"
  shows "arp_inv (tab[k := e])"
  using assms unfolding arp_inv_def by (auto simp: nth_list_update)

lemma arp_inv_nth: "arp_inv tab \<Longrightarrow> k < ARP_TABLE_SIZE \<Longrightarrow> entry_ok (tab ! k)" "arp_inv tab \<Longrightarrow> length tab = ARP_TABLE_SIZE"
  by (simp_all add: arp_inv_def)

lemma entry_ok_empty [simp]: "entry_ok empty_entry" "\<not> in_use empty_entry"
  by (simp_all add: entry_ok_def empty_entry_def in_use_def kind_defs)

lemma arp_inv_clear: "arp_inv tab \<Longrightarrow> k < ARP_TABLE_SIZE \<Longrightarrow> arp_inv (tab[k := empty_entry])"
  by (rule arp_inv_put) simp_all

text \<open>A change of an entry that keeps its key.\<close>

lemma arp_inv_same_key:
  assumes "arp_inv tab" "k < ARP_TABLE_SIZE" "in_use (tab ! k)" "entry_ok e"
    "ent_ipaddr e = ent_ipaddr (tab ! k)" "ent_netif e = ent_netif (tab ! k)"
  shows "arp_inv (tab[k := e])"
  using assms by (intro arp_inv_put) (auto simp: arp_inv_def)

lemma unknown_key: "\<not> known ip (Some n) tab \<Longrightarrow> j < ARP_TABLE_SIZE \<Longrightarrow> in_use (tab ! j)
    \<Longrightarrow> (ent_ipaddr (tab ! j), ent_netif (tab ! j)) \<noteq> (ip, Some n)"
  by (auto simp: known_def entry_match_def)

lemma arp_inv_new_key:
  assumes "arp_inv tab" "k < ARP_TABLE_SIZE" "\<not> known ip (Some n) tab" "entry_ok e"
    "ent_ipaddr e = ip" "ent_netif e = Some n"
  shows "arp_inv (tab[k := e])"
  using assms unknown_key by (intro arp_inv_put) auto

section \<open>What an output changes besides the port\<close>

lemma ethernet_output_port:
  "ethernet_output p src dst ty st = Some (e, st') \<Longrightarrow> \<exists>s. st' = st\<lparr>sport := s\<rparr>"
  by (auto simp: ethernet_output_def linkoutput_def Let_def split: option.splits)
     (metis stack.surjective stack.update_convs(10))+

lemma etharp_raw_port: "etharp_raw heap a b c d e f g st = Some (r, st') \<Longrightarrow> \<exists>s. st' = st\<lparr>sport := s\<rparr>"
  by (auto simp: etharp_raw_def split: option.splits dest!: ethernet_output_port)
     (metis stack.surjective stack.update_convs(10))+

lemma etharp_request_port:
  "etharp_request_dst heap i ip hw st = Some (r, st') \<Longrightarrow> \<exists>s. st' = st\<lparr>sport := s\<rparr>"
  "etharp_request heap i ip st = Some (r, st') \<Longrightarrow> \<exists>s. st' = st\<lparr>sport := s\<rparr>"
  by (auto simp: etharp_request_dst_def etharp_request_def Let_def dest: etharp_raw_port)

section \<open>The operations on the table\<close>

definition stable_entry :: "u32 \<Rightarrow> u32 \<Rightarrow> u8 list \<Rightarrow> etharp_entry" where
  "stable_entry n ip hw = \<lparr>ent_q = None, ent_ipaddr = ip, ent_netif = Some n, ent_ethaddr = hw, ent_ctime = 0,
     ent_state = ETHARP_STATE_STABLE\<rparr>"

lemma stable_entry_simps [simp]:
  "entry_ok (stable_entry n ip hw)" "ent_ipaddr (stable_entry n ip hw) = ip" "ent_netif (stable_entry n ip hw) = Some n"
  "ent_ethaddr (stable_entry n ip hw) = hw" "ent_ctime (stable_entry n ip hw) = 0" "kind_stable (stable_entry n ip hw)"
  "in_use (stable_entry n ip hw)"
  by (simp_all add: stable_entry_def entry_ok_def kind_defs reg_defs)

text \<open>Learning: nothing but the table and the port changes, and the table by one stable entry, if at all.\<close>

lemma etharp_update_effect:
  assumes inv: "arp_inv (arp_table st)" and up: "etharp_update_arp_entry n ip hw fl st = Some (r, st')"
    and r: "r \<noteq> ERR_ARG"
  obtains (kept) "arp_table st' = arp_table st" "\<not> known ip (Some n) (arp_table st)" "fl \<noteq> ETHARP_FLAG_TRY_HARD"
    | (learned) k where "k < ARP_TABLE_SIZE" "arp_table st' = (arp_table st)[k := stable_entry n ip hw]"
      "in_use (arp_table st ! k) \<and> ent_ipaddr (arp_table st ! k) = ip \<and> ent_netif (arp_table st ! k) = Some n
        \<or> victim (arp_table st) k \<and> \<not> known ip (Some n) (arp_table st)"
proof -
  let ?tab = "arp_table st"
  have uni: "unicast_addr ip (netifs st n)"
    using up r by (auto simp: etharp_update_arp_entry_def split: if_splits)
  let ?f = "\<lambda>e. e\<lparr>ent_state := ETHARP_STATE_STABLE, ent_netif := Some n, ent_ethaddr := hw, ent_ctime := 0\<rparr>"
  have set: "arp_table st' = tab[k := (?f (tab ! k))\<lparr>ent_q := None\<rparr>]"
    if "etharp_find_entry ip fl (Some n) ?tab = (Some k, tab)" "k < length tab" for k tab
  proof (cases "ent_q (tab ! k)")
    case None
    then have q: "(?f (tab ! k))\<lparr>ent_q := None\<rparr> = ?f (tab ! k)"
      by (cases "tab ! k") simp
    show ?thesis
      unfolding q using up that uni None by (auto simp: etharp_update_arp_entry_def set_entry_def Let_def)
  next
    case (Some p)
    then show ?thesis
      using up that uni
      by (auto simp: etharp_update_arp_entry_def set_entry_def Let_def dest!: ethernet_output_port)
  qed
  have len: "length ?tab = ARP_TABLE_SIZE"
    using inv by (rule arp_inv_nth)
  show thesis
    using inv
  proof (cases rule: find_entry_cases [of _ ip fl n])
    case none
    then show thesis
      using up uni by (intro kept) (auto simp: etharp_update_arp_entry_def)
  next
    case (found k)
    have "(?f (?tab ! k))\<lparr>ent_q := None\<rparr> = stable_entry n ip hw"
      using found(4) by (cases "?tab ! k") (simp add: stable_entry_def)
    then show thesis
      using set [OF found(1)] found len by (intro learned [of k]) simp_all
  next
    case (new k)
    then show thesis
      using set [OF new(1)] len
      by (intro learned [of k]) (simp_all add: stable_entry_def empty_entry_def)
  qed
qed

lemma etharp_update_inv:
  assumes inv: "arp_inv (arp_table st)" and up: "etharp_update_arp_entry n ip hw fl st = Some (r, st')"
  shows "arp_inv (arp_table st')"
proof (cases "r = ERR_ARG")
  case True
  then have "st' = st"
    using up by (auto simp: etharp_update_arp_entry_def Let_def split: if_splits prod.splits option.splits)
  then show ?thesis
    using inv by simp
next
  case False
  with inv up show ?thesis
  proof (cases rule: etharp_update_effect)
    case kept
    then show ?thesis
      using inv by simp
  next
    case (learned k)
    then show ?thesis
      using inv arp_inv_same_key [OF inv, of k "stable_entry n ip hw"]
        arp_inv_new_key [OF inv, of k ip n "stable_entry n ip hw"] by auto
  qed
qed

text \<open>Ageing: every entry on its own.\<close>

definition age_entry :: "etharp_entry \<Rightarrow> etharp_entry" where
  "age_entry e =
     (if \<not> in_use e then e
      else if ent_ctime e + 1 \<ge> ARP_MAXAGE \<or> ent_state e = ETHARP_STATE_PENDING \<and> ent_ctime e + 1 \<ge> ARP_MAXPENDING
      then empty_entry
      else e\<lparr>ent_ctime := ent_ctime e + 1, ent_state :=
        (case ent_state e of ETHARP_STATE_STABLE_REREQUESTING_1 \<Rightarrow> ETHARP_STATE_STABLE_REREQUESTING_2
         | ETHARP_STATE_STABLE_REREQUESTING_2 \<Rightarrow> ETHARP_STATE_STABLE | x \<Rightarrow> x)\<rparr>)"

lemma same_state: "ent_state e = x \<Longrightarrow> e\<lparr>ent_ctime := c, ent_state := x\<rparr> = e\<lparr>ent_ctime := c\<rparr>"
  by (cases e) simp

lemma etharp_tmr_entry_table:
  assumes "etharp_tmr_entry heap i st = Some st'" "i < length (arp_table st)"
  shows "arp_table st' = (arp_table st)[i := age_entry (arp_table st ! i)]"
  using assms
  by (cases "ent_state (arp_table st ! i)")
     (auto simp: etharp_tmr_entry_def set_entry_def Let_def age_entry_def in_use_def free_entry_empty same_state
        split: if_splits option.splits dest!: etharp_request_port)

lemma etharp_tmr_loop_table:
  assumes "etharp_tmr_loop heap [i..<length (arp_table st)] st = Some st'" "i \<le> length (arp_table st)"
  shows "arp_table st' = take i (arp_table st) @ map age_entry (drop i (arp_table st))"
  using assms
proof (induction "length (arp_table st) - i" arbitrary: i st)
  case 0
  then show ?case by simp
next
  case (Suc d)
  let ?tab = "arp_table st"
  have i: "i < length ?tab"
    using Suc.hyps(2) by simp
  then obtain st1 where st1: "etharp_tmr_entry heap i st = Some st1"
    "etharp_tmr_loop heap [Suc i..<length ?tab] st1 = Some st'"
    using Suc.prems(1) by (auto simp: upt_conv_Cons split: option.splits)
  have tab1: "arp_table st1 = ?tab[i := age_entry (?tab ! i)]"
    by (rule etharp_tmr_entry_table [OF st1(1) i])
  then have "arp_table st' = take (Suc i) (arp_table st1) @ map age_entry (drop (Suc i) (arp_table st1))"
    using Suc.hyps st1(2) i by (intro Suc.hyps(1)) simp_all
  then show ?case
    using i by (simp add: tab1 take_Suc_conv_app_nth Cons_nth_drop_Suc [symmetric])
qed

lemma etharp_tmr_table:
  "arp_inv (arp_table st) \<Longrightarrow> etharp_tmr heap st = Some st' \<Longrightarrow> arp_table st' = map age_entry (arp_table st)"
  using etharp_tmr_loop_table [of heap 0 st st'] by (simp add: etharp_tmr_def arp_inv_def)

lemma age_entry_ok: "entry_ok e \<Longrightarrow> entry_ok (age_entry e)"
proof (cases "in_use e \<and> \<not> (ent_ctime e + 1 \<ge> ARP_MAXAGE
    \<or> ent_state e = ETHARP_STATE_PENDING \<and> ent_ctime e + 1 \<ge> ARP_MAXPENDING)")
  case True
  then show "entry_ok e \<Longrightarrow> entry_ok (age_entry e)"
    by (cases "ent_state e") (auto simp: age_entry_def entry_ok_def kind_defs not_le)
qed (auto simp: age_entry_def)

lemma age_entry_key:
  "in_use (age_entry e) \<Longrightarrow> in_use e \<and> ent_ipaddr (age_entry e) = ent_ipaddr e \<and> ent_netif (age_entry e) = ent_netif e"
  by (auto simp: age_entry_def split: if_splits)

lemma arp_inv_age: "arp_inv tab \<Longrightarrow> arp_inv (map age_entry tab)"
  unfolding arp_inv_def by (auto simp: age_entry_ok dest!: age_entry_key)

section \<open>Stable entries as a set of facts\<close>

type_synonym arp_fact = "(u32 option \<times> u32) \<times> u8 list \<times> u16"

definition fact :: "etharp_entry \<Rightarrow> arp_fact" where
  "fact e = ((ent_netif e, ent_ipaddr e), ent_ethaddr e, ent_ctime e)"

definition stab :: "arp \<Rightarrow> arp_fact set" where
  "stab tab = fact ` {e \<in> set tab. kind_stable e}"

lemma stab_update: "stab (tab[k := e]) \<subseteq> (if kind_stable e then insert (fact e) (stab tab) else stab tab)"
  using set_update_subset_insert [of tab k e] by (auto simp: stab_def)

lemma stab_update_same:
  "k < length tab \<Longrightarrow> kind_stable (tab ! k) \<Longrightarrow> fact e = fact (tab ! k) \<Longrightarrow> stab (tab[k := e]) \<subseteq> stab tab"
  using stab_update [of tab k e] by (auto simp: stab_def split: if_splits)

text \<open>The state of the component: the table and the index of the entry used last.\<close>

definition arp_ok :: "stack \<Rightarrow> bool" where
  "arp_ok st \<longleftrightarrow> arp_inv (arp_table st) \<and> etharp_cached_entry st < ARP_TABLE_SIZE"

text \<open>A step that keeps the invariant and adds nothing to what is known.\<close>

definition arp_shrinks :: "stack \<Rightarrow> stack \<Rightarrow> bool" where
  "arp_shrinks st st' \<longleftrightarrow> arp_ok st' \<and> stab (arp_table st') \<subseteq> stab (arp_table st)"

lemma arp_shrinks_refl: "arp_ok st \<Longrightarrow> arp_shrinks st st"
  by (simp add: arp_shrinks_def)

lemma arp_shrinks_trans: "arp_shrinks st st1 \<Longrightarrow> arp_shrinks st1 st2 \<Longrightarrow> arp_shrinks st st2"
  by (auto simp: arp_shrinks_def)

lemma arp_shrinks_port: "arp_ok st \<Longrightarrow> arp_shrinks st (st\<lparr>sport := s\<rparr>)"
  by (simp add: arp_shrinks_def arp_ok_def)

lemma arp_shrinks_output:
  "arp_ok st \<Longrightarrow> ethernet_output p a b c st = Some (r, st') \<Longrightarrow> arp_shrinks st st'"
  "arp_ok st \<Longrightarrow> etharp_request_dst heap i ip hw st = Some (r, st') \<Longrightarrow> arp_shrinks st st'"
  "arp_ok st \<Longrightarrow> etharp_request heap i ip st = Some (r, st') \<Longrightarrow> arp_shrinks st st'"
  by (auto dest!: ethernet_output_port etharp_request_port intro: arp_shrinks_port)

lemma arp_shrinks_ok: "arp_shrinks st st' \<Longrightarrow> arp_ok st'"
  by (simp add: arp_shrinks_def)

lemma arp_shrinks_entry:
  assumes "arp_ok st" "k < ARP_TABLE_SIZE" "entry_ok (f (arp_table st ! k))" "in_use (arp_table st ! k)"
    "ent_ipaddr (f (arp_table st ! k)) = ent_ipaddr (arp_table st ! k)"
    "ent_netif (f (arp_table st ! k)) = ent_netif (arp_table st ! k)"
    "kind_stable (f (arp_table st ! k)) \<Longrightarrow> kind_stable (arp_table st ! k) \<and> fact (f (arp_table st ! k)) = fact (arp_table st ! k)"
  shows "arp_shrinks st (set_entry k f st)"
  using assms arp_inv_same_key [of "arp_table st" k "f (arp_table st ! k)"] arp_inv_nth(2) [of "arp_table st"]
    stab_update [of "arp_table st" k "f (arp_table st ! k)"] stab_update_same [of k "arp_table st" "f (arp_table st ! k)"]
  by (auto simp: arp_shrinks_def arp_ok_def set_entry_def split: if_splits)

lemma arp_shrinks_rerequest:
  assumes "arp_ok st" "k < ARP_TABLE_SIZE" "ent_state (arp_table st ! k) = ETHARP_STATE_STABLE"
  shows "arp_shrinks st (set_entry k (\<lambda>e. e\<lparr>ent_state := ETHARP_STATE_STABLE_REREQUESTING_1\<rparr>) st)"
  using assms arp_inv_nth(1) [of "arp_table st" k]
  by (intro arp_shrinks_entry) (auto simp: arp_ok_def entry_ok_def kind_defs fact_def)

lemma to_arp_index_shrinks:
  assumes ok: "arp_ok st" "k < ARP_TABLE_SIZE" and out: "etharp_output_to_arp_index heap i q k st = Some (r, st')"
  shows "arp_shrinks st st'"
proof -
  let ?e = "arp_table st ! k"
  let ?m = "\<lambda>(err, st1). if err = ERR_OK
      then set_entry k (\<lambda>e. e\<lparr>ent_state := ETHARP_STATE_STABLE_REREQUESTING_1\<rparr>) st1 else st1"
  have mark: "arp_shrinks st (?m (r1, st1))" if "st1 = st\<lparr>sport := s\<rparr>" "ent_state ?e = ETHARP_STATE_STABLE" for r1 st1 s
    using that arp_shrinks_port [OF ok(1), of s] arp_shrinks_rerequest [of st1 k] ok(2)
    by (auto intro: arp_shrinks_trans arp_shrinks_ok)
  obtain st1 where st1: "arp_shrinks st st1"
    "ethernet_output q (hwaddr (netifs st1 i)) (ent_ethaddr (arp_table st1 ! k)) ETHTYPE_IP st1 = Some (r, st')"
    using out arp_shrinks_refl [OF ok(1)] mark
    by (auto simp: etharp_output_to_arp_index_def Let_def split: if_splits option.splits
        dest!: etharp_request_port)
  then show ?thesis
    using arp_shrinks_output(1) [OF arp_shrinks_ok [OF st1(1)] st1(2)] arp_shrinks_trans by blast
qed

lemma arp_shrinks_queue:
  assumes "arp_ok st" "k < ARP_TABLE_SIZE" "ent_state (arp_table st ! k) = ETHARP_STATE_PENDING"
  shows "arp_shrinks st (set_entry k (\<lambda>e. e\<lparr>ent_q := q\<rparr>) st)"
  using assms arp_inv_nth(1) [of "arp_table st" k]
  by (intro arp_shrinks_entry) (auto simp: arp_ok_def entry_ok_def kind_defs)

lemma query_start_shrinks:
  assumes ok: "arp_ok st" and f: "etharp_find_entry ip fl (Some i) (arp_table st) = (Some k, tab)"
  shows "arp_shrinks st (query_start i k tab st) \<and> k < ARP_TABLE_SIZE \<and> in_use (arp_table (query_start i k tab st) ! k)"
proof -
  have inv: "arp_inv (arp_table st)" and len: "length (arp_table st) = ARP_TABLE_SIZE"
    using ok arp_inv_nth(2) by (simp_all add: arp_ok_def)
  show ?thesis
    using inv
  proof (cases rule: find_entry_cases [of _ ip fl i])
    case none
    then show ?thesis using f by simp
  next
    case (found k')
    then show ?thesis
      using f arp_shrinks_refl [OF ok] by (simp add: query_start_def in_use_def)
  next
    case (new k')
    let ?e = "empty_entry\<lparr>ent_ipaddr := ip, ent_state := ETHARP_STATE_PENDING, ent_netif := Some i\<rparr>"
    have "entry_ok ?e" "\<not> kind_stable ?e" "in_use ?e"
      by (simp_all add: entry_ok_def kind_defs empty_entry_def reg_defs)
    moreover have "query_start i k tab st = st\<lparr>arp_table := (arp_table st)[k := ?e]\<rparr>"
      using f new(1,2) len by (auto simp: query_start_def set_entry_def empty_entry_def)
    ultimately show ?thesis
      using ok f new(1,2) len arp_inv_new_key [OF inv new(2,4), of ?e] stab_update [of "arp_table st" k ?e]
      by (auto simp: arp_shrinks_def arp_ok_def)
  qed
qed

lemma arp_shrinks_cached: "arp_ok st \<Longrightarrow> k < ARP_TABLE_SIZE \<Longrightarrow> arp_shrinks st (st\<lparr>etharp_cached_entry := k\<rparr>)"
  by (simp add: arp_shrinks_def arp_ok_def)

lemma query_send_shrinks:
  assumes ok: "arp_ok st" "k < ARP_TABLE_SIZE" and s: "query_send heap i k p res st = Some (r, st')"
  shows "arp_shrinks st st'"
proof (cases "is_stable (ent_state (arp_table st ! k))")
  case True
  then show ?thesis
    using s arp_shrinks_cached [OF ok] arp_shrinks_trans
      arp_shrinks_output(1) [OF arp_shrinks_ok [OF arp_shrinks_cached [OF ok]]]
    by (auto simp: query_send_def Let_def)
next
  case False
  then show ?thesis
    using s arp_shrinks_refl [OF ok(1)] arp_shrinks_queue [OF ok]
    by (auto simp: query_send_def Let_def split: if_splits option.splits)
qed

lemma find_entry_none: "fst (etharp_find_entry ip fl n tab) = None \<Longrightarrow> snd (etharp_find_entry ip fl n tab) = tab"
  by (auto simp: etharp_find_entry_def split: sum.splits option.splits if_splits)

lemma etharp_query_shrinks:
  assumes ok: "arp_ok st" and q: "etharp_query heap i ip p st = Some (r, st')"
  shows "arp_shrinks st st'"
proof -
  let ?f = "etharp_find_entry ip ETHARP_FLAG_TRY_HARD (Some i) (arp_table st)"
  consider "\<not> unicast_addr ip (netifs st i)" | "unicast_addr ip (netifs st i)" "fst ?f = None"
    | k tab where "unicast_addr ip (netifs st i)" "?f = (Some k, tab)"
    by (cases ?f; cases "fst ?f") auto
  then show ?thesis
  proof cases
    case 1
    then show ?thesis
      using q arp_shrinks_refl [OF ok] by (simp add: etharp_query_def)
  next
    case 2
    then have "?f = (None, arp_table st)"
      using find_entry_none [OF 2(2)] by (metis prod.collapse)
    then show ?thesis
      using 2(1) q arp_shrinks_refl [OF ok] by (simp add: etharp_query_def)
  next
    case (3 k tab)
    let ?st1 = "query_start i k tab st"
    note start = query_start_shrinks [OF ok 3(2)]
    have "arp_ok ?st1"
      using start arp_shrinks_ok by blast
    then have req: "etharp_request heap i ip ?st1 = Some (res, st2) \<Longrightarrow> arp_shrinks st st2" for res st2
      using start arp_shrinks_output(3) arp_shrinks_trans by blast
    obtain res st2 where r: "(if ent_state (tab ! k) = ETHARP_STATE_EMPTY \<or> p = None then etharp_request heap i ip ?st1
        else Some (ERR_MEM, ?st1)) = Some (res, st2)"
      and st2: "case p of None \<Rightarrow> st' = st2 | Some b \<Rightarrow> query_send heap i k b res st2 = Some (r, st')"
      using q 3 by (auto simp: etharp_query_def Let_def split: if_splits option.splits)
    have st2': "arp_shrinks st st2"
      using r start by (auto split: if_splits intro: req)
    then show ?thesis
      using start query_send_shrinks [OF arp_shrinks_ok [OF st2'], of k heap i _ res r st'] arp_shrinks_trans [OF st2'] st2 st2'
      by (cases p) auto
  qed
qed

lemma find_upt: "find P [0..<n] = Some k \<Longrightarrow> k < n \<and> P k"
  by (auto simp: find_Some_iff)

lemma etharp_output_shrinks:
  assumes ok: "arp_ok st" and out: "etharp_output heap i q ip st = Some (r, st')"
  shows "arp_shrinks st st'"
proof -
  have hit: "arp_shrinks st st'" if "etharp_output_to_arp_index heap i q k (st\<lparr>etharp_cached_entry := k\<rparr>) = Some (r, st')"
    "k < ARP_TABLE_SIZE" for k
    using that arp_shrinks_cached [OF ok that(2)] to_arp_index_shrinks [OF arp_shrinks_ok _ that(1)] arp_shrinks_trans
    by blast
  have "etharp_cached_entry st < ARP_TABLE_SIZE"
    using ok by (simp add: arp_ok_def)
  then show ?thesis
    using out hit [of "etharp_cached_entry st"] ok
    by (auto simp: etharp_output_def Let_def split: if_splits option.splits
        intro: arp_shrinks_output(1) [OF ok] arp_shrinks_refl etharp_query_shrinks [OF ok] hit
        dest: find_upt)
qed

lemma cleanup_inv:
  "arp_inv tab \<Longrightarrow> \<forall>i\<in>set is. i < ARP_TABLE_SIZE \<Longrightarrow> arp_inv (cleanup_loop n is tab) \<and> stab (cleanup_loop n is tab) \<subseteq> stab tab"
proof (induction "is" arbitrary: tab)
  case (Cons i "is")
  have "stab (tab[i := empty_entry]) \<subseteq> stab tab"
    using stab_update [of tab i empty_entry] by (simp add: kind_defs empty_entry_def)
  then show ?case
    using Cons arp_inv_clear [of tab i] by (auto simp: free_entry_empty)
qed simp

lemma cleanup_shrinks: "arp_ok st \<Longrightarrow> arp_shrinks st (etharp_cleanup_netif n st)"
  using cleanup_inv [of "arp_table st" "[0..<ARP_TABLE_SIZE]" n]
  by (simp add: arp_ok_def arp_shrinks_def etharp_cleanup_netif_def)

section \<open>The cache and its history\<close>

definition arp_lookup :: "stack \<Rightarrow> u32 \<times> u32 \<Rightarrow> (u8 list \<times> nat) option" where
  "arp_lookup st k =
     (case etharp_find_addr (Some (fst k)) (snd k) (arp_table st) of
        None \<Rightarrow> None
      | Some (i, hw, _) \<Rightarrow> Some (hw, unat (ent_ctime (arp_table st ! i))))"

definition arp_learns :: "u32 \<times> u32 \<Rightarrow> u8 list \<Rightarrow> stack \<Rightarrow> stack \<Rightarrow> bool" where
  "arp_learns k hw st st' \<longleftrightarrow>
     (\<exists>fl r. etharp_update_arp_entry (fst k) (snd k) hw fl st = Some (r, st') \<and> r \<noteq> ERR_ARG)"

definition arp_ticks :: "stack \<Rightarrow> stack \<Rightarrow> bool" where
  "arp_ticks st st' \<longleftrightarrow> (\<exists>heap. etharp_tmr heap st = Some st')"

text \<open>Everything else: output through the table, queries, removal of an interface, and all code that
  leaves the table alone.\<close>

definition arp_others :: "stack \<Rightarrow> stack \<Rightarrow> bool" where
  "arp_others st st' \<longleftrightarrow>
     arp_table st' = arp_table st \<and> etharp_cached_entry st' = etharp_cached_entry st
     \<or> (\<exists>heap i q ip r. etharp_output heap i q ip st = Some (r, st'))
     \<or> (\<exists>heap i q ip r. etharp_query heap i ip q st = Some (r, st'))
     \<or> (\<exists>n. st' = etharp_cleanup_netif n st)"

lemma fact_unique:
  assumes "arp_inv tab" "(k, hw, c) \<in> stab tab" "(k, hw', c') \<in> stab tab"
  shows "hw' = hw \<and> c' = c"
proof -
  obtain i j where ij: "i < ARP_TABLE_SIZE" "j < ARP_TABLE_SIZE" "kind_stable (tab ! i)" "kind_stable (tab ! j)"
    "fact (tab ! i) = (k, hw, c)" "fact (tab ! j) = (k, hw', c')"
    using assms arp_inv_nth(2) [OF assms(1)] by (auto simp: stab_def in_set_conv_nth)
  then have "i = j"
    using assms(1) used_kinds unfolding arp_inv_def fact_def by (metis prod.inject)
  then show ?thesis
    using ij by simp
qed

lemma nth_fact: "k < ARP_TABLE_SIZE \<Longrightarrow> arp_inv tab \<Longrightarrow> kind_stable (tab ! k) \<Longrightarrow> fact (tab ! k) \<in> stab tab"
  using arp_inv_nth(2) by (auto simp: stab_def)

lemma arp_lookup_iff:
  assumes inv: "arp_inv (arp_table st)"
  shows "arp_lookup st (n, ip) = Some (hw, a) \<longleftrightarrow> (\<exists>c. ((Some n, ip), hw, c) \<in> stab (arp_table st) \<and> unat c = a)"
proof -
  let ?tab = "arp_table st"
  have fact_known: "\<exists>j<ARP_TABLE_SIZE. kind_stable (?tab ! j) \<and> ent_ipaddr (?tab ! j) = ip \<and> ent_netif (?tab ! j) = Some n"
    if "((Some n, ip), hw, c) \<in> stab ?tab" for hw c
    using that arp_inv_nth(2) [OF inv] by (auto simp: stab_def fact_def in_set_conv_nth)
  show ?thesis
    using inv
  proof (cases rule: find_entry_cases [of _ ip ETHARP_FLAG_FIND_ONLY n])
    case none
    then have "((Some n, ip), hw, c) \<notin> stab ?tab" for c
      using fact_known [of hw c] none(3) used_kinds unfolding known_def entry_match_def by metis
    then show ?thesis
      using none by (simp add: arp_lookup_def etharp_find_addr_def)
  next
    case (found k)
    show ?thesis
    proof (cases "kind_stable (?tab ! k)")
      case True
      then have "((Some n, ip), ent_ethaddr (?tab ! k), ent_ctime (?tab ! k)) \<in> stab ?tab"
        using nth_fact [OF found(2) inv] found by (simp add: fact_def)
      then have "((Some n, ip), hw, c) \<in> stab ?tab \<longleftrightarrow> hw = ent_ethaddr (?tab ! k) \<and> c = ent_ctime (?tab ! k)" for c
        using fact_unique [OF inv] by blast
      then show ?thesis
        using found True by (auto simp: arp_lookup_def etharp_find_addr_def kind_stable_def)
    next
      case False
      then have "((Some n, ip), hw, c) \<notin> stab ?tab" for c
        using fact_known [of hw c] found inv used_kinds unfolding arp_inv_def by (metis prod.inject)
      then show ?thesis
        using found False by (simp add: arp_lookup_def etharp_find_addr_def kind_stable_def)
    qed
  next
    case (new k)
    then show ?thesis by (simp add: reg_defs)
  qed
qed

lemma arp_lookup_subset:
  assumes "arp_inv (arp_table st)" "arp_inv (arp_table st')"
    and "\<And>hw c. ((Some n, ip), hw, c) \<in> stab (arp_table st') \<Longrightarrow> ((Some n, ip), hw, c) \<in> stab (arp_table st)"
  shows "arp_lookup st' (n, ip) \<in> {None, arp_lookup st (n, ip)}"
proof (cases "arp_lookup st' (n, ip)")
  case (Some x)
  then obtain hw a where x: "arp_lookup st' (n, ip) = Some (hw, a)"
    by (cases x) simp
  then have "arp_lookup st (n, ip) = Some (hw, a)"
    using assms(3) unfolding arp_lookup_iff [OF assms(1)] arp_lookup_iff [OF assms(2)] by blast
  then show ?thesis
    using x by simp
qed simp

lemma stab_age: "stab (map age_entry tab) \<subseteq> (\<lambda>(k, hw, c). (k, hw, c + 1)) ` stab tab"
proof -
  have "fact (age_entry e) = (\<lambda>(k, hw, c). (k, hw, c + 1)) (fact e) \<and> kind_stable e" if "kind_stable (age_entry e)" for e
    using that by (cases "ent_state e") (auto simp: age_entry_def fact_def kind_defs empty_entry_def split: if_splits)
  then show ?thesis
    by (fastforce simp: stab_def)
qed

lemma etharp_update_cached:
  "etharp_update_arp_entry n ip hw fl st = Some (r, st') \<Longrightarrow> etharp_cached_entry st' = etharp_cached_entry st"
  by (auto simp: etharp_update_arp_entry_def set_entry_def Let_def split: if_splits prod.splits option.splits
      dest!: ethernet_output_port)

lemma etharp_tmr_loop_cached:
  "etharp_tmr_loop heap is st = Some st' \<Longrightarrow> etharp_cached_entry st' = etharp_cached_entry st"
proof (induction "is" arbitrary: st)
  case (Cons i "is")
  have "etharp_cached_entry st1 = etharp_cached_entry st" if "etharp_tmr_entry heap i st = Some st1" for st1
    using that by (auto simp: etharp_tmr_entry_def set_entry_def Let_def
        split: if_splits option.splits etharp_state.splits dest!: etharp_request_port)
  then show ?case
    using Cons by (auto split: option.splits)
qed simp

lemma arp_learns_ok: "arp_ok st \<Longrightarrow> arp_learns k hw st st' \<Longrightarrow> arp_ok st'"
  by (auto simp: arp_ok_def arp_learns_def etharp_update_cached dest: etharp_update_inv)

lemma arp_ticks_ok: "arp_ok st \<Longrightarrow> arp_ticks st st' \<Longrightarrow> arp_ok st'"
  using arp_inv_age by (auto simp: arp_ok_def arp_ticks_def etharp_tmr_table)
    (auto simp: etharp_tmr_def etharp_tmr_loop_cached)

lemma arp_others_shrinks: "arp_ok st \<Longrightarrow> arp_others st st' \<Longrightarrow> arp_shrinks st st'"
  unfolding arp_others_def
  by (elim disjE exE) (simp_all add: etharp_output_shrinks etharp_query_shrinks cleanup_shrinks,
      simp add: arp_shrinks_def arp_ok_def)

lemma arp_learns_lookup:
  assumes ok: "arp_ok st" and l: "arp_learns k hw st st'"
  shows "arp_lookup st' k \<in> {None, Some (hw, 0)}"
    and "k' \<noteq> k \<Longrightarrow> arp_lookup st' k' \<in> {None, arp_lookup st k'}"
proof -
  obtain n ip where k: "k = (n, ip)" by force
  obtain fl r where up: "etharp_update_arp_entry n ip hw fl st = Some (r, st')" "r \<noteq> ERR_ARG"
    using l by (auto simp: arp_learns_def k)
  have inv: "arp_inv (arp_table st)" and inv': "arp_inv (arp_table st')"
    using ok arp_learns_ok [OF ok l] by (simp_all add: arp_ok_def)
  have len: "length (arp_table st) = ARP_TABLE_SIZE"
    by (rule arp_inv_nth(2) [OF inv])
  from inv up have both: "arp_lookup st' k \<in> {None, Some (hw, 0)}
      \<and> (k' \<noteq> k \<longrightarrow> arp_lookup st' k' \<in> {None, arp_lookup st k'})" for k'
  proof (cases rule: etharp_update_effect)
    case kept
    have "\<not> is_stable (ent_state (arp_table st ! i))"
      if "etharp_find_entry ip ETHARP_FLAG_FIND_ONLY (Some n) (arp_table st) = (Some i, tab)" for i tab
      using inv
    proof (cases rule: find_entry_cases [of _ ip ETHARP_FLAG_FIND_ONLY n])
      case (found j)
      then show ?thesis
        using kept(2) by (auto simp: known_def entry_match_def)
    qed (use that in \<open>auto simp: reg_defs\<close>)
    then have "arp_lookup st k = None"
      by (auto simp: arp_lookup_def etharp_find_addr_def k split: option.splits prod.splits)
         (metis prod.collapse)
    moreover have "arp_lookup st' x = arp_lookup st x" for x
      by (simp only: arp_lookup_def kept(1))
    ultimately show ?thesis
      by simp
  next
    case (learned i)
    have "fact (stable_entry n ip hw) \<in> stab (arp_table st')"
      using nth_fact [OF learned(1) inv'] learned(1,2) len by simp
    then have "arp_lookup st' k = Some (hw, 0)"
      by (auto simp: k arp_lookup_iff [OF inv'] fact_def intro!: exI [of _ 0])
    moreover have "arp_lookup st' k' \<in> {None, arp_lookup st k'}" if "k' \<noteq> k"
    proof -
      obtain m j where k': "k' = (m, j)" by force
      then show ?thesis
        using that k stab_update [of "arp_table st" i "stable_entry n ip hw"] learned(2)
        by (simp only: k', intro arp_lookup_subset [OF inv inv']) (auto simp: fact_def)
    qed
    ultimately show ?thesis
      by simp
  qed
  from both show "arp_lookup st' k \<in> {None, Some (hw, 0)}" by blast
  from both show "k' \<noteq> k \<Longrightarrow> arp_lookup st' k' \<in> {None, arp_lookup st k'}" by blast
qed

lemma arp_ticks_lookup:
  assumes ok: "arp_ok st" and t: "arp_ticks st st'"
  shows "arp_lookup st' k \<in> {None, map_option (\<lambda>(hw, c). (hw, Suc c)) (arp_lookup st k)}"
proof (cases "arp_lookup st' k")
  case (Some x)
  obtain n ip where k: "k = (n, ip)" by force
  obtain hw a where x: "x = (hw, a)" by force
  have inv: "arp_inv (arp_table st)" and inv': "arp_inv (arp_table st')"
    using ok arp_ticks_ok [OF ok t] by (simp_all add: arp_ok_def)
  have tab': "arp_table st' = map age_entry (arp_table st)"
    using t etharp_tmr_table [OF inv] by (auto simp: arp_ticks_def)
  obtain c where c: "((Some n, ip), hw, c + 1) \<in> stab (arp_table st')" "((Some n, ip), hw, c) \<in> stab (arp_table st)"
    "unat (c + 1) = a"
    using Some stab_age [of "arp_table st"] unfolding k x arp_lookup_iff [OF inv'] tab' by fastforce
  have "c < ARP_MAXAGE"
    using c(2) inv used_kinds by (auto simp: stab_def fact_def arp_inv_def entry_ok_def in_set_conv_nth)
  then have "unat (c + 1) = unat c + 1"
    by (intro unat_plus1_u16) (simp add: word_less_nat_alt reg_defs)
  moreover have "arp_lookup st k = Some (hw, unat c)"
    unfolding k arp_lookup_iff [OF inv] using c(2) by blast
  ultimately show ?thesis
    using Some c(3) x by simp
qed simp

interpretation etharp: address_cache arp_ok arp_lookup arp_learns arp_ticks arp_others 300
proof
  fix s s' :: stack and k k' :: "u32 \<times> u32" and v n
  assume ok: "arp_ok s"
  then have inv: "arp_inv (arp_table s)"
    by (simp add: arp_ok_def)
  show "arp_learns k v s s' \<Longrightarrow> arp_ok s'" "arp_ticks s s' \<Longrightarrow> arp_ok s'"
    using ok by (auto intro: arp_learns_ok arp_ticks_ok)
  show "arp_others s s' \<Longrightarrow> arp_ok s'"
    using arp_others_shrinks [OF ok] by (auto simp: arp_shrinks_def)
  show "arp_learns k v s s' \<Longrightarrow> arp_lookup s' k \<in> {None, Some (v, 0)}"
    "arp_learns k v s s' \<Longrightarrow> k' \<noteq> k \<Longrightarrow> arp_lookup s' k' \<in> {None, arp_lookup s k'}"
    by (rule arp_learns_lookup [OF ok], assumption+)+
  show "arp_ticks s s' \<Longrightarrow> arp_lookup s' k \<in> {None, map_option (\<lambda>(v, n). (v, Suc n)) (arp_lookup s k)}"
    by (rule arp_ticks_lookup [OF ok])
  obtain m ip where k: "k = (m, ip)" by force
  show "arp_lookup s' k \<in> {None, arp_lookup s k}" if "arp_others s s'"
  proof -
    have "arp_shrinks s s'"
      by (rule arp_others_shrinks [OF ok that])
    then show ?thesis
      unfolding k by (intro arp_lookup_subset [OF inv]) (auto simp: arp_shrinks_def arp_ok_def)
  qed
  show "n < 300" if l: "arp_lookup s k = Some (v, n)"
  proof -
    obtain c where "((Some m, ip), v, c) \<in> stab (arp_table s)" "unat c = n"
      using l unfolding k arp_lookup_iff [OF inv] by blast
    moreover from this have "c < ARP_MAXAGE"
      using inv used_kinds by (auto simp: stab_def fact_def arp_inv_def entry_ok_def in_set_conv_nth)
    ultimately show ?thesis
      by (simp add: word_less_nat_alt reg_defs)
  qed
qed

section \<open>Properties\<close>

text \<open>
  C32. The search for an entry, with any flags. If the address has an entry on the interface, the search returns it
  and changes nothing. Otherwise it fails, and changes nothing, if it may only find entries, or if it may
  not recycle and no entry is empty. In all other cases it takes the first empty entry; in a full
  table the oldest stable entry, or else the oldest pending one without a packet, or else
  the oldest pending one, which it clears and gives to the address.
\<close>

theorem etharp_find_entry_correct:
  assumes "arp_inv tab"
  shows "case etharp_find_entry ip flags (Some n) tab of (r, tab') \<Rightarrow>
    if known ip (Some n) tab
    then \<exists>k<ARP_TABLE_SIZE. r = Some k \<and> tab' = tab \<and> in_use (tab ! k) \<and> ent_ipaddr (tab ! k) = ip \<and> ent_netif (tab ! k) = Some n
    else if flags AND ETHARP_FLAG_FIND_ONLY \<noteq> 0
      \<or> flags AND ETHARP_FLAG_TRY_HARD = 0 \<and> (\<forall>j<ARP_TABLE_SIZE. in_use (tab ! j))
    then r = None \<and> tab' = tab
    else \<exists>k<ARP_TABLE_SIZE. r = Some k \<and> victim tab k \<and> tab' = tab[k := empty_entry\<lparr>ent_ipaddr := ip, ent_netif := Some n\<rparr>]"
  unfolding find_fails_def [symmetric] using assms
proof (cases rule: find_entry_cases [of _ ip flags n])
  case (found k)
  then have "known ip (Some n) tab"
    by (auto simp: known_def entry_match_def)
  then show "case etharp_find_entry ip flags (Some n) tab of (r, tab') \<Rightarrow>
    if known ip (Some n) tab
    then \<exists>k<ARP_TABLE_SIZE. r = Some k \<and> tab' = tab \<and> in_use (tab ! k) \<and> ent_ipaddr (tab ! k) = ip \<and> ent_netif (tab ! k) = Some n
    else if find_fails flags tab then r = None \<and> tab' = tab
    else \<exists>k<ARP_TABLE_SIZE. r = Some k \<and> victim tab k \<and> tab' = tab[k := empty_entry\<lparr>ent_ipaddr := ip, ent_netif := Some n\<rparr>]"
    using found by simp
qed auto

lemma arp_inv_start: "arp_inv (replicate 10 empty_entry)"
  by (simp add: arp_inv_def ARP_TABLE_SIZE_def)

lemma victim_start: "victim (replicate 10 empty_entry) k \<Longrightarrow> k = 0"
proof -
  assume v: "victim (replicate 10 empty_entry) k"
  have "\<not> in_use (replicate 10 empty_entry ! 0)"
    by simp
  moreover have "0 < ARP_TABLE_SIZE"
    by (simp add: ARP_TABLE_SIZE_def)
  ultimately have "\<exists>j<ARP_TABLE_SIZE. \<not> in_use (replicate 10 empty_entry ! j)"
    by blast
  then have "\<forall>j<k. in_use (replicate 10 empty_entry ! j)"
    using v by (simp add: victim_def)
  then show "k = 0"
    by (cases k) auto
qed

lemma unknown_start: "\<not> known ip n (replicate 10 empty_entry)"
  by (auto simp: known_def ARP_TABLE_SIZE_def)

lemma find_start: "etharp_find_entry ip ETHARP_FLAG_TRY_HARD (Some n) (replicate 10 empty_entry)
    = (Some 0, (replicate 10 empty_entry)[0 := empty_entry\<lparr>ent_ipaddr := ip, ent_netif := Some n\<rparr>])"
  using arp_inv_start
proof (cases rule: find_entry_cases [of _ ip ETHARP_FLAG_TRY_HARD n])
  case (found k)
  then show ?thesis
    by (auto simp: ARP_TABLE_SIZE_def)
next
  case (new k)
  then show ?thesis
    using victim_start [OF new(3)] by simp
qed simp

lemma arp_ok_start: "arp_ok (lwip_start s)"
  by (simp add: arp_ok_def lwip_start_def arp_inv_start ARP_TABLE_SIZE_def)

lemma etharp_find_entry_correct_witness:
  "fst (etharp_find_entry 0x0101A8C0 ETHARP_FLAG_TRY_HARD (Some 1) (replicate 10 empty_entry)) = Some 0
     \<and> fst (etharp_find_entry 0x0101A8C0 ETHARP_FLAG_FIND_ONLY (Some 1) (replicate 10 empty_entry)) = None
     \<and> fst (etharp_find_entry 0x0101A8C0 0 (Some 1) (replicate 10 empty_entry)) = Some 0"
proof -
  have "\<not> (\<forall>j<ARP_TABLE_SIZE. in_use (replicate 10 empty_entry ! j))"
    by (auto simp: ARP_TABLE_SIZE_def intro: exI [of _ 0])
  moreover have "ETHARP_FLAG_TRY_HARD AND ETHARP_FLAG_FIND_ONLY = 0" "ETHARP_FLAG_FIND_ONLY AND ETHARP_FLAG_FIND_ONLY \<noteq> 0"
    by (simp_all add: reg_defs)
  ultimately show ?thesis
    using etharp_find_entry_correct [OF arp_inv_start, where ip = "0x0101A8C0" and n = 1 and flags = ETHARP_FLAG_TRY_HARD]
      etharp_find_entry_correct [OF arp_inv_start, where ip = "0x0101A8C0" and n = 1 and flags = ETHARP_FLAG_FIND_ONLY]
      etharp_find_entry_correct [OF arp_inv_start, where ip = "0x0101A8C0" and n = 1 and flags = 0] unknown_start victim_start
    by (auto split: prod.splits if_splits)
qed

text \<open>
  C16. The invariant of the ARP table: at most one entry per interface and address, entries in use
  belong to an interface and are younger than 300 (pending ones than 5) periods, stable
  entries hold no packet, empty entries are cleared, and the cached index is in range. Every
  operation of the module keeps it.
\<close>

theorem etharp_invariant:
  assumes "arp_ok st"
  shows "(\<forall>n ip hw fl r st'. etharp_update_arp_entry n ip hw fl st = Some (r, st') \<longrightarrow> arp_ok st')
    \<and> (\<forall>heap st'. etharp_tmr heap st = Some st' \<longrightarrow> arp_ok st')
    \<and> (\<forall>heap n q ip r st'. etharp_output heap n q ip st = Some (r, st') \<longrightarrow> arp_ok st')
    \<and> (\<forall>heap n q ip r st'. etharp_query heap n ip q st = Some (r, st') \<longrightarrow> arp_ok st')
    \<and> (\<forall>heap hdr n st'. etharp_input heap hdr n st = Some st' \<longrightarrow> arp_ok st')
    \<and> (\<forall>n. arp_ok (etharp_cleanup_netif n st))"
proof -
  have up: "arp_ok st'" if "etharp_update_arp_entry n ip hw fl st = Some (r, st')" for n ip hw fl r st'
    using that assms etharp_update_inv etharp_update_cached by (auto simp: arp_ok_def)
  have raw: "arp_ok st'" if "etharp_raw heap a b c d e f g st1 = Some (r, st')" "arp_ok st1" for heap a b c d e f g st1 r st'
    using etharp_raw_port [OF that(1)] that(2) arp_shrinks_port arp_shrinks_ok by blast
  have inp: "arp_ok st'" if "etharp_input heap hdr n st = Some st'" for heap hdr n st'
    using that assms up raw
    by (auto simp: etharp_input_def Let_def split: if_splits option.splits)
  have tmr: "arp_ok st'" if "etharp_tmr heap st = Some st'" for heap st'
    using arp_ticks_ok [OF assms] that by (auto simp: arp_ticks_def)
  show ?thesis
    by (intro conjI allI impI)
       (erule up tmr inp arp_shrinks_ok [OF etharp_output_shrinks [OF assms]]
          arp_shrinks_ok [OF etharp_query_shrinks [OF assms]]
        | rule arp_shrinks_ok [OF cleanup_shrinks [OF assms]])+
qed

text \<open>
  C10. No stale or invented addresses: after any sequence of learned addresses, timer periods,
  outputs, queries and clean-ups from the empty table, a hardware address in the table is
  the one that was learned last for its IP address, and fewer than 300 timer periods have
  passed since.
\<close>

theorem etharp_cache_recent:
  assumes "cache_run arp_learns arp_ticks arp_others h (lwip_start s) st"
    and "arp_lookup st (n, ip) = Some (hw, age)"
  shows "last_learned (n, ip) h = Some (hw, age) \<and> age < 300"
proof (rule etharp.lookup_recent [OF assms(1) arp_ok_start _ assms(2)])
  fix k :: "u32 \<times> u32"
  obtain m j where "k = (m, j)" by force
  moreover have "stab (replicate 10 empty_entry) = {}"
    by (auto simp: stab_def kind_defs empty_entry_def)
  ultimately have "arp_lookup (lwip_start s) k \<noteq> Some (hw', a)" for hw' a
    using arp_lookup_iff [of "lwip_start s" m j hw' a] arp_inv_start by (simp add: lwip_start_def)
  then show "arp_lookup (lwip_start s) k = None"
    by (cases "arp_lookup (lwip_start s) k") auto
qed

text \<open>A request or reply on the wire.\<close>

lemma etharp_raw_sent:
  assumes "pbuf_alloc_RAM heap PBUF_LINK 28 = Some p" "fresh PBUF_LINK 28 p"
    and "length ethsrc = 6" "length ethdst = 6" "length hwsrc = 6" "length hwdst = 6"
    and "tx_holds (dev (sport st)) fs" "length (tx_enc fs) + 13 < tx_words (dev (sport st))"
  shows "\<exists>s' f. etharp_raw heap ethsrc ethdst hwsrc ipsrc hwdst ipdst opcode st = Some (ERR_OK, st\<lparr>sport := s'\<rparr>)
    \<and> tx_holds (dev s') (fs @ [f]) \<and> tx_words (dev s') = tx_words (dev (sport st))
    \<and> rx_same (dev (sport st)) (dev s')
    \<and> tx_bytes f = ethdst @ ethsrc @ [0x08, 0x06] @ etharp_hdr opcode hwsrc ipsrc hwdst ipdst"
proof -
  let ?h = "etharp_hdr opcode hwsrc ipsrc hwdst ipdst"
  have len: "length ?h = 28"
    using assms(5,6) by (simp add: etharp_hdr_def store32_def)
  have p: "length (pb_payload p) = 28" "unat (pb_tot_len p) = 28" "length (pb_room p) = 16" "pb_type p = PBUF_RAM"
    using assms(2) by (simp_all add: fresh_def)
  let ?p = "put_bytes 0 ?h p"
  have "headroom 14 ?p" "pb_payload ?p = ?h"
    using p len by (simp_all add: headroom_def put_bytes_def)
  then obtain s' f where "ethernet_output [?p] ethsrc ethdst ETHTYPE_ARP st = Some (ERR_OK, st\<lparr>sport := s'\<rparr>)"
    "tx_holds (dev s') (fs @ [f])" "tx_words (dev s') = tx_words (dev (sport st))" "rx_same (dev (sport st)) (dev s')"
    "tx_bytes f = ethdst @ ethsrc @ store16 (lwip_htons ETHTYPE_ARP) @ ?h"
    using ethernet_output_queue [of ?p ethdst ethsrc st fs ETHTYPE_ARP] assms(3,4,7,8) len
    by (auto simp: ETH_FRAME_SIZE_def words_of_def)
  then show ?thesis
    using assms(1)
    by (intro exI [of _ s'] exI [of _ f])
       (simp add: etharp_raw_def put_header_def ETHTYPE_ARP_def lwip_htons_def store16_def)
qed

lemma load32_append: "length xs = 4 \<Longrightarrow> load32 (xs @ ys) = load32 xs"
  by (simp add: load32_def nth_append)

lemma store32_load32: "length xs = 4 \<Longrightarrow> store32 (load32 xs) = xs"
proof -
  assume "length xs = 4"
  then obtain a b c d where xs: "xs = [a, b, c, d]"
    by (auto simp: length_Suc_conv eval_nat_numeral)
  show ?thesis
    by (auto simp: xs store32_def load32_def store16_def load16_def intro!: bit_word_eqI)
       (auto simp: bit_simps dest: bit_imp_le_length)
qed

lemma load32_store32: "load32 (store32 x @ ys) = x"
  by (auto simp: load32_def store32_def store16_def load16_def intro!: bit_word_eqI)
     (auto simp: bit_simps dest: bit_imp_le_length)

lemma length_tx_bytes: "length (tx_bytes f) = unat (snd f)"
  using words_of_bounds(1) [of "unat (snd f)"] by (simp add: tx_bytes_def)

text \<open>A packet handed to the link layer becomes one frame.\<close>

lemma ethernet_output_ip:
  assumes q: "contiguous (pb_type q)" "14 \<le> length (pb_room q)"
    "unat (pb_tot_len q) = length (pbuf_bytes (q # qs))" "length (pbuf_bytes (q # qs)) \<le> 1500"
    and hw: "length src = 6" "length mac = 6"
    and tx: "tx_holds (dev (sport st)) fs"
    "length (tx_enc fs) + words_of (length (pbuf_bytes (q # qs)) + 14) + 2 < tx_words (dev (sport st))"
  shows "\<exists>s' f. ethernet_output (q # qs) src mac ETHTYPE_IP st = Some (ERR_OK, st\<lparr>sport := s'\<rparr>)
    \<and> tx_holds (dev s') (fs @ [f]) \<and> rx_same (dev (sport st)) (dev s')
    \<and> tx_bytes f = mac @ src @ [0x08, 0x00] @ pbuf_bytes (q # qs)"
proof -
  have "unat (pb_tot_len q) + 14 < 65536"
    using q(3,4) by simp
  then obtain q' where q': "ethernet_output (q # qs) src mac ETHTYPE_IP st = linkoutput (q' # qs) st"
    "pb_payload q' = mac @ src @ store16 (lwip_htons ETHTYPE_IP) @ pb_payload q"
    using ethernet_output_chain [OF q(1,2), of mac src qs ETHTYPE_IP st] hw by blast
  have bytes: "pbuf_bytes (q' # qs) = mac @ src @ [0x08, 0x00] @ pbuf_bytes (q # qs)"
    by (simp add: pbuf_bytes_def q'(2) ETHTYPE_IP_def lwip_htons_def store16_def)
  have len: "length (pbuf_bytes (q' # qs)) = length (pbuf_bytes (q # qs)) + 14"
    using hw unfolding bytes by simp
  have "\<exists>s' f. linkoutput (q' # qs) st = Some (ERR_OK, st\<lparr>sport := s'\<rparr>) \<and> tx_holds (dev s') (fs @ [f])
      \<and> tx_bytes f = pbuf_bytes (q' # qs) \<and> rx_same (dev (sport st)) (dev s')"
    using linkoutput_queue [OF tx(1), of "q' # qs"] tx(2) q(4) unfolding len by simp
  then show ?thesis
    unfolding q'(1) bytes by auto
qed

section \<open>The timer returns and empties the table\<close>

lemma etharp_raw_returns:
  assumes "heap_ok heap" "length ethsrc = 6" "length ethdst = 6" "length hwsrc = 6" "length hwdst = 6"
  shows "\<exists>r st'. etharp_raw heap ethsrc ethdst hwsrc ipsrc hwdst ipdst opcode st = Some (r, st')"
proof (cases "pbuf_alloc_RAM heap PBUF_LINK 28")
  case (Some p)
  then have p: "length (pb_payload p) = 28" "unat (pb_tot_len p) = 28" "length (pb_room p) = 16" "pb_type p = PBUF_RAM"
    using pbuf_alloc_RAM_eq [OF assms(1), of 28 PBUF_LINK] by (simp_all add: fresh_def)
  let ?p = "put_bytes 0 (etharp_hdr opcode hwsrc ipsrc hwdst ipdst) p"
  have h: "headroom 14 ?p" "length (pb_payload ?p) = 28"
    using p assms(4,5) by (simp_all add: headroom_def put_bytes_def etharp_hdr_def store32_def)
  obtain p' where p': "ethernet_output [?p] ethsrc ethdst ETHTYPE_ARP st = linkoutput [p'] st"
    "pb_payload p' = ethdst @ ethsrc @ store16 (lwip_htons ETHTYPE_ARP) @ pb_payload ?p"
    using ethernet_output_frame [OF h(1) assms(3,2)] by blast
  then have "length (pbuf_bytes [p']) \<le> ETH_FRAME_SIZE"
    using h(2) assms(2,3) by (simp add: pbuf_bytes_def ETH_FRAME_SIZE_def)
  then obtain l m where "gather [p'] 0 (EthFrameTX (sport st)) = Some (l, m)"
    using gather_result [of 0 "[p']" "EthFrameTX (sport st)"] by auto
  then show ?thesis
    using Some p'(1) by (simp add: etharp_raw_def put_header_def linkoutput_def low_level_output_def split_def Let_def)
qed (simp add: etharp_raw_def)

definition hw_ok :: "stack \<Rightarrow> bool" where
  "hw_ok st \<longleftrightarrow> (\<forall>n. length (hwaddr (netifs st n)) = 6)"

lemma etharp_tmr_entry_returns:
  assumes "heap_ok heap" "hw_ok st" "i < length (arp_table st)" "entry_ok (arp_table st ! i)"
  shows "\<exists>st'. etharp_tmr_entry heap i st = Some st' \<and> hw_ok st'"
proof -
  have "heap_ok (\<lambda>j. heap (i + j))"
    using assms(1) unfolding heap_ok_def by blast
  then have req: "\<exists>r s. etharp_request (\<lambda>j. heap (i + j)) n ip (st\<lparr>arp_table := tab\<rparr>)
      = Some (r, st\<lparr>arp_table := tab, sport := s\<rparr>)" for n ip tab
    using etharp_raw_returns [of "\<lambda>j. heap (i + j)" "hwaddr (netifs st n)" ethbroadcast "hwaddr (netifs st n)" ethzero
        "ip_addr (netifs st n)" ip ARP_REQUEST "st\<lparr>arp_table := tab\<rparr>"] assms(2)
      etharp_raw_port [of "\<lambda>j. heap (i + j)" _ _ _ _ _ _ _ "st\<lparr>arp_table := tab\<rparr>"]
    by (fastforce simp: etharp_request_def etharp_request_dst_def hw_ok_def ethbroadcast_def ethzero_def)
  then have req': "\<exists>st'. (\<exists>r. etharp_request (\<lambda>j. heap (i + j)) n ip (st\<lparr>arp_table := tab\<rparr>) = Some (r, st'))
      \<and> (\<forall>n. length (hwaddr (netifs st' n)) = 6)" for n ip tab
    using assms(2) unfolding hw_ok_def by (metis stack.select_convs(1) stack.surjective stack.update_convs(8,10))
  show ?thesis
    using assms(2-4)
    by (cases "ent_state (arp_table st ! i)")
       (auto simp: etharp_tmr_entry_def set_entry_def Let_def hw_ok_def entry_ok_def in_use_def split: option.splits
          intro: req')
qed

lemma etharp_tmr_loop_returns:
  assumes "heap_ok heap" "hw_ok st" "distinct is" "\<forall>i\<in>set is. i < length (arp_table st) \<and> entry_ok (arp_table st ! i)"
  shows "\<exists>st'. etharp_tmr_loop heap is st = Some st' \<and> hw_ok st'"
  using assms(2-)
proof (induction "is" arbitrary: st)
  case (Cons i "is")
  then obtain st1 where st1: "etharp_tmr_entry heap i st = Some st1" "hw_ok st1"
    using etharp_tmr_entry_returns [OF assms(1), of st i] by auto
  have "arp_table st1 = (arp_table st)[i := age_entry (arp_table st ! i)]"
    using Cons.prems by (intro etharp_tmr_entry_table [OF st1(1)]) simp
  then have "\<forall>j\<in>set is. j < length (arp_table st1) \<and> entry_ok (arp_table st1 ! j)"
    using Cons.prems by (auto simp: nth_list_update)
  then show ?case
    using Cons.IH [OF st1(2)] Cons.prems(2) st1(1) by simp
qed simp

lemma age_entry_empty [simp]: "age_entry empty_entry = empty_entry"
  by (simp add: age_entry_def)

lemma age_entry_step:
  assumes "entry_ok e" "in_use e"
  shows "age_entry e = empty_entry
    \<or> unat (ent_ctime (age_entry e)) = unat (ent_ctime e) + 1 \<and> in_use (age_entry e) \<and> entry_ok (age_entry e)"
proof -
  have "unat (ent_ctime e + 1) = unat (ent_ctime e) + 1"
    using assms by (intro unat_plus1_u16) (auto simp: entry_ok_def word_less_nat_alt reg_defs)
  then show ?thesis
    using age_entry_ok [OF assms(1)] assms(2) by (cases "ent_state e") (auto simp: age_entry_def in_use_def)
qed

lemma age_entry_iterate:
  assumes "entry_ok e"
  shows "(age_entry ^^ n) e = empty_entry \<or> unat (ent_ctime ((age_entry ^^ n) e)) = unat (ent_ctime e) + n
    \<and> in_use ((age_entry ^^ n) e) \<and> entry_ok ((age_entry ^^ n) e)"
proof (induction n)
  case 0
  then show ?case
    using assms by (auto simp: entry_ok_def)
next
  case (Suc n)
  then show ?case
    using age_entry_step [of "(age_entry ^^ n) e"] by auto
qed

lemma age_entry_expires: "entry_ok e \<Longrightarrow> (age_entry ^^ 300) e = empty_entry"
  using age_entry_iterate [of e 300]
  by (auto simp: entry_ok_def word_less_nat_alt reg_defs)

text \<open>\<open>etharp_tmr\<close> called once per element, with what the heap answers each time.\<close>

fun etharp_tmr_calls :: "heap list \<Rightarrow> stack \<Rightarrow> stack option" where
  "etharp_tmr_calls [] st = Some st"
| "etharp_tmr_calls (h # hs) st = (case etharp_tmr h st of None \<Rightarrow> None | Some st1 \<Rightarrow> etharp_tmr_calls hs st1)"

lemma etharp_tmr_calls_table:
  assumes "arp_inv (arp_table st)" "hw_ok st" "\<forall>h\<in>set hs. heap_ok h"
  shows "\<exists>st'. etharp_tmr_calls hs st = Some st' \<and> arp_table st' = map (age_entry ^^ length hs) (arp_table st)"
  using assms
proof (induction hs arbitrary: st)
  case (Cons h hs)
  obtain st1 where st1: "etharp_tmr h st = Some st1" "hw_ok st1"
    using etharp_tmr_loop_returns [of h st "[0..<ARP_TABLE_SIZE]"] Cons.prems arp_inv_nth
    by (auto simp: etharp_tmr_def)
  have t: "arp_table st1 = map age_entry (arp_table st)"
    by (rule etharp_tmr_table [OF Cons.prems(1) st1(1)])
  then obtain st' where "etharp_tmr_calls hs st1 = Some st'" "arp_table st' = map (age_entry ^^ length hs) (arp_table st1)"
    using Cons.IH [of st1] st1(2) arp_inv_age Cons.prems by auto
  then show ?case
    using st1(1) t by (simp add: funpow_swap1)
qed simp

text \<open>
  C24. Entries expire: \<open>etharp_tmr\<close> always returns, whatever the heap answers to its requests, and
  300 calls of it with no packet in between empty the table.
\<close>

theorem etharp_tmr_expires:
  assumes "arp_ok st" "hw_ok st" "\<forall>h\<in>set hs. heap_ok h"
  shows "\<exists>st'. etharp_tmr_calls hs st = Some st'
    \<and> (length hs = 300 \<longrightarrow> arp_table st' = replicate ARP_TABLE_SIZE empty_entry)"
proof -
  have inv: "arp_inv (arp_table st)"
    using assms(1) by (simp add: arp_ok_def)
  then obtain st' where "etharp_tmr_calls hs st = Some st'" "arp_table st' = map (age_entry ^^ length hs) (arp_table st)"
    using etharp_tmr_calls_table [OF inv assms(2,3)] by blast
  moreover have "map (age_entry ^^ 300) (arp_table st) = replicate ARP_TABLE_SIZE empty_entry"
    using inv age_entry_expires by (intro nth_equalityI) (auto simp: arp_inv_def)
  ultimately show ?thesis
    by auto
qed

lemma hw_ok_start: "hw_ok (lwip_start s)"
  by (simp add: hw_ok_def lwip_start_def netif_zero_def)

text \<open>A table with one known host.\<close>

definition sample_known :: stack where
  "sample_known = (lwip_start port_zero)\<lparr>arp_table := (replicate 10 empty_entry)[3 := stable_entry 1 0x0101A8C0 [2, 0, 0, 0, 0, 1]]\<rparr>"

lemma sample_known_ok: "arp_ok sample_known" "hw_ok sample_known"
proof -
  have "arp_inv ((replicate 10 empty_entry)[3 := stable_entry 1 0x0101A8C0 [2, 0, 0, 0, 0, 1]])"
    by (rule arp_inv_put [OF arp_inv_start]) (simp_all add: ARP_TABLE_SIZE_def)
  then show "arp_ok sample_known" "hw_ok sample_known"
    using arp_ok_start [of port_zero] hw_ok_start [of port_zero] by (simp_all add: sample_known_def arp_ok_def hw_ok_def)
qed

lemma etharp_tmr_expires_witness:
  "arp_table sample_known \<noteq> replicate ARP_TABLE_SIZE empty_entry
     \<and> (\<exists>st'. etharp_tmr_calls (replicate 300 sample_heap) sample_known = Some st'
          \<and> arp_table st' = replicate ARP_TABLE_SIZE empty_entry)"
proof -
  have "arp_table sample_known ! 3 \<noteq> replicate ARP_TABLE_SIZE empty_entry ! 3"
    by (simp add: sample_known_def ARP_TABLE_SIZE_def stable_entry_def empty_entry_def)
  then have "arp_table sample_known \<noteq> replicate ARP_TABLE_SIZE empty_entry"
    by auto
  then show ?thesis
    using etharp_tmr_expires [OF sample_known_ok, of "replicate 300 sample_heap"] sample_heap_ok by auto
qed

section \<open>Resolution from the first packet to the answer\<close>

text \<open>An address on the link of the interface, neither broadcast nor multicast.\<close>

definition on_link :: "u32 \<Rightarrow> netif \<Rightarrow> bool" where
  "on_link ip n \<longleftrightarrow> unicast_addr ip n \<and> (ip4_addr_netcmp ip (ip_addr n) (netmask n) \<or> ip4_addr_islinklocal ip)"

lemma etharp_output_unknown:
  assumes ok: "arp_ok st" and l: "on_link ip (netifs st n)" and new: "\<not> known ip (Some n) (arp_table st)"
  shows "etharp_output heap n q ip st = etharp_query heap n ip (Some q) st"
proof -
  have no: "\<not> arp_hit n ip (arp_table st ! k)" if "k < ARP_TABLE_SIZE" for k
    using new that used_kinds by (auto simp: known_def entry_match_def arp_hit_def kind_stable_def)
  moreover have "etharp_cached_entry st < ARP_TABLE_SIZE"
    using ok by (simp add: arp_ok_def)
  moreover have "find (\<lambda>k. arp_hit n ip (arp_table st ! k)) [0..<ARP_TABLE_SIZE] = None"
    using no by (auto simp: find_None_iff)
  ultimately show ?thesis
    using l by (auto simp: etharp_output_def on_link_def unicast_addr_def Let_def)
qed

text \<open>The bytes of an ARP reply from the host \<open>(sha, sip)\<close> to the host \<open>(tha, tip)\<close>, as RFC 826 has them.\<close>

definition arp_reply :: "u8 list \<Rightarrow> u32 \<Rightarrow> u8 list \<Rightarrow> u32 \<Rightarrow> u8 list" where
  "arp_reply sha sip tha tip = [0, 1, 0x08, 0x00, 6, 4, 0, 2] @ sha @ store32 sip @ tha @ store32 tip"

lemma etharp_input_reply:
  assumes "length mac = 6" "length tha = 6"
  shows "etharp_input heap (arp_reply mac ip tha tip @ pad) n st = map_option snd (etharp_update_arp_entry n ip mac
    (if ip_addr (netifs st n) \<noteq> 0 \<and> tip = ip_addr (netifs st n) then ETHARP_FLAG_TRY_HARD else ETHARP_FLAG_FIND_ONLY) st)"
proof -
  let ?h = "arp_reply mac ip tha tip @ pad"
  have len: "length (store32 a) = 4" for a
    by (simp add: store32_def)
  then have "take 6 (drop 8 ?h) = mac" "load32 (drop 14 ?h) = ip" "load32 (drop 24 ?h) = tip" "\<not> length ?h < 28"
    using assms by (simp_all add: arp_reply_def load32_store32)
  moreover have "load16 (?h ! 0) (?h ! 1) = lwip_htons 1" "?h ! 4 = 6" "?h ! 5 = 4"
    "load16 (?h ! 2) (?h ! 3) = lwip_htons ETHTYPE_IP" "load16 (?h ! 6) (?h ! 7) \<noteq> lwip_htons ARP_REQUEST"
    by (simp_all add: arp_reply_def load16_def lwip_htons_def reg_defs ETHTYPE_IP_def ARP_REQUEST_def)
  ultimately show ?thesis
    unfolding etharp_input_def Let_def by (auto split: option.splits)
qed

text \<open>
  C15. Address resolution end to end. A packet for an address on the link that the table does not
  know is accepted: a request for the address goes out as a broadcast frame, and the packet
  waits in a pending entry. When the reply of any hardware address for this IP address arrives, with any
  padding behind it, the entry becomes stable with this hardware address, and the packet goes out, as the next frame,
  to this hardware address. The heap has memory for the request, the packet has room for the
  header of the frame and fits one frame, and the transmit queue has room for both frames.
\<close>

theorem etharp_resolution:
  assumes ok: "arp_ok st" and l: "on_link ip (netifs st n)" and new: "\<not> known ip (Some n) (arp_table st)"
    and heap: "pbuf_alloc_RAM heap PBUF_LINK 28 = Some b" "fresh PBUF_LINK 28 b"
    and hw: "length (hwaddr (netifs st n)) = 6"
    and q: "contiguous (pb_type q)" "14 \<le> length (pb_room q)" "unat (pb_tot_len q) = length (pbuf_bytes (q # qs))"
      "length (pbuf_bytes (q # qs)) \<le> 1500" "\<forall>p \<in> set (q # qs). pb_type p \<noteq> PBUF_REF"
    and tx: "tx_holds (dev (sport st)) fs"
      "length (tx_enc fs) + 13 + words_of (length (pbuf_bytes (q # qs)) + 14) + 2 < tx_words (dev (sport st))"
  shows "\<exists>k s f. let st1 = st\<lparr>arp_table := (arp_table st)[k := empty_entry\<lparr>ent_ipaddr := ip, ent_netif := Some n,
                 ent_state := ETHARP_STATE_PENDING, ent_q := Some (q # qs)\<rparr>], sport := s\<rparr>
    in k < ARP_TABLE_SIZE \<and> etharp_output heap n (q # qs) ip st = Some (ERR_OK, st1) \<and> tx_holds (dev s) (fs @ [f])
      \<and> tx_bytes f = ethbroadcast @ hwaddr (netifs st n) @ [0x08, 0x06]
          @ etharp_hdr ARP_REQUEST (hwaddr (netifs st n)) (ip_addr (netifs st n)) ethzero ip
      \<and> (\<forall>heap' mac pad. length mac = 6 \<longrightarrow>
          (\<exists>s' f'. etharp_input heap' (arp_reply mac ip (hwaddr (netifs st n)) (ip_addr (netifs st n)) @ pad) n st1
              = Some (st1\<lparr>arp_table := (arp_table st)[k := stable_entry n ip mac], sport := s'\<rparr>)
            \<and> tx_holds (dev s') (fs @ [f, f'])
            \<and> tx_bytes f' = mac @ hwaddr (netifs st n) @ [0x08, 0x00] @ pbuf_bytes (q # qs)))"
proof -
  have inv: "arp_inv (arp_table st)" and len: "length (arp_table st) = ARP_TABLE_SIZE"
    using ok arp_inv_nth by (auto simp: arp_ok_def)
  have uni: "unicast_addr ip (netifs st n)"
    using l by (simp add: on_link_def)
  obtain k where k: "k < ARP_TABLE_SIZE" "etharp_find_entry ip ETHARP_FLAG_TRY_HARD (Some n) (arp_table st)
      = (Some k, (arp_table st)[k := empty_entry\<lparr>ent_ipaddr := ip, ent_netif := Some n\<rparr>])"
    using inv
  proof (cases rule: find_entry_cases [of _ ip ETHARP_FLAG_TRY_HARD n])
    case (found j)
    then have "known ip (Some n) (arp_table st)"
      by (auto simp: known_def entry_match_def)
    then show thesis
      using new by simp
  qed (auto intro: that)
  let ?pend = "empty_entry\<lparr>ent_ipaddr := ip, ent_netif := Some n, ent_state := ETHARP_STATE_PENDING\<rparr>"
  let ?t = "st\<lparr>arp_table := (arp_table st)[k := ?pend]\<rparr>"
  have start: "query_start n k ((arp_table st)[k := empty_entry\<lparr>ent_ipaddr := ip, ent_netif := Some n\<rparr>]) st = ?t"
    using k(1) len by (simp add: query_start_def set_entry_def empty_entry_def)
  obtain s f where s: "etharp_request heap n ip ?t = Some (ERR_OK, ?t\<lparr>sport := s\<rparr>)" "tx_holds (dev s) (fs @ [f])"
    "tx_bytes f = ethbroadcast @ hwaddr (netifs st n) @ [0x08, 0x06]
       @ etharp_hdr ARP_REQUEST (hwaddr (netifs st n)) (ip_addr (netifs st n)) ethzero ip"
    "tx_words (dev s) = tx_words (dev (sport st))"
    using etharp_raw_sent [OF heap hw _ hw, of ethbroadcast ethzero ?t fs "ip_addr (netifs st n)" ip ARP_REQUEST] tx
    by (auto simp: etharp_request_def etharp_request_dst_def ethbroadcast_def ethzero_def)
  let ?q = "?pend\<lparr>ent_q := Some (q # qs)\<rparr>"
  let ?st1 = "st\<lparr>arp_table := (arp_table st)[k := ?q], sport := s\<rparr>"
  have noref: "\<not> list_ex (\<lambda>b. pb_type b = PBUF_REF) (q # qs)"
    using q(5) by (auto simp: list_ex_iff)
  have out: "etharp_output heap n (q # qs) ip st = Some (ERR_OK, ?st1)"
  proof -
    have "ent_state ((arp_table st)[k := empty_entry\<lparr>ent_ipaddr := ip, ent_netif := Some n\<rparr>] ! k) = ETHARP_STATE_EMPTY"
      using k(1) len by (simp add: empty_entry_def)
    moreover have "query_send heap n k (q # qs) ERR_OK (?t\<lparr>sport := s\<rparr>) = Some (ERR_OK, ?st1)"
      using k(1) len noref unfolding query_send_def Let_def set_entry_def by simp
    ultimately show ?thesis
      unfolding etharp_output_unknown [OF ok l new] using uni k(2) s(1)
      by (simp add: etharp_query_def Let_def start)
  qed
  then have inv1: "arp_inv (arp_table ?st1)"
    using etharp_output_shrinks [OF ok] by (force simp: arp_shrinks_def arp_ok_def)
  have known1: "known ip (Some n) (arp_table ?st1)"
    unfolding known_def using k(1) len by (intro exI [of _ k]) (simp add: entry_match_def in_use_def)
  from inv1 have find: "etharp_find_entry ip fl (Some n) (arp_table ?st1) = (Some k, arp_table ?st1)" for fl
  proof (cases rule: find_entry_cases [of _ ip fl n])
    case (found j)
    then have "j = k"
      using inv1 k(1) len unfolding arp_inv_def by (force simp: in_use_def)
    then show ?thesis
      using found by simp
  qed (use known1 in simp_all)
  have up: "etharp_update_arp_entry n ip mac fl ?st1
      = map_option (\<lambda>(_, st2). (ERR_OK, st2)) (ethernet_output (q # qs) (hwaddr (netifs st n)) mac ETHTYPE_IP
          (?st1\<lparr>arp_table := (arp_table st)[k := stable_entry n ip mac]\<rparr>))" for mac fl
    using find [of fl] uni k(1) len
    by (simp add: etharp_update_arp_entry_def set_entry_def Let_def stable_entry_def empty_entry_def)
  have "tx_weight f = 13"
    using length_tx_bytes [of f] s(3) hw
    by (simp add: ethbroadcast_def etharp_hdr_def ethzero_def store32_def tx_weight_def words_of_def)
  then have room: "length (tx_enc (fs @ [f])) + words_of (length (pbuf_bytes (q # qs)) + 14) + 2 < tx_words (dev s)"
    using tx(2) s(4) by (simp add: length_tx_enc)
  have "\<exists>s' f'. etharp_input heap' (arp_reply mac ip (hwaddr (netifs st n)) (ip_addr (netifs st n)) @ pad) n ?st1
        = Some (?st1\<lparr>arp_table := (arp_table st)[k := stable_entry n ip mac], sport := s'\<rparr>)
      \<and> tx_holds (dev s') (fs @ [f, f']) \<and> tx_bytes f' = mac @ hwaddr (netifs st n) @ [0x08, 0x00] @ pbuf_bytes (q # qs)"
    if mac: "length mac = 6" for heap' mac pad
    using ethernet_output_ip [OF q(1-4) hw mac, of "?st1\<lparr>arp_table := (arp_table st)[k := stable_entry n ip mac]\<rparr>" "fs @ [f]"]
      room s(2) etharp_input_reply [OF mac hw] up [of mac] by auto
  then show ?thesis
    using out s(2,3) k(1) by (intro exI [of _ k] exI [of _ s] exI [of _ f]) (simp add: Let_def)
qed

lemma pbuf_alloc_sample: "unat len \<le> 65000 \<Longrightarrow> \<exists>p. pbuf_alloc_RAM sample_heap layer len = Some p \<and> fresh layer len p"
  using pbuf_alloc_RAM_eq [OF sample_heap_ok, of len layer] by (auto simp: sample_heap_def split: option.splits)

lemma port_zero_queue: "tx_holds (dev port_zero) []" "tx_words (dev port_zero) = 1024"
  by (simp_all add: port_zero_def EthOn_queues EthOn_words)

text \<open>The interface of a small example: 192.168.1.233/24 with broadcast.\<close>

definition sample_stack :: stack where
  "sample_stack = (lwip_start port_zero)\<lparr>netifs := (\<lambda>_. netif_zero\<lparr>ip_addr := 0xE901A8C0, netmask := 0x00FFFFFF,
     hwaddr := [0, 4, 0xA3, 1, 2, 3], hwaddr_len := 6, mtu := 1500, netif_flags := 0x0F\<rparr>), netif_list := [1],
     netif_default := Some 1\<rparr>"

lemma sample_stack_simps [simp]:
  "arp_table sample_stack = replicate 10 empty_entry" "sport sample_stack = port_zero" "arp_ok sample_stack"
  using arp_ok_start [of port_zero] by (simp_all add: sample_stack_def lwip_start_def arp_ok_def)

definition waiting_packet :: pbuf where
  "waiting_packet = (sample_pbuf [1, 2, 3])\<lparr>pb_room := replicate 16 0\<rparr>"

lemma etharp_resolution_witness:
  "\<exists>st1 st2 f f'. etharp_output sample_heap 1 [waiting_packet] 0x0101A8C0 sample_stack = Some (ERR_OK, st1)
     \<and> etharp_input sample_heap (arp_reply [2, 0, 0, 0, 0, 1] 0x0101A8C0 [0, 4, 0xA3, 1, 2, 3] 0xE901A8C0 @ [0, 0]) 1 st1 = Some st2
     \<and> tx_holds (dev (sport st2)) [f, f']
     \<and> tx_bytes f = ethbroadcast @ [0, 4, 0xA3, 1, 2, 3] @ [0x08, 0x06]
         @ etharp_hdr ARP_REQUEST [0, 4, 0xA3, 1, 2, 3] 0xE901A8C0 ethzero 0x0101A8C0
     \<and> tx_bytes f' = [2, 0, 0, 0, 0, 1] @ [0, 4, 0xA3, 1, 2, 3] @ [0x08, 0x00] @ [1, 2, 3]
     \<and> (\<exists>k<ARP_TABLE_SIZE. arp_table st2 ! k = stable_entry 1 0x0101A8C0 [2, 0, 0, 0, 0, 1])"
proof -
  obtain b where b: "pbuf_alloc_RAM sample_heap PBUF_LINK 28 = Some b" "fresh PBUF_LINK 28 b"
    using pbuf_alloc_sample [of 28 PBUF_LINK] by auto
  have n: "hwaddr (netifs sample_stack 1) = [0, 4, 0xA3, 1, 2, 3]" "ip_addr (netifs sample_stack 1) = 0xE901A8C0"
    by (simp_all add: sample_stack_def)
  have l: "on_link 0x0101A8C0 (netifs sample_stack 1)"
    by (simp add: sample_stack_def lwip_start_def on_link_def unicast_addr_def ip4_addr_isbroadcast_u32_def
        ip4_addr_ismulticast_def ip4_addr_netcmp_def lwip_htonl_def reg_defs)
  have p: "contiguous (pb_type waiting_packet)" "14 \<le> length (pb_room waiting_packet)"
    "unat (pb_tot_len waiting_packet) = length (pbuf_bytes [waiting_packet])"
    "pbuf_bytes [waiting_packet] = [1, 2, 3]" "pb_type waiting_packet \<noteq> PBUF_REF"
    by (simp_all add: waiting_packet_def sample_pbuf_def pbuf_bytes_def contiguous_def)
  obtain k s f where r: "let st1 = sample_stack\<lparr>arp_table := (arp_table sample_stack)[k := empty_entry\<lparr>ent_ipaddr := 0x0101A8C0,
        ent_netif := Some 1, ent_state := ETHARP_STATE_PENDING, ent_q := Some [waiting_packet]\<rparr>], sport := s\<rparr>
    in k < ARP_TABLE_SIZE \<and> etharp_output sample_heap 1 [waiting_packet] 0x0101A8C0 sample_stack = Some (ERR_OK, st1)
      \<and> tx_holds (dev s) ([] @ [f])
      \<and> tx_bytes f = ethbroadcast @ [0, 4, 0xA3, 1, 2, 3] @ [0x08, 0x06]
          @ etharp_hdr ARP_REQUEST [0, 4, 0xA3, 1, 2, 3] 0xE901A8C0 ethzero 0x0101A8C0
      \<and> (\<forall>heap' mac pad. length mac = 6 \<longrightarrow>
          (\<exists>s' f'. etharp_input heap' (arp_reply mac 0x0101A8C0 [0, 4, 0xA3, 1, 2, 3] 0xE901A8C0 @ pad) 1 st1
              = Some (st1\<lparr>arp_table := (arp_table sample_stack)[k := stable_entry 1 0x0101A8C0 mac], sport := s'\<rparr>)
            \<and> tx_holds (dev s') ([] @ [f, f'])
            \<and> tx_bytes f' = mac @ [0, 4, 0xA3, 1, 2, 3] @ [0x08, 0x00] @ [1, 2, 3]))"
    using etharp_resolution [OF _ l _ b _ p(1-3), of "[]"] p(4,5) n unknown_start port_zero_queue
    by (auto simp: tx_enc_def words_of_def)
  have "length [2, 0, 0, 0, 0, 1 :: u8] = 6"
    by simp
  with r obtain s' f' where "etharp_input sample_heap (arp_reply [2, 0, 0, 0, 0, 1] 0x0101A8C0 [0, 4, 0xA3, 1, 2, 3] 0xE901A8C0 @ [0, 0]) 1
      (sample_stack\<lparr>arp_table := (arp_table sample_stack)[k := empty_entry\<lparr>ent_ipaddr := 0x0101A8C0,
        ent_netif := Some 1, ent_state := ETHARP_STATE_PENDING, ent_q := Some [waiting_packet]\<rparr>], sport := s\<rparr>)
      = Some (sample_stack\<lparr>arp_table := (arp_table sample_stack)[k := stable_entry 1 0x0101A8C0 [2, 0, 0, 0, 0, 1]], sport := s'\<rparr>)"
    "tx_holds (dev s') [f, f']" "tx_bytes f' = [2, 0, 0, 0, 0, 1] @ [0, 4, 0xA3, 1, 2, 3] @ [0x08, 0x00] @ [1, 2, 3]"
    unfolding Let_def by fastforce
  moreover have "length (arp_table sample_stack) = ARP_TABLE_SIZE"
    by (simp add: ARP_TABLE_SIZE_def)
  ultimately show ?thesis
    using r unfolding Let_def by (intro exI conjI) (auto intro!: exI [of _ k])
qed

lemma etharp_invariant_witness:
  "\<exists>st'. etharp_tmr sample_heap (lwip_start port_zero) = Some st' \<and> arp_ok st'
     \<and> arp_ok (etharp_cleanup_netif 1 (lwip_start port_zero))"
proof -
  have "\<exists>st'. etharp_tmr_calls [sample_heap] (lwip_start port_zero) = Some st'"
    using etharp_tmr_calls_table [of "lwip_start port_zero" "[sample_heap]"] arp_ok_start [of port_zero]
      hw_ok_start [of port_zero] sample_heap_ok by (auto simp: arp_ok_def)
  then show ?thesis
    using etharp_invariant [OF arp_ok_start [of port_zero]] by (auto split: option.splits)
qed

lemma etharp_cache_recent_witness:
  "\<exists>st. cache_run arp_learns arp_ticks arp_others [Learn (1, 0x0101A8C0) [0, 1, 2, 3, 4, 5]] (lwip_start port_zero) st
     \<and> arp_lookup st (1, 0x0101A8C0) = Some ([0, 1, 2, 3, 4, 5], 0) \<and> (0 :: nat) < 300"
proof -
  let ?hw = "[0, 1, 2, 3, 4, 5]" and ?st = "lwip_start port_zero" and ?ip = "0x0101A8C0 :: u32"
  have "unicast_addr ?ip netif_zero"
    by (simp add: netif_zero_def unicast_addr_def ip4_addr_isbroadcast_u32_def ip4_addr_ismulticast_def lwip_htonl_def)
  then obtain st where up: "etharp_update_arp_entry 1 ?ip ?hw ETHARP_FLAG_TRY_HARD ?st = Some (ERR_OK, st)"
    "arp_table st = (replicate 10 empty_entry)[0 := stable_entry 1 ?ip ?hw]"
    using find_start [of ?ip 1]
    by (auto simp: etharp_update_arp_entry_def lwip_start_def set_entry_def Let_def empty_entry_def stable_entry_def)
  have run: "cache_run arp_learns arp_ticks arp_others [Learn (1, ?ip) ?hw] ?st st"
    using up(1) by (intro run_learn [OF run_start]) (auto simp: arp_learns_def)
  have inv: "arp_inv (arp_table st)"
    using etharp_update_inv [OF _ up(1)] arp_inv_start by (simp add: lwip_start_def)
  have "arp_lookup st (1, ?ip) = Some (?hw, 0)"
    using nth_fact [of 0, OF _ inv] up(2)
    by (auto simp: arp_lookup_iff [OF inv] fact_def ARP_TABLE_SIZE_def intro!: exI [of _ 0])
  with etharp_cache_recent [OF run this] run show ?thesis
    by blast
qed

section \<open>Packets for known hosts\<close>

lemma etharp_output_known:
  assumes ok: "arp_ok st" "on_link ip (netifs st n)" and k: "k < ARP_TABLE_SIZE" "arp_hit n ip (arp_table st ! k)"
    "ent_state (arp_table st ! k) \<noteq> ETHARP_STATE_STABLE \<or> ent_ctime (arp_table st ! k) < 270"
  shows "etharp_output heap n q ip st = ethernet_output q (hwaddr (netifs st n)) (ent_ethaddr (arp_table st ! k)) ETHTYPE_IP
    (st\<lparr>etharp_cached_entry := k\<rparr>)"
proof -
  have only: "j = k" if "j < ARP_TABLE_SIZE" "arp_hit n ip (arp_table st ! j)" for j
    using that k(1,2) ok(1) unfolding arp_ok_def arp_inv_def arp_hit_def in_use_def by (metis is_stable.simps(1))
  have "find (\<lambda>k. arp_hit n ip (arp_table st ! k)) [0..<ARP_TABLE_SIZE] = Some k"
  proof (cases "find (\<lambda>k. arp_hit n ip (arp_table st ! k)) [0..<ARP_TABLE_SIZE]")
    case None
    then show ?thesis
      using k(1,2) by (auto simp: find_None_iff)
  next
    case (Some j)
    then show ?thesis
      using only by (auto simp: find_Some_iff)
  qed
  then have "etharp_output heap n q ip st = (if arp_hit n ip (arp_table st ! etharp_cached_entry st)
      then etharp_output_to_arp_index heap n q (etharp_cached_entry st) st
      else etharp_output_to_arp_index heap n q k (st\<lparr>etharp_cached_entry := k\<rparr>))"
    using ok(2) by (auto simp: etharp_output_def Let_def on_link_def unicast_addr_def)
  moreover have "etharp_output_to_arp_index heap n q k st'
      = ethernet_output q (hwaddr (netifs st n)) (ent_ethaddr (arp_table st ! k)) ETHTYPE_IP st'"
    if "st' = st\<lparr>etharp_cached_entry := k\<rparr>" for st'
    using k(3) that
    by (auto simp: etharp_output_to_arp_index_def Let_def ARP_AGE_REREQUEST_USED_BROADCAST_def
        ARP_AGE_REREQUEST_USED_UNICAST_def ARP_MAXAGE_def word_le_nat_alt word_less_nat_alt)
  moreover have "st = st\<lparr>etharp_cached_entry := k\<rparr> \<and> etharp_cached_entry st = k"
    if "arp_hit n ip (arp_table st ! etharp_cached_entry st)"
    using only [of "etharp_cached_entry st"] that ok(1) by (simp add: arp_ok_def)
  ultimately show ?thesis
    by (cases "arp_hit n ip (arp_table st ! etharp_cached_entry st)") auto
qed

text \<open>What the table knows of a host: entry \<open>k\<close> is stable and needs no new request.\<close>

definition resolved :: "u32 \<Rightarrow> u32 \<Rightarrow> nat \<Rightarrow> stack \<Rightarrow> bool" where
  "resolved i ip k st \<longleftrightarrow> arp_ok st \<and> on_link ip (netifs st i) \<and> k < ARP_TABLE_SIZE \<and> arp_hit i ip (arp_table st ! k)
     \<and> (ent_state (arp_table st ! k) \<noteq> ETHARP_STATE_STABLE \<or> ent_ctime (arp_table st ! k) < 270)
     \<and> length (ent_ethaddr (arp_table st ! k)) = 6 \<and> length (hwaddr (netifs st i)) = 6"

lemma etharp_output_resolved:
  assumes r: "resolved i ip k st" and q: "contiguous (pb_type q)" "14 \<le> length (pb_room q)"
    "unat (pb_tot_len q) = length (pbuf_bytes (q # qs))" "length (pbuf_bytes (q # qs)) \<le> 1500"
    and tx: "tx_holds (dev (sport st)) fs"
    "length (tx_enc fs) + words_of (length (pbuf_bytes (q # qs)) + 14) + 2 < tx_words (dev (sport st))"
  shows "\<exists>s' f. etharp_output heap i (q # qs) ip st = Some (ERR_OK, st\<lparr>etharp_cached_entry := k, sport := s'\<rparr>)
    \<and> tx_holds (dev s') (fs @ [f]) \<and> rx_same (dev (sport st)) (dev s')
    \<and> tx_bytes f = ent_ethaddr (arp_table st ! k) @ hwaddr (netifs st i) @ [0x08, 0x00] @ pbuf_bytes (q # qs)"
proof -
  let ?mac = "ent_ethaddr (arp_table st ! k)" and ?st = "st\<lparr>etharp_cached_entry := k\<rparr>"
  have out: "etharp_output heap i (q # qs) ip st = ethernet_output (q # qs) (hwaddr (netifs st i)) ?mac ETHTYPE_IP ?st"
    using r etharp_output_known [of st ip i k heap "q # qs"] by (simp add: resolved_def)
  then show ?thesis
    using ethernet_output_ip [OF q, of "hwaddr (netifs st i)" ?mac ?st fs] r tx by (auto simp: resolved_def)
qed

end
