(* ===== verification/Udp.thy ===== *)
theory Udp
  imports Etharp
begin

text \<open>
  The way of a datagram out of lwIP 2.1.2: \<open>core/udp.c\<close> (control blocks, ports, \<open>udp_sendto_if\<close>) and
  \<open>core/ipv4/ip4.c\<close> (\<open>ip4_route\<close>, \<open>ip4_output_if_src\<close> with the checksum computed inline), on top of
  \<open>etharp_output\<close>, with the options of \<open>lwipopts.h\<close>.

  The division of a datagram longer than the MTU, which the program never needs, is the
  argument \<open>frag\<close>. \<open>heap i\<close> is the \<open>i\<close>-th allocation of an operation: 0 is the one of \<open>udp_sendto_if_src\<close>
  itself, those from 1 on belong to \<open>etharp_output\<close>.
\<close>

section \<open>Routing\<close>

definition netif_is_up :: "netif \<Rightarrow> bool" where
  "netif_is_up n \<longleftrightarrow> netif_flags n AND NETIF_FLAG_UP \<noteq> 0"

definition netif_is_link_up :: "netif \<Rightarrow> bool" where
  "netif_is_link_up n \<longleftrightarrow> netif_flags n AND NETIF_FLAG_LINK_UP \<noteq> 0"

definition route_match :: "u32 \<Rightarrow> netif \<Rightarrow> bool" where
  "route_match dest n \<longleftrightarrow> netif_is_up n \<and> netif_is_link_up n \<and> ip_addr n \<noteq> 0
     \<and> (ip4_addr_netcmp dest (ip_addr n) (netmask n)
        \<or> netif_flags n AND NETIF_FLAG_BROADCAST = 0 \<and> dest = gw n)"

definition ip4_route :: "u32 \<Rightarrow> stack \<Rightarrow> u32 option" where
  "ip4_route dest st =
     (case find (\<lambda>i. route_match dest (netifs st i)) (netif_list st) of
        Some i \<Rightarrow> Some i
      | None \<Rightarrow>
          (case netif_default st of
             None \<Rightarrow> None
           | Some i \<Rightarrow>
               if \<not> netif_is_up (netifs st i) \<or> \<not> netif_is_link_up (netifs st i)
                  \<or> ip_addr (netifs st i) = 0 \<or> ip4_addr_isloopback dest
               then None else Some i))"

section \<open>IP\<close>

definition IP_HLEN :: nat where "IP_HLEN = 20"
definition IP_PROTO_UDP :: u8 where "IP_PROTO_UDP = 17"

text \<open>The checksum that \<open>ip4_output_if_src\<close> computes while it fills in the header.\<close>

definition ip_chk_sum :: "u8 \<Rightarrow> u8 \<Rightarrow> u8 \<Rightarrow> u8 \<Rightarrow> u16 \<Rightarrow> u16 \<Rightarrow> u32 \<Rightarrow> u32 \<Rightarrow> u16" where
  "ip_chk_sum v_hl tos ttl proto len_be id_be src dest =
     (let c1 = to_u32 (lwip_htons (to_u16 proto OR push_bit 8 (to_u16 ttl)));
          c2 = c1 + (dest AND 0xFFFF);
          c3 = c2 + drop_bit 16 dest;
          c4 = c3 + to_u32 (lwip_htons (to_u16 tos OR push_bit 8 (to_u16 v_hl)));
          c5 = c4 + to_u32 len_be;
          c6 = c5 + to_u32 id_be;
          c7 = c6 + (src AND 0xFFFF);
          c8 = c7 + drop_bit 16 src;
          c9 = drop_bit 16 c8 + (c8 AND 0xFFFF);
          c10 = drop_bit 16 c9 + c9
      in to_u16 (NOT c10))"

definition ip_hdr :: "u8 \<Rightarrow> u8 \<Rightarrow> u16 \<Rightarrow> u16 \<Rightarrow> u8 \<Rightarrow> u8 \<Rightarrow> u16 \<Rightarrow> u32 \<Rightarrow> u32 \<Rightarrow> u8 list" where
  "ip_hdr v_hl tos len_be id_be ttl proto chksum src dest =
     [v_hl, tos] @ store16 len_be @ store16 id_be @ store16 0 @ [ttl, proto] @ store16 chksum
     @ store32 src @ store32 dest"

text \<open>\<open>frag\<close> or \<open>netif->output\<close>, by the length of the packet.\<close>

definition ip4_output_netif :: "heap \<Rightarrow> outfn \<Rightarrow> outfn" where
  "ip4_output_netif heap frag i p dest st =
     (if mtu (netifs st i) \<noteq> 0 \<and> pb_tot_len (hd p) > mtu (netifs st i) then frag i p dest st
      else etharp_output heap i p dest st)"

text \<open>
  The destination \<open>None\<close> is \<open>LWIP_IP_HDRINCL\<close>: the packet has its header already. The source \<open>NULL\<close> is the
  same as the address 0.
\<close>

definition ip4_output_if_src ::
  "heap \<Rightarrow> outfn \<Rightarrow> pbuf list \<Rightarrow> u32 \<Rightarrow> u32 option \<Rightarrow> u8 \<Rightarrow> u8 \<Rightarrow> u8 \<Rightarrow> u32 \<Rightarrow> stack
    \<Rightarrow> (err_t \<times> stack) option" where
  "ip4_output_if_src heap frag p src dst ttl tos proto i st =
     (case dst of
        Some dest \<Rightarrow>
          (case add_header IP_HLEN p of
             None \<Rightarrow> Some (ERR_BUF, st)
           | Some p1 \<Rightarrow>
               let v_hl = push_bit 4 4 OR of_nat (IP_HLEN div 4);
                   tot = pb_tot_len (hd p1);
                   len_be = lwip_htons tot;
                   id_be = lwip_htons (ip_id st);
                   chksum = ip_chk_sum v_hl tos ttl proto len_be id_be src dest;
                   p2 = put_header (ip_hdr v_hl tos len_be id_be ttl proto chksum src dest) p1;
                   st1 = st\<lparr>ip_id := ip_id st + 1\<rparr>
               in ip4_output_netif heap frag i p2 dest st1)
      | None \<Rightarrow>
          if pb_len (hd p) < of_nat IP_HLEN then Some (ERR_BUF, st)
          else ip4_output_netif heap frag i p (load32 (drop 16 (pb_payload (hd p)))) st)"

definition ip4_output_if ::
  "heap \<Rightarrow> outfn \<Rightarrow> pbuf list \<Rightarrow> u32 \<Rightarrow> u32 option \<Rightarrow> u8 \<Rightarrow> u8 \<Rightarrow> u8 \<Rightarrow> u32 \<Rightarrow> stack
    \<Rightarrow> (err_t \<times> stack) option" where
  "ip4_output_if heap frag p src dst ttl tos proto i st =
     (let src_used = (if dst \<noteq> None \<and> src = 0 then ip_addr (netifs st i) else src)
      in ip4_output_if_src heap frag p src_used dst ttl tos proto i st)"

definition ip4_output ::
  "heap \<Rightarrow> outfn \<Rightarrow> pbuf list \<Rightarrow> u32 \<Rightarrow> u32 \<Rightarrow> u8 \<Rightarrow> u8 \<Rightarrow> u8 \<Rightarrow> stack \<Rightarrow> (err_t \<times> stack) option" where
  "ip4_output heap frag p src dest ttl tos proto st =
     (case ip4_route dest st of
        None \<Rightarrow> Some (ERR_RTE, st)
      | Some i \<Rightarrow> ip4_output_if heap frag p src (Some dest) ttl tos proto i st)"

section \<open>UDP\<close>

definition UDP_HLEN :: nat where "UDP_HLEN = 8"
definition UDP_FLAGS_NOCHKSUM :: u8 where [reg_defs]: "UDP_FLAGS_NOCHKSUM = 0x01"
definition UDP_FLAGS_CONNECTED :: u8 where [reg_defs]: "UDP_FLAGS_CONNECTED = 0x04"
definition UDP_LOCAL_PORT_RANGE_START :: u16 where [reg_defs]: "UDP_LOCAL_PORT_RANGE_START = 0xC000"
definition UDP_LOCAL_PORT_RANGE_END :: u16 where [reg_defs]: "UDP_LOCAL_PORT_RANGE_END = 0xFFFF"

text \<open>\<open>if (udp_port++ == END) udp_port = START\<close>.\<close>

definition next_port :: "u16 \<Rightarrow> u16" where
  "next_port p = (if p = UDP_LOCAL_PORT_RANGE_END then UDP_LOCAL_PORT_RANGE_START else p + 1)"

text \<open>
  The search from \<open>again:\<close> on, with the ports of the control blocks: the new port or 0, and
  the value of the variable \<open>udp_port\<close>.
\<close>

function udp_new_port_loop :: "u16 list \<Rightarrow> u16 \<Rightarrow> u16 \<Rightarrow> u16 \<times> u16" where
  "udp_new_port_loop used n p =
     (let p1 = next_port p in
      if p1 \<in> set used then
        (if n + 1 > UDP_LOCAL_PORT_RANGE_END - UDP_LOCAL_PORT_RANGE_START then (0, p1)
         else udp_new_port_loop used (n + 1) p1)
      else (p1, p1))"
  by pat_completeness auto
termination
proof (relation "measure (\<lambda>(used, n, p). unat (0x3FFF - n))", goal_cases)
  case (2 used n p p1)
  define k where "k = 0x3FFF - (n + 1)"
  have "n + 1 \<le> 0x3FFF"
    using 2 by (simp add: reg_defs not_less)
  then have "unat k = unat (0x3FFF :: u16) - unat (n + 1)"
    unfolding k_def by (rule unat_minus_le)
  then have "unat k \<le> 0x3FFF"
    by simp
  then have "unat (k + 1) = unat k + 1"
    by (intro unat_plus1_u16) simp
  moreover have "0x3FFF - n = k + 1"
    by (simp add: k_def)
  ultimately have "unat (0x3FFF - (n + 1)) < unat (0x3FFF - n)"
    by (simp only: k_def [symmetric])
  then show ?case
    by (simp only: in_measure prod.case)
qed simp

declare udp_new_port_loop.simps [simp del]

definition udp_new_port :: "stack \<Rightarrow> u16 \<times> stack" where
  "udp_new_port st =
     (let (r, p) = udp_new_port_loop (map (\<lambda>i. local_port (pcbs st i)) (udp_pcbs st)) 0 (udp_port st)
      in (r, st\<lparr>udp_port := p\<rparr>))"

text \<open>The loop that looks for another control block with the same port.\<close>

definition port_taken :: "stack \<Rightarrow> u32 \<Rightarrow> u32 \<Rightarrow> u16 \<Rightarrow> bool" where
  "port_taken st pcb ipaddr port \<longleftrightarrow>
     list_ex (\<lambda>i. i \<noteq> pcb \<and> local_port (pcbs st i) = port
       \<and> (local_ip (pcbs st i) = ipaddr \<or> ipaddr = 0 \<or> local_ip (pcbs st i) = 0)) (udp_pcbs st)"

definition set_pcb :: "u32 \<Rightarrow> (udp_pcb \<Rightarrow> udp_pcb) \<Rightarrow> stack \<Rightarrow> stack" where
  "set_pcb i f st = st\<lparr>pcbs := (pcbs st)(i := f (pcbs st i))\<rparr>"

definition udp_bind :: "u32 option \<Rightarrow> u32 \<Rightarrow> u16 \<Rightarrow> stack \<Rightarrow> err_t \<times> stack" where
  "udp_bind pcb ipaddr port st =
     (case pcb of
        None \<Rightarrow> (ERR_ARG, st)
      | Some i \<Rightarrow>
          let rebind = i \<in> set (udp_pcbs st);
              (p, st1) = (if port = 0 then udp_new_port st else (port, st))
          in if port = 0 \<and> p = 0 then (ERR_USE, st1)
             else if port \<noteq> 0 \<and> port_taken st i ipaddr port then (ERR_USE, st)
             else
               let st2 = set_pcb i (\<lambda>b. b\<lparr>local_ip := ipaddr, local_port := p\<rparr>) st1
               in (ERR_OK, if rebind then st2 else st2\<lparr>udp_pcbs := i # udp_pcbs st2\<rparr>))"

definition udp_connect :: "u32 option \<Rightarrow> u32 \<Rightarrow> u16 \<Rightarrow> stack \<Rightarrow> err_t \<times> stack" where
  "udp_connect pcb ipaddr port st =
     (case pcb of
        None \<Rightarrow> (ERR_ARG, st)
      | Some i \<Rightarrow>
          let (err, st1) = (if local_port (pcbs st i) = 0
                then udp_bind pcb (local_ip (pcbs st i)) (local_port (pcbs st i)) st else (ERR_OK, st))
          in if err \<noteq> ERR_OK then (err, st1)
             else
               let st2 = set_pcb i (\<lambda>b. b\<lparr>remote_ip := ipaddr, remote_port := port,
                           pcb_flags := pcb_flags b OR UDP_FLAGS_CONNECTED\<rparr>) st1
               in (ERR_OK, if i \<in> set (udp_pcbs st2) then st2 else st2\<lparr>udp_pcbs := i # udp_pcbs st2\<rparr>))"

text \<open>\<open>udp_new\<close>: the control block is taken from the heap and cleared; \<open>UDP_TTL\<close> is 255.\<close>

definition udp_new :: "heap \<Rightarrow> stack \<Rightarrow> u32 option \<times> stack" where
  "udp_new heap st =
     (case heap 0 32 of
        None \<Rightarrow> (None, st)
      | Some (a, _) \<Rightarrow>
          (Some a, set_pcb a (\<lambda>_. \<lparr>local_ip = 0, remote_ip = 0, pcb_tos = 0, pcb_ttl = 255, pcb_flags = 0,
                                   local_port = 0, remote_port = 0, pcb_netif_idx = 0, pcb_recv = None,
                                   pcb_recv_arg = 0\<rparr>) st))"

definition udp_recv :: "u32 option \<Rightarrow> u32 option \<Rightarrow> u32 \<Rightarrow> stack \<Rightarrow> stack" where
  "udp_recv pcb recv recv_arg st =
     (case pcb of None \<Rightarrow> st | Some i \<Rightarrow> set_pcb i (\<lambda>b. b\<lparr>pcb_recv := recv, pcb_recv_arg := recv_arg\<rparr>) st)"

definition netif_get_index :: "netif \<Rightarrow> u8" where "netif_get_index n = netif_no n + 1"

definition udp_bind_netif :: "u32 \<Rightarrow> u32 option \<Rightarrow> stack \<Rightarrow> stack" where
  "udp_bind_netif i n st =
     set_pcb i (\<lambda>b. b\<lparr>pcb_netif_idx := (case n of None \<Rightarrow> 0 | Some k \<Rightarrow> netif_get_index (netifs st k))\<rparr>) st"

definition udp_disconnect :: "u32 option \<Rightarrow> stack \<Rightarrow> stack" where
  "udp_disconnect pcb st =
     (case pcb of
        None \<Rightarrow> st
      | Some i \<Rightarrow> set_pcb i (\<lambda>b. b\<lparr>remote_ip := 0, remote_port := 0, pcb_netif_idx := 0,
                                 pcb_flags := pcb_flags b AND NOT UDP_FLAGS_CONNECTED\<rparr>) st)"

text \<open>The control block goes back to the heap.\<close>

definition udp_remove :: "u32 option \<Rightarrow> stack \<Rightarrow> stack" where
  "udp_remove pcb st = (case pcb of None \<Rightarrow> st | Some i \<Rightarrow> st\<lparr>udp_pcbs := remove1 i (udp_pcbs st)\<rparr>)"

definition udp_hdr :: "u16 \<Rightarrow> u16 \<Rightarrow> u16 \<Rightarrow> u16 \<Rightarrow> u8 list" where
  "udp_hdr src dest len chksum = store16 src @ store16 dest @ store16 len @ store16 chksum"

text \<open>
  \<open>heap\<close> serves the pbuf for the header when the given one has no room; the control block is
  bound to a port first when it has none.
\<close>

definition udp_sendto_if_src ::
  "outfn \<Rightarrow> heap \<Rightarrow> u32 option \<Rightarrow> pbuf list \<Rightarrow> u32 \<Rightarrow> u16 \<Rightarrow> u32 option \<Rightarrow> u32 \<Rightarrow> stack
    \<Rightarrow> (err_t \<times> stack) option" where
  "udp_sendto_if_src frag heap pcb p dst_ip dst_port nif src_ip st =
     (case (pcb, nif) of
        (Some i, Some n) \<Rightarrow>
          if p = [] then Some (ERR_ARG, st)
          else
            let (err, st1) = (if local_port (pcbs st i) = 0
                  then udp_bind pcb (local_ip (pcbs st i)) (local_port (pcbs st i)) st else (ERR_OK, st));
                tot = pb_tot_len (hd p)
            in if err \<noteq> ERR_OK then Some (err, st1)
               else if tot + of_nat UDP_HLEN < tot then Some (ERR_MEM, st1)
               else
                 (case (case add_header UDP_HLEN p of
                          Some q \<Rightarrow> Some q
                        | None \<Rightarrow> map_option (\<lambda>h. if tot \<noteq> 0 then pbuf_chain [h] p else [h])
                                    (pbuf_alloc_RAM heap PBUF_IP (of_nat UDP_HLEN))) of
                    None \<Rightarrow> Some (ERR_MEM, st1)
                  | Some q \<Rightarrow>
                      let b = pcbs st1 i;
                          qtot = pb_tot_len (hd q);
                          hdr = udp_hdr (lwip_htons (local_port b)) (lwip_htons dst_port) (lwip_htons qtot);
                          q1 = put_header (hdr 0) q;
                          c = ip_chksum_pseudo (pieces q1) IP_PROTO_UDP qtot src_ip dst_ip;
                          c1 = (if c = 0 then 0xFFFF else c);
                          q2 = (if pcb_flags b AND UDP_FLAGS_NOCHKSUM = 0 then put_header (hdr c1) q else q1)
                      in ip4_output_if_src (\<lambda>i. heap (1 + i)) frag q2 src_ip (Some dst_ip) (pcb_ttl b) (pcb_tos b)
                           IP_PROTO_UDP n st1)
      | _ \<Rightarrow> Some (ERR_ARG, st))"

definition udp_sendto_if ::
  "outfn \<Rightarrow> heap \<Rightarrow> u32 option \<Rightarrow> pbuf list \<Rightarrow> u32 \<Rightarrow> u16 \<Rightarrow> u32 option \<Rightarrow> stack
    \<Rightarrow> (err_t \<times> stack) option" where
  "udp_sendto_if frag heap pcb p dst_ip dst_port nif st =
     (case (pcb, nif) of
        (Some i, Some n) \<Rightarrow>
          if p = [] then Some (ERR_ARG, st)
          else
            let lip = local_ip (pcbs st i); nip = ip_addr (netifs st n)
            in if lip = 0 \<or> ip4_addr_ismulticast lip
               then udp_sendto_if_src frag heap pcb p dst_ip dst_port nif nip st
               else if lip \<noteq> nip then Some (ERR_RTE, st)
               else udp_sendto_if_src frag heap pcb p dst_ip dst_port nif lip st
      | _ \<Rightarrow> Some (ERR_ARG, st))"

definition netif_get_by_index :: "u8 \<Rightarrow> stack \<Rightarrow> u32 option" where
  "netif_get_by_index idx st =
     (if idx \<noteq> 0 then find (\<lambda>i. idx = netif_get_index (netifs st i)) (netif_list st) else None)"

definition udp_sendto ::
  "outfn \<Rightarrow> heap \<Rightarrow> u32 option \<Rightarrow> pbuf list \<Rightarrow> u32 option \<Rightarrow> u16 \<Rightarrow> stack \<Rightarrow> (err_t \<times> stack) option" where
  "udp_sendto frag heap pcb p dst_ip dst_port st =
     (case (pcb, dst_ip) of
        (Some i, Some dst) \<Rightarrow>
          if p = [] then Some (ERR_ARG, st)
          else
            (case (if pcb_netif_idx (pcbs st i) \<noteq> 0 then netif_get_by_index (pcb_netif_idx (pcbs st i)) st
                   else ip4_route dst st) of
               None \<Rightarrow> Some (ERR_RTE, st)
             | Some n \<Rightarrow> udp_sendto_if frag heap pcb p dst dst_port (Some n) st)
      | _ \<Rightarrow> Some (ERR_ARG, st))"

definition udp_send :: "outfn \<Rightarrow> heap \<Rightarrow> u32 option \<Rightarrow> pbuf list \<Rightarrow> stack \<Rightarrow> (err_t \<times> stack) option" where
  "udp_send frag heap pcb p st =
     (case pcb of
        None \<Rightarrow> Some (ERR_ARG, st)
      | Some i \<Rightarrow>
          if p = [] then Some (ERR_ARG, st)
          else udp_sendto frag heap pcb p (Some (remote_ip (pcbs st i))) (remote_port (pcbs st i)) st)"

section \<open>A free port\<close>

definition port_no :: "nat \<Rightarrow> u16" where
  "port_no k = 0xC000 + of_nat (k mod 16384)"

lemma unat_port_no: "unat (port_no k) = 0xC000 + k mod 16384"
  by (simp add: port_no_def unat_word_ariths(1) unat_of_nat)

lemma port_no_surj: "0xC000 \<le> p \<Longrightarrow> p = port_no (unat p - 0xC000)"
proof -
  assume "0xC000 \<le> p"
  moreover have "(unat p - 0xC000) mod 16384 = unat p - 0xC000"
    using unat_u16_less [of p] by (intro mod_less) linarith
  ultimately have "unat p = unat (port_no (unat p - 0xC000))"
    by (simp add: unat_port_no word_le_nat_alt)
  then show ?thesis
    by (rule unsigned_word_eqI)
qed

lemma next_port_no: "next_port (port_no k) = port_no (k + 1)"
proof -
  have lt: "k mod 16384 < 16384"
    by simp
  have "unat (next_port (port_no k)) = unat (port_no (k + 1))"
  proof (cases "k mod 16384 = 16383")
    case True
    then have "(k + 1) mod 16384 = 0"
      by (simp add: mod_Suc)
    moreover have "port_no k = 0xFFFF"
      by (simp add: port_no_def True)
    ultimately show ?thesis
      by (simp add: next_port_def reg_defs unat_port_no)
  next
    case False
    then have m: "(k + 1) mod 16384 = k mod 16384 + 1" and small: "unat (port_no k) < 65535"
      using lt by (simp_all add: mod_Suc unat_port_no)
    then have "port_no k \<noteq> 0xFFFF"
      by auto
    then show ?thesis
      using m small by (simp add: next_port_def reg_defs unat_plus1_u16) (simp add: unat_port_no)
  qed
  then show ?thesis
    by (rule unsigned_word_eqI)
qed

lemma udp_new_port_loop_free:
  assumes "port_no (k + 1 + d) \<notin> set used" and "unat n + d \<le> 0x3FFF"
  shows "\<exists>j. udp_new_port_loop used n (port_no k) = (port_no j, port_no j) \<and> port_no j \<notin> set used"
  using assms
proof (induction d arbitrary: k n)
  case 0
  then show ?case
    by (intro exI [of _ "k + 1"]) (subst udp_new_port_loop.simps, simp add: next_port_no Let_def)
next
  case (Suc d)
  show ?case
  proof (cases "port_no (k + 1) \<in> set used")
    case False
    then show ?thesis
      by (intro exI [of _ "k + 1"]) (subst udp_new_port_loop.simps, simp add: next_port_no Let_def)
  next
    case True
    have n: "unat (n + 1) = unat n + 1"
      using Suc.prems(2) by (intro unat_plus1_u16) simp
    then have "\<not> n + 1 > UDP_LOCAL_PORT_RANGE_END - UDP_LOCAL_PORT_RANGE_START"
      using Suc.prems(2) by (simp add: reg_defs word_less_nat_alt)
    then have "udp_new_port_loop used n (port_no k) = udp_new_port_loop used (n + 1) (port_no (k + 1))"
      using True by (subst udp_new_port_loop.simps) (simp add: next_port_no Let_def)
    then show ?thesis
      using Suc.IH [of "k + 1" "n + 1"] Suc.prems n by simp
  qed
qed

lemma udp_new_port_some:
  assumes "0xC000 \<le> udp_port st" and "0xC000 \<le> q" and "q \<notin> (\<lambda>i. local_port (pcbs st i)) ` set (udp_pcbs st)"
  shows "\<exists>p. udp_new_port st = (p, st\<lparr>udp_port := p\<rparr>) \<and> 0xC000 \<le> p
    \<and> p \<notin> (\<lambda>i. local_port (pcbs st i)) ` set (udp_pcbs st)"
proof -
  let ?used = "map (\<lambda>i. local_port (pcbs st i)) (udp_pcbs st)"
  define k where "k = unat (udp_port st) - 0xC000"
  define f where "f = unat q - 0xC000"
  have p: "udp_port st = port_no k" and q: "q = port_no f"
    using port_no_surj assms(1,2) by (simp_all add: k_def f_def)
  define d where "d = (f + 16384 * (k + 1) - (k + 1)) mod 16384"
  have "(k + 1 + d) mod 16384 = (k + 1 + (f + 16384 * (k + 1) - (k + 1))) mod 16384"
    by (simp only: d_def mod_add_right_eq)
  also have "k + 1 + (f + 16384 * (k + 1) - (k + 1)) = f + 16384 * (k + 1)"
    by simp
  also have "\<dots> mod 16384 = f mod 16384"
    by (rule mod_mult_self2)
  finally have "port_no (k + 1 + d) = q"
    by (simp only: port_no_def q)
  moreover have "d \<le> 0x3FFF"
    by (simp add: d_def less_Suc_eq_le [symmetric])
  ultimately obtain j where
    "udp_new_port_loop ?used 0 (port_no k) = (port_no j, port_no j)" "port_no j \<notin> set ?used"
    using udp_new_port_loop_free [of k d ?used 0] assms(3) by auto
  moreover have "0xC000 \<le> port_no j"
    by (simp add: word_le_nat_alt unat_port_no)
  ultimately show ?thesis
    by (simp add: udp_new_port_def p)
qed

lemma udp_new_port_loop_full:
  assumes "\<And>j. port_no j \<in> set used"
  shows "unat n + d = 0x3FFF \<Longrightarrow> udp_new_port_loop used n (port_no k) = (0, port_no (k + d + 1))"
proof (induction d arbitrary: k n)
  case 0
  then have "unat (n + 1) = 0x4000"
    by (subst unat_plus1_u16) simp_all
  then have "n + 1 > UDP_LOCAL_PORT_RANGE_END - UDP_LOCAL_PORT_RANGE_START"
    by (simp add: reg_defs word_less_nat_alt)
  then show ?case
    using assms by (subst udp_new_port_loop.simps) (simp add: next_port_no Let_def)
next
  case (Suc d)
  have n: "unat (n + 1) = unat n + 1"
    using Suc.prems by (intro unat_plus1_u16) simp
  then have "\<not> n + 1 > UDP_LOCAL_PORT_RANGE_END - UDP_LOCAL_PORT_RANGE_START"
    using Suc.prems by (simp add: reg_defs word_less_nat_alt)
  then have "udp_new_port_loop used n (port_no k) = udp_new_port_loop used (n + 1) (port_no (k + 1))"
    using assms by (subst udp_new_port_loop.simps) (simp add: next_port_no Let_def)
  then show ?case
    using Suc.IH [of "n + 1" "k + 1"] Suc.prems n by simp
qed

lemma udp_new_port_none:
  assumes "0xC000 \<le> udp_port st" "\<And>q. 0xC000 \<le> q \<Longrightarrow> q \<in> (\<lambda>i. local_port (pcbs st i)) ` set (udp_pcbs st)"
  shows "udp_new_port st = (0, st)"
proof -
  let ?used = "map (\<lambda>i. local_port (pcbs st i)) (udp_pcbs st)"
  define k where "k = unat (udp_port st) - 0xC000"
  have p: "udp_port st = port_no k"
    using port_no_surj assms(1) by (simp add: k_def)
  have "port_no j \<in> set ?used" for j
    using assms(2) [of "port_no j"] by (simp add: word_le_nat_alt unat_port_no)
  from udp_new_port_loop_full [OF this, of 0 "0x3FFF" k]
  have "udp_new_port_loop ?used 0 (port_no k) = (0, port_no (k + 16384))"
    by (simp add: add.commute)
  moreover have "port_no (k + 16384) = port_no k"
    by (simp add: port_no_def)
  ultimately show ?thesis
    using p by (simp add: udp_new_port_def)
qed

text \<open>
  C36. \<open>udp_new_port\<close> always returns. While some port from 49152 up is not bound it returns one
  that no control block has, in this range, which becomes the starting point of the next
  search. When all of them are bound it returns 0, and nothing changes.
\<close>

theorem udp_new_port_free:
  assumes "0xC000 \<le> udp_port st"
  shows "let used = (\<lambda>i. local_port (pcbs st i)) ` set (udp_pcbs st)
    in if \<exists>q. 0xC000 \<le> q \<and> q \<notin> used
       then \<exists>p. udp_new_port st = (p, st\<lparr>udp_port := p\<rparr>) \<and> 0xC000 \<le> p \<and> p \<notin> used
       else udp_new_port st = (0, st)"
proof (cases "\<exists>q. 0xC000 \<le> q \<and> q \<notin> (\<lambda>i. local_port (pcbs st i)) ` set (udp_pcbs st)")
  case True
  then show ?thesis
    unfolding Let_def if_P [OF True] using udp_new_port_some [OF assms] by blast
next
  case False
  then have "udp_new_port st = (0, st)"
    using udp_new_port_none [OF assms] by blast
  then show ?thesis
    unfolding Let_def if_not_P [OF False] .
qed

text \<open>One port bound, and all ports bound.\<close>

definition sample_bound :: stack where
  "sample_bound = sample_stack\<lparr>udp_pcbs := [7], pcbs := (\<lambda>_. udp_pcb_zero\<lparr>local_port := 0xC001\<rparr>)\<rparr>"

definition sample_full :: stack where
  "sample_full = sample_stack\<lparr>udp_pcbs := map of_nat [0xC000..<0x10000], pcbs := (\<lambda>i. udp_pcb_zero\<lparr>local_port := to_u16 i\<rparr>)\<rparr>"

lemma sample_full_ports: "(q :: u16) \<ge> 0xC000 \<Longrightarrow> q \<in> (\<lambda>i. local_port (pcbs sample_full i)) ` set (udp_pcbs sample_full)"
proof -
  assume q: "q \<ge> 0xC000"
  then have "unat q \<in> set [0xC000..<0x10000]"
    using unat_u16_less [of q] by (simp add: word_le_nat_alt del: upt_rec_numeral)
  then have "of_nat (unat q) \<in> set (udp_pcbs sample_full)"
    by (simp add: sample_full_def del: upt_rec_numeral of_nat_unat)
  moreover have "local_port (pcbs sample_full (of_nat (unat q))) = q"
    by (auto simp: sample_full_def bit_simps intro!: bit_word_eqI simp del: upt_rec_numeral)
  ultimately show ?thesis
    by (metis image_eqI)
qed

lemma udp_new_port_free_witness:
  "(\<exists>p. udp_new_port sample_bound = (p, sample_bound\<lparr>udp_port := p\<rparr>) \<and> 0xC000 \<le> p \<and> p \<noteq> 0xC001)
   \<and> udp_new_port sample_full = (0, sample_full)"
proof
  have "0xC000 \<le> udp_port sample_bound" "0xC000 \<le> udp_port sample_full"
    by (simp_all add: sample_bound_def sample_full_def sample_stack_def lwip_start_def del: upt_rec_numeral)
  note r = udp_new_port_free [OF this(1)] udp_new_port_free [OF this(2)]
  have "(\<lambda>i. local_port (pcbs sample_bound i)) ` set (udp_pcbs sample_bound) = {0xC001}"
    by (simp add: sample_bound_def)
  moreover have "0xC000 \<le> (0xC002 :: u16) \<and> 0xC002 \<notin> {0xC001 :: u16}"
    by simp
  ultimately show "\<exists>p. udp_new_port sample_bound = (p, sample_bound\<lparr>udp_port := p\<rparr>) \<and> 0xC000 \<le> p \<and> p \<noteq> 0xC001"
    using r(1) unfolding Let_def by (metis singletonI insert_iff)
  show "udp_new_port sample_full = (0, sample_full)"
    using r(2) sample_full_ports unfolding Let_def by (metis (no_types, lifting))
qed

section \<open>The header checksum computed inline\<close>

lemma unat_half_or: "unat (lwip_htons (to_u16 lo OR push_bit 8 (to_u16 hi))) = unat hi + 256 * unat lo"
  for lo hi :: u8
proof -
  have "unat (to_u16 lo OR push_bit 8 (to_u16 hi)) = unat lo + 256 * unat hi"
    using unat_load16 [of lo hi] by (simp add: load16_def)
  then show ?thesis
    by (simp add: unat_htons)
qed

lemma store16_eq: "store16 n = [to_u8 n, to_u8 (drop_bit 8 n)]"
  by (simp add: store16_def)

lemma store16_sum: "unat (to_u8 n) + 256 * unat (to_u8 (drop_bit 8 n)) = unat n" for n :: u16
  using le_value_store16 [of n] by (simp add: store16_def)

lemma unat_halves: "unat (to_u16 w) = unat w mod 65536" "unat (to_u16 (drop_bit 16 w)) = unat w div 65536"
  for w :: u32
proof -
  have "unat w div 65536 < 65536"
    using unat_u32_less [of w] by (simp add: less_mult_imp_div_less)
  then show "unat (to_u16 w) = unat w mod 65536" "unat (to_u16 (drop_bit 16 w)) = unat w div 65536"
    by (simp_all add: unsigned_ucast_eq take_bit_eq_mod drop_bit_eq_div unat_div)
qed

lemma upper_half: "unat (drop_bit 16 w) mod 65536 = unat w div 65536" for w :: u32
  using unat_halves(1) [of "drop_bit 16 w"] unat_halves(2) [of w] by simp

lemma pair_less: "unat (a :: u8) + 256 * unat (b :: u8) < 65536"
  using unat_u8_less [of a] unat_u8_less [of b] by linarith

lemma word_sum_store16: "word_sum (store16 n @ xs) = unat n + word_sum xs"
  using store16_sum [of n] by (simp add: store16_def)

lemma word_sum_ip_hdr:
  "word_sum (ip_hdr v_hl tos len idn ttl proto c src dest) =
     (unat v_hl + 256 * unat tos) + unat len + unat idn + (unat ttl + 256 * unat proto) + unat c
     + (unat src mod 65536 + unat src div 65536) + (unat dest mod 65536 + unat dest div 65536)"
  using word_sum_store16 [of "to_u16 (drop_bit 16 dest)" "[]"] word_sum_store16 [of 0]
  by (simp add: ip_hdr_def store32_def word_sum_store16 unat_halves(1) upper_half)

lemma unat_sum8:
  fixes a :: u32
  assumes "unat a < 65536" "unat b < 65536" "unat c < 65536" "unat d < 65536"
    "unat e < 65536" "unat f < 65536" "unat g < 65536" "unat h < 65536"
  shows "unat (a + b + c + d + e + f + g + h)
    = unat a + unat b + unat c + unat d + unat e + unat f + unat g + unat h"
  using assms by (simp add: unat_word_ariths(1))

text \<open>The second folding adds the carry without masking; the cast to 16 bits makes up for it.\<close>

lemma fold_then_cast:
  fixes u :: u32
  assumes "unat u \<le> 131070"
  shows "unat (to_u16 (drop_bit 16 u + u)) = ones_residue (unat u)"
proof -
  have "unat u div 65536 + unat u < 4294967296"
    using assms div_le_dividend [of "unat u" 65536] by linarith
  then have "unat (to_u16 (drop_bit 16 u + u)) = (unat u div 65536 + unat u) mod 65536"
    by (simp add: unsigned_ucast_eq take_bit_eq_mod unat_word_ariths(1) drop_bit_eq_div unat_div)
  also have "\<dots> = unat (FOLD_U32T u)"
  proof (cases "unat u < 65536")
    case False
    then have "unat u div 65536 = 1" "unat u mod 65536 = unat u - 65536"
      using assms by (simp_all add: div_nat_eqI le_mod_geq)
    moreover have "(1 + unat u) mod 65536 = 1 + unat u - 65536"
      using False assms by (simp add: le_mod_geq)
    ultimately show ?thesis
      using False by (simp add: unat_FOLD)
  qed (simp add: unat_FOLD)
  also have "\<dots> = ones_residue (unat u)"
    by (rule FOLD_once) (rule assms)
  finally show ?thesis .
qed

lemma ip_chk_sum_residue:
  "unat (ip_chk_sum v_hl tos ttl proto len idn src dest)
   = 65535 - ones_residue (le_value (ip_hdr v_hl tos len idn ttl proto 0 src dest))"
proof -
  let ?n = "word_sum (ip_hdr v_hl tos len idn ttl proto 0 src dest)"
  have half: "unat (w AND 0xFFFF) = unat w mod 65536" "unat w mod 65536 < 65536"
    "unat (drop_bit 16 w) = unat w div 65536" "unat w div 65536 < 65536" for w :: u32
    using unat_u32_less [of w] unat_half(1) [of w]
    by (simp_all add: less_mult_imp_div_less drop_bit_eq_div unat_div)
  define c8 where "c8 = to_u32 (lwip_htons (to_u16 proto OR push_bit 8 (to_u16 ttl)))
     + (dest AND 0xFFFF) + drop_bit 16 dest
     + to_u32 (lwip_htons (to_u16 tos OR push_bit 8 (to_u16 v_hl))) + to_u32 len + to_u32 idn
     + (src AND 0xFFFF) + drop_bit 16 src"
  have c8: "unat c8 = ?n"
    unfolding c8_def
    by (subst unat_sum8) (simp_all add: half unat_half_or word_sum_ip_hdr pair_less)
  have c9: "unat (FOLD_U32T c8) \<le> 131070"
    using half(2,4) [of c8] by (simp add: unat_FOLD)
  have "ones_residue (unat (FOLD_U32T c8)) = ones_residue (unat c8)"
    by (simp only: unat_FOLD ones_residue_fold)
  then have "unat (to_u16 (drop_bit 16 (FOLD_U32T c8) + FOLD_U32T c8)) = ones_residue ?n"
    by (simp only: fold_then_cast [OF c9] c8)
  moreover have "to_u16 (NOT w) = NOT (to_u16 w)" for w :: u32
    by (auto intro!: bit_word_eqI simp: bit_simps)
  ultimately show ?thesis
    by (simp only: ip_chk_sum_def Let_def FOLD_U32T_def [symmetric] c8_def [symmetric] unat_NOT_u16
        residue_word_sum)
qed

lemma length_ip_hdr [simp]: "length (ip_hdr v_hl tos len idn ttl proto c src dest) = 20"
  by (simp add: ip_hdr_def store32_def)

text \<open>A header with this checksum passes the check of the receiver.\<close>

lemma ip_hdr_verifies:
  "inet_chksum is_odd (ip_hdr v_hl tos len idn ttl proto
     (ip_chk_sum v_hl tos ttl proto len idn src dest) src dest) = 0"
proof -
  let ?xs = "[v_hl, tos] @ store16 len @ store16 idn @ store16 0 @ [ttl, proto]"
  let ?ys = "store32 src @ store32 dest"
  let ?c = "ip_chk_sum v_hl tos ttl proto len idn src dest"
  have hdr: "ip_hdr v_hl tos len idn ttl proto 0 src dest = ?xs @ [0, 0] @ ?ys"
    "ip_hdr v_hl tos len idn ttl proto ?c src dest = ?xs @ store16 ?c @ ?ys"
    by (simp_all add: ip_hdr_def store16_def)
  have "ones_residue (0 + le_value (?xs @ store16 ?c @ ?ys)) = 65535"
    by (rule residue_completed [OF _ _ refl])
       (simp_all add: ip_chk_sum_residue hdr(1) [symmetric] del: append.simps append_assoc)
  then have "unat (inet_chksum is_odd (?xs @ store16 ?c @ ?ys)) = 0"
    unfolding inet_chksum_def unat_NOT_u16
    by (subst lwip_standard_chksum_spec) (simp_all add: store32_def)
  then show ?thesis
    unfolding hdr(2) by (simp only: unat_eq_0)
qed

section \<open>Datagrams on the wire\<close>

lemma ip4_output_frame:
  assumes "headroom 34 p" "length (pb_payload p) + 20 \<le> unat (mtu (netifs st i))"
  defines "len \<equiv> lwip_htons (of_nat (length (pb_payload p) + 20))" and "idn \<equiv> lwip_htons (ip_id st)"
  shows "\<exists>p'. ip4_output_if_src heap frag [p] src (Some dest) ttl tos proto i st
      = etharp_output heap i [p'] dest (st\<lparr>ip_id := ip_id st + 1\<rparr>) \<and> headroom 14 p'
    \<and> pb_payload p' = ip_hdr 0x45 tos len idn ttl proto
        (ip_chk_sum 0x45 tos ttl proto len idn src dest) src dest @ pb_payload p"
proof -
  obtain p1 where p1: "add_header 20 [p] = Some [p1]" "unat (pb_tot_len p1) = length (pb_payload p) + 20"
    and put: "\<forall>bs. length bs = 20 \<longrightarrow> (\<exists>p2. put_header bs [p1] = [p2] \<and> headroom 14 p2
          \<and> pb_payload p2 = bs @ pb_payload p \<and> pb_tot_len p2 = pb_tot_len p1)"
    using add_header_headroom [of 20 14 p] assms(1) by auto
  have len: "lwip_htons (pb_tot_len p1) = len"
    by (simp only: of_nat_tot [OF p1(2)] len_def)
  have mtu: "\<not> pb_tot_len p1 > mtu (netifs st i)"
    using p1(2) assms(2) by (simp add: word_less_nat_alt)
  let ?h = "ip_hdr 0x45 tos len idn ttl proto (ip_chk_sum 0x45 tos ttl proto len idn src dest) src dest"
  obtain p2 where p2: "put_header ?h [p1] = [p2]" "headroom 14 p2" "pb_payload p2 = ?h @ pb_payload p"
    "pb_tot_len p2 = pb_tot_len p1"
    using put [rule_format, of ?h] by auto
  have "ip4_output_if_src heap frag [p] src (Some dest) ttl tos proto i st
      = etharp_output heap i [p2] dest (st\<lparr>ip_id := ip_id st + 1\<rparr>)"
    using mtu p2(1,4)
    by (simp add: ip4_output_if_src_def ip4_output_netif_def IP_HLEN_def p1(1) Let_def len idn_def [symmetric])
  then show ?thesis
    using p2 by blast
qed

lemma udp_output_frame:
  assumes p: "headroom 42 p" "length (pb_payload p) \<le> 65000"
    and pcb: "local_port (pcbs st i) \<noteq> 0" "pcb_flags (pcbs st i) AND UDP_FLAGS_NOCHKSUM = 0"
  defines "len \<equiv> of_nat (length (pb_payload p) + 8)"
  shows "\<exists>p' c. udp_sendto_if_src frag heap (Some i) [p] dst_ip dst_port (Some n) src_ip st
      = ip4_output_if_src (\<lambda>i. heap (1 + i)) frag [p'] src_ip (Some dst_ip) (pcb_ttl (pcbs st i)) (pcb_tos (pcbs st i))
          IP_PROTO_UDP n st
    \<and> headroom 34 p'
    \<and> pb_payload p' = udp_hdr (lwip_htons (local_port (pcbs st i))) (lwip_htons dst_port)
        (lwip_htons len) c @ pb_payload p
    \<and> inet_chksum_pseudo [(is_odd, pb_payload p')] IP_PROTO_UDP len src_ip dst_ip = 0"
proof -
  let ?b = "pcbs st i"
  obtain p1 where p1: "add_header 8 [p] = Some [p1]" "unat (pb_tot_len p1) = length (pb_payload p) + 8"
    and put: "\<forall>bs. length bs = 8 \<longrightarrow> (\<exists>p2. put_header bs [p1] = [p2] \<and> headroom 34 p2
          \<and> pb_payload p2 = bs @ pb_payload p \<and> pb_tot_len p2 = pb_tot_len p1)"
    using add_header_headroom [of 8 34 p] p(1) by auto
  have tot: "pb_tot_len p1 = len"
    using of_nat_tot [OF p1(2)] by (simp add: len_def)
  define hdr where "hdr = udp_hdr (lwip_htons (local_port ?b)) (lwip_htons dst_port) (lwip_htons len)"
  have hdr8: "length (hdr c) = 8" for c
    by (simp add: hdr_def udp_hdr_def)
  obtain q where q: "put_header (hdr 0) [p1] = [q]" "pb_payload q = hdr 0 @ pb_payload p"
    using put [rule_format, OF hdr8] by blast
  define c where "c = inet_chksum_pseudo (pieces [q]) IP_PROTO_UDP len src_ip dst_ip"
  define c1 where "c1 = (if c = 0 then 0xFFFF else c)"
  obtain p2 where p2: "put_header (hdr c1) [p1] = [p2]" "headroom 34 p2" "pb_payload p2 = hdr c1 @ pb_payload p"
    using put [rule_format, OF hdr8] by blast
  have guard: "\<not> pb_tot_len p + 8 < pb_tot_len p"
    using p by (simp add: headroom_def word_less_nat_alt unat_word_ariths(1))
  have "udp_sendto_if_src frag heap (Some i) [p] dst_ip dst_port (Some n) src_ip st
      = ip4_output_if_src (\<lambda>i. heap (1 + i)) frag [p2] src_ip (Some dst_ip) (pcb_ttl ?b) (pcb_tos ?b) IP_PROTO_UDP n st"
    using pcb guard p2(1) [unfolded c1_def] q(1)
    by (cases "c = 0") (simp_all add: udp_sendto_if_src_def UDP_HLEN_def p1(1) Let_def tot hdr_def [symmetric]
        ip_chksum_pseudo_def c_def [symmetric])
  moreover have "inet_chksum_pseudo [(is_odd, pb_payload p2)] IP_PROTO_UDP len src_ip dst_ip = 0"
  proof (rule inet_chksum_pseudo_verifies [OF _ _ _ c_def])
    let ?xs = "store16 (lwip_htons (local_port ?b)) @ store16 (lwip_htons dst_port) @ store16 (lwip_htons len)"
    show "chain_ok (pieces [q])" "chain_ok [(is_odd, pb_payload p2)]"
      using p(2) by (simp_all add: chain_ok_def pieces_def q p2 hdr8)
    show "chain_bytes (pieces [q]) = ?xs @ [0, 0] @ pb_payload p"
      "chain_bytes [(is_odd, pb_payload p2)] = ?xs @ store16 (if c = 0 then 0xFFFF else c) @ pb_payload p"
      by (simp_all add: chain_bytes_def pieces_def q p2 hdr_def udp_hdr_def c1_def) (simp add: store16_def)
    show "even (length ?xs)"
      by simp
  qed
  ultimately show ?thesis
    using p2 unfolding hdr_def by blast
qed

section \<open>A broadcast datagram on the wire\<close>

text \<open>
  What a receiver sees of a UDP datagram in a frame: addresses of the two layers, ports,
  lengths, both checksums correct, and the data.
\<close>

definition broadcast_frame ::
  "u8 list \<Rightarrow> u32 \<Rightarrow> u16 \<Rightarrow> u16 \<Rightarrow> u8 \<Rightarrow> u8 \<Rightarrow> u16 \<Rightarrow> u8 list \<Rightarrow> u8 list \<Rightarrow> bool" where
  "broadcast_frame hw src from_port dport ttl tos idn bytes frame \<longleftrightarrow>
     (\<exists>c c'. let ulen = of_nat (length bytes + 8);
                 iph = ip_hdr 0x45 tos (lwip_htons (ulen + 20)) (lwip_htons idn) ttl IP_PROTO_UDP c src 0xFFFFFFFF;
                 dgram = udp_hdr (lwip_htons from_port) (lwip_htons dport) (lwip_htons ulen) c' @ bytes
             in frame = ethbroadcast @ hw @ [0x08, 0x00] @ iph @ dgram
                \<and> inet_chksum False iph = 0
                \<and> inet_chksum_pseudo [(False, dgram)] IP_PROTO_UDP ulen src 0xFFFFFFFF = 0)"

definition sendable :: "stack \<Rightarrow> u32 \<Rightarrow> u32 \<Rightarrow> nat \<Rightarrow> bool" where
  "sendable st i n l \<longleftrightarrow> local_port (pcbs st i) \<noteq> 0 \<and> pcb_flags (pcbs st i) AND UDP_FLAGS_NOCHKSUM = 0
     \<and> local_ip (pcbs st i) = ip_addr (netifs st n) \<and> length (hwaddr (netifs st n)) = 6
     \<and> l + 28 \<le> unat (mtu (netifs st n)) \<and> l \<le> 1472"

lemma udp_sendto_if_own:
  assumes "local_ip (pcbs st i) = ip_addr (netifs st n)"
  shows "udp_sendto_if frag heap (Some i) [p] dst_ip dst_port (Some n) st
    = udp_sendto_if_src frag heap (Some i) [p] dst_ip dst_port (Some n) (ip_addr (netifs st n)) st"
  using assms by (simp add: udp_sendto_if_def Let_def)

lemma etharp_output_broadcast:
  "etharp_output heap n q 0xFFFFFFFF st = ethernet_output q (hwaddr (netifs st n)) ethbroadcast ETHTYPE_IP st"
  by (simp add: etharp_output_def ip4_addr_isbroadcast_u32_def Let_def)

lemma udp_broadcast_sent:
  assumes ok: "sendable st i n (length (pb_payload p))" and p: "headroom 42 p"
    and tx: "tx_holds (dev (sport st)) fs"
    and room: "length (tx_enc fs) + words_of (length (pb_payload p) + 42) + 2 < tx_words (dev (sport st))"
  shows "\<exists>s' f. udp_sendto_if frag heap (Some i) [p] 0xFFFFFFFF dst_port (Some n) st
      = Some (ERR_OK, st\<lparr>ip_id := ip_id st + 1, sport := s'\<rparr>)
    \<and> tx_holds (dev s') (fs @ [f]) \<and> tx_words (dev s') = tx_words (dev (sport st)) \<and> rx_same (dev (sport st)) (dev s')
    \<and> broadcast_frame (hwaddr (netifs st n)) (ip_addr (netifs st n)) (local_port (pcbs st i)) dst_port
        (pcb_ttl (pcbs st i)) (pcb_tos (pcbs st i)) (ip_id st) (pb_payload p) (tx_bytes f)"
proof -
  let ?b = "pcbs st i" and ?n = "netifs st n" and ?d = "pb_payload p"
  let ?src = "ip_addr ?n" and ?B = "0xFFFFFFFF :: u32"
  have ok': "local_port ?b \<noteq> 0" "pcb_flags ?b AND UDP_FLAGS_NOCHKSUM = 0" "local_ip ?b = ?src"
    "length (hwaddr ?n) = 6" "length ?d + 28 \<le> unat (mtu ?n)" "length ?d \<le> 1472"
    using ok by (simp_all add: sendable_def)
  have "length ?d \<le> 65000"
    using ok'(6) by simp
  from udp_output_frame [OF p this ok'(1,2), of frag heap ?B dst_port n ?src False] obtain p1 c' where
    p1: "udp_sendto_if_src frag heap (Some i) [p] ?B dst_port (Some n) ?src st
      = ip4_output_if_src (\<lambda>i. heap (1 + i)) frag [p1] ?src (Some ?B) (pcb_ttl ?b) (pcb_tos ?b) IP_PROTO_UDP n st"
    "headroom 34 p1"
    "pb_payload p1 = udp_hdr (lwip_htons (local_port ?b)) (lwip_htons dst_port)
        (lwip_htons (of_nat (length ?d + 8))) c' @ ?d"
    "inet_chksum_pseudo [(False, pb_payload p1)] IP_PROTO_UDP (of_nat (length ?d + 8)) ?src ?B = 0"
    by blast
  have len1: "length (pb_payload p1) = length ?d + 8"
    by (simp add: p1(3) udp_hdr_def)
  have "length (pb_payload p1) + 20 \<le> unat (mtu (netifs st n))"
    using ok'(5) len1 by simp
  from ip4_output_frame [OF p1(2) this, of "\<lambda>i. heap (1 + i)" frag ?src ?B "pcb_ttl ?b" "pcb_tos ?b" IP_PROTO_UDP]
  obtain p2 where p2: "ip4_output_if_src (\<lambda>i. heap (1 + i)) frag [p1] ?src (Some ?B) (pcb_ttl ?b) (pcb_tos ?b) IP_PROTO_UDP n st
      = etharp_output (\<lambda>i. heap (1 + i)) n [p2] ?B (st\<lparr>ip_id := ip_id st + 1\<rparr>)" "headroom 14 p2"
    and p2_hdr: "pb_payload p2 = ip_hdr 0x45 (pcb_tos ?b) (lwip_htons (of_nat (length (pb_payload p1) + 20)))
        (lwip_htons (ip_id st)) (pcb_ttl ?b) IP_PROTO_UDP (ip_chk_sum 0x45 (pcb_tos ?b) (pcb_ttl ?b) IP_PROTO_UDP
          (lwip_htons (of_nat (length (pb_payload p1) + 20))) (lwip_htons (ip_id st)) ?src ?B) ?src ?B
        @ pb_payload p1"
    by blast
  have eq: "(of_nat (length (pb_payload p1) + 20) :: u16) = of_nat (length ?d + 8) + 20"
    by (simp add: len1)
  define h where "h = (\<lambda>c. ip_hdr 0x45 (pcb_tos ?b) (lwip_htons (of_nat (length ?d + 8) + 20))
        (lwip_htons (ip_id st)) (pcb_ttl ?b) IP_PROTO_UDP c ?src ?B)"
  define c where "c = ip_chk_sum 0x45 (pcb_tos ?b) (pcb_ttl ?b) IP_PROTO_UDP
    (lwip_htons (of_nat (length ?d + 8) + 20)) (lwip_htons (ip_id st)) ?src ?B"
  have iph: "pb_payload p2 = h c @ pb_payload p1" "inet_chksum False (h c) = 0"
    unfolding p2_hdr eq h_def c_def by (rule refl, rule ip_hdr_verifies)
  have len2: "length (pb_payload p2) = length ?d + 28"
    using iph(1) len1 by (simp add: h_def)
  let ?st = "st\<lparr>ip_id := ip_id st + 1\<rparr>"
  have "length ethbroadcast = 6"
    by (simp add: ethbroadcast_def)
  then obtain s' f where sent: "ethernet_output [p2] (hwaddr ?n) ethbroadcast ETHTYPE_IP ?st
      = Some (ERR_OK, st\<lparr>ip_id := ip_id st + 1, sport := s'\<rparr>)" "tx_holds (dev s') (fs @ [f])"
    "tx_bytes f = ethbroadcast @ hwaddr ?n @ [0x08, 0x00] @ pb_payload p2" "tx_words (dev s') = tx_words (dev (sport st))"
    "rx_same (dev (sport st)) (dev s')"
    using ethernet_output_queue [OF p2(2) _ ok'(4), of ethbroadcast ?st fs ETHTYPE_IP] tx room ok'(6) len2
    by (auto simp: ETH_FRAME_SIZE_def ETHTYPE_IP_def lwip_htons_def store16_def add.commute [of 42])
  have "udp_sendto_if frag heap (Some i) [p] ?B dst_port (Some n) st
      = Some (ERR_OK, st\<lparr>ip_id := ip_id st + 1, sport := s'\<rparr>)"
    unfolding udp_sendto_if_own [OF ok'(3)] p1(1) p2(1) etharp_output_broadcast using sent(1) by simp
  moreover have "broadcast_frame (hwaddr ?n) ?src (local_port ?b) dst_port (pcb_ttl ?b) (pcb_tos ?b)
      (ip_id st) ?d (tx_bytes f)"
    using iph(2) p1(4) unfolding broadcast_frame_def Let_def sent(3) h_def
    by (intro exI [of _ c] exI [of _ c']) (simp add: iph(1) h_def p1(3))
  ultimately show ?thesis
    using sent(2,4,5) by blast
qed

end
