(* ===== verification/NetifCore.thy ===== *)
theory NetifCore
  imports Udp
begin

text \<open>
  The interfaces of lwIP 2.1.2: \<open>core/netif.c\<close> with the options of \<open>lwipopts.h\<close> (IPv4 only, no
  status callbacks), and \<open>udp_netif_ip_addr_changed\<close> of \<open>core/udp.c\<close>.

  An address argument that may be \<open>NULL\<close> is an option. \<open>LWIP_PLATFORM_ASSERT\<close> is empty: an
  assertion that fails has no effect. TCP, whose control blocks are not modelled, is told of a
  changed address by \<open>netif_do_ip_addr_changed\<close> too; it ignores a change from the address 0, which
  is the only one the program makes. \<open>dhcp_network_changed\<close> has no effect as long as no DHCP
  client was started, and the program starts none. \<open>None\<close> as a result is a copy beyond
  \<open>EthFrameTX\<close> in the output of a report, or a loop that does not end.
\<close>

section \<open>Operations\<close>

definition set_netif :: "u32 \<Rightarrow> (netif \<Rightarrow> netif) \<Rightarrow> stack \<Rightarrow> stack" where
  "set_netif i f st = st\<lparr>netifs := (netifs st)(i := f (netifs st i))\<rparr>"

text \<open>\<open>NULL\<close> stands for \<open>IP4_ADDR_ANY\<close>.\<close>

definition addr_or_any :: "u32 option \<Rightarrow> u32" where
  "addr_or_any a = (case a of None \<Rightarrow> 0 | Some x \<Rightarrow> x)"

definition udp_netif_ip_addr_changed :: "u32 \<Rightarrow> u32 option \<Rightarrow> stack \<Rightarrow> stack" where
  "udp_netif_ip_addr_changed old_addr new_addr st =
     (if old_addr \<noteq> 0 \<and> addr_or_any new_addr \<noteq> 0
      then st\<lparr>pcbs := (\<lambda>j. if j \<in> set (udp_pcbs st) \<and> local_ip (pcbs st j) = old_addr
                           then (pcbs st j)\<lparr>local_ip := addr_or_any new_addr\<rparr> else pcbs st j)\<rparr>
      else st)"

definition netif_do_ip_addr_changed :: "u32 \<Rightarrow> u32 option \<Rightarrow> stack \<Rightarrow> stack" where
  "netif_do_ip_addr_changed old_addr new_addr st = udp_netif_ip_addr_changed old_addr new_addr st"

definition NETIF_REPORT_TYPE_IPV4 :: u8 where [reg_defs]: "NETIF_REPORT_TYPE_IPV4 = 0x01"
definition NETIF_REPORT_TYPE_IPV6 :: u8 where [reg_defs]: "NETIF_REPORT_TYPE_IPV6 = 0x02"

text \<open>\<open>etharp_gratuitous\<close> asks for the own address.\<close>

definition etharp_gratuitous :: "heap \<Rightarrow> u32 \<Rightarrow> stack \<Rightarrow> (err_t \<times> stack) option" where
  "etharp_gratuitous heap i st = etharp_request heap i (ip_addr (netifs st i)) st"

definition netif_issue_reports :: "heap \<Rightarrow> u32 \<Rightarrow> u8 \<Rightarrow> stack \<Rightarrow> stack option" where
  "netif_issue_reports heap i report_type st =
     (let n = netifs st i
      in if netif_flags n AND NETIF_FLAG_LINK_UP = 0 \<or> netif_flags n AND NETIF_FLAG_UP = 0 then Some st
         else if report_type AND NETIF_REPORT_TYPE_IPV4 \<noteq> 0 \<and> ip_addr n \<noteq> 0
         then (if netif_flags n AND NETIF_FLAG_ETHARP \<noteq> 0 then map_option snd (etharp_gratuitous heap i st) else Some st)
         else Some st)"

definition netif_do_set_ipaddr :: "heap \<Rightarrow> u32 \<Rightarrow> u32 \<Rightarrow> stack \<Rightarrow> (bool \<times> stack) option" where
  "netif_do_set_ipaddr heap i ipaddr st =
     (if ipaddr \<noteq> ip_addr (netifs st i)
      then
        let st1 = netif_do_ip_addr_changed (ip_addr (netifs st i)) (Some ipaddr) st;
            st2 = set_netif i (\<lambda>n. n\<lparr>ip_addr := ipaddr\<rparr>) st1
        in map_option (Pair True) (netif_issue_reports heap i NETIF_REPORT_TYPE_IPV4 st2)
      else Some (False, st))"

definition netif_set_ipaddr :: "heap \<Rightarrow> u32 \<Rightarrow> u32 option \<Rightarrow> stack \<Rightarrow> stack option" where
  "netif_set_ipaddr heap i ipaddr st = map_option snd (netif_do_set_ipaddr heap i (addr_or_any ipaddr) st)"

definition netif_do_set_netmask :: "u32 \<Rightarrow> u32 \<Rightarrow> stack \<Rightarrow> bool \<times> stack" where
  "netif_do_set_netmask i m st =
     (if m \<noteq> netmask (netifs st i) then (True, set_netif i (\<lambda>n. n\<lparr>netmask := m\<rparr>) st) else (False, st))"

definition netif_set_netmask :: "u32 \<Rightarrow> u32 option \<Rightarrow> stack \<Rightarrow> stack" where
  "netif_set_netmask i m st = snd (netif_do_set_netmask i (addr_or_any m) st)"

definition netif_do_set_gw :: "u32 \<Rightarrow> u32 \<Rightarrow> stack \<Rightarrow> bool \<times> stack" where
  "netif_do_set_gw i g st =
     (if g \<noteq> gw (netifs st i) then (True, set_netif i (\<lambda>n. n\<lparr>gw := g\<rparr>) st) else (False, st))"

definition netif_set_gw :: "u32 \<Rightarrow> u32 option \<Rightarrow> stack \<Rightarrow> stack" where
  "netif_set_gw i g st = snd (netif_do_set_gw i (addr_or_any g) st)"

text \<open>An address is removed before mask and gateway change and set after them.\<close>

definition netif_set_addr :: "heap \<Rightarrow> u32 \<Rightarrow> u32 option \<Rightarrow> u32 option \<Rightarrow> u32 option \<Rightarrow> stack \<Rightarrow> stack option" where
  "netif_set_addr heap i ipaddr m g st =
     (let ip = addr_or_any ipaddr;
          remove = (ip = 0)
      in case (if remove then map_option snd (netif_do_set_ipaddr heap i ip st) else Some st) of
           None \<Rightarrow> None
         | Some st1 \<Rightarrow>
             let st2 = snd (netif_do_set_netmask i (addr_or_any m) st1);
                 st3 = snd (netif_do_set_gw i (addr_or_any g) st2)
             in if remove then Some st3 else map_option snd (netif_do_set_ipaddr heap i ip st3))"

text \<open>
  The search for a number that no interface in the list has. The interface itself is not
  excluded: were it in the list, the search would not end.
\<close>

partial_function (option) netif_num_loop :: "u32 \<Rightarrow> stack \<Rightarrow> stack option" where
  "netif_num_loop i st =
     (let st1 = (if netif_no (netifs st i) = 255 then set_netif i (\<lambda>n. n\<lparr>netif_no := 0\<rparr>) st else st)
      in if list_ex (\<lambda>j. netif_no (netifs st1 j) = netif_no (netifs st1 i)) (netif_list st1)
         then netif_num_loop i (set_netif i (\<lambda>n. n\<lparr>netif_no := netif_no n + 1\<rparr>) st1)
         else Some st1)"

text \<open>
  \<open>netif_add\<close>: the function \<open>init\<close> of the driver works on the stack and on a state of its own.
  The result is the interface or \<open>NULL\<close>. The pointers \<open>output\<close>, \<open>linkoutput\<close> and \<open>input\<close> always are
  \<open>etharp_output\<close>, \<open>low_level_output\<close> and \<open>ethernet_input\<close> here and are not stored.
\<close>

definition netif_add ::
  "(u32 \<Rightarrow> stack \<times> 'x \<Rightarrow> (err_t \<times> stack \<times> 'x) option) \<Rightarrow> heap \<Rightarrow> u32 \<Rightarrow> u32 option \<Rightarrow> u32 option \<Rightarrow> u32 option
    \<Rightarrow> stack \<times> 'x \<Rightarrow> (u32 option \<times> stack \<times> 'x) option" where
  "netif_add init heap i ipaddr m g s =
     (let (st, x) = s;
          st1 = set_netif i (\<lambda>n. n\<lparr>ip_addr := 0, netmask := 0, gw := 0, mtu := 0, netif_flags := 0,
                                   netif_no := netif_num st\<rparr>) st
      in case netif_set_addr heap i ipaddr m g st1 of
           None \<Rightarrow> None
         | Some st2 \<Rightarrow>
             (case init i (st2, x) of
                None \<Rightarrow> None
              | Some (err, st3, x1) \<Rightarrow>
                  if err \<noteq> ERR_OK then Some (None, st3, x1)
                  else
                    (case netif_num_loop i st3 of
                       None \<Rightarrow> None
                     | Some st4 \<Rightarrow>
                         let k = netif_no (netifs st4 i)
                         in Some (Some i, st4\<lparr>netif_num := (if k = 254 then 0 else k + 1),
                                              netif_list := i # netif_list st4\<rparr>, x1))))"

definition netif_set_default :: "u32 option \<Rightarrow> stack \<Rightarrow> stack" where
  "netif_set_default i st = st\<lparr>netif_default := i\<rparr>"

definition netif_set_up :: "heap \<Rightarrow> u32 \<Rightarrow> stack \<Rightarrow> stack option" where
  "netif_set_up heap i st =
     (if netif_flags (netifs st i) AND NETIF_FLAG_UP = 0
      then netif_issue_reports heap i (NETIF_REPORT_TYPE_IPV4 OR NETIF_REPORT_TYPE_IPV6)
             (set_netif i (\<lambda>n. n\<lparr>netif_flags := netif_flags n OR NETIF_FLAG_UP\<rparr>) st)
      else Some st)"

definition netif_set_down :: "u32 \<Rightarrow> stack \<Rightarrow> stack" where
  "netif_set_down i st =
     (if netif_flags (netifs st i) AND NETIF_FLAG_UP \<noteq> 0
      then
        let st1 = set_netif i (\<lambda>n. n\<lparr>netif_flags := netif_flags n AND NOT NETIF_FLAG_UP\<rparr>) st
        in if netif_flags (netifs st1 i) AND NETIF_FLAG_ETHARP \<noteq> 0 then etharp_cleanup_netif i st1 else st1
      else st)"

definition netif_set_link_up :: "heap \<Rightarrow> u32 \<Rightarrow> stack \<Rightarrow> stack option" where
  "netif_set_link_up heap i st =
     (if netif_flags (netifs st i) AND NETIF_FLAG_LINK_UP = 0
      then netif_issue_reports heap i (NETIF_REPORT_TYPE_IPV4 OR NETIF_REPORT_TYPE_IPV6)
             (set_netif i (\<lambda>n. n\<lparr>netif_flags := netif_flags n OR NETIF_FLAG_LINK_UP\<rparr>) st)
      else Some st)"

definition netif_set_link_down :: "u32 \<Rightarrow> stack \<Rightarrow> stack" where
  "netif_set_link_down i st =
     (if netif_flags (netifs st i) AND NETIF_FLAG_LINK_UP \<noteq> 0
      then set_netif i (\<lambda>n. n\<lparr>netif_flags := netif_flags n AND NOT NETIF_FLAG_LINK_UP\<rparr>) st
      else st)"

definition netif_remove :: "u32 option \<Rightarrow> stack \<Rightarrow> stack" where
  "netif_remove netif st =
     (case netif of
        None \<Rightarrow> st
      | Some i \<Rightarrow>
          let st1 = (if ip_addr (netifs st i) \<noteq> 0
                then netif_do_ip_addr_changed (ip_addr (netifs st i)) None st else st);
              st2 = (if netif_flags (netifs st1 i) AND NETIF_FLAG_UP \<noteq> 0 then netif_set_down i st1 else st1);
              st3 = (if netif_default st2 = Some i then netif_set_default None st2 else st2)
          in st3\<lparr>netif_list := remove1 i (netif_list st3)\<rparr>)"

section \<open>A free number\<close>

lemma set_netif_simps [simp]:
  "netifs (set_netif i f st) j = (if j = i then f (netifs st i) else netifs st j)"
  "netif_list (set_netif i f st) = netif_list st" "netif_default (set_netif i f st) = netif_default st"
  "pcbs (set_netif i f st) = pcbs st" "udp_pcbs (set_netif i f st) = udp_pcbs st"
  "udp_port (set_netif i f st) = udp_port st" "ip_id (set_netif i f st) = ip_id st"
  "arp_table (set_netif i f st) = arp_table st" "etharp_cached_entry (set_netif i f st) = etharp_cached_entry st"
  "sport (set_netif i f st) = sport st" "netif_num (set_netif i f st) = netif_num st"
  by (simp_all add: set_netif_def)

lemma set_netif_twice [simp]: "set_netif i f (set_netif i g st) = set_netif i (\<lambda>n. f (g n)) st"
  by (simp add: set_netif_def)

lemma set_netif_id: "(\<And>n. n = netifs st i \<Longrightarrow> f n = n) \<Longrightarrow> set_netif i f st = st"
  by (simp add: set_netif_def)

text \<open>The numbers in use, and the number that the search tries after \<open>k\<close> failures.\<close>

definition used_nums :: "stack \<Rightarrow> nat set" where
  "used_nums st = (\<lambda>j. unat (netif_no (netifs st j))) ` set (netif_list st)"

definition with_no :: "u32 \<Rightarrow> nat \<Rightarrow> stack \<Rightarrow> stack" where
  "with_no i k st = set_netif i (\<lambda>n. n\<lparr>netif_no := of_nat k\<rparr>) st"

lemma unat_u8_small: "k < 256 \<Longrightarrow> unat (of_nat k :: u8) = k"
  by (simp add: unat_of_nat take_bit_eq_mod)

lemma netif_num_loop_try:
  assumes "i \<notin> set (netif_list st)" "k < 256"
  defines "m \<equiv> k mod 255"
  shows "netif_num_loop i (with_no i k st) =
    (if m \<in> used_nums st then netif_num_loop i (with_no i (m + 1) st) else Some (with_no i m st))"
proof -
  let ?n = "netif_no (netifs (with_no i k st) i)"
  have "m \<le> 254"
    using assms(3) by (simp add: less_Suc_eq_le [symmetric])
  have "k = 255 \<or> k < 255"
    using assms(2) by auto
  then have st1: "(if ?n = 255 then set_netif i (\<lambda>n. n\<lparr>netif_no := 0\<rparr>) (with_no i k st) else with_no i k st)
      = with_no i m st"
    using unat_u8_small [OF assms(2)] by (auto simp: with_no_def assms(3))
  have "list_ex (\<lambda>j. netif_no (netifs (with_no i m st) j) = netif_no (netifs (with_no i m st) i))
      (netif_list (with_no i m st)) \<longleftrightarrow> m \<in> used_nums st"
    using assms(1) \<open>m \<le> 254\<close> unat_u8_small [of m]
    by (auto simp: with_no_def used_nums_def list_ex_iff image_iff word_unat_eq_iff [where 'a = 8])
  moreover have "set_netif i (\<lambda>n. n\<lparr>netif_no := netif_no n + 1\<rparr>) (with_no i m st) = with_no i (m + 1) st"
    by (simp add: with_no_def add.commute)
  ultimately show ?thesis
    by (subst netif_num_loop.simps) (simp only: Let_def st1)
qed

lemma netif_num_loop_first:
  assumes "i \<notin> set (netif_list st)" "(k + d) mod 255 \<notin> used_nums st" "\<And>e. e < d \<Longrightarrow> (k + e) mod 255 \<in> used_nums st"
    "k < 256"
  shows "netif_num_loop i (with_no i k st) = Some (with_no i ((k + d) mod 255) st)"
  using assms(2-)
proof (induction d arbitrary: k)
  case 0
  then show ?case
    by (subst netif_num_loop_try [OF assms(1)]) simp_all
next
  case (Suc d)
  have "k mod 255 \<in> used_nums st"
    using Suc.prems(2) [of 0] by simp
  moreover have eq: "(k mod 255 + 1 + e) mod 255 = (k + Suc e) mod 255" for e
    using mod_add_left_eq [of k 255 "1 + e"] by (simp add: add.assoc)
  ultimately have "netif_num_loop i (with_no i k st) = netif_num_loop i (with_no i (k mod 255 + 1) st)"
    by (subst netif_num_loop_try [OF assms(1) Suc.prems(3)]) simp
  also have "\<dots> = Some (with_no i ((k mod 255 + 1 + d) mod 255) st)"
  proof (rule Suc.IH)
    show "k mod 255 + 1 < 256"
      using mod_less_divisor [of 255 k] by simp
  qed (use Suc.prems(1,2) in \<open>simp_all only: eq Suc_mono not_False_eq_True\<close>)
  finally show ?case
    by (simp only: eq)
qed

lemma netif_num_free:
  assumes "length (netif_list st) < 255"
  shows "\<exists>d. (k + d) mod 255 \<notin> used_nums st"
proof (rule ccontr)
  assume "\<not> ?thesis"
  then have all: "(k + d) mod 255 \<in> used_nums st" for d
    by simp
  have "{0..<255} \<subseteq> used_nums st"
  proof
    fix x :: nat assume "x \<in> {0..<255}"
    then have "(k + (x + 254 * k)) mod 255 = x"
      using mod_mult_self1 [of x 255 k] by (simp add: algebra_simps)
    then show "x \<in> used_nums st"
      using all [of "x + 254 * k"] by simp
  qed
  then have "255 \<le> card (used_nums st)"
    using card_mono [of "used_nums st" "{0..<255}"] by (simp add: used_nums_def)
  also have "\<dots> \<le> length (netif_list st)"
    unfolding used_nums_def by (meson card_image_le card_length finite_set le_trans)
  finally show False
    using assms by simp
qed

lemma netif_num_loop_fresh:
  assumes "netif_num_loop i st = Some r"
  shows "i \<notin> set (netif_list st)"
  using _ assms
proof (rule netif_num_loop.raw_induct [where P = "\<lambda>i st r. i \<notin> set (netif_list st)"])
  fix loop i st r
  assume IH: "\<And>i st r. loop i st = Some r \<Longrightarrow> i \<notin> set (netif_list st)"
    and body: "(let st1 = (if netif_no (netifs st i) = 255 then set_netif i (\<lambda>n. n\<lparr>netif_no := 0\<rparr>) st else st)
      in if list_ex (\<lambda>j. netif_no (netifs st1 j) = netif_no (netifs st1 i)) (netif_list st1)
         then loop i (set_netif i (\<lambda>n. n\<lparr>netif_no := netif_no n + 1\<rparr>) st1) else Some st1) = Some r"
  have "loop i (set_netif i f st) = Some r \<Longrightarrow> i \<notin> set (netif_list st)" for f
    using IH [of i "set_netif i f st" r] by simp
  then show "i \<notin> set (netif_list st)"
    using body by (auto simp: Let_def list_ex_iff split: if_splits)
qed

lemma netif_num_loop_result:
  assumes "length (netif_list st) < 255" "i \<notin> set (netif_list st)"
  shows "\<exists>k. netif_num_loop i st = Some (set_netif i (\<lambda>n. n\<lparr>netif_no := k\<rparr>) st) \<and> k < 255
    \<and> k \<notin> (\<lambda>j. netif_no (netifs st j)) ` set (netif_list st)"
proof -
  define k where "k = unat (netif_no (netifs st i))"
  define d where "d = (LEAST d. (k + d) mod 255 \<notin> used_nums st)"
  let ?m = "(k + d) mod 255"
  have free: "?m \<notin> used_nums st"
    unfolding d_def using netif_num_free [OF assms(1), of k] by (rule LeastI_ex)
  have taken: "(k + e) mod 255 \<in> used_nums st" if "e < d" for e
    using not_less_Least [OF that [unfolded d_def]] by simp
  have "k < 256"
    using unsigned_less [of "netif_no (netifs st i)"] by (simp add: k_def)
  from netif_num_loop_first [OF assms(2) free taken this]
  have "netif_num_loop i (with_no i k st) = Some (with_no i ?m st)" .
  moreover have "with_no i k st = st"
    unfolding with_no_def by (rule set_netif_id) (simp add: k_def)
  moreover have "unat (of_nat ?m :: u8) = ?m"
    using mod_less_divisor [of 255 "k + d"] by (intro unat_u8_small) simp
  ultimately show ?thesis
    using free mod_less_divisor [of 255 "k + d"]
    by (intro exI [of _ "of_nat ?m"]) (auto simp: with_no_def used_nums_def word_less_nat_alt image_iff)
qed

text \<open>
  C37. The number of a new interface. When fewer than 255 interfaces are in the list and the
  interface is not one of them, the search of \<open>netif_add\<close> ends, with a number below 255 that no
  interface in the list has, and changes nothing but this number. When the interface is in the
  list already the search never ends.
\<close>

theorem netif_num_loop_correct:
  assumes "length (netif_list st) < 255"
  shows "if i \<in> set (netif_list st) then netif_num_loop i st = None
    else \<exists>k. netif_num_loop i st = Some (set_netif i (\<lambda>n. n\<lparr>netif_no := k\<rparr>) st) \<and> k < 255
      \<and> k \<notin> (\<lambda>j. netif_no (netifs st j)) ` set (netif_list st)"
proof (cases "i \<in> set (netif_list st)")
  case True
  then show ?thesis
    using netif_num_loop_fresh [of i st] by (cases "netif_num_loop i st") auto
qed (use netif_num_loop_result [OF assms] in simp)

lemma netif_num_loop_correct_witness:
  "netif_num_loop 1 sample_stack = None
   \<and> (\<exists>k. netif_num_loop 2 sample_stack = Some (set_netif 2 (\<lambda>n. n\<lparr>netif_no := k\<rparr>) sample_stack) \<and> k \<noteq> 0)"
proof -
  have l: "netif_list sample_stack = [1]" and "netif_no (netifs sample_stack 1) = 0"
    by (simp_all add: sample_stack_def lwip_start_def netif_zero_def)
  then show ?thesis
    using netif_num_loop_correct [of sample_stack 1] netif_num_loop_correct [of sample_stack 2] by auto
qed

section \<open>Addresses of an interface\<close>

lemma etharp_gratuitous_port:
  assumes "heap_ok heap" "length (hwaddr (netifs st i)) = 6"
  shows "\<exists>r s. etharp_gratuitous heap i st = Some (r, st\<lparr>sport := s\<rparr>)"
proof -
  obtain r st' where "etharp_gratuitous heap i st = Some (r, st')"
    using etharp_raw_returns [OF assms(1), of "hwaddr (netifs st i)" ethbroadcast "hwaddr (netifs st i)" ethzero
        "ip_addr (netifs st i)" "ip_addr (netifs st i)" ARP_REQUEST st] assms(2)
    by (auto simp: etharp_gratuitous_def etharp_request_def etharp_request_dst_def Let_def ethbroadcast_def ethzero_def)
  then show ?thesis
    using etharp_request_port(2) by (fastforce simp: etharp_gratuitous_def)
qed

lemma netif_issue_reports_port:
  assumes "heap_ok heap" "length (hwaddr (netifs st i)) = 6"
  shows "\<exists>s. netif_issue_reports heap i r st = Some (st\<lparr>sport := s\<rparr>)"
proof -
  have same: "\<exists>s. st = st\<lparr>sport := s\<rparr>"
    by (rule exI [of _ "sport st"]) simp
  show ?thesis
    using etharp_gratuitous_port [OF assms] same by (auto simp: netif_issue_reports_def Let_def)
qed

text \<open>What a change of the address means for the control blocks bound to the old one.\<close>

definition rebound :: "u32 \<Rightarrow> u32 \<Rightarrow> stack \<Rightarrow> u32 \<Rightarrow> udp_pcb" where
  "rebound old_ip ip st j = (if old_ip \<noteq> 0 \<and> ip \<noteq> 0 \<and> j \<in> set (udp_pcbs st) \<and> local_ip (pcbs st j) = old_ip
     then (pcbs st j)\<lparr>local_ip := ip\<rparr> else pcbs st j)"

lemma rebound_same [simp]: "rebound ip ip st = pcbs st"
  by (auto simp: rebound_def fun_eq_iff)

lemma udp_netif_ip_addr_changed_rebound:
  "udp_netif_ip_addr_changed old_ip (Some ip) st = st\<lparr>pcbs := rebound old_ip ip st\<rparr>"
  by (auto simp: udp_netif_ip_addr_changed_def rebound_def addr_or_any_def fun_eq_iff intro!: stack.equality)

lemma netif_do_set_ipaddr_result:
  assumes "heap_ok heap" "length (hwaddr (netifs st i)) = 6"
  shows "\<exists>b s. netif_do_set_ipaddr heap i ip st =
    Some (b, (set_netif i (\<lambda>n. n\<lparr>ip_addr := ip\<rparr>) st)\<lparr>pcbs := rebound (ip_addr (netifs st i)) ip st, sport := s\<rparr>)"
proof (cases "ip = ip_addr (netifs st i)")
  case True
  then show ?thesis
    by (intro exI [of _ False] exI [of _ "sport st"]) (simp add: netif_do_set_ipaddr_def set_netif_def)
next
  case False
  let ?st = "set_netif i (\<lambda>n. n\<lparr>ip_addr := ip\<rparr>) (st\<lparr>pcbs := rebound (ip_addr (netifs st i)) ip st\<rparr>)"
  obtain s where "netif_issue_reports heap i NETIF_REPORT_TYPE_IPV4 ?st = Some (?st\<lparr>sport := s\<rparr>)"
    using netif_issue_reports_port [OF assms(1), of ?st i] assms(2) by auto
  then show ?thesis
    using False
    by (intro exI [of _ True] exI [of _ s])
       (simp add: netif_do_set_ipaddr_def netif_do_ip_addr_changed_def udp_netif_ip_addr_changed_rebound set_netif_def)
qed

lemma netif_do_set_mask_gw:
  "snd (netif_do_set_gw i g (snd (netif_do_set_netmask i m st))) = set_netif i (\<lambda>n. n\<lparr>netmask := m, gw := g\<rparr>) st"
  by (auto simp: netif_do_set_gw_def netif_do_set_netmask_def set_netif_def intro!: stack.equality)

text \<open>
  \<open>netif_set_addr\<close> always returns and gives the interface the three addresses; no other
  interface changes. UDP control blocks in the list that were bound to the old address follow to the
  new one, unless one of the two is 0, and all other control blocks, routes and the ARP table
  stay as they are.
\<close>

theorem netif_set_addr_correct:
  assumes "heap_ok heap" "length (hwaddr (netifs st i)) = 6"
  shows "\<exists>s. netif_set_addr heap i (Some ip) (Some m) (Some g) st
    = Some ((set_netif i (\<lambda>n. n\<lparr>ip_addr := ip, netmask := m, gw := g\<rparr>) st)
        \<lparr>pcbs := rebound (ip_addr (netifs st i)) ip st, sport := s\<rparr>)"
proof (cases "ip = 0")
  case True
  obtain b s where "netif_do_set_ipaddr heap i 0 st =
      Some (b, (set_netif i (\<lambda>n. n\<lparr>ip_addr := 0\<rparr>) st)\<lparr>pcbs := rebound (ip_addr (netifs st i)) 0 st, sport := s\<rparr>)"
    using netif_do_set_ipaddr_result [OF assms] by blast
  then show ?thesis
    using True
    by (intro exI [of _ s]) (simp add: netif_set_addr_def addr_or_any_def netif_do_set_mask_gw set_netif_def)
next
  case False
  let ?st = "set_netif i (\<lambda>n. n\<lparr>netmask := m, gw := g\<rparr>) st"
  obtain b s where "netif_do_set_ipaddr heap i ip ?st =
      Some (b, (set_netif i (\<lambda>n. n\<lparr>ip_addr := ip\<rparr>) ?st)\<lparr>pcbs := rebound (ip_addr (netifs ?st i)) ip ?st, sport := s\<rparr>)"
    using netif_do_set_ipaddr_result [OF assms(1), of ?st i ip] assms(2) by auto
  then show ?thesis
    using False
    by (intro exI [of _ s])
       (simp add: netif_set_addr_def addr_or_any_def netif_do_set_mask_gw, simp add: set_netif_def rebound_def fun_eq_iff Let_def)
qed

text \<open>Without \<open>NETIF_FLAG_UP\<close> and \<open>NETIF_FLAG_LINK_UP\<close> nothing is reported.\<close>

lemma netif_issue_reports_down:
  "netif_flags (netifs st i) AND NETIF_FLAG_LINK_UP = 0 \<Longrightarrow> netif_issue_reports heap i r st = Some st"
  by (simp add: netif_issue_reports_def Let_def)

lemma netif_set_addr_quiet:
  assumes "netif_flags (netifs st i) = 0" "ip_addr (netifs st i) = 0" "ip \<noteq> 0"
  shows "netif_set_addr heap i (Some ip) (Some m) (Some g) st
    = Some (set_netif i (\<lambda>n. n\<lparr>ip_addr := ip, netmask := m, gw := g\<rparr>) st)"
  using assms
  by (simp add: netif_set_addr_def addr_or_any_def Let_def netif_do_set_mask_gw netif_do_set_ipaddr_def
      netif_issue_reports_down netif_do_ip_addr_changed_def udp_netif_ip_addr_changed_def)
     (rule arg_cong [where f = "\<lambda>f. set_netif i f st"], rule ext, simp)

text \<open>The report of an interface that is up: one ARP request for the own address.\<close>

lemma netif_issue_reports_sent:
  assumes "netif_flags (netifs st i) = 0x0F" "ip_addr (netifs st i) \<noteq> 0" "length (hwaddr (netifs st i)) = 6"
    and "heap_ok heap" "tx_holds (dev (sport st)) fs" "length (tx_enc fs) + 13 < tx_words (dev (sport st))"
  defines "n \<equiv> netifs st i"
  shows "\<exists>s gs. netif_issue_reports heap i (NETIF_REPORT_TYPE_IPV4 OR NETIF_REPORT_TYPE_IPV6) st = Some (st\<lparr>sport := s\<rparr>)
    \<and> tx_holds (dev s) (fs @ gs) \<and> tx_words (dev s) = tx_words (dev (sport st)) \<and> rx_same (dev (sport st)) (dev s)
    \<and> map tx_bytes gs = (if pbuf_alloc_RAM heap PBUF_LINK 28 = None then []
        else [ethbroadcast @ hwaddr n @ [0x08, 0x06] @ etharp_hdr ARP_REQUEST (hwaddr n) (ip_addr n) ethzero (ip_addr n)])"
proof -
  have code: "netif_issue_reports heap i (NETIF_REPORT_TYPE_IPV4 OR NETIF_REPORT_TYPE_IPV6) st
      = map_option snd (etharp_raw heap (hwaddr n) ethbroadcast (hwaddr n) (ip_addr n) ethzero (ip_addr n) ARP_REQUEST st)"
    using assms(1,2)
    by (simp add: netif_issue_reports_def Let_def reg_defs etharp_gratuitous_def etharp_request_def
        etharp_request_dst_def n_def)
  show ?thesis
  proof (cases "pbuf_alloc_RAM heap PBUF_LINK 28")
    case None
    then have "netif_issue_reports heap i (NETIF_REPORT_TYPE_IPV4 OR NETIF_REPORT_TYPE_IPV6) st
        = Some (st\<lparr>sport := sport st\<rparr>)"
      unfolding code by (simp add: etharp_raw_def)
    then show ?thesis
      using None assms(5) by (intro exI [of _ "sport st"] exI [of _ "[]"]) (simp add: rx_same_def)
  next
    case (Some p)
    have "fresh PBUF_LINK 28 p"
      using pbuf_alloc_RAM_eq [OF assms(4), of 28 PBUF_LINK] Some by simp
    then obtain s f where "etharp_raw heap (hwaddr n) ethbroadcast (hwaddr n) (ip_addr n) ethzero (ip_addr n) ARP_REQUEST st
        = Some (ERR_OK, st\<lparr>sport := s\<rparr>)" "tx_holds (dev s) (fs @ [f])" "tx_words (dev s) = tx_words (dev (sport st))"
      "rx_same (dev (sport st)) (dev s)" "tx_bytes f = ethbroadcast @ hwaddr n @ [0x08, 0x06]
         @ etharp_hdr ARP_REQUEST (hwaddr n) (ip_addr n) ethzero (ip_addr n)"
      using etharp_raw_sent [OF Some _ _ _ _ _ assms(5,6), of "hwaddr n" ethbroadcast "hwaddr n" ethzero "ip_addr n"
          "ip_addr n" ARP_REQUEST] assms(3)
      by (auto simp: n_def ethbroadcast_def ethzero_def)
    then show ?thesis
      unfolding code using Some by (intro exI [of _ s] exI [of _ "[f]"]) simp
  qed
qed

end
