(* ===== verification/RstClk.thy ===== *)
theory RstClk
  imports Prelude
begin

text \<open>
  Reset and clock control: \<open>MDR32F9Qx_rst_clk.c\<close> as compiled for the 1986VE1T, and
  \<open>SystemInit\<close> and \<open>SystemCoreClockUpdate\<close> of \<open>system_MDR1986VE1T.c\<close>. The state is the register
  block \<open>MDR_RST_CLK\<close>, the backup register \<open>REG_0F\<close> and the variable \<open>SystemCoreClock\<close>. The
  status registers change by themselves: the polling routines read them from a stream that
  gives the values of \<open>CLOCK_STATUS\<close> and \<open>REG_0F\<close> at the successive reads, and return the
  position behind the last read.
\<close>

section \<open>Registers\<close>

record MDR_RST_CLK_TypeDef =
  CLOCK_STATUS :: u32
  PLL_CONTROL :: u32
  HS_CONTROL :: u32
  CPU_CLOCK :: u32
  USB_CLOCK :: u32
  ADC_MCO_CLOCK :: u32
  RTC_CLOCK :: u32
  PER_CLOCK :: u32
  CAN_CLOCK :: u32
  TIM_CLOCK :: u32
  UART_CLOCK :: u32
  SSP_CLOCK :: u32
  ETH_CLOCK :: u32

record clk = MDR_RST_CLK_TypeDef +
  REG_0F :: u32
  SystemCoreClock :: u32

type_synonym clk_reads = "nat \<Rightarrow> u32 \<times> u32"

definition HSI_Value :: u32 where [reg_defs]: "HSI_Value = 8000000"
definition HSE_Value :: u32 where [reg_defs]: "HSE_Value = 25000000"
definition LSI_Value :: u32 where [reg_defs]: "LSI_Value = 40000"
definition LSE_Value :: u32 where [reg_defs]: "LSE_Value = 32768"

definition HSEonTimeOut :: nat where "HSEonTimeOut = 0x600"
definition HSE2onTimeOut :: nat where "HSE2onTimeOut = 0x8000"
definition LSEonTimeOut :: nat where "LSEonTimeOut = 0x600"
definition HSIonTimeOut :: nat where "HSIonTimeOut = 0x600"
definition LSIonTimeOut :: nat where "LSIonTimeOut = 0x600"
definition PLLCPUonTimeOut :: nat where "PLLCPUonTimeOut = 0x600"
definition PLLUSBonTimeOut :: nat where "PLLUSBonTimeOut = 0x600"

definition RST_CLK_FLAG_HSIRDY :: u32 where [reg_defs]: "RST_CLK_FLAG_HSIRDY = 23"
definition RST_CLK_FLAG_LSIRDY :: u32 where [reg_defs]: "RST_CLK_FLAG_LSIRDY = 21"
definition RST_CLK_FLAG_LSERDY :: u32 where [reg_defs]: "RST_CLK_FLAG_LSERDY = 13"
definition RST_CLK_FLAG_HSERDY :: u32 where [reg_defs]: "RST_CLK_FLAG_HSERDY = 0x22"
definition RST_CLK_FLAG_HSE2RDY :: u32 where [reg_defs]: "RST_CLK_FLAG_HSE2RDY = 0x23"
definition RST_CLK_FLAG_PLLCPURDY :: u32 where [reg_defs]: "RST_CLK_FLAG_PLLCPURDY = 0x21"
definition RST_CLK_FLAG_PLLUSBRDY :: u32 where [reg_defs]: "RST_CLK_FLAG_PLLUSBRDY = 0x20"

definition RST_CLK_HSE_ON :: u32 where [reg_defs]: "RST_CLK_HSE_ON = 1"
definition RST_CLK_HSE_Bypass :: u32 where [reg_defs]: "RST_CLK_HSE_Bypass = 2"
definition RST_CLK_HSE2_ON :: u32 where [reg_defs]: "RST_CLK_HSE2_ON = 4"
definition RST_CLK_HSE2_Bypass :: u32 where [reg_defs]: "RST_CLK_HSE2_Bypass = 8"
definition RST_CLK_LSE_ON :: u32 where [reg_defs]: "RST_CLK_LSE_ON = 1"
definition RST_CLK_LSE_Bypass :: u32 where [reg_defs]: "RST_CLK_LSE_Bypass = 2"
definition RST_CLK_CPU_PLLsrcHSEdiv1 :: u32 where [reg_defs]: "RST_CLK_CPU_PLLsrcHSEdiv1 = 2"
definition RST_CLK_CPUclkDIV1 :: u32 where [reg_defs]: "RST_CLK_CPUclkDIV1 = 0"
definition RST_CLK_CPUclkHSI :: u32 where [reg_defs]: "RST_CLK_CPUclkHSI = 0"
definition RST_CLK_CPUclkCPU_C3 :: u32 where [reg_defs]: "RST_CLK_CPUclkCPU_C3 = 0x100"
definition BKP_REG_0F_HSI_ON :: u32 where [reg_defs]: "BKP_REG_0F_HSI_ON = 0x400000"
definition BKP_REG_0F_LSI_ON :: u32 where [reg_defs]: "BKP_REG_0F_LSI_ON = 0x8000"
definition PLL_CPU_ON :: u32 where [reg_defs]: "PLL_CPU_ON = 4"
definition PLL_CPU_PLD :: u32 where [reg_defs]: "PLL_CPU_PLD = 8"
definition PLL_USB_ON :: u32 where [reg_defs]: "PLL_USB_ON = 1"
definition PLL_USB_RLD :: u32 where [reg_defs]: "PLL_USB_RLD = 2"

text \<open>\<open>PCLK_BIT(BASE) = 1 << ((BASE >> 15) & 0x1F)\<close>.\<close>

definition PCLK_BIT :: "u32 \<Rightarrow> u32" where
  "PCLK_BIT base = push_bit (unat (drop_bit 15 base AND 0x1F)) 1"

definition RST_CLK_PCLK_EEPROM :: u32 where "RST_CLK_PCLK_EEPROM = PCLK_BIT 0x40018000"
definition RST_CLK_PCLK_RST_CLK :: u32 where "RST_CLK_PCLK_RST_CLK = PCLK_BIT 0x40020000"
definition RST_CLK_PCLK_DMA :: u32 where "RST_CLK_PCLK_DMA = PCLK_BIT 0x40028000"
definition RST_CLK_PCLK_UART1 :: u32 where "RST_CLK_PCLK_UART1 = PCLK_BIT 0x40030000"
definition RST_CLK_PCLK_IWDG :: u32 where "RST_CLK_PCLK_IWDG = PCLK_BIT 0x40068000"
definition RST_CLK_PCLK_TIMER1 :: u32 where "RST_CLK_PCLK_TIMER1 = PCLK_BIT 0x40070000"
definition RST_CLK_PCLK_TIMER2 :: u32 where "RST_CLK_PCLK_TIMER2 = PCLK_BIT 0x40078000"
definition RST_CLK_PCLK_PORTC :: u32 where "RST_CLK_PCLK_PORTC = PCLK_BIT 0x400B8000"
definition RST_CLK_PCLK_PORTD :: u32 where "RST_CLK_PCLK_PORTD = PCLK_BIT 0x400C0000"
definition RST_CLK_PCLK_BKP :: u32 where "RST_CLK_PCLK_BKP = PCLK_BIT 0x400D8000"

lemmas pclk_defs = PCLK_BIT_def RST_CLK_PCLK_EEPROM_def RST_CLK_PCLK_RST_CLK_def RST_CLK_PCLK_DMA_def
  RST_CLK_PCLK_UART1_def RST_CLK_PCLK_IWDG_def RST_CLK_PCLK_TIMER1_def RST_CLK_PCLK_TIMER2_def
  RST_CLK_PCLK_PORTC_def RST_CLK_PCLK_PORTD_def RST_CLK_PCLK_BKP_def

section \<open>Flags and polling\<close>

definition RST_CLK_GetFlagStatus :: "u32 \<Rightarrow> u32 \<times> u32 \<Rightarrow> FlagStatus" where
  "RST_CLK_GetFlagStatus flag regs =
     (let statusreg = (if 0xE0 AND flag = 0x20 then fst regs else snd regs)
      in if statusreg AND push_bit (unat (flag AND 0x1F)) 1 \<noteq> 0 then SET else RESET)"

text \<open>
  \<open>do { flag = RST_CLK_GetFlagStatus (f); startCounter++; }
  while (startCounter < timeout && flag == RESET)\<close>: the position behind the loop.
\<close>

function poll_flag :: "u32 \<Rightarrow> nat \<Rightarrow> clk_reads \<Rightarrow> nat \<Rightarrow> nat \<Rightarrow> nat" where
  "poll_flag f timeout rd t startCounter =
     (let flag = RST_CLK_GetFlagStatus f (rd t)
      in if startCounter + 1 < timeout \<and> flag = RESET
         then poll_flag f timeout rd (t + 1) (startCounter + 1) else t + 1)"
  by pat_completeness auto
termination
  by (relation "measure (\<lambda>(f, timeout, rd, t, c). timeout - c)") auto

declare poll_flag.simps [simp del]

text \<open>The body that the seven status routines share; they differ in the flag and the time-out.\<close>

definition poll_status :: "u32 \<Rightarrow> nat \<Rightarrow> clk_reads \<Rightarrow> nat \<Rightarrow> ErrorStatus \<times> nat" where
  "poll_status f timeout rd t =
     (let t1 = poll_flag f timeout rd t 0
      in (if RST_CLK_GetFlagStatus f (rd t1) \<noteq> RESET then SUCCESS else ERROR, t1 + 1))"

definition RST_CLK_HSEstatus :: "clk_reads \<Rightarrow> nat \<Rightarrow> ErrorStatus \<times> nat" where
  "RST_CLK_HSEstatus = poll_status RST_CLK_FLAG_HSERDY HSEonTimeOut"

definition RST_CLK_HSE2status :: "clk_reads \<Rightarrow> nat \<Rightarrow> ErrorStatus \<times> nat" where
  "RST_CLK_HSE2status = poll_status RST_CLK_FLAG_HSE2RDY HSE2onTimeOut"

definition RST_CLK_LSEstatus :: "clk_reads \<Rightarrow> nat \<Rightarrow> ErrorStatus \<times> nat" where
  "RST_CLK_LSEstatus = poll_status RST_CLK_FLAG_LSERDY LSEonTimeOut"

definition RST_CLK_HSIstatus :: "clk_reads \<Rightarrow> nat \<Rightarrow> ErrorStatus \<times> nat" where
  "RST_CLK_HSIstatus = poll_status RST_CLK_FLAG_HSIRDY HSIonTimeOut"

definition RST_CLK_LSIstatus :: "clk_reads \<Rightarrow> nat \<Rightarrow> ErrorStatus \<times> nat" where
  "RST_CLK_LSIstatus = poll_status RST_CLK_FLAG_LSIRDY LSIonTimeOut"

definition RST_CLK_CPU_PLLstatus :: "clk_reads \<Rightarrow> nat \<Rightarrow> ErrorStatus \<times> nat" where
  "RST_CLK_CPU_PLLstatus = poll_status RST_CLK_FLAG_PLLCPURDY PLLCPUonTimeOut"

definition RST_CLK_USB_PLLstatus :: "clk_reads \<Rightarrow> nat \<Rightarrow> ErrorStatus \<times> nat" where
  "RST_CLK_USB_PLLstatus = poll_status RST_CLK_FLAG_PLLUSBRDY PLLUSBonTimeOut"

section \<open>Generators\<close>

definition RST_CLK_HSEconfig :: "u32 \<Rightarrow> clk \<Rightarrow> clk" where
  "RST_CLK_HSEconfig hse c =
     (let r = HS_CONTROL c AND NOT (RST_CLK_HSE_ON OR RST_CLK_HSE_Bypass)
      in c\<lparr>HS_CONTROL :=
           (if hse = RST_CLK_HSE_ON then r OR RST_CLK_HSE_ON
            else if hse = RST_CLK_HSE_Bypass then r OR (RST_CLK_HSE_ON OR RST_CLK_HSE_Bypass)
            else r)\<rparr>)"

definition RST_CLK_HSE2config :: "u32 \<Rightarrow> clk \<Rightarrow> clk" where
  "RST_CLK_HSE2config hse c =
     (let r = HS_CONTROL c AND NOT (RST_CLK_HSE2_ON OR RST_CLK_HSE2_Bypass)
      in c\<lparr>HS_CONTROL :=
           (if hse = RST_CLK_HSE2_ON then r OR RST_CLK_HSE2_ON
            else if hse = RST_CLK_HSE2_Bypass then r OR (RST_CLK_HSE2_ON OR RST_CLK_HSE2_Bypass)
            else r)\<rparr>)"

definition RST_CLK_LSEconfig :: "u32 \<Rightarrow> clk \<Rightarrow> clk" where
  "RST_CLK_LSEconfig lse c =
     (let r = REG_0F c AND NOT (RST_CLK_LSE_ON OR RST_CLK_LSE_Bypass)
      in c\<lparr>REG_0F :=
           (if lse = RST_CLK_LSE_ON then r OR RST_CLK_LSE_ON
            else if lse = RST_CLK_LSE_Bypass then r OR (RST_CLK_LSE_ON OR RST_CLK_LSE_Bypass)
            else r)\<rparr>)"

definition RST_CLK_HSIcmd :: "FunctionalState \<Rightarrow> clk \<Rightarrow> clk" where
  "RST_CLK_HSIcmd st c = c\<lparr>REG_0F := switch_bits st BKP_REG_0F_HSI_ON (REG_0F c)\<rparr>"

definition RST_CLK_LSIcmd :: "FunctionalState \<Rightarrow> clk \<Rightarrow> clk" where
  "RST_CLK_LSIcmd st c = c\<lparr>REG_0F := switch_bits st BKP_REG_0F_LSI_ON (REG_0F c)\<rparr>"

definition RST_CLK_HSIadjust :: "u32 \<Rightarrow> clk \<Rightarrow> clk" where
  "RST_CLK_HSIadjust trim c = c\<lparr>REG_0F := set_field (NOT 0x3F000000) (push_bit 24 trim) (REG_0F c)\<rparr>"

definition RST_CLK_LSIadjust :: "u32 \<Rightarrow> clk \<Rightarrow> clk" where
  "RST_CLK_LSIadjust trim c = c\<lparr>REG_0F := set_field (NOT 0x1F0000) (push_bit 16 trim) (REG_0F c)\<rparr>"

section \<open>The CPU clock\<close>

definition RST_CLK_CPU_PLLconfig :: "u32 \<Rightarrow> u32 \<Rightarrow> clk \<Rightarrow> clk" where
  "RST_CLK_CPU_PLLconfig src mul c =
     (let c1 = c\<lparr>CPU_CLOCK := set_field (NOT 3) src (CPU_CLOCK c)\<rparr>;
          c2 = c1\<lparr>PLL_CONTROL := set_field (NOT 0xF00) (push_bit 8 mul) (PLL_CONTROL c1)\<rparr>
      in if PLL_CONTROL c2 AND PLL_CPU_ON = PLL_CPU_ON
         then c2\<lparr>PLL_CONTROL := (PLL_CONTROL c2 OR PLL_CPU_PLD) AND NOT PLL_CPU_PLD\<rparr>
         else c2)"

definition RST_CLK_CPU_PLLuse :: "FunctionalState \<Rightarrow> clk \<Rightarrow> clk" where
  "RST_CLK_CPU_PLLuse st c = c\<lparr>CPU_CLOCK := switch_bits st (push_bit 2 1) (CPU_CLOCK c)\<rparr>"

definition RST_CLK_CPU_PLLcmd :: "FunctionalState \<Rightarrow> clk \<Rightarrow> clk" where
  "RST_CLK_CPU_PLLcmd st c = c\<lparr>PLL_CONTROL := switch_bits st PLL_CPU_ON (PLL_CONTROL c)\<rparr>"

definition RST_CLK_CPUclkPrescaler :: "u32 \<Rightarrow> clk \<Rightarrow> clk" where
  "RST_CLK_CPUclkPrescaler d c = c\<lparr>CPU_CLOCK := set_field (NOT 0xF0) (push_bit 4 d) (CPU_CLOCK c)\<rparr>"

definition RST_CLK_CPUclkSelection :: "u32 \<Rightarrow> clk \<Rightarrow> clk" where
  "RST_CLK_CPUclkSelection s c = c\<lparr>CPU_CLOCK := set_field (NOT 0x300) s (CPU_CLOCK c)\<rparr>"

section \<open>The USB, ADC and RTC clocks\<close>

definition RST_CLK_USB_PLLconfig :: "u32 \<Rightarrow> u32 \<Rightarrow> clk \<Rightarrow> clk" where
  "RST_CLK_USB_PLLconfig src mul c =
     (let c1 = c\<lparr>USB_CLOCK := set_field (NOT 3) src (USB_CLOCK c)\<rparr>;
          c2 = c1\<lparr>PLL_CONTROL := set_field (NOT 0xF0) (push_bit 4 mul) (PLL_CONTROL c1)\<rparr>
      in if PLL_CONTROL c2 AND PLL_USB_ON \<noteq> 0
         then c2\<lparr>PLL_CONTROL := (PLL_CONTROL c2 OR PLL_USB_RLD) AND NOT PLL_USB_RLD\<rparr>
         else c2)"

definition RST_CLK_USB_PLLuse :: "FunctionalState \<Rightarrow> clk \<Rightarrow> clk" where
  "RST_CLK_USB_PLLuse st c = c\<lparr>USB_CLOCK := switch_bits st (push_bit 2 1) (USB_CLOCK c)\<rparr>"

definition RST_CLK_USB_PLLcmd :: "FunctionalState \<Rightarrow> clk \<Rightarrow> clk" where
  "RST_CLK_USB_PLLcmd st c = c\<lparr>PLL_CONTROL := switch_bits st PLL_USB_ON (PLL_CONTROL c)\<rparr>"

definition RST_CLK_USBclkPrescaler :: "FunctionalState \<Rightarrow> clk \<Rightarrow> clk" where
  "RST_CLK_USBclkPrescaler st c = c\<lparr>USB_CLOCK := switch_bits st (push_bit 4 1) (USB_CLOCK c)\<rparr>"

definition RST_CLK_USBclkEnable :: "FunctionalState \<Rightarrow> clk \<Rightarrow> clk" where
  "RST_CLK_USBclkEnable st c = c\<lparr>USB_CLOCK := switch_bits st (push_bit 8 1) (USB_CLOCK c)\<rparr>"

definition RST_CLK_ADCclkSelection :: "u32 \<Rightarrow> clk \<Rightarrow> clk" where
  "RST_CLK_ADCclkSelection s c = c\<lparr>ADC_MCO_CLOCK := set_field (NOT 0x33) s (ADC_MCO_CLOCK c)\<rparr>"

definition RST_CLK_ADCclkPrescaler :: "u32 \<Rightarrow> clk \<Rightarrow> clk" where
  "RST_CLK_ADCclkPrescaler d c =
     c\<lparr>ADC_MCO_CLOCK := set_field (NOT 0xF00) (push_bit 8 d) (ADC_MCO_CLOCK c)\<rparr>"

definition RST_CLK_ADCclkEnable :: "FunctionalState \<Rightarrow> clk \<Rightarrow> clk" where
  "RST_CLK_ADCclkEnable st c = c\<lparr>ADC_MCO_CLOCK := switch_bits st 0x2000 (ADC_MCO_CLOCK c)\<rparr>"

definition RST_CLK_HSIclkPrescaler :: "u32 \<Rightarrow> clk \<Rightarrow> clk" where
  "RST_CLK_HSIclkPrescaler d c = c\<lparr>RTC_CLOCK := set_field (NOT 0xF0) (push_bit 4 d) (RTC_CLOCK c)\<rparr>"

definition RST_CLK_RTC_HSIclkEnable :: "FunctionalState \<Rightarrow> clk \<Rightarrow> clk" where
  "RST_CLK_RTC_HSIclkEnable st c = c\<lparr>RTC_CLOCK := switch_bits st 0x200 (RTC_CLOCK c)\<rparr>"

definition RST_CLK_HSEclkPrescaler :: "u32 \<Rightarrow> clk \<Rightarrow> clk" where
  "RST_CLK_HSEclkPrescaler d c = c\<lparr>RTC_CLOCK := set_field (NOT 0xF) d (RTC_CLOCK c)\<rparr>"

definition RST_CLK_RTC_HSEclkEnable :: "FunctionalState \<Rightarrow> clk \<Rightarrow> clk" where
  "RST_CLK_RTC_HSEclkEnable st c = c\<lparr>RTC_CLOCK := switch_bits st 0x100 (RTC_CLOCK c)\<rparr>"

definition RST_CLK_PCLKcmd :: "u32 \<Rightarrow> FunctionalState \<Rightarrow> clk \<Rightarrow> clk" where
  "RST_CLK_PCLKcmd p st c = c\<lparr>PER_CLOCK := switch_bits st p (PER_CLOCK c)\<rparr>"

section \<open>Reset to the default state\<close>

definition RST_CLK_WarmDeInit :: "clk_reads \<Rightarrow> nat \<Rightarrow> clk \<Rightarrow> clk \<times> nat" where
  "RST_CLK_WarmDeInit rd t c =
     (let c1 = RST_CLK_HSIcmd ENABLE c;
          (st, t1) = RST_CLK_HSIstatus rd t;
          c2 = RST_CLK_CPUclkSelection RST_CLK_CPUclkHSI c1
      in (c2\<lparr>CPU_CLOCK := CPU_CLOCK c2 AND 0, PLL_CONTROL := PLL_CONTROL c2 AND 0,
             HS_CONTROL := HS_CONTROL c2 AND 0, USB_CLOCK := USB_CLOCK c2 AND 0,
             ADC_MCO_CLOCK := ADC_MCO_CLOCK c2 AND 0, RTC_CLOCK := RTC_CLOCK c2 AND 0,
             PER_CLOCK := RST_CLK_PCLK_RST_CLK OR RST_CLK_PCLK_BKP\<rparr>, t1))"

definition RST_CLK_DeInit :: "clk_reads \<Rightarrow> nat \<Rightarrow> clk \<Rightarrow> clk \<times> nat" where
  "RST_CLK_DeInit rd t c =
     (let (c1, t1) = RST_CLK_WarmDeInit rd t c;
          c2 = RST_CLK_PCLKcmd RST_CLK_PCLK_BKP ENABLE c1;
          m = push_bit 22 1 OR push_bit 15 1
      in (c2\<lparr>REG_0F := (REG_0F c2 OR m) AND m\<rparr>, t1))"

section \<open>Frequencies\<close>

record RST_CLK_FreqTypeDef =
  CPU_CLK_Frequency :: u32
  USB_CLK_Frequency :: u32
  ADC_CLK_Frequency :: u32
  RTCHSI_Frequency :: u32
  RTCHSE_Frequency :: u32

text \<open>A four-bit divider field: off below 8, else a power of two.\<close>

definition div_sel :: "u32 \<Rightarrow> u32 \<Rightarrow> u32" where
  [c_defs]: "div_sel freq temp =
     (if temp AND 8 = 0 then freq else freq div push_bit (unat ((temp AND 7) + 1)) 1)"

definition c1_freq :: "u32 \<Rightarrow> u32" where
  [c_defs]: "c1_freq r =
     (let f = (if r AND 2 \<noteq> 0 then HSE_Value else HSI_Value) in if r AND 1 \<noteq> 0 then f div 2 else f)"

definition c2_freq :: "u32 \<Rightarrow> u32 \<Rightarrow> u32" where
  [c_defs]: "c2_freq r mul = (if r AND push_bit 2 1 \<noteq> 0 then c1_freq r * ((mul AND 0xF) + 1) else c1_freq r)"

definition cpu_freq :: "clk \<Rightarrow> u32" where
  [c_defs]: "cpu_freq c =
     (let c2 = c2_freq (CPU_CLOCK c) (drop_bit 8 (PLL_CONTROL c));
          sel = drop_bit 8 (CPU_CLOCK c) AND 3
      in if sel = 0 then HSI_Value
         else if sel = 1 then div_sel c2 (drop_bit 4 (CPU_CLOCK c))
         else if sel = 2 then LSE_Value
         else LSI_Value)"

definition adc_freq :: "clk \<Rightarrow> u32 \<Rightarrow> u32" where
  [c_defs]: "adc_freq c hsi_c1 =
     (let r = ADC_MCO_CLOCK c; s1 = r AND 3; s2 = drop_bit 4 r AND 3;
          adc_c1 = (if s1 = 0 then c1_freq (CPU_CLOCK c)
                    else if s1 = 1 then c1_freq (USB_CLOCK c)
                    else if s1 = 2 then c2_freq (CPU_CLOCK c) (drop_bit 8 (PLL_CONTROL c))
                    else c2_freq (USB_CLOCK c) (drop_bit 4 (PLL_CONTROL c)));
          adc_c2 = (if s2 = 0 then LSE_Value else if s2 = 1 then LSI_Value
                    else if s2 = 2 then adc_c1 else hsi_c1)
      in div_sel adc_c2 (drop_bit 8 r))"

definition RST_CLK_GetClocksFreq :: "clk \<Rightarrow> RST_CLK_FreqTypeDef" where
  "RST_CLK_GetClocksFreq c =
     (let usb_c2 = c2_freq (USB_CLOCK c) (drop_bit 4 (PLL_CONTROL c));
          hsi_c1 = div_sel HSI_Value (drop_bit 4 (RTC_CLOCK c))
      in \<lparr>CPU_CLK_Frequency = cpu_freq c,
          USB_CLK_Frequency = (if USB_CLOCK c AND push_bit 4 1 \<noteq> 0 then usb_c2 div 2 else usb_c2),
          ADC_CLK_Frequency = adc_freq c hsi_c1,
          RTCHSI_Frequency = hsi_c1,
          RTCHSE_Frequency = div_sel HSE_Value (RTC_CLOCK c)\<rparr>)"

section \<open>The system file\<close>

definition SystemCoreClockUpdate :: "clk \<Rightarrow> clk" where
  "SystemCoreClockUpdate c =
     (let r = CPU_CLOCK c;
          f1 = (if r AND 2 = 2 then HSE_Value else HSI_Value);
          c1 = (if r AND 1 = 1 then f1 div 2 else f1);
          c2 = (if r AND 4 = 4 then c1 * ((drop_bit 8 (PLL_CONTROL c) AND 0xF) + 1) else c1);
          sel = drop_bit 8 r AND 3
      in c\<lparr>SystemCoreClock :=
           (if sel = 0 then HSI_Value
            else if sel = 1 then c2 div ((drop_bit 4 r AND 0xF) + 1)
            else if sel = 2 then LSE_Value
            else LSI_Value)\<rparr>)"

definition SystemInit :: "clk \<Rightarrow> clk" where
  "SystemInit c =
     SystemCoreClockUpdate
       (c\<lparr>PER_CLOCK := 0x8000010, CPU_CLOCK := CPU_CLOCK c AND 0, PLL_CONTROL := PLL_CONTROL c AND 0,
          HS_CONTROL := HS_CONTROL c AND 0, USB_CLOCK := USB_CLOCK c AND 0,
          ADC_MCO_CLOCK := ADC_MCO_CLOCK c AND 0\<rparr>)"

section \<open>Polling\<close>

text \<open>\<open>ready_from f rd t k\<close>: from read \<open>t\<close> on, the flag is clear at the first \<open>k\<close> reads and set at
  all later ones.\<close>

definition ready_from :: "u32 \<Rightarrow> clk_reads \<Rightarrow> nat \<Rightarrow> nat \<Rightarrow> bool" where
  "ready_from f rd t k \<longleftrightarrow> (\<forall>i. RST_CLK_GetFlagStatus f (rd (t + i)) = (if i < k then RESET else SET))"

lemma ready_from_shift: "ready_from f rd t k \<Longrightarrow> ready_from f rd (t + j) (k - j)"
  by (auto simp: ready_from_def add.assoc)

lemma poll_flag_ready:
  "ready_from f rd t k \<Longrightarrow> c < timeout \<Longrightarrow> poll_flag f timeout rd t c = t + min (Suc k) (timeout - c)"
proof (induction f timeout rd t c arbitrary: k rule: poll_flag.induct)
  case (1 f timeout rd t c)
  have fl: "RST_CLK_GetFlagStatus f (rd t) = (if k = 0 then SET else RESET)"
    using "1.prems"(1) unfolding ready_from_def by (auto dest: spec [of _ 0])
  show ?case
  proof (cases "c + 1 < timeout \<and> k \<noteq> 0")
    case True
    then have "poll_flag f timeout rd (t + 1) (c + 1) = t + 1 + min (Suc (k - 1)) (timeout - (c + 1))"
      using "1.IH" fl ready_from_shift [OF "1.prems"(1), of 1] by simp
    then show ?thesis using True fl by (subst poll_flag.simps) (auto simp: Let_def)
  next
    case False
    then show ?thesis using fl "1.prems"(2) by (subst poll_flag.simps) (auto simp: Let_def)
  qed
qed

lemma poll_status_ready:
  assumes "ready_from f rd t k" "0 < timeout"
  shows "poll_status f timeout rd t
    = (if k \<le> timeout then SUCCESS else ERROR, t + min (Suc k) timeout + 1)"
  using assms(1) unfolding poll_status_def poll_flag_ready [OF assms] ready_from_def
  by (auto simp: Let_def)

lemma poll_flag_bounds: "t < poll_flag f timeout rd t c \<and> poll_flag f timeout rd t c \<le> t + max 1 (timeout - c)"
proof (induction f timeout rd t c rule: poll_flag.induct)
  case (1 f timeout rd t c)
  then show ?case by (subst (1 2) poll_flag.simps) (auto simp: Let_def)
qed

text \<open>
  The status routines always return, after at least two and at most \<open>timeout + 1\<close> reads
  of the status register; they return \<open>SUCCESS\<close> exactly when the generator or PLL, once
  ready staying ready, is ready within \<open>timeout\<close> reads.
\<close>

theorem poll_status_correct:
  assumes "0 < timeout"
  shows "t + 2 \<le> snd (poll_status f timeout rd t)
    \<and> snd (poll_status f timeout rd t) \<le> t + timeout + 1
    \<and> (ready_from f rd t k \<longrightarrow> (fst (poll_status f timeout rd t) = SUCCESS \<longleftrightarrow> k \<le> timeout))"
  using poll_flag_bounds [of t f timeout rd 0] poll_status_ready [of f rd t k timeout] assms
  by (auto simp: poll_status_def Let_def split: if_splits)

text \<open>A flag that becomes ready at the last admissible read, and one that comes a read too late.\<close>

theorem poll_status_correct_witness:
  "let rd = (\<lambda>i. (if i < 0x600 then 0 else 4, 0)) in
   fst (poll_status RST_CLK_FLAG_HSERDY 0x600 rd 0) = SUCCESS
   \<and> fst (poll_status RST_CLK_FLAG_HSERDY 0x5FF rd 0) \<noteq> SUCCESS"
proof -
  let ?rd = "\<lambda>i. (if i < (0x600 :: nat) then 0 else 4, 0) :: u32 \<times> u32"
  have "ready_from RST_CLK_FLAG_HSERDY ?rd 0 0x600"
    by (simp add: ready_from_def RST_CLK_GetFlagStatus_def reg_defs)
  then show ?thesis
    using poll_status_correct [of "0x600" 0 RST_CLK_FLAG_HSERDY ?rd "0x600"]
      poll_status_correct [of "0x5FF" 0 RST_CLK_FLAG_HSERDY ?rd "0x600"] by simp
qed

section \<open>Frequencies\<close>

lemma and_exp_eq: "(r AND 2 ^ n = 2 ^ n) = (r AND 2 ^ n \<noteq> 0)" if "n < LENGTH('a)" for r :: "'a::len word"
proof
  assume "r AND 2 ^ n \<noteq> 0"
  then have "bit r n" by (simp add: and_exp_eq_0_iff_not_bit)
  then show "r AND 2 ^ n = 2 ^ n" by (intro bit_word_eqI) (auto simp: bit_simps)
qed (use that in simp)

lemma and_124:
  "(r AND 1 = 1) = (r AND 1 \<noteq> 0)" "(r AND 2 = 2) = (r AND 2 \<noteq> 0)" "(r AND 4 = 4) = (r AND 4 \<noteq> 0)"
  for r :: u32
  using and_exp_eq [of 0 r] and_exp_eq [of 1 r] and_exp_eq [of 2 r] by simp_all

lemma and_15_8: "(x AND 15) AND 8 = x AND 8" for x :: u32
  by (simp add: and.assoc)

text \<open>
  \<open>SystemCoreClockUpdate\<close> and \<open>RST_CLK_GetClocksFreq\<close> compute the same CPU frequency when the
  C3 prescaler is off or not selected, and so for the setting that the firmware uses. For
  the prescaler setting that halves the clock they differ: the first divides by nine.
\<close>

theorem SystemCoreClockUpdate_agrees:
  "(drop_bit 8 (CPU_CLOCK c) AND 3 \<noteq> 1 \<or> drop_bit 4 (CPU_CLOCK c) AND 0xF = 0 \<longrightarrow>
     SystemCoreClock (SystemCoreClockUpdate c) = CPU_CLK_Frequency (RST_CLK_GetClocksFreq c))
   \<and> (CPU_CLOCK c = 0x182 \<longrightarrow>
     SystemCoreClock (SystemCoreClockUpdate c) = 2777777
     \<and> CPU_CLK_Frequency (RST_CLK_GetClocksFreq c) = 12500000)"
proof (rule conjI)
  have "(x AND 15 = 0) \<Longrightarrow> x AND 8 = 0" for x :: u32
    using and_15_8 [of x] by simp
  then show "drop_bit 8 (CPU_CLOCK c) AND 3 \<noteq> 1 \<or> drop_bit 4 (CPU_CLOCK c) AND 0xF = 0 \<longrightarrow>
     SystemCoreClock (SystemCoreClockUpdate c) = CPU_CLK_Frequency (RST_CLK_GetClocksFreq c)"
    by (auto simp: SystemCoreClockUpdate_def RST_CLK_GetClocksFreq_def c_defs and_124 Let_def)
qed (simp add: SystemCoreClockUpdate_def RST_CLK_GetClocksFreq_def c_defs Let_def reg_defs)

definition clk_zero :: clk where
  "clk_zero =
     \<lparr>CLOCK_STATUS = 0, PLL_CONTROL = 0, HS_CONTROL = 0, CPU_CLOCK = 0, USB_CLOCK = 0, ADC_MCO_CLOCK = 0,
      RTC_CLOCK = 0, PER_CLOCK = 0, CAN_CLOCK = 0, TIM_CLOCK = 0, UART_CLOCK = 0, SSP_CLOCK = 0,
      ETH_CLOCK = 0, REG_0F = 0, SystemCoreClock = 8000000\<rparr>"

theorem SystemCoreClockUpdate_agrees_witness:
  "SystemCoreClock (SystemCoreClockUpdate (clk_zero\<lparr>CPU_CLOCK := 0x102\<rparr>))
     = CPU_CLK_Frequency (RST_CLK_GetClocksFreq (clk_zero\<lparr>CPU_CLOCK := 0x102\<rparr>))
   \<and> SystemCoreClock (SystemCoreClockUpdate (clk_zero\<lparr>CPU_CLOCK := 0x182\<rparr>))
     \<noteq> CPU_CLK_Frequency (RST_CLK_GetClocksFreq (clk_zero\<lparr>CPU_CLOCK := 0x182\<rparr>))"
  using SystemCoreClockUpdate_agrees [of "clk_zero\<lparr>CPU_CLOCK := 0x102\<rparr>"]
    SystemCoreClockUpdate_agrees [of "clk_zero\<lparr>CPU_CLOCK := 0x182\<rparr>"] by simp

end
