(* ===== verification/EthDriver.thy ===== *)
theory EthDriver
  imports EthIf RstClk
begin

text \<open>
  The driver of the Ethernet controller, \<open>Application/MDR32F9Qx_eth.c\<close>: clocks, reset, the
  configuration record and \<open>ETH_Init\<close>, switches, flags and interrupt masks, the MAC address,
  the PHY registers over MDIO, and \<open>EthInit\<close> of \<open>ethernetif.c\<close>, which uses it.

  Registers are 16 bits wide: what is stored to them is cut to 16 bits. A status register that
  the hardware changes is a function from the number of the read to its value. In FIFO mode
  \<open>ETH_Init\<close> prepares the DMA controller, whose driver is an argument.
\<close>

section \<open>Clocks\<close>

definition RST_CLK_ETH_CLOCK_ETH_BRG_Msk :: u32 where [reg_defs]: "RST_CLK_ETH_CLOCK_ETH_BRG_Msk = 0x000000FF"
definition RST_CLK_ETH_CLOCK_PHY_BRG_Msk :: u32 where [reg_defs]: "RST_CLK_ETH_CLOCK_PHY_BRG_Msk = 0x00FF0000"
definition RST_CLK_ETH_CLOCK_ETH_CLK_EN :: u32 where [reg_defs]: "RST_CLK_ETH_CLOCK_ETH_CLK_EN = 0x01000000"
definition RST_CLK_ETH_CLOCK_PHY_CLK_EN :: u32 where [reg_defs]: "RST_CLK_ETH_CLOCK_PHY_CLK_EN = 0x08000000"
definition RST_CLK_ETH_CLOCK_PHY_CLK_SEL_Msk :: u32 where [reg_defs]: "RST_CLK_ETH_CLOCK_PHY_CLK_SEL_Msk = 0x30000000"
definition RST_CLK_ETH_CLOCK_ETH2_CLK_EN :: u32 where [reg_defs]: "RST_CLK_ETH_CLOCK_ETH2_CLK_EN = 0x40000000"
definition ETH_PHY_CLOCK_SOURCE_HSE2 :: u32 where [reg_defs]: "ETH_PHY_CLOCK_SOURCE_HSE2 = 0x30000000"
definition ETH_CLK1 :: u32 where [reg_defs]: "ETH_CLK1 = 0x01000000"

definition ETH_ClockDeInit :: "clk \<Rightarrow> clk" where
  "ETH_ClockDeInit c = c\<lparr>ETH_CLOCK := ETH_CLOCK c AND NOT (RST_CLK_ETH_CLOCK_PHY_CLK_SEL_Msk
     OR RST_CLK_ETH_CLOCK_ETH2_CLK_EN OR RST_CLK_ETH_CLOCK_PHY_CLK_EN OR RST_CLK_ETH_CLOCK_ETH_CLK_EN
     OR RST_CLK_ETH_CLOCK_ETH_BRG_Msk OR RST_CLK_ETH_CLOCK_PHY_BRG_Msk)\<rparr>"

definition ETH_PHY_ClockConfig :: "u32 \<Rightarrow> u32 \<Rightarrow> clk \<Rightarrow> clk" where
  "ETH_PHY_ClockConfig clock_source PHY_HCLKdiv c =
     (let t1 = ETH_CLOCK c AND NOT (RST_CLK_ETH_CLOCK_PHY_BRG_Msk OR RST_CLK_ETH_CLOCK_PHY_CLK_SEL_Msk);
          t2 = t1 OR (clock_source OR PHY_HCLKdiv);
          t3 = t2 OR RST_CLK_ETH_CLOCK_PHY_CLK_EN
      in c\<lparr>ETH_CLOCK := t3\<rparr>)"

definition ETH_BRGInit :: "u32 \<Rightarrow> clk \<Rightarrow> clk" where
  "ETH_BRGInit ETH_HCLKdiv c = c\<lparr>ETH_CLOCK := set_field (NOT RST_CLK_ETH_CLOCK_ETH_BRG_Msk) ETH_HCLKdiv (ETH_CLOCK c)\<rparr>"

definition ETH_ClockCMD :: "u32 \<Rightarrow> FunctionalState \<Rightarrow> clk \<Rightarrow> clk" where
  "ETH_ClockCMD ETHx NewState c = c\<lparr>ETH_CLOCK := switch_bits NewState ETHx (ETH_CLOCK c)\<rparr>"

section \<open>PHY and reset\<close>

definition ETH_PHY_CONTROL_nRST :: u16 where [reg_defs]: "ETH_PHY_CONTROL_nRST = 1"
definition ETH_PHY_FLAG_READY :: u16 where [reg_defs]: "ETH_PHY_FLAG_READY = 0x0010"

definition flag_of :: "u16 \<Rightarrow> u16 \<Rightarrow> FlagStatus" where
  [c_defs]: "flag_of reg m = (if reg AND m \<noteq> 0 then SET else RESET)"

definition ETH_GetPHYStatus :: "u16 \<Rightarrow> eth \<Rightarrow> FlagStatus" where
  "ETH_GetPHYStatus ETH_PHY_FLAG e = flag_of (PHY_Status e) ETH_PHY_FLAG"

text \<open>\<open>st i\<close> is what the \<open>i\<close>-th read of \<open>PHY_Status\<close> gives; \<open>None\<close> if the PHY never becomes ready.\<close>

definition ETH_PHY_Reset :: "(nat \<Rightarrow> u16) \<Rightarrow> eth \<Rightarrow> eth option" where
  "ETH_PHY_Reset st e =
     (let e1 = e\<lparr>PHY_Control := PHY_Control e AND NOT ETH_PHY_CONTROL_nRST\<rparr>
      in map_option (\<lambda>_. e1)
           (wait_until (\<lambda>i. ETH_GetPHYStatus ETH_PHY_FLAG_READY (e1\<lparr>PHY_Status := st i\<rparr>) = SET) 0))"

definition ETH_PHYCmd :: "FunctionalState \<Rightarrow> eth \<Rightarrow> eth" where
  "ETH_PHYCmd NewState e = e\<lparr>PHY_Control := switch_bits NewState ETH_PHY_CONTROL_nRST (PHY_Control e)\<rparr>"

definition ETH_DeInit :: "(nat \<Rightarrow> u16) \<Rightarrow> eth \<Rightarrow> eth option" where
  "ETH_DeInit st e =
     map_option (\<lambda>e1. e1\<lparr>ETH_Dilimiter := 0x0800, ETH_MAC_T := 0x78AB, ETH_MAC_M := 0x3456, ETH_MAC_H := 0x0012,
       ETH_HASH0 := 0, ETH_HASH1 := 0, ETH_HASH2 := 0, ETH_HASH3 := 0x8000, ETH_IPG := 0x0060, ETH_PSC := 0x0031,
       ETH_BAG := 0x0064, ETH_JitterWnd := 0x0004, ETH_R_CFG := 0x0507, ETH_X_CFG := 0x01FA,
       ETH_G_CFGl := 0x4080, ETH_G_CFGh := 0x3000, ETH_IMR := 0, ETH_IFR := 0, ETH_R_Head := 0,
       ETH_X_Tail := 0x0800\<rparr>) (ETH_PHY_Reset st e)"

section \<open>Configuration\<close>

text \<open>Members whose name is also the one of a register have the prefix \<open>Init_\<close>.\<close>

record ETH_InitTypeDef =
  ETH_PHY_Address :: u32
  ETH_PHY_Mode :: u32
  ETH_PHY_Interface :: u32
  Init_Dilimiter :: u32
  ETH_DBG_Mode :: u32
  ETH_DBG_XF :: FunctionalState
  ETH_DBG_RF :: FunctionalState
  ETH_Loopback_Mode :: FunctionalState
  ETH_Receiver_RST :: FlagStatus
  ETH_Transmitter_RST :: FlagStatus
  ETH_Register_CLR :: FunctionalState
  ETH_Buffer_Mode :: u32
  ETH_Extension_Mode :: FunctionalState
  ETH_HalfDuplex_Mode :: FunctionalState
  ETH_DTRM :: FunctionalState
  ETH_Pause :: FunctionalState
  ETH_ColWnd :: u32
  ETH_Transmitter_State :: FunctionalState
  ETH_Transmitter_BE :: u32
  ETH_Transmitter_Bits_Order :: u32
  ETH_Transmitter_Event_Mode :: u32
  ETH_Automatic_Pad_Strip :: FunctionalState
  ETH_Automatic_Preamble :: FunctionalState
  ETH_Automatic_CRC_Strip :: FunctionalState
  ETH_Automatic_IPG :: FunctionalState
  ETH_Retry_Counter :: u32
  ETH_Receiver_State :: FunctionalState
  ETH_Receiver_BE :: u32
  ETH_Receiver_Bits_Order :: u32
  ETH_Receiver_Event_Mode :: u32
  ETH_Receive_All_Packets :: FunctionalState
  ETH_Short_Frames_Reception :: FunctionalState
  ETH_Long_Frames_Reception :: FunctionalState
  ETH_Broadcast_Frames_Reception :: FunctionalState
  ETH_Error_CRC_Frames_Reception :: FunctionalState
  ETH_Control_Frames_Reception :: FunctionalState
  ETH_Unicast_Frames_Reception :: FunctionalState
  ETH_Source_Addr_HASH_Filter :: FunctionalState
  ETH_MAC_Address0 :: u16
  ETH_MAC_Address1 :: u16
  ETH_MAC_Address2 :: u16
  ETH_Hash_Table_High :: u32
  ETH_Hash_Table_Low :: u32
  Init_IPG :: u32
  Init_PSC :: u32
  Init_BAG :: u32
  Init_JitterWnd :: u32

definition ETH_PHY_MODE_AutoNegotiation :: u32 where [reg_defs]: "ETH_PHY_MODE_AutoNegotiation = push_bit 1 7"
definition ETH_BUFFER_MODE_LINEAR :: u32 where [reg_defs]: "ETH_BUFFER_MODE_LINEAR = push_bit 12 0"
definition ETH_BUFFER_MODE_AUTOMATIC_CHANGE_POINTERS :: u32 where
  [reg_defs]: "ETH_BUFFER_MODE_AUTOMATIC_CHANGE_POINTERS = push_bit 12 1"
definition ETH_BUFFER_MODE_FIFO :: u32 where [reg_defs]: "ETH_BUFFER_MODE_FIFO = push_bit 12 2"
definition ETH_TRANSMITTER_EVENT_MODE_XFIFO_ALMOST_EMPTY :: u32 where
  [reg_defs]: "ETH_TRANSMITTER_EVENT_MODE_XFIFO_ALMOST_EMPTY = push_bit 8 1"
definition ETH_RECEIVER_EVENT_MODE_PACET_RECEIVED :: u32 where
  [reg_defs]: "ETH_RECEIVER_EVENT_MODE_PACET_RECEIVED = push_bit 8 5"

definition ETH_StructInit :: ETH_InitTypeDef where
  "ETH_StructInit =
     \<lparr>ETH_PHY_Address = 0x1C, ETH_PHY_Mode = ETH_PHY_MODE_AutoNegotiation, ETH_PHY_Interface = 0,
      Init_Dilimiter = 0x0800, ETH_DBG_Mode = 0, ETH_DBG_XF = ENABLE, ETH_DBG_RF = ENABLE,
      ETH_Loopback_Mode = DISABLE, ETH_Receiver_RST = RESET, ETH_Transmitter_RST = RESET,
      ETH_Register_CLR = ENABLE, ETH_Buffer_Mode = ETH_BUFFER_MODE_LINEAR, ETH_Extension_Mode = DISABLE,
      ETH_HalfDuplex_Mode = DISABLE, ETH_DTRM = DISABLE, ETH_Pause = DISABLE, ETH_ColWnd = 0x80,
      ETH_Transmitter_State = DISABLE, ETH_Transmitter_BE = 0, ETH_Transmitter_Bits_Order = 0,
      ETH_Transmitter_Event_Mode = ETH_TRANSMITTER_EVENT_MODE_XFIFO_ALMOST_EMPTY,
      ETH_Automatic_Pad_Strip = ENABLE, ETH_Automatic_Preamble = ENABLE, ETH_Automatic_CRC_Strip = ENABLE,
      ETH_Automatic_IPG = ENABLE, ETH_Retry_Counter = 0x0A, ETH_Receiver_State = DISABLE, ETH_Receiver_BE = 0,
      ETH_Receiver_Bits_Order = 0, ETH_Receiver_Event_Mode = ETH_RECEIVER_EVENT_MODE_PACET_RECEIVED,
      ETH_Receive_All_Packets = DISABLE, ETH_Short_Frames_Reception = DISABLE,
      ETH_Long_Frames_Reception = DISABLE, ETH_Broadcast_Frames_Reception = ENABLE,
      ETH_Error_CRC_Frames_Reception = DISABLE, ETH_Control_Frames_Reception = DISABLE,
      ETH_Unicast_Frames_Reception = ENABLE, ETH_Source_Addr_HASH_Filter = ENABLE,
      ETH_MAC_Address0 = 0x78AB, ETH_MAC_Address1 = 0x3456, ETH_MAC_Address2 = 0x0012,
      ETH_Hash_Table_High = 0x08000000, ETH_Hash_Table_Low = 0, Init_IPG = 0x0060, Init_PSC = 0x0031,
      Init_BAG = 0x0064, Init_JitterWnd = 0x0004\<rparr>"

text \<open>The C values of the two-valued types.\<close>

definition fs_val :: "FunctionalState \<Rightarrow> u32" where
  [c_defs]: "fs_val s = (case s of DISABLE \<Rightarrow> 0 | ENABLE \<Rightarrow> 1)"

definition bs_val :: "FlagStatus \<Rightarrow> u32" where
  [c_defs]: "bs_val s = (case s of RESET \<Rightarrow> 0 | SET \<Rightarrow> 1)"

definition init_G_CFGh :: "ETH_InitTypeDef \<Rightarrow> u16" where
  "init_G_CFGh I = to_u16 (ETH_DBG_Mode I OR push_bit 13 (fs_val (ETH_DBG_XF I)) OR push_bit 12 (fs_val (ETH_DBG_RF I))
     OR push_bit 2 (fs_val (ETH_Loopback_Mode I)) OR push_bit 1 (bs_val (ETH_Receiver_RST I))
     OR push_bit 0 (bs_val (ETH_Transmitter_RST I)))"

definition init_G_CFGl :: "ETH_InitTypeDef \<Rightarrow> u16" where
  "init_G_CFGl I = to_u16 (push_bit 14 (fs_val (ETH_Register_CLR I)) OR ETH_Buffer_Mode I
     OR push_bit 11 (fs_val (ETH_Extension_Mode I)) OR push_bit 10 (fs_val (ETH_HalfDuplex_Mode I))
     OR push_bit 9 (fs_val (ETH_DTRM I)) OR push_bit 8 (fs_val (ETH_Pause I)) OR ETH_ColWnd I)"

definition init_X_CFG :: "ETH_InitTypeDef \<Rightarrow> u32" where
  "init_X_CFG I = push_bit 15 (fs_val (ETH_Transmitter_State I)) OR ETH_Transmitter_BE I
     OR ETH_Transmitter_Bits_Order I OR ETH_Transmitter_Event_Mode I
     OR push_bit 7 (fs_val (ETH_Automatic_Pad_Strip I)) OR push_bit 6 (fs_val (ETH_Automatic_Preamble I))
     OR push_bit 5 (fs_val (ETH_Automatic_CRC_Strip I)) OR push_bit 4 (fs_val (ETH_Automatic_IPG I))
     OR ETH_Retry_Counter I"

text \<open>Both \<open>Short_Frames_Reception\<close> and \<open>Long_Frames_Reception\<close> go to \<open>ETH_R_CFG_LF_EN_Pos\<close>, bit 6.\<close>

definition init_R_CFG :: "ETH_InitTypeDef \<Rightarrow> u32" where
  "init_R_CFG I =
     (let t = push_bit 15 (fs_val (ETH_Receiver_State I)) OR ETH_Receiver_BE I OR ETH_Receiver_Bits_Order I
                OR ETH_Receiver_Event_Mode I
      in t OR (push_bit 6 (fs_val (ETH_Short_Frames_Reception I)) OR push_bit 6 (fs_val (ETH_Long_Frames_Reception I))
           OR push_bit 1 (fs_val (ETH_Broadcast_Frames_Reception I)) OR push_bit 4 (fs_val (ETH_Error_CRC_Frames_Reception I))
           OR push_bit 5 (fs_val (ETH_Control_Frames_Reception I)) OR push_bit 2 (fs_val (ETH_Unicast_Frames_Reception I))
           OR push_bit 0 (fs_val (ETH_Source_Addr_HASH_Filter I)) OR push_bit 3 (fs_val (ETH_Receive_All_Packets I))))"

definition ETH_Init :: "('d \<Rightarrow> 'd) \<Rightarrow> ETH_InitTypeDef \<Rightarrow> 'd \<times> eth \<Rightarrow> 'd \<times> eth" where
  "ETH_Init ETH_DMAPrepare I s =
     (let (d, e) = s;
          tmpreg_PHY_Control = push_bit 11 (ETH_PHY_Address I) OR ETH_PHY_Mode I OR ETH_PHY_Interface I;
          e1 = e\<lparr>ETH_Dilimiter := to_u16 (Init_Dilimiter I),
                 PHY_Control := to_u16 (to_u32 (PHY_Control e) OR tmpreg_PHY_Control),
                 ETH_G_CFGh := init_G_CFGh I\<rparr>;
          d1 = (if ETH_Buffer_Mode I = ETH_BUFFER_MODE_FIFO then ETH_DMAPrepare d else d)
      in (d1, e1\<lparr>ETH_G_CFGl := init_G_CFGl I, ETH_X_CFG := to_u16 (init_X_CFG I), ETH_R_CFG := to_u16 (init_R_CFG I),
           ETH_MAC_T := ETH_MAC_Address0 I, ETH_MAC_M := ETH_MAC_Address1 I, ETH_MAC_H := ETH_MAC_Address2 I,
           ETH_HASH0 := to_u16 (ETH_Hash_Table_Low I AND 0x0000FFFF),
           ETH_HASH1 := to_u16 (drop_bit 16 (ETH_Hash_Table_Low I AND 0xFFFF0000)),
           ETH_HASH2 := to_u16 (ETH_Hash_Table_High I AND 0x0000FFFF),
           ETH_HASH3 := to_u16 (drop_bit 16 (ETH_Hash_Table_High I AND 0xFFFF0000)),
           ETH_IPG := to_u16 (Init_IPG I), ETH_PSC := to_u16 (Init_PSC I), ETH_BAG := to_u16 (Init_BAG I),
           ETH_JitterWnd := to_u16 (Init_JitterWnd I)\<rparr>))"

section \<open>Switches, flags, interrupts, MAC address\<close>

definition ETH_MACTransmissionCmd :: "FunctionalState \<Rightarrow> eth \<Rightarrow> eth" where
  "ETH_MACTransmissionCmd NewState e = e\<lparr>ETH_X_CFG := switch_bits NewState ETH_X_CFG_EN (ETH_X_CFG e)\<rparr>"

definition ETH_MACReceptionCmd :: "FunctionalState \<Rightarrow> eth \<Rightarrow> eth" where
  "ETH_MACReceptionCmd NewState e = e\<lparr>ETH_R_CFG := switch_bits NewState ETH_R_CFG_EN (ETH_R_CFG e)\<rparr>"

definition ETH_Start :: "eth \<Rightarrow> eth" where
  "ETH_Start e =
     (let e1 = e\<lparr>PHY_Control := PHY_Control e OR ETH_PHY_CONTROL_nRST,
                 ETH_G_CFGh := ETH_G_CFGh e AND NOT (ETH_G_CFGh_RRST OR ETH_G_CFGh_XRST)\<rparr>
      in ETH_MACReceptionCmd ENABLE (ETH_MACTransmissionCmd ENABLE e1))"

definition ETH_GetMACITStatusRegister :: "eth \<Rightarrow> u16" where
  "ETH_GetMACITStatusRegister e = ETH_IFR e"

definition ETH_GetMACITStatus :: "u32 \<Rightarrow> eth \<Rightarrow> FlagStatus" where
  "ETH_GetMACITStatus ETH_MAC_IT e = (if to_u32 (ETH_IFR e) AND ETH_MAC_IT \<noteq> 0 then SET else RESET)"

definition ETH_GetMACStatusRegister :: "eth \<Rightarrow> u32" where
  "ETH_GetMACStatusRegister e = to_u32 (ETH_STAT e)"

definition ETH_GetFlagStatus :: "u16 \<Rightarrow> eth \<Rightarrow> FlagStatus" where
  "ETH_GetFlagStatus ETH_MAC_FLAG e = flag_of (ETH_STAT e) ETH_MAC_FLAG"

definition ETH_MACITConfig :: "u32 \<Rightarrow> FunctionalState \<Rightarrow> eth \<Rightarrow> eth" where
  "ETH_MACITConfig ETH_MAC_IT NewState e = e\<lparr>ETH_IMR := to_u16 (switch_bits NewState ETH_MAC_IT (to_u32 (ETH_IMR e)))\<rparr>"

definition ETH_MACAddressConfig :: "u16 \<times> u16 \<times> u16 \<Rightarrow> eth \<Rightarrow> eth" where
  "ETH_MACAddressConfig MacAddr e =
     (let (a0, a1, a2) = MacAddr in e\<lparr>ETH_MAC_T := a0, ETH_MAC_M := a1, ETH_MAC_H := a2\<rparr>)"

definition ETH_GetMACAddress :: "eth \<Rightarrow> u16 \<times> u16 \<times> u16" where
  "ETH_GetMACAddress e = (ETH_MAC_T e, ETH_MAC_M e, ETH_MAC_H e)"

section \<open>PHY registers over MDIO\<close>

definition ETH_MDIO_CTRL_DIV_Msk :: u32 where [reg_defs]: "ETH_MDIO_CTRL_DIV_Msk = 0x000000E0"
definition ETH_MDIO_CTRL_RDY :: u32 where [reg_defs]: "ETH_MDIO_CTRL_RDY = 0x00008000"
definition PHY_READ_TO :: nat where "PHY_READ_TO = 0x0004FFFF"

text \<open>The polling loop: \<open>ctl i\<close> is the value of the control register at the \<open>i\<close>-th read; the result is
  the number of reads, which is \<open>timeout\<close>.\<close>

function mdio_wait :: "(nat \<Rightarrow> u16) \<Rightarrow> nat \<Rightarrow> nat" where
  "mdio_wait ctl timeout =
     (if to_u32 (ctl timeout) AND ETH_MDIO_CTRL_RDY = 0 \<and> timeout + 1 < PHY_READ_TO
      then mdio_wait ctl (timeout + 1) else timeout + 1)"
  by pat_completeness auto
termination
  by (relation "measure (\<lambda>(ctl, timeout). PHY_READ_TO - timeout)") auto

declare mdio_wait.simps [simp del]

definition mdio_command :: "u16 \<Rightarrow> u16 \<Rightarrow> u32 \<Rightarrow> u32" where
  "mdio_command PHYAddress PHYReg op =
     push_bit 8 (to_u32 PHYAddress) OR to_u32 PHYReg OR push_bit 13 op OR push_bit 15 1 OR push_bit 14 1 OR push_bit 5 1"

text \<open>\<open>dat\<close> is the content of the data register after the transfer.\<close>

definition ETH_ReadPHYRegister :: "(nat \<Rightarrow> u16) \<Rightarrow> u16 \<Rightarrow> u16 \<Rightarrow> u16 \<Rightarrow> eth \<Rightarrow> u16 \<times> eth" where
  "ETH_ReadPHYRegister ctl dat PHYAddress PHYReg e =
     (let tmpreg = to_u32 (ETH_MDIO_CTRL e) AND ETH_MDIO_CTRL_DIV_Msk;
          e1 = e\<lparr>ETH_MDIO_CTRL := to_u16 (tmpreg OR mdio_command PHYAddress PHYReg 1)\<rparr>
      in (if mdio_wait ctl 0 = PHY_READ_TO then 0 else dat, e1))"

definition ETH_WritePHYRegister :: "(nat \<Rightarrow> u16) \<Rightarrow> u16 \<Rightarrow> u16 \<Rightarrow> u16 \<Rightarrow> eth \<Rightarrow> u32 \<times> eth" where
  "ETH_WritePHYRegister ctl PHYAddress PHYReg PHYValue e =
     (let tmpreg = (to_u32 (ETH_MDIO_CTRL e) AND NOT ETH_MDIO_CTRL_DIV_Msk) AND NOT (push_bit 13 1);
          e1 = e\<lparr>ETH_MDIO_DATA := PHYValue, ETH_MDIO_CTRL := to_u16 (tmpreg OR mdio_command PHYAddress PHYReg 0)\<rparr>
      in (if mdio_wait ctl 0 = PHY_READ_TO then 0 else 1, e1))"

section \<open>\<open>EthInit\<close>\<close>

definition RST_CLK_PCLK_DMA :: u32 where "RST_CLK_PCLK_DMA = PCLK_BIT 0x40028000"
definition HSE_ON_ATTEMPTS :: nat where "HSE_ON_ATTEMPTS = 10"

function hse2_attempts :: "clk_reads \<Rightarrow> nat \<Rightarrow> nat \<Rightarrow> nat" where
  "hse2_attempts rd t n =
     (if n < HSE_ON_ATTEMPTS then
        let (ret, t1) = RST_CLK_HSE2status rd t
        in if ret = SUCCESS then t1 else hse2_attempts rd t1 (n + 1)
      else t)"
  by pat_completeness auto
termination
  by (relation "measure (\<lambda>(rd, t, n). HSE_ON_ATTEMPTS - n)") auto

declare hse2_attempts.simps [simp del]

definition EthInit_config :: ETH_InitTypeDef where
  "EthInit_config = ETH_StructInit\<lparr>ETH_PHY_Mode := ETH_PHY_MODE_AutoNegotiation, ETH_Transmitter_RST := SET,
     ETH_Receiver_RST := SET, ETH_Buffer_Mode := ETH_BUFFER_MODE_LINEAR, ETH_Receive_All_Packets := ENABLE,
     ETH_Source_Addr_HASH_Filter := DISABLE, ETH_Long_Frames_Reception := DISABLE,
     ETH_Control_Frames_Reception := ENABLE, ETH_Short_Frames_Reception := ENABLE, Init_Dilimiter := 0x1000\<rparr>"

text \<open>Position in the reads of the clock status, the clock registers, the DMA controller, the
  Ethernet controller. The state of the generator after ten attempts is ignored.\<close>

definition EthInit ::
  "('d \<Rightarrow> 'd) \<Rightarrow> clk_reads \<Rightarrow> (nat \<Rightarrow> u16) \<Rightarrow> nat \<times> clk \<times> 'd \<times> eth \<Rightarrow> (nat \<times> clk \<times> 'd \<times> eth) option" where
  "EthInit ETH_DMAPrepare rd phy s =
     (let (t, c, d, e) = s;
          c1 = ETH_ClockDeInit c;
          c2 = RST_CLK_PCLKcmd RST_CLK_PCLK_DMA ENABLE c1;
          c3 = RST_CLK_HSE2config RST_CLK_HSE2_Bypass c2;
          t1 = hse2_attempts rd t 0;
          c4 = ETH_PHY_ClockConfig ETH_PHY_CLOCK_SOURCE_HSE2 0 c3;
          c5 = ETH_BRGInit 0 c4;
          c6 = ETH_ClockCMD ETH_CLK1 ENABLE c5
      in case ETH_DeInit phy e of
           None \<Rightarrow> None
         | Some e1 \<Rightarrow>
             let (d2, e2) = ETH_Init ETH_DMAPrepare EthInit_config (d, e1);
                 e3 = eth_reset_pointers (e2\<lparr>ETH_IMR := 0\<rparr>)
             in Some (t1, c6, d2, ETH_PHYCmd ENABLE e3))"

section \<open>Properties\<close>

lemma mdio_wait_bounds: "timeout < PHY_READ_TO \<Longrightarrow> timeout < mdio_wait ctl timeout \<and> mdio_wait ctl timeout \<le> PHY_READ_TO"
proof (induction ctl timeout rule: mdio_wait.induct)
  case (1 ctl timeout)
  then show ?case
    by (subst (1 2) mdio_wait.simps) auto
qed

lemma mdio_wait_ready:
  assumes "\<not> to_u32 (ctl (t + n)) AND ETH_MDIO_CTRL_RDY = 0" "\<And>i. i < n \<Longrightarrow> to_u32 (ctl (t + i)) AND ETH_MDIO_CTRL_RDY = 0"
  shows "t < PHY_READ_TO \<Longrightarrow> mdio_wait ctl t = min (t + n + 1) PHY_READ_TO"
  using assms
proof (induction n arbitrary: t)
  case 0
  then show ?case
    by (subst mdio_wait.simps) simp
next
  case (Suc n)
  have "to_u32 (ctl t) AND ETH_MDIO_CTRL_RDY = 0"
    using Suc.prems(3) [of 0] by simp
  moreover have "to_u32 (ctl (t + 1 + i)) AND ETH_MDIO_CTRL_RDY = 0" if "i < n" for i
    using Suc.prems(3) [of "Suc i"] that by simp
  then have "t + 1 < PHY_READ_TO \<Longrightarrow> mdio_wait ctl (t + 1) = min (t + 1 + n + 1) PHY_READ_TO"
    using Suc.IH [of "t + 1"] Suc.prems(2) by simp
  ultimately show ?case
    using Suc.prems(1) by (subst mdio_wait.simps) auto
qed

text \<open>
  Access to a PHY register ends after at most \<open>PHY_READ_TO\<close> reads of the control register. If the
  controller signals ready first at read \<open>n\<close>, the read returns the data and the write returns
  \<open>ETH_SUCCESS\<close> exactly when \<open>n + 1 < PHY_READ_TO\<close>; otherwise both return \<open>ETH_ERROR\<close>, also when the
  last read allowed finds the controller ready.
\<close>

theorem PHY_access_timeout:
  assumes "to_u32 (ctl n) AND ETH_MDIO_CTRL_RDY \<noteq> 0" "\<And>i. i < n \<Longrightarrow> to_u32 (ctl i) AND ETH_MDIO_CTRL_RDY = 0"
  shows "fst (ETH_ReadPHYRegister ctl dat a r e) = (if n + 1 < PHY_READ_TO then dat else 0)
    \<and> fst (ETH_WritePHYRegister ctl a r v e) = (if n + 1 < PHY_READ_TO then 1 else 0)
    \<and> mdio_wait ctl 0 \<le> PHY_READ_TO"
proof -
  have "mdio_wait ctl 0 = min (n + 1) PHY_READ_TO"
    using mdio_wait_ready [of ctl 0 n] assms by (simp add: PHY_READ_TO_def)
  then show ?thesis
    by (auto simp: ETH_ReadPHYRegister_def ETH_WritePHYRegister_def Let_def min_def)
qed

lemma PHY_access_timeout_witness:
  "fst (ETH_ReadPHYRegister (\<lambda>i. if i = 2 then 0x8000 else 0) 0x1234 0x1C 2 eth_zero) = 0x1234
   \<and> fst (ETH_ReadPHYRegister (\<lambda>i. if i = 0x4FFFE then 0x8000 else 0) 0x1234 0x1C 2 eth_zero) = 0"
  using PHY_access_timeout [of "\<lambda>i. if i = 2 then 0x8000 else 0" 2 "0x1234" "0x1C" 2 eth_zero 0]
    PHY_access_timeout [of "\<lambda>i. if i = 0x4FFFE then 0x8000 else 0" "0x4FFFE" "0x1234" "0x1C" 2 eth_zero 0]
  by (simp add: PHY_READ_TO_def reg_defs)

lemma ETH_PHY_Reset_returns:
  "(\<exists>e1. ETH_PHY_Reset phy e = Some e1) \<longleftrightarrow> (\<exists>i. phy i AND ETH_PHY_FLAG_READY \<noteq> 0)"
  using wait_until_returns [of "\<lambda>i. phy i AND ETH_PHY_FLAG_READY \<noteq> 0" 0]
  by (auto simp: ETH_PHY_Reset_def ETH_GetPHYStatus_def flag_of_def Let_def)

lemma EthInit_config_regs:
  "init_G_CFGh EthInit_config = 0x3003" "init_G_CFGl EthInit_config = 0x4080"
  "to_u16 (init_X_CFG EthInit_config) = 0x01FA" "to_u16 (init_R_CFG EthInit_config) = 0x056E"
  by (simp_all add: init_G_CFGh_def init_G_CFGl_def init_X_CFG_def init_R_CFG_def EthInit_config_def
      ETH_StructInit_def reg_defs c_defs Let_def)

text \<open>The registers of the controller after \<open>EthInit\<close>.\<close>

lemma EthInit_eth:
  assumes "ETH_DeInit phy e = Some e1" "ETH_Init prep EthInit_config (d, e1) = (d2, e2)"
  defines "e' \<equiv> ETH_PHYCmd ENABLE (eth_reset_pointers (e2\<lparr>ETH_IMR := 0\<rparr>))"
  shows "rx_holds e' []" "tx_holds e' []" "rx_words e' = 1024" "tx_words e' = 1024" "d2 = d"
    and "ETH_R_CFG e' = 0x056E" "ETH_X_CFG e' = 0x01FA" "ETH_G_CFGl e' = 0x4080" "ETH_G_CFGh e' = 0x3000"
    and "ETH_GetMACAddress e' = (0x78AB, 0x3456, 0x0012)" "(ETH_HASH0 e', ETH_HASH1 e', ETH_HASH2 e', ETH_HASH3 e') = (0, 0, 0, 0x0800)"
      "(ETH_IPG e', ETH_PSC e', ETH_BAG e', ETH_JitterWnd e') = (0x60, 0x31, 0x64, 4)"
      "(ETH_IMR e', ETH_IFR e', ETH_Dilimiter e') = (0, 0xDFFF, 0x1000)" "PHY_Control e' = PHY_Control e OR 0xE00F"
proof -
  have cfg: "ETH_Buffer_Mode EthInit_config = 0"
    by (simp add: EthInit_config_def reg_defs)
  have e2: "ETH_R_CFG e2 = 0x056E" "ETH_X_CFG e2 = 0x01FA" "ETH_G_CFGl e2 = 0x4080" "ETH_G_CFGh e2 = 0x3003" "d2 = d"
    using assms(2) by (auto simp: ETH_Init_def Let_def EthInit_config_regs cfg ETH_BUFFER_MODE_FIFO_def)
  show "rx_holds e' []" "tx_holds e' []" "rx_words e' = 1024" "tx_words e' = 1024"
    by (simp_all add: e'_def rx_holds_def rx_ok_def rx_words_def rx_enc_def ring_get_def tx_holds_def tx_ok_def
      tx_words_def tx_enc_def tx_base_def tx_head_def tx_tail_def BUF_SIZE_def EthOn_defs ETH_PHYCmd_def)
  show "d2 = d" "ETH_R_CFG e' = 0x056E" "ETH_X_CFG e' = 0x01FA" "ETH_G_CFGl e' = 0x4080" "ETH_G_CFGh e' = 0x3000"
    using e2 by (simp_all add: e'_def EthOn_defs ETH_PHYCmd_def reg_defs)
  have regs: "ETH_GetMACAddress e2 = (0x78AB, 0x3456, 0x0012)" "(ETH_HASH0 e2, ETH_HASH1 e2, ETH_HASH2 e2, ETH_HASH3 e2) = (0, 0, 0, 0x0800)"
      "(ETH_IPG e2, ETH_PSC e2, ETH_BAG e2, ETH_JitterWnd e2) = (0x60, 0x31, 0x64, 4)"
      "PHY_Control e2 = to_u16 (to_u32 (PHY_Control e1) OR 0xE00E)"
    using assms(2) by (auto simp: ETH_Init_def Let_def EthInit_config_def ETH_StructInit_def ETH_GetMACAddress_def reg_defs)
  then show "ETH_GetMACAddress e' = (0x78AB, 0x3456, 0x0012)" "(ETH_HASH0 e', ETH_HASH1 e', ETH_HASH2 e', ETH_HASH3 e') = (0, 0, 0, 0x0800)"
      "(ETH_IPG e', ETH_PSC e', ETH_BAG e', ETH_JitterWnd e') = (0x60, 0x31, 0x64, 4)"
      "(ETH_IMR e', ETH_IFR e', ETH_Dilimiter e') = (0, 0xDFFF, 0x1000)"
    by (simp_all add: e'_def EthOn_defs ETH_PHYCmd_def ETH_GetMACAddress_def)
  have "PHY_Control e1 = PHY_Control e AND NOT 1"
    using assms(1) by (auto simp: ETH_DeInit_def ETH_PHY_Reset_def Let_def reg_defs)
  then have "PHY_Control e' = to_u16 (to_u32 (PHY_Control e AND NOT 1) OR 0xE00E) OR 1"
    using regs(4) by (simp add: e'_def EthOn_defs ETH_PHYCmd_def switch_bits_def reg_defs)
  also have "\<dots> = ((PHY_Control e AND NOT 1) OR 0xE00E) OR 1"
    by (intro bit_word_eqI) (auto simp: bit_simps)
  also have "\<dots> = PHY_Control e OR 0xE00F"
  proof -
    have "((x AND NOT 1) OR 0xE00E) OR 1 = x OR 0xE00F" for x :: u16
    proof -
      have "(x AND NOT 1) OR 1 = x OR 1"
        by (intro bit_word_eqI) (auto simp: bit_simps)
      then have "((x AND NOT 1) OR 0xE00E) OR 1 = (x OR 1) OR 0xE00E"
        by (metis or.assoc or.commute)
      also have "\<dots> = x OR 0xE00F"
        by (simp add: or.assoc)
      finally show ?thesis .
    qed
    then show ?thesis .
  qed
  finally show "PHY_Control e' = PHY_Control e OR 0xE00F" .
qed

text \<open>
  C40. \<open>EthInit\<close> returns if and only if the PHY reports ready at some time after the reset request;
  the clock generator is not waited for beyond ten attempts. Afterwards both frame regions
  are empty and have 1024 words, and the registers have these values: the global configuration (linear buffers, the
  resets released), the transmitter (still off; padding, preamble, checksum and gap automatic), the
  receiver (still off; all packets, broadcast, unicast and control frames, no hash filter), the default MAC address of the driver,
  the hash table, the gaps, no interrupt allowed, the PHY out of reset with address 28 and auto-negotiation. Ethernet and PHY
  have their clocks, the PHY from HSE2 undivided, HSE2 is on and bypassed, and the DMA controller has its clock. Of the frame filters, long frames
  are let in (bit 6) and short ones are not (bit 7), although the configuration asks for the
  opposite.
\<close>

theorem EthInit_correct:
  "case EthInit prep rd phy (t, c, d, e) of
     None \<Rightarrow> \<forall>i. phy i AND ETH_PHY_FLAG_READY = 0
   | Some (t', c', d', e') \<Rightarrow> (\<exists>i. phy i AND ETH_PHY_FLAG_READY \<noteq> 0) \<and> d' = d
       \<and> rx_holds e' [] \<and> tx_holds e' [] \<and> rx_words e' = 1024 \<and> tx_words e' = 1024
       \<and> ETH_G_CFGl e' = 0x4080 \<and> ETH_G_CFGh e' = 0x3000 \<and> ETH_X_CFG e' = 0x01FA \<and> ETH_R_CFG e' = 0x056E
       \<and> ETH_GetMACAddress e' = (0x78AB, 0x3456, 0x0012)
       \<and> (ETH_HASH0 e', ETH_HASH1 e', ETH_HASH2 e', ETH_HASH3 e') = (0, 0, 0, 0x0800)
       \<and> (ETH_IPG e', ETH_PSC e', ETH_BAG e', ETH_JitterWnd e') = (0x60, 0x31, 0x64, 4)
       \<and> (ETH_IMR e', ETH_IFR e', ETH_Dilimiter e') = (0, 0xDFFF, 0x1000) \<and> PHY_Control e' = PHY_Control e OR 0xE00F
       \<and> ETH_CLOCK c' AND 0x79FF00FF = 0x39000000 \<and> PER_CLOCK c' AND RST_CLK_PCLK_DMA = RST_CLK_PCLK_DMA
       \<and> HS_CONTROL c' AND (RST_CLK_HSE2_ON OR RST_CLK_HSE2_Bypass) = RST_CLK_HSE2_ON OR RST_CLK_HSE2_Bypass
       \<and> bit (ETH_R_CFG e') 6 \<and> \<not> bit (ETH_R_CFG e') 7
       \<and> ETH_Short_Frames_Reception EthInit_config = ENABLE \<and> ETH_Long_Frames_Reception EthInit_config = DISABLE"
proof (cases "ETH_DeInit phy e")
  case None
  then have "\<forall>i. phy i AND ETH_PHY_FLAG_READY = 0"
    using ETH_PHY_Reset_returns [of phy e] by (auto simp: ETH_DeInit_def)
  then show ?thesis
    using None by (simp add: EthInit_def Let_def)
next
  case (Some e1)
  obtain d2 e2 where i: "ETH_Init prep EthInit_config (d, e1) = (d2, e2)" by force
  note regs = EthInit_eth [OF Some i]
  have "\<exists>i. phy i AND ETH_PHY_FLAG_READY \<noteq> 0"
    using ETH_PHY_Reset_returns [of phy e] Some by (auto simp: ETH_DeInit_def)
  moreover have "PER_CLOCK (ETH_ClockCMD a b (ETH_BRGInit x (ETH_PHY_ClockConfig y z
      (RST_CLK_HSE2config m (RST_CLK_PCLKcmd RST_CLK_PCLK_DMA ENABLE w))))) AND RST_CLK_PCLK_DMA = RST_CLK_PCLK_DMA" for a b x y z m w
    by (auto simp: ETH_ClockCMD_def ETH_BRGInit_def ETH_PHY_ClockConfig_def RST_CLK_HSE2config_def RST_CLK_PCLKcmd_def Let_def
        switch_bits_def bit_simps intro!: bit_word_eqI)
  moreover have "HS_CONTROL (ETH_ClockCMD a b (ETH_BRGInit x (ETH_PHY_ClockConfig y z
      (RST_CLK_HSE2config RST_CLK_HSE2_Bypass w)))) AND (RST_CLK_HSE2_ON OR RST_CLK_HSE2_Bypass) = RST_CLK_HSE2_ON OR RST_CLK_HSE2_Bypass"
    for a b x y z w
    by (auto simp: ETH_ClockCMD_def ETH_BRGInit_def ETH_PHY_ClockConfig_def RST_CLK_HSE2config_def Let_def
        bit_simps intro!: bit_word_eqI)
  moreover have "ETH_CLOCK (ETH_ClockCMD ETH_CLK1 ENABLE (ETH_BRGInit 0 (ETH_PHY_ClockConfig ETH_PHY_CLOCK_SOURCE_HSE2 0 x)))
      AND 0x79FF00FF = 0x39000000" if "ETH_CLOCK x AND 0x79FF00FF = 0" for x
  proof -
    have sub: "y AND 0x49000000 = 0" if "y AND 0x79FF00FF = 0" for y :: u32
    proof -
      have "y AND 0x49000000 = (y AND 0x79FF00FF) AND 0x49000000"
        by (simp add: and.assoc)
      then show ?thesis
        by (simp only: that and_zero_eq zero_and_eq)
    qed
    have "y AND 0x79FF00FF = 0 \<Longrightarrow> (((y AND NOT 0x30FF0000 OR 0x30000000) OR 0x08000000) AND NOT 0xFF OR 0x01000000) AND 0x79FF00FF
        = 0x39000000" for y :: u32
      by (simp add: bit.conj_disj_distrib2 and.assoc sub)
    then show ?thesis
      using that by (simp add: ETH_ClockCMD_def ETH_BRGInit_def ETH_PHY_ClockConfig_def Let_def reg_defs c_defs)
  qed
  moreover have "ETH_CLOCK (RST_CLK_HSE2config m (RST_CLK_PCLKcmd p s (ETH_ClockDeInit c))) AND 0x79FF00FF = 0" for m p s
    by (simp add: RST_CLK_HSE2config_def RST_CLK_PCLKcmd_def ETH_ClockDeInit_def Let_def reg_defs and.assoc)
  moreover have "ETH_Short_Frames_Reception EthInit_config = ENABLE" "ETH_Long_Frames_Reception EthInit_config = DISABLE"
    by (simp_all add: EthInit_config_def)
  ultimately show ?thesis
    using Some i regs by (simp add: EthInit_def Let_def bit_simps)
qed

end
