(* ===== verification/BiLED.thy ===== *)
theory BiLED
  imports Port RstClk
begin

text \<open>
  The two-colour lamp of \<open>Application/BiLED.c\<close>: colours, the two pins of a lamp,
  \<open>SetBiLED\<close> and \<open>InitBiLED\<close>; and the other pins that \<open>Main.c\<close> configures, the two status
  inputs (\<open>InputDisturbancePortInit\<close>) and two test outputs (\<open>TestLedInit\<close>, not called).
\<close>

datatype TBiLEDColor = LED_BLACK | LED_RED | LED_GREEN | LED_YELLOW

record TLED_PortPin =
  PORTx :: port_id
  PORT_Pin_no :: nat

record TBiLED =
  Green :: TLED_PortPin
  Red :: TLED_PortPin

definition led_mask :: "TLED_PortPin \<Rightarrow> u32" where
  "led_mask l = PORT_Pin_n (PORT_Pin_no l)"

fun SetBiLED :: "TBiLED \<Rightarrow> TBiLEDColor \<Rightarrow> ports \<Rightarrow> ports" where
  "SetBiLED L LED_BLACK ps =
     PORT_ResetBits (PORTx (Green L)) (led_mask (Green L))
       (PORT_ResetBits (PORTx (Red L)) (led_mask (Red L)) ps)"
| "SetBiLED L LED_RED ps =
     PORT_ResetBits (PORTx (Green L)) (led_mask (Green L))
       (PORT_SetBits (PORTx (Red L)) (led_mask (Red L)) ps)"
| "SetBiLED L LED_GREEN ps =
     PORT_SetBits (PORTx (Green L)) (led_mask (Green L))
       (PORT_ResetBits (PORTx (Red L)) (led_mask (Red L)) ps)"
| "SetBiLED L LED_YELLOW ps =
     PORT_SetBits (PORTx (Green L)) (led_mask (Green L))
       (PORT_SetBits (PORTx (Red L)) (led_mask (Red L)) ps)"

text \<open>\<open>m_Led\<close> of \<open>Main.c\<close> with the pins of \<open>HW_Profile.h\<close>: green PF6, red PF5.\<close>

definition m_Led :: TBiLED where
  "m_Led = \<lparr>Green = \<lparr>PORTx = MDR_PORTF, PORT_Pin_no = 6\<rparr>, Red = \<lparr>PORTx = MDR_PORTF, PORT_Pin_no = 5\<rparr>\<rparr>"

text \<open>The base addresses, from which \<open>PCLK_BIT\<close> takes the clock bit of a port.\<close>

fun port_base :: "port_id \<Rightarrow> u32" where
  "port_base MDR_PORTA = 0x400A8000"
| "port_base MDR_PORTB = 0x400B0000"
| "port_base MDR_PORTC = 0x400B8000"
| "port_base MDR_PORTD = 0x400C0000"
| "port_base MDR_PORTE = 0x400C8000"
| "port_base MDR_PORTF = 0x400E8000"

definition led_pin_config :: "TLED_PortPin \<Rightarrow> PORT_InitTypeDef" where
  "led_pin_config l = PORT_StructInit\<lparr>PORT_Pin := ucast (led_mask l), PORT_OE := 1, PORT_FUNC := 0,
     PORT_MODE := 1, PORT_SPEED := 1\<rparr>"

definition InitLED_Pin :: "TLED_PortPin \<Rightarrow> clk \<times> ports \<Rightarrow> clk \<times> ports" where
  "InitLED_Pin l s =
     (let (c, ps) = s
      in (RST_CLK_PCLKcmd (PCLK_BIT (port_base (PORTx l))) ENABLE c,
          PORT_Init (PORTx l) (led_pin_config l) ps))"

definition InitBiLED :: "TBiLED \<Rightarrow> clk \<times> ports \<Rightarrow> clk \<times> ports" where
  "InitBiLED L s = InitLED_Pin (Green L) (InitLED_Pin (Red L) s)"

section \<open>The other pins\<close>

text \<open>\<open>junk\<close>: the automatic variable of type \<open>PORT_InitTypeDef\<close> before its members are set.\<close>

definition InputDisturbancePortInit :: "PORT_InitTypeDef \<Rightarrow> clk \<times> ports \<Rightarrow> clk \<times> ports" where
  "InputDisturbancePortInit junk s =
     (let (c, ps) = s;
          PORTDInit = junk\<lparr>PORT_Pin := ucast (PORT_Pin_n 2 OR PORT_Pin_n 1), PORT_OE := 0,
                           PORT_FUNC := 0, PORT_MODE := 1, PORT_SPEED := 2\<rparr>
      in (RST_CLK_PCLKcmd RST_CLK_PCLK_PORTD ENABLE c, PORT_Init MDR_PORTD PORTDInit ps))"

definition TestLedInit :: "PORT_InitTypeDef \<Rightarrow> clk \<times> ports \<Rightarrow> clk \<times> ports" where
  "TestLedInit junk s =
     (let (c, ps) = s;
          PORTFInit = junk\<lparr>PORT_Pin := ucast (PORT_Pin_n 5 OR PORT_Pin_n 7), PORT_OE := 1,
                           PORT_FUNC := 0, PORT_MODE := 1, PORT_SPEED := 3\<rparr>
      in (RST_CLK_PCLKcmd RST_CLK_PCLK_PORTC ENABLE c, PORT_Init MDR_PORTC PORTFInit ps))"

section \<open>What the lamp shows\<close>

text \<open>The colour that the two pins show: (red lamp, green lamp).\<close>

fun lamps :: "TBiLEDColor \<Rightarrow> bool \<times> bool" where
  "lamps LED_BLACK = (False, False)"
| "lamps LED_RED = (True, False)"
| "lamps LED_GREEN = (False, True)"
| "lamps LED_YELLOW = (True, True)"

definition shown :: "TBiLED \<Rightarrow> ports \<Rightarrow> bool \<times> bool" where
  "shown L ps = (pin_out ps (PORTx (Red L)) (PORT_Pin_no (Red L)),
                 pin_out ps (PORTx (Green L)) (PORT_Pin_no (Green L)))"

definition led_ok :: "TBiLED \<Rightarrow> bool" where
  "led_ok L \<longleftrightarrow> PORT_Pin_no (Red L) < 16 \<and> PORT_Pin_no (Green L) < 16
     \<and> (PORTx (Red L), PORT_Pin_no (Red L)) \<noteq> (PORTx (Green L), PORT_Pin_no (Green L))"

lemma SetBiLED_shows: "led_ok L \<Longrightarrow> shown L (SetBiLED L c ps) = lamps c"
  by (cases c) (auto simp: shown_def led_ok_def led_mask_def pin_simps)

lemma SetBiLED_frame:
  assumes "led_ok L"
    and "(P, n) \<noteq> (PORTx (Red L), PORT_Pin_no (Red L))"
    and "(P, n) \<noteq> (PORTx (Green L), PORT_Pin_no (Green L))"
  shows "pin_out (SetBiLED L c ps) P n = pin_out ps P n"
  using assms by (cases c) (auto simp: led_ok_def led_mask_def pin_simps)

lemma m_Led_ok: "led_ok m_Led"
  by (simp add: led_ok_def m_Led_def)

text \<open>
  Once \<open>InitBiLED\<close> has run, both pins of the lamp are digital outputs under control of the
  port and the clock of the port is on; \<open>SetBiLED\<close> with any colour, from any earlier colour,
  drives the two pins with exactly that colour and no other pin of any port.
\<close>

theorem BiLED_correct:
  assumes "led_ok L"
  shows "shown L (SetBiLED L c ps) = lamps c
    \<and> (\<forall>P n. (P, n) \<noteq> (PORTx (Red L), PORT_Pin_no (Red L))
        \<longrightarrow> (P, n) \<noteq> (PORTx (Green L), PORT_Pin_no (Green L))
        \<longrightarrow> pin_out (SetBiLED L c ps) P n = pin_out ps P n)
    \<and> (\<forall>l \<in> {Red L, Green L}.
         pin_config (snd (InitBiLED L (ck, ps)) (PORTx l)) (PORT_Pin_no l)
           = PORT_StructInit\<lparr>PORT_Pin := push_bit (PORT_Pin_no l) 1, PORT_OE := 1, PORT_FUNC := 0,
               PORT_MODE := 1, PORT_SPEED := 1\<rparr>
         \<and> PER_CLOCK (fst (InitBiLED L (ck, ps))) AND PCLK_BIT (port_base (PORTx l))
             = PCLK_BIT (port_base (PORTx l)))"
proof (intro conjI SetBiLED_shows [OF assms])
  show "\<forall>P n. (P, n) \<noteq> (PORTx (Red L), PORT_Pin_no (Red L))
        \<longrightarrow> (P, n) \<noteq> (PORTx (Green L), PORT_Pin_no (Green L))
        \<longrightarrow> pin_out (SetBiLED L c ps) P n = pin_out ps P n"
    using SetBiLED_frame [OF assms] by blast
  have cfg: "init_ok (led_pin_config l)" for l
    by (simp add: init_ok_def led_pin_config_def PORT_StructInit_def)
  have b: "bit (PORT_Pin (led_pin_config l)) k \<longleftrightarrow> k = PORT_Pin_no l" if "k < 16" for l k
    using that by (auto simp: led_pin_config_def led_mask_def PORT_Pin_n_def bit_simps)
  have "(x OR m) AND m = m" "((x OR m') OR m) AND m' = m'" for x m m' :: u32
    by (intro bit_word_eqI; auto simp: bit_simps)+
  then show "\<forall>l \<in> {Red L, Green L}.
         pin_config (snd (InitBiLED L (ck, ps)) (PORTx l)) (PORT_Pin_no l)
           = PORT_StructInit\<lparr>PORT_Pin := push_bit (PORT_Pin_no l) 1, PORT_OE := 1, PORT_FUNC := 0,
               PORT_MODE := 1, PORT_SPEED := 1\<rparr>
         \<and> PER_CLOCK (fst (InitBiLED L (ck, ps))) AND PCLK_BIT (port_base (PORTx l))
             = PCLK_BIT (port_base (PORTx l))"
    using assms b
    by (auto simp: led_ok_def InitBiLED_def InitLED_Pin_def pin_config_PORT_Init [OF cfg]
        RST_CLK_PCLKcmd_def c_defs) (auto simp: led_pin_config_def)
qed

theorem BiLED_correct_witness:
  "shown m_Led (SetBiLED m_Led LED_YELLOW ports_zero) = (True, True)
   \<and> shown m_Led (SetBiLED m_Led LED_RED (SetBiLED m_Led LED_GREEN ports_zero)) = (True, False)"
  using BiLED_correct [OF m_Led_ok, THEN conjunct1, of LED_YELLOW ports_zero]
    BiLED_correct [OF m_Led_ok, THEN conjunct1, of LED_RED "SetBiLED m_Led LED_GREEN ports_zero"]
  by (simp only: lamps.simps simp_thms)

text \<open>
  After \<open>InputDisturbancePortInit\<close> the two status pins PD1 and PD2 are digital inputs; whether
  their pull-up and pull-down resistors are on is decided by what the uninitialised members
  of the structure happened to hold.
\<close>

theorem InputDisturbancePortInit_pins:
  assumes "init_ok junk" "k \<in> {1, 2}"
  shows "PORT_OE (pin_config (snd (InputDisturbancePortInit junk (c, ps)) MDR_PORTD) k) = 0
    \<and> PORT_MODE (pin_config (snd (InputDisturbancePortInit junk (c, ps)) MDR_PORTD) k) = 1
    \<and> PORT_FUNC (pin_config (snd (InputDisturbancePortInit junk (c, ps)) MDR_PORTD) k) = 0
    \<and> PORT_PULL_UP (pin_config (snd (InputDisturbancePortInit junk (c, ps)) MDR_PORTD) k) = PORT_PULL_UP junk
    \<and> PORT_PULL_DOWN (pin_config (snd (InputDisturbancePortInit junk (c, ps)) MDR_PORTD) k)
        = PORT_PULL_DOWN junk"
proof -
  let ?S = "junk\<lparr>PORT_Pin := ucast (PORT_Pin_n 2 OR PORT_Pin_n 1), PORT_OE := 0, PORT_FUNC := 0,
      PORT_MODE := 1, PORT_SPEED := 2\<rparr>"
  have ok: "init_ok ?S" using assms(1) by (simp add: init_ok_def)
  have k: "bit (PORT_Pin ?S) k" "k < 16" using assms(2) by (auto simp: PORT_Pin_n_def bit_simps)
  have "snd (InputDisturbancePortInit junk (c, ps)) = PORT_Init MDR_PORTD ?S ps"
    by (simp add: InputDisturbancePortInit_def)
  moreover have "pin_config (PORT_Init MDR_PORTD ?S ps MDR_PORTD) k = ?S\<lparr>PORT_Pin := push_bit k 1\<rparr>"
    unfolding pin_config_PORT_Init [OF ok k(2)] using k(1) by (simp only: simp_thms if_True)
  ultimately show ?thesis by simp
qed

theorem InputDisturbancePortInit_pins_witness:
  "PORT_OE (pin_config (snd (InputDisturbancePortInit (PORT_StructInit\<lparr>PORT_PULL_UP := 1\<rparr>)
      (clk_zero, ports_zero)) MDR_PORTD) 2) = 0
   \<and> PORT_PULL_UP (pin_config (snd (InputDisturbancePortInit (PORT_StructInit\<lparr>PORT_PULL_UP := 1\<rparr>)
      (clk_zero, ports_zero)) MDR_PORTD) 2) = 1"
proof -
  have "init_ok (PORT_StructInit\<lparr>PORT_PULL_UP := 1\<rparr>)" by (simp add: init_ok_def PORT_StructInit_def)
  from InputDisturbancePortInit_pins [OF this, of 2 clk_zero ports_zero] show ?thesis by simp
qed

end
