(* ===== verification/Eeprom.thy ===== *)
theory Eeprom
  imports BiLED
begin

text \<open>
  Reading the hardware address: \<open>Application/eeprom_new.c\<close> drives the serial memory 25AA02E48 by
  software on port C (MOSI PC5, MISO PC6, SCLK PC7, CS PC8, WP PC9, HOLD PC10).

  The memory chip is a parameter: \<open>miso\<close> gives the level that it drives on MISO after a falling
  edge of SCLK, from the bits it has sampled on MOSI at the rising edges since it was
  selected. What its data sheet promises for the read instruction is \<open>answers_read\<close>. Debug
  output with \<open>printf\<close> and the delay loops are left out.
\<close>

section \<open>The wires\<close>

type_synonym chip = "bool list \<Rightarrow> bool"

record spi =
  sp_ports :: ports
  session :: "bool list"
  level :: bool

definition SCLK :: "ports \<Rightarrow> bool" where "SCLK ps = pin_out ps MDR_PORTC 7"
definition MOSI :: "ports \<Rightarrow> bool" where "MOSI ps = pin_out ps MDR_PORTC 5"
definition CS :: "ports \<Rightarrow> bool" where "CS ps = pin_out ps MDR_PORTC 8"
definition HOLD :: "ports \<Rightarrow> bool" where "HOLD ps = pin_out ps MDR_PORTC 10"

lemmas wire_defs = SCLK_def MOSI_def CS_def HOLD_def

text \<open>A change of the outputs of port C as the chip sees it.\<close>

definition drive :: "chip \<Rightarrow> ports \<Rightarrow> spi \<Rightarrow> spi" where
  "drive miso ps s =
     (let old = sp_ports s; s1 = s\<lparr>sp_ports := ps\<rparr>
      in if CS ps then s1\<lparr>session := []\<rparr>
         else if HOLD ps \<and> \<not> SCLK old \<and> SCLK ps then s1\<lparr>session := session s @ [MOSI ps]\<rparr>
         else if HOLD ps \<and> SCLK old \<and> \<not> SCLK ps then s1\<lparr>level := miso (session s)\<rparr>
         else s1)"

definition set_C :: "chip \<Rightarrow> u32 \<Rightarrow> spi \<Rightarrow> spi" where
  "set_C miso pins s = drive miso (PORT_SetBits MDR_PORTC pins (sp_ports s)) s"

definition reset_C :: "chip \<Rightarrow> u32 \<Rightarrow> spi \<Rightarrow> spi" where
  "reset_C miso pins s = drive miso (PORT_ResetBits MDR_PORTC pins (sp_ports s)) s"

text \<open>The ports as a load sees them: bit 6 of \<open>RXTX\<close> is the level on MISO.\<close>

definition sampled_ports :: "spi \<Rightarrow> ports" where
  "sampled_ports s =
     (let ps = sp_ports s
      in ps(MDR_PORTC := (ps MDR_PORTC)\<lparr>RXTX :=
           (if level s then RXTX (ps MDR_PORTC) OR PORT_Pin_n 6
            else RXTX (ps MDR_PORTC) AND NOT (PORT_Pin_n 6))\<rparr>))"

section \<open>The code\<close>

definition eeprom_new_init :: "chip \<Rightarrow> PORT_InitTypeDef \<Rightarrow> clk \<times> spi \<Rightarrow> clk \<times> spi" where
  "eeprom_new_init miso junk s =
     (let (c, sp) = s;
          c1 = RST_CLK_PCLKcmd RST_CLK_PCLK_PORTC ENABLE c;
          P1 = junk\<lparr>PORT_Pin := ucast (PORT_Pin_n 6), PORT_OE := 0, PORT_FUNC := 0, PORT_MODE := 1,
                    PORT_SPEED := 2\<rparr>;
          sp1 = sp\<lparr>sp_ports := PORT_Init MDR_PORTC P1 (sp_ports sp)\<rparr>;
          P2 = P1\<lparr>PORT_Pin := ucast (PORT_Pin_n 8 OR PORT_Pin_n 9 OR PORT_Pin_n 5 OR PORT_Pin_n 7
                                       OR PORT_Pin_n 10),
                  PORT_OE := 1, PORT_FUNC := 0, PORT_MODE := 1, PORT_SPEED := 2\<rparr>;
          sp2 = sp1\<lparr>sp_ports := PORT_Init MDR_PORTC P2 (sp_ports sp1)\<rparr>;
          sp3 = set_C miso (PORT_Pin_n 8) sp2
      in (c1, reset_C miso (PORT_Pin_n 9 OR PORT_Pin_n 10) sp3))"

text \<open>One pass of the loop of \<open>SendByte\<close>, and the loop with the number of passes left.\<close>

definition SendByte_pass :: "chip \<Rightarrow> u8 \<Rightarrow> spi \<Rightarrow> spi" where
  "SendByte_pass miso byte s =
     (let s1 = reset_C miso (PORT_Pin_n 7) s;
          s2 = (if byte AND 0x80 \<noteq> 0 then set_C miso (PORT_Pin_n 5) s1
                else reset_C miso (PORT_Pin_n 5) s1);
          s3 = set_C miso (PORT_Pin_n 7) s2
      in reset_C miso (PORT_Pin_n 7) s3)"

primrec SendByte_loop :: "chip \<Rightarrow> nat \<Rightarrow> u8 \<Rightarrow> spi \<Rightarrow> spi" where
  "SendByte_loop miso 0 byte s = s"
| "SendByte_loop miso (Suc n) byte s =
     SendByte_loop miso n (push_bit 1 byte) (SendByte_pass miso byte s)"

definition SendByte :: "chip \<Rightarrow> u8 \<Rightarrow> spi \<Rightarrow> spi" where
  "SendByte miso byte s = SendByte_loop miso 8 byte s"

text \<open>\<open>n\<close> passes left, that is \<open>i = 8 - n\<close>; \<open>i < 7\<close> is \<open>1 < n\<close>.\<close>

definition ReadByteSPI_pass :: "chip \<Rightarrow> bool \<Rightarrow> u8 \<times> spi \<Rightarrow> u8 \<times> spi" where
  "ReadByteSPI_pass miso again rs =
     (let (ret, s) = rs;
          s2 = set_C miso (PORT_Pin_n 7) (reset_C miso (PORT_Pin_n 7) s);
          ret1 = (if PORT_ReadInputDataBit MDR_PORTC (PORT_Pin_n 6) (sampled_ports s2) \<noteq> 0
                  then ret + 1 else ret)
      in (if again then push_bit 1 ret1 else ret1, s2))"

primrec ReadByteSPI_loop :: "chip \<Rightarrow> nat \<Rightarrow> u8 \<times> spi \<Rightarrow> u8 \<times> spi" where
  "ReadByteSPI_loop miso 0 rs = rs"
| "ReadByteSPI_loop miso (Suc n) rs = ReadByteSPI_loop miso n (ReadByteSPI_pass miso (0 < n) rs)"

text \<open>\<open>ret0\<close> is the value of the uninitialised variable \<open>ret\<close>.\<close>

definition ReadByteSPI :: "chip \<Rightarrow> u8 \<Rightarrow> spi \<Rightarrow> u8 \<times> spi" where
  "ReadByteSPI miso ret0 s =
     (let (ret, s1) = ReadByteSPI_loop miso 8 (ret0, s) in (ret, reset_C miso (PORT_Pin_n 7) s1))"

definition eephrom_read_byte :: "chip \<Rightarrow> u8 \<Rightarrow> u8 \<Rightarrow> spi \<Rightarrow> u8 \<times> spi" where
  "eephrom_read_byte miso ret0 addr s =
     (let s1 = reset_C miso (PORT_Pin_n 8) s;
          s2 = SendByte miso 0x03 s1;
          s3 = SendByte miso addr s2;
          (ret, s4) = ReadByteSPI miso ret0 s3
      in (ret, set_C miso (PORT_Pin_n 8) s4))"

primrec eeprom_read_loop :: "chip \<Rightarrow> (nat \<Rightarrow> u8) \<Rightarrow> nat \<Rightarrow> u8 list \<times> spi \<Rightarrow> u8 list \<times> spi" where
  "eeprom_read_loop miso junk 0 es = es"
| "eeprom_read_loop miso junk (Suc n) es =
     (let (eui, s) = eeprom_read_loop miso junk n es;
          (b, s1) = eephrom_read_byte miso (junk n) (0xFA + of_nat n) s
      in (eui @ [b], s1))"

definition BAD_EUII :: "u8 list list" where
  "BAD_EUII = [[0xFF, 0xFF, 0xFF, 0xFF, 0xFF, 0xFF], [0, 0, 0, 0, 0, 0]]"

text \<open>\<open>None\<close>: a bad address, on which the code stays in a loop that shows the red lamp.\<close>

definition eeprom_read :: "chip \<Rightarrow> (nat \<Rightarrow> u8) \<Rightarrow> spi \<Rightarrow> (u8 list \<times> spi) option" where
  "eeprom_read miso junk s =
     (let s1 = set_C miso (PORT_Pin_n 10) s;
          (eui, s2) = eeprom_read_loop miso junk 6 ([], s1);
          s3 = reset_C miso (PORT_Pin_n 10) s2
      in if eui \<noteq> BAD_EUII ! 0 \<and> eui \<noteq> BAD_EUII ! 1 then Some (eui, s3) else None)"

section \<open>The data sheet\<close>

text \<open>The bits of a byte, most significant first.\<close>

definition bits_of :: "u8 \<Rightarrow> bool list" where
  "bits_of b = map (bit b) (rev [0..<8])"

text \<open>
  After the instruction \<open>0x03\<close> and an address the chip shifts the byte at this address out, most
  significant bit first, whatever is on MOSI.
\<close>

definition answers_read :: "chip \<Rightarrow> (u8 \<Rightarrow> u8) \<Rightarrow> bool" where
  "answers_read miso mem \<longleftrightarrow>
     (\<forall>addr xs. length xs < 8 \<longrightarrow>
        miso (bits_of 0x03 @ bits_of addr @ xs) = bit (mem addr) (7 - length xs))"

section \<open>One byte out\<close>

text \<open>Selected, not held, clock low.\<close>

definition clocked :: "spi \<Rightarrow> bool" where
  "clocked s \<longleftrightarrow> \<not> CS (sp_ports s) \<and> HOLD (sp_ports s) \<and> \<not> SCLK (sp_ports s)"

lemmas pin_wires = set_C_def reset_C_def drive_def wire_defs pin_simps

lemma SendByte_pass_session:
  assumes "clocked s"
  shows "clocked (SendByte_pass miso byte s)"
    "session (SendByte_pass miso byte s) = session s @ [bit byte 7]"
    "level (SendByte_pass miso byte s) = miso (session s @ [bit byte 7])"
proof -
  have "byte AND 0x80 \<noteq> 0 \<longleftrightarrow> bit byte 7"
    using and_exp_eq_0_iff_not_bit [of byte 7] by simp
  then show "clocked (SendByte_pass miso byte s)"
    "session (SendByte_pass miso byte s) = session s @ [bit byte 7]"
    "level (SendByte_pass miso byte s) = miso (session s @ [bit byte 7])"
    using assms by (simp_all add: SendByte_pass_def clocked_def Let_def pin_wires)
qed


lemma SendByte_loop_session:
  assumes "clocked s" and "0 < n"
  shows "clocked (SendByte_loop miso n byte s) \<and>
    session (SendByte_loop miso n byte s) = session s @ map (\<lambda>i. bit (push_bit i byte) 7) [0..<n] \<and>
    level (SendByte_loop miso n byte s) = miso (session (SendByte_loop miso n byte s))"
  using assms
proof (induction n arbitrary: byte s)
  case (Suc n)
  note pass = SendByte_pass_session [OF Suc.prems(1), of miso byte]
  have shift: "map (\<lambda>i. bit (push_bit i byte) 7) [0..<Suc n]
    = bit byte 7 # map (\<lambda>i. bit (push_bit i (push_bit 1 byte)) 7) [0..<n]"
    by (subst upt_conv_Cons, simp, simp only: list.map map_Suc_upt [symmetric] map_map)
       (simp add: o_def push_bit_Suc)
  show ?case
  proof (cases "n = 0")
    case True
    then show ?thesis
      using pass by simp
  next
    case False
    then have "0 < n"
      by simp
    from Suc.IH [OF pass(1) this, of "push_bit 1 byte"] show ?thesis
      by (simp only: SendByte_loop.simps pass(2) shift) simp
  qed
qed simp

lemma bits_of_shifted: "map (\<lambda>i. bit (push_bit i byte) 7) [0..<8] = bits_of byte" for byte :: u8
  by (simp add: bits_of_def bit_push_bit_iff upt_rec eval_nat_numeral)

lemma SendByte_session:
  assumes "clocked s"
  shows "clocked (SendByte miso byte s)"
    "session (SendByte miso byte s) = session s @ bits_of byte"
    "level (SendByte miso byte s) = miso (session s @ bits_of byte)"
  using SendByte_loop_session [OF assms, of 8 miso byte]
  by (simp_all add: SendByte_def bits_of_shifted)

section \<open>One byte in\<close>

text \<open>Selected, and MISO shows the next bit once the clock is low.\<close>

definition presented :: "chip \<Rightarrow> spi \<Rightarrow> bool" where
  "presented miso s \<longleftrightarrow> \<not> CS (sp_ports s) \<and> HOLD (sp_ports s)
     \<and> (SCLK (sp_ports s) \<or> level s = miso (session s))"

lemma sampled_level: "PORT_ReadInputDataBit MDR_PORTC (PORT_Pin_n 6) (sampled_ports s) \<noteq> 0 \<longleftrightarrow> level s"
proof -
  have pick: "w AND PORT_Pin_n 6 \<noteq> 0 \<longleftrightarrow> bit w 6" for w :: u32
    using and_exp_eq_0_iff_not_bit [of w 6] by (simp add: PORT_Pin_n_def)
  show ?thesis
    by (simp add: PORT_ReadInputDataBit_def sampled_ports_def Let_def pick bit_or_iff bit_and_iff
        bit_not_iff bit_Pin_n)
qed

lemma ReadByteSPI_pass_result:
  assumes "presented miso s"
  shows "fst (ReadByteSPI_pass miso again (ret, s)) =
      (let r = ret + of_bool (miso (session s)) in if again then push_bit 1 r else r)"
    "presented miso (snd (ReadByteSPI_pass miso again (ret, s)))"
    "\<exists>b. session (snd (ReadByteSPI_pass miso again (ret, s))) = session s @ [b]"
proof -
  define s2 where "s2 = set_C miso (PORT_Pin_n 7) (reset_C miso (PORT_Pin_n 7) s)"
  have level: "level s2 = miso (session s)" and wires: "\<not> CS (sp_ports s2)" "HOLD (sp_ports s2)"
    "SCLK (sp_ports s2)" and session: "\<exists>b. session s2 = session s @ [b]"
    using assms by (auto simp: s2_def presented_def Let_def pin_wires)
  have pass: "ReadByteSPI_pass miso again (ret, s) =
    (let r = ret + of_bool (miso (session s)) in if again then push_bit 1 r else r, s2)"
    by (simp add: ReadByteSPI_pass_def sampled_level level s2_def [symmetric] Let_def)
  show "fst (ReadByteSPI_pass miso again (ret, s)) =
      (let r = ret + of_bool (miso (session s)) in if again then push_bit 1 r else r)"
    "presented miso (snd (ReadByteSPI_pass miso again (ret, s)))"
    "\<exists>b. session (snd (ReadByteSPI_pass miso again (ret, s))) = session s @ [b]"
    using wires session by (simp_all add: pass presented_def)
qed

text \<open>The value of \<open>n\<close> bits on top of what \<open>ret\<close> holds before they are read.\<close>

lemma take_bit_Suc_top:
  "take_bit (Suc n) b = push_bit n (of_bool (bit b n)) + take_bit n b" for b :: u8
proof -
  have "take_bit (Suc n) b = push_bit n (of_bool (bit b n)) OR take_bit n b"
    by (rule bit_eqI) (auto simp: bit_or_iff bit_take_bit_iff bit_push_bit_iff bit_1_iff less_Suc_eq
        dest: bit_imp_le_length)
  also have "\<dots> = push_bit n (of_bool (bit b n)) + take_bit n b"
    by (rule disjunctive_add [symmetric]) (auto simp: bit_take_bit_iff bit_push_bit_iff)
  finally show ?thesis .
qed

lemma ReadByteSPI_loop_result:
  assumes "answers_read miso mem" and "presented miso s"
    and "session s = bits_of 0x03 @ bits_of addr @ xs" and "length xs + n = 8" and "0 < n"
  shows "fst (ReadByteSPI_loop miso n (ret, s)) = push_bit (n - 1) ret + take_bit n (mem addr) \<and>
    presented miso (snd (ReadByteSPI_loop miso n (ret, s)))"
  using assms(2-)
proof (induction n arbitrary: ret s xs)
  case (Suc n)
  let ?p = "ReadByteSPI_pass miso (0 < n) (ret, s)"
  note pass = ReadByteSPI_pass_result [OF Suc.prems(1), of "0 < n" ret]
  have bit: "miso (session s) = bit (mem addr) n"
    using assms(1) Suc.prems(2,3) by (simp add: answers_read_def) (metis diff_add_inverse Suc_eq_plus1 add.commute numeral_eq_Suc)
  obtain b where ses: "session (snd ?p) = bits_of 0x03 @ bits_of addr @ (xs @ [b])"
    using pass(3) Suc.prems(2) by auto
  show ?case
  proof (cases "n = 0")
    case True
    then show ?thesis
      using pass(1,2) bit by (simp add: take_bit_Suc_top)
  next
    case False
    have "fst ?p = push_bit 1 (ret + of_bool (bit (mem addr) n))"
      using False pass(1) by (simp add: bit Let_def)
    then have "push_bit (n - 1) (fst ?p) = push_bit n ret + push_bit n (of_bool (bit (mem addr) n))"
      using False by (cases n) (simp_all only: push_bit_push_bit, simp_all add: push_bit_add)
    with Suc.IH [OF pass(2) ses, of "fst ?p"] Suc.prems(3) False show ?thesis
      by (simp add: take_bit_Suc_top add.assoc)
  qed
qed simp

lemma ReadByteSPI_result:
  assumes "answers_read miso mem" and "presented miso s"
    and "session s = bits_of 0x03 @ bits_of addr"
  shows "fst (ReadByteSPI miso ret0 s) = push_bit 7 ret0 + mem addr \<and>
    clocked (snd (ReadByteSPI miso ret0 s))"
  using ReadByteSPI_loop_result [OF assms(1,2), of addr "[]" 8 ret0] assms(3)
  by (auto simp: ReadByteSPI_def presented_def clocked_def Let_def pin_wires take_bit_word_eq_self
      split: prod.splits)

section \<open>The address\<close>

text \<open>Between two bytes: not selected, so that the chip starts a new instruction.\<close>

definition idle :: "spi \<Rightarrow> bool" where
  "idle s \<longleftrightarrow> CS (sp_ports s) \<and> \<not> SCLK (sp_ports s) \<and> session s = []"

lemma eephrom_read_byte_result:
  assumes "answers_read miso mem" and "idle s" and "HOLD (sp_ports s)"
  shows "fst (eephrom_read_byte miso ret0 addr s) = mem addr + push_bit 7 ret0 \<and>
    idle (snd (eephrom_read_byte miso ret0 addr s)) \<and>
    HOLD (sp_ports (snd (eephrom_read_byte miso ret0 addr s)))"
proof -
  define s1 where "s1 = reset_C miso (PORT_Pin_n 8) s"
  define s2 where "s2 = SendByte miso 0x03 s1"
  define s3 where "s3 = SendByte miso addr s2"
  have start: "clocked s1" "session s1 = []"
    using assms(2,3) by (auto simp: s1_def idle_def clocked_def Let_def pin_wires)
  note sent1 = SendByte_session [OF start(1), of miso "0x03", folded s2_def]
  note sent2 = SendByte_session [OF sent1(1), of miso addr, folded s3_def]
  have "presented miso s3" "session s3 = bits_of 0x03 @ bits_of addr"
    using sent1 sent2 start(2) by (simp_all add: presented_def clocked_def)
  note read = ReadByteSPI_result [OF assms(1) this, of ret0]
  have "eephrom_read_byte miso ret0 addr s =
    (fst (ReadByteSPI miso ret0 s3), set_C miso (PORT_Pin_n 8) (snd (ReadByteSPI miso ret0 s3)))"
    by (simp add: eephrom_read_byte_def s1_def s2_def s3_def split_def Let_def)
  with read show ?thesis
    by (simp add: idle_def clocked_def Let_def pin_wires)
qed

lemma eeprom_read_loop_result:
  assumes "answers_read miso mem" and "idle s" and "HOLD (sp_ports s)"
  shows "fst (eeprom_read_loop miso junk n ([], s)) =
      map (\<lambda>i. mem (0xFA + of_nat i) + push_bit 7 (junk i)) [0..<n] \<and>
    idle (snd (eeprom_read_loop miso junk n ([], s))) \<and>
    HOLD (sp_ports (snd (eeprom_read_loop miso junk n ([], s))))"
proof (induction n)
  case (Suc n)
  let ?e = "eeprom_read_loop miso junk n ([], s)"
  from Suc.IH have "idle (snd ?e)" "HOLD (sp_ports (snd ?e))"
    by simp_all
  from eephrom_read_byte_result [OF assms(1) this, of "junk n" "0xFA + of_nat n"] Suc.IH
  show ?case
    by (simp add: split_def Let_def)
qed (simp add: assms)

lemma eeprom_new_init_idle:
  assumes "\<not> SCLK (sp_ports sp)"
  shows "idle (snd (eeprom_new_init miso P (c, sp)))"
  using assms by (simp add: eeprom_new_init_def idle_def Let_def pin_wires pin_out_PORT_Init bit_or_iff)

text \<open>
  C34. Reading the hardware address. With a memory that answers the read instruction as its data
  sheet says, and the clock line low at reset, \<open>eeprom_new_init\<close> followed by \<open>eeprom_read\<close>
  fetches the six bytes at \<open>0xFA\<close> to \<open>0xFF\<close>: every byte is exact in its lower seven bits, and bit
  7 is inverted when the uninitialised variable \<open>ret\<close> of \<open>ReadByteSPI\<close> is odd. An address of
  all ones or all zeros never returns; otherwise the call returns, with the chip deselected and
  held.
\<close>

theorem eeprom_read_correct:
  assumes "answers_read miso mem" and "\<not> SCLK (sp_ports sp)"
  shows "let s1 = snd (eeprom_new_init miso P (c, sp));
             eui = map (\<lambda>i. mem (0xFA + of_nat i) + push_bit 7 (junk i)) [0..<6]
    in if eui \<in> set BAD_EUII then eeprom_read miso junk s1 = None
       else \<exists>s2. eeprom_read miso junk s1 = Some (eui, s2) \<and> CS (sp_ports s2) \<and> \<not> HOLD (sp_ports s2)"
proof -
  define s1 where "s1 = snd (eeprom_new_init miso P (c, sp))"
  define eui where "eui = map (\<lambda>i. mem (0xFA + of_nat i) + push_bit 7 (junk i)) [0..<6]"
  let ?s = "set_C miso (PORT_Pin_n 10) s1"
  have "idle s1"
    unfolding s1_def by (rule eeprom_new_init_idle) (rule assms(2))
  then have "idle ?s" "HOLD (sp_ports ?s)"
    by (auto simp: idle_def Let_def pin_wires)
  from eeprom_read_loop_result [OF assms(1) this, of junk 6, folded eui_def]
  obtain s2 where "eeprom_read_loop miso junk 6 ([], ?s) = (eui, s2)" "idle s2"
    by (metis prod.collapse)
  then have "if eui \<in> set BAD_EUII then eeprom_read miso junk s1 = None
    else \<exists>s2. eeprom_read miso junk s1 = Some (eui, s2) \<and> CS (sp_ports s2) \<and> \<not> HOLD (sp_ports s2)"
    by (auto simp: eeprom_read_def BAD_EUII_def idle_def Let_def pin_wires)
  then show ?thesis
    unfolding Let_def s1_def eui_def .
qed

text \<open>A chip with a fixed content.\<close>

definition sample_chip :: "(u8 \<Rightarrow> u8) \<Rightarrow> chip" where
  "sample_chip mem bs = bit (mem (horner_sum of_bool 2 (rev (take 8 (drop 8 bs))))) (23 - length bs)"

lemma sample_chip_answers: "answers_read (sample_chip mem) mem"
proof -
  have "horner_sum of_bool 2 (rev (bits_of addr)) = addr" for addr
    using horner_sum_bit_eq_take_bit [of addr 8]
    by (simp add: bits_of_def rev_map take_bit_word_eq_self)
  moreover have "length (bits_of b) = 8" for b
    by (simp add: bits_of_def)
  ultimately show ?thesis
    by (simp add: answers_read_def sample_chip_def)
qed

lemma eeprom_read_correct_witness:
  "\<exists>s2. eeprom_read (sample_chip (\<lambda>a. a)) (\<lambda>i. if i = 2 then 1 else 0)
     (snd (eeprom_new_init (sample_chip (\<lambda>a. a)) PORT_StructInit
        (clk_zero, \<lparr>sp_ports = ports_zero, session = [], level = False\<rparr>)))
     = Some ([0xFA, 0xFB, 0x7C, 0xFD, 0xFE, 0xFF], s2) \<and> CS (sp_ports s2) \<and> \<not> HOLD (sp_ports s2)"
proof -
  have "\<not> SCLK (sp_ports \<lparr>sp_ports = ports_zero, session = [], level = False\<rparr>)"
    by (simp add: SCLK_def pin_out_def ports_zero_def)
  note read = eeprom_read_correct [OF sample_chip_answers this, of "\<lambda>a. a" PORT_StructInit clk_zero
      "\<lambda>i. if i = 2 then 1 else 0"]
  have eui: "map (\<lambda>i. 0xFA + of_nat i + push_bit 7 (if i = 2 then 1 else 0)) [0..<6]
    = [0xFA, 0xFB, 0x7C, 0xFD, 0xFE, 0xFF :: u8]"
    by (simp add: upt_rec)
  have "[0xFA, 0xFB, 0x7C, 0xFD, 0xFE, 0xFF] \<notin> set BAD_EUII"
    by (simp add: BAD_EUII_def)
  with read show ?thesis
    by (simp only: Let_def eui if_False)
qed

end
