(* ===== verification/Netconf.thy ===== *)
theory Netconf
  imports NetifCore EthDriver Eeprom
begin

text \<open>
  Bringing the network up: the initialisation half of \<open>ethernetif.c\<close> (\<open>low_level_init\<close>,
  \<open>ethernetif_init\<close>, the status lamps of \<open>ethernetif_input\<close>) and \<open>Application/netconf.c\<close>
  (\<open>LwIP_Init\<close>, \<open>LwIP_Periodic_Handle\<close>), over the interfaces of \<open>core/netif.c\<close>, the controller and
  the address memory.

  The address of the variable \<open>xnetif\<close> is an argument. \<open>mem_init\<close> and \<open>memp_init\<close> set up the
  heap, which is the argument \<open>heap\<close> of every operation that allocates. TCP is not modelled:
  its timer is the argument \<open>tcp_tmr\<close>. The DHCP half of \<open>netconf.c\<close> is not compiled (\<open>__USE_DHCP\<close> is
  off). \<open>None\<close> as a result is an operation that never returns or a copy beyond an array.
\<close>

section \<open>State and surroundings\<close>

text \<open>
  \<open>b_reads\<close> is the position in the reads of the clock status. \<open>'d\<close> is the state of the DMA
  controller, which the program leaves alone.
\<close>

record 'd board =
  b_reads :: nat
  b_clk :: clk
  b_spi :: spi
  b_dma :: 'd
  MAC_addr :: "u8 list"
  s_pxNetIf :: "u32 option"
  TCPTimer :: u32
  ARPTimer :: u32

text \<open>
  What the hardware answers: clock status, PHY status, the memory chip; and the contents of
  uninitialised variables.
\<close>

record env =
  env_rd :: clk_reads
  env_phy :: "nat \<Rightarrow> u16"
  env_chip :: chip
  env_pins :: PORT_InitTypeDef
  env_ret :: "nat \<Rightarrow> u8"

section \<open>The driver of the interface\<close>

definition mac_half :: "u8 list \<Rightarrow> nat \<Rightarrow> u16" where
  "mac_half hw k = push_bit 8 (to_u16 (hw ! k)) OR to_u16 (hw ! (k + 1))"

definition low_level_init ::
  "('d \<Rightarrow> 'd) \<Rightarrow> env \<Rightarrow> u32 \<Rightarrow> stack \<times> 'd board \<Rightarrow> (stack \<times> 'd board) option" where
  "low_level_init prep env i s =
     (let (st, b) = s
      in case EthInit prep (env_rd env) (env_phy env) (b_reads b, b_clk b, b_dma b, dev (sport st)) of
           None \<Rightarrow> None
         | Some (t, c, d, e) \<Rightarrow>
             let (c1, sp1) = eeprom_new_init (env_chip env) (env_pins env) (c, b_spi b)
             in case eeprom_read (env_chip env) (env_ret env) sp1 of
                  None \<Rightarrow> None
                | Some (mac, sp2) \<Rightarrow>
                    let st1 = set_netif i (\<lambda>n. n\<lparr>hwaddr_len := 6, hwaddr := mac\<rparr>) st;
                        hw = hwaddr (netifs st1 i);
                        e1 = e\<lparr>ETH_MAC_T := mac_half hw 0, ETH_MAC_M := mac_half hw 2, ETH_MAC_H := mac_half hw 4\<rparr>;
                        st2 = set_netif i (\<lambda>n. n\<lparr>mtu := 1500,
                                netif_flags := NETIF_FLAG_BROADCAST OR NETIF_FLAG_ETHARP\<rparr>) st1
                    in Some (st2\<lparr>sport := (sport st2)\<lparr>dev := EthRecTrEn e1\<rparr>\<rparr>,
                             b\<lparr>b_reads := t, b_clk := c1, b_spi := sp2, b_dma := d, MAC_addr := mac,
                               s_pxNetIf := Some i\<rparr>))"

definition ethernetif_init ::
  "('d \<Rightarrow> 'd) \<Rightarrow> env \<Rightarrow> u32 \<Rightarrow> stack \<times> 'd board \<Rightarrow> (err_t \<times> stack \<times> 'd board) option" where
  "ethernetif_init prep env i s =
     (let (st, b) = s
      in map_option (Pair ERR_OK) (low_level_init prep env i (set_netif i (\<lambda>n. n\<lparr>netif_name := ''st''\<rparr>) st, b)))"

text \<open>The end of \<open>ethernetif_input\<close>: the lamps on PF11 and PF10 follow the status bits of the PHY.\<close>

definition ETH_PHY_STATUS_LED1 :: u16 where [reg_defs]: "ETH_PHY_STATUS_LED1 = 0x0002"
definition ETH_PHY_STATUS_LED2 :: u16 where [reg_defs]: "ETH_PHY_STATUS_LED2 = 0x0004"

definition phy_status_leds :: "u16 \<Rightarrow> u16 \<Rightarrow> ports \<Rightarrow> ports" where
  "phy_status_leds status1 status2 ps =
     (let ps1 = (if status1 AND ETH_PHY_STATUS_LED1 = 0 then PORT_SetBits MDR_PORTF (PORT_Pin_n 11) ps
                 else PORT_ResetBits MDR_PORTF (PORT_Pin_n 11) ps)
      in if status2 AND ETH_PHY_STATUS_LED2 = 0 then PORT_SetBits MDR_PORTF (PORT_Pin_n 10) ps1
         else PORT_ResetBits MDR_PORTF (PORT_Pin_n 10) ps1)"

section \<open>netconf.c\<close>

definition IPdevice :: "u32 list" where "IPdevice = [192, 168, 1, 233]"
definition IPmask :: "u32 list" where "IPmask = [255, 255, 255, 0]"
definition IPgw :: "u32 list" where "IPgw = [192, 168, 1, 1]"

definition addr_of :: "u32 list \<Rightarrow> u32" where
  "addr_of a = IP4_ADDR (a ! 0) (a ! 1) (a ! 2) (a ! 3)"

definition LwIP_Init ::
  "('d \<Rightarrow> 'd) \<Rightarrow> env \<Rightarrow> heap \<Rightarrow> u32 \<Rightarrow> stack \<times> 'd board \<Rightarrow> (stack \<times> 'd board) option" where
  "LwIP_Init prep env heap xnetif s =
     (case netif_add (ethernetif_init prep env) heap xnetif (Some (addr_of IPdevice)) (Some (addr_of IPmask))
             (Some (addr_of IPgw)) s of
        None \<Rightarrow> None
      | Some (_, st, b) \<Rightarrow>
          (case netif_set_up heap xnetif (netif_set_default (Some xnetif) st) of
             None \<Rightarrow> None
           | Some st1 \<Rightarrow> map_option (\<lambda>st2. (st2, b)) (netif_set_link_up heap xnetif st1)))"

definition ARP_TMR_INTERVAL :: u32 where [reg_defs]: "ARP_TMR_INTERVAL = 1000"

definition LwIP_Periodic_Handle ::
  "(stack \<Rightarrow> stack option) \<Rightarrow> heap \<Rightarrow> u32 \<Rightarrow> stack \<times> 'd board \<Rightarrow> (stack \<times> 'd board) option" where
  "LwIP_Periodic_Handle tcp_tmr heap localtime s =
     (let (st, b) = s
      in case (if localtime - TCPTimer b \<ge> 250
               then map_option (\<lambda>st1. (st1, b\<lparr>TCPTimer := localtime\<rparr>)) (tcp_tmr st)
               else Some (st, b)) of
           None \<Rightarrow> None
         | Some (st1, b1) \<Rightarrow>
             if localtime - ARPTimer b1 \<ge> ARP_TMR_INTERVAL
             then map_option (\<lambda>st2. (st2, b1\<lparr>ARPTimer := localtime\<rparr>)) (etharp_tmr heap st1)
             else Some (st1, b1))"

section \<open>The network comes up\<close>

lemma EthInit_returns:
  assumes "\<exists>k. phy k AND ETH_PHY_FLAG_READY \<noteq> 0"
  shows "\<exists>t' c' e'. EthInit prep rd phy (t, c, d, e) = Some (t', c', d, e') \<and> rx_holds e' [] \<and> tx_holds e' []
    \<and> rx_words e' = 1024 \<and> tx_words e' = 1024"
proof -
  obtain e1 where e1: "ETH_DeInit phy e = Some e1"
    using ETH_PHY_Reset_returns [of phy e] assms by (auto simp: ETH_DeInit_def Let_def)
  obtain d2 e2 where e2: "ETH_Init prep EthInit_config (d, e1) = (d2, e2)"
    by force
  show ?thesis
    using e1 e2 EthInit_eth(1-5) [OF e1 e2] by (simp add: EthInit_def Let_def)
qed

text \<open>The address that the memory holds, as \<open>eeprom_read\<close> delivers it.\<close>

definition eui_of :: "(u8 \<Rightarrow> u8) \<Rightarrow> (nat \<Rightarrow> u8) \<Rightarrow> u8 list" where
  "eui_of mem junk = map (\<lambda>k. mem (0xFA + of_nat k) + push_bit 7 (junk k)) [0..<6]"

lemma length_eui_of [simp]: "length (eui_of mem junk) = 6"
  by (simp add: eui_of_def)

lemma eeprom_address:
  assumes "answers_read miso mem" "\<not> SCLK (sp_ports sp)" "eui_of mem junk \<notin> set BAD_EUII"
    and "eeprom_new_init miso P (c, sp) = (c1, sp1)"
  shows "\<exists>sp2. eeprom_read miso junk sp1 = Some (eui_of mem junk, sp2) \<and> \<not> SCLK (sp_ports sp2)"
proof -
  let ?s = "set_C miso (PORT_Pin_n 10) sp1"
  have "idle sp1"
    using eeprom_new_init_idle [OF assms(2), of miso P c] assms(4) by simp
  then have "idle ?s" "HOLD (sp_ports ?s)"
    by (auto simp: idle_def Let_def pin_wires)
  from eeprom_read_loop_result [OF assms(1) this, of junk 6, folded eui_of_def]
  obtain s2 where "eeprom_read_loop miso junk 6 ([], ?s) = (eui_of mem junk, s2)" "idle s2"
    by (metis prod.collapse)
  then show ?thesis
    using assms(3) by (auto simp: eeprom_read_def BAD_EUII_def idle_def Let_def pin_wires)
qed

lemma EthRecTrEn_keeps:
  "rx_holds (EthRecTrEn e) fs = rx_holds e fs" "tx_holds (EthRecTrEn e) gs = tx_holds e gs"
  "rx_words (EthRecTrEn e) = rx_words e" "tx_words (EthRecTrEn e) = tx_words e"
  by (simp_all add: rx_holds_def rx_ok_def rx_words_def tx_holds_def tx_ok_def tx_words_def tx_base_def
      tx_head_def tx_tail_def EthRecTrEn_def)

text \<open>The surroundings in which the program can start.\<close>

definition starts :: "env \<Rightarrow> (u8 \<Rightarrow> u8) \<Rightarrow> bool" where
  "starts env mem \<longleftrightarrow> answers_read (env_chip env) mem \<and> (\<exists>k. env_phy env k AND ETH_PHY_FLAG_READY \<noteq> 0)
     \<and> eui_of mem (env_ret env) \<notin> set BAD_EUII"

lemma EthInit_SystemCoreClock:
  "EthInit prep rd phy (t, c, d, e) = Some (t', c', d', e') \<Longrightarrow> SystemCoreClock c' = SystemCoreClock c"
  by (auto simp: EthInit_def Let_def ETH_ClockCMD_def ETH_BRGInit_def ETH_PHY_ClockConfig_def RST_CLK_HSE2config_def
      RST_CLK_PCLKcmd_def ETH_ClockDeInit_def split: option.splits prod.splits)

lemma eeprom_new_init_SystemCoreClock:
  "eeprom_new_init miso P (c, sp) = (c', sp') \<Longrightarrow> SystemCoreClock c' = SystemCoreClock c"
  by (auto simp: eeprom_new_init_def Let_def RST_CLK_PCLKcmd_def)

text \<open>The interface once \<open>netif_add\<close> has made it known.\<close>

lemma low_level_init_result:
  assumes env: "starts env mem" and clk: "\<not> SCLK (sp_ports (b_spi b))"
  defines "eui \<equiv> eui_of mem (env_ret env)"
  shows "\<exists>e b'. low_level_init prep env i (st, b) = Some ((set_netif i (\<lambda>n. n\<lparr>hwaddr_len := 6, hwaddr := eui,
        mtu := 1500, netif_flags := 0x0A\<rparr>) st)\<lparr>sport := (sport st)\<lparr>dev := e\<rparr>\<rparr>, b')
    \<and> rx_holds e [] \<and> tx_holds e [] \<and> rx_words e = 1024 \<and> tx_words e = 1024
    \<and> MAC_addr b' = eui \<and> s_pxNetIf b' = Some i \<and> TCPTimer b' = TCPTimer b \<and> ARPTimer b' = ARPTimer b \<and> SystemCoreClock (b_clk b') = SystemCoreClock (b_clk b)
    \<and> ETH_MAC_T e = mac_half eui 0 \<and> ETH_MAC_M e = mac_half eui 2 \<and> ETH_MAC_H e = mac_half eui 4
    \<and> \<not> SCLK (sp_ports (b_spi b'))"
proof -
  obtain t c e where e: "EthInit prep (env_rd env) (env_phy env) (b_reads b, b_clk b, b_dma b, dev (sport st))
      = Some (t, c, b_dma b, e)" "rx_holds e []" "tx_holds e []" "rx_words e = 1024" "tx_words e = 1024"
    using EthInit_returns [of "env_phy env" prep "env_rd env" "b_reads b" "b_clk b" "b_dma b" "dev (sport st)"] env
    by (auto simp: starts_def)
  obtain c1 sp1 where i: "eeprom_new_init (env_chip env) (env_pins env) (c, b_spi b) = (c1, sp1)"
    by force
  obtain sp2 where r: "eeprom_read (env_chip env) (env_ret env) sp1 = Some (eui, sp2)" "\<not> SCLK (sp_ports sp2)"
    using eeprom_address [OF _ clk _ i] env by (auto simp: starts_def eui_def)
  let ?e = "EthRecTrEn (e\<lparr>ETH_MAC_T := mac_half eui 0, ETH_MAC_M := mac_half eui 2, ETH_MAC_H := mac_half eui 4\<rparr>)"
  have "rx_holds ?e [] \<and> tx_holds ?e [] \<and> rx_words ?e = 1024 \<and> tx_words ?e = 1024"
    using e(2-) by (simp add: EthRecTrEn_keeps)
      (simp add: rx_holds_def rx_ok_def rx_words_def tx_holds_def tx_ok_def tx_words_def tx_base_def tx_head_def tx_tail_def)
  then show ?thesis
    using r(2) eeprom_new_init_SystemCoreClock [OF i] EthInit_SystemCoreClock [OF e(1)] by (intro exI [of _ ?e]) (simp add: low_level_init_def e(1) i r(1) Let_def reg_defs EthRecTrEn_def)
qed

lemma IP_addresses [simp]:
  "addr_of IPdevice = 0xE901A8C0" "addr_of IPmask = 0x00FFFFFF" "addr_of IPgw = 0x0101A8C0"
  by (simp_all add: addr_of_def IPdevice_def IPmask_def IPgw_def IP4_ADDR_def LWIP_MAKEU32_def lwip_htonl_def)

definition xnetif_up :: "u8 list \<Rightarrow> netif" where
  "xnetif_up eui = \<lparr>ip_addr = 0xE901A8C0, netmask = 0x00FFFFFF, gw = 0x0101A8C0, mtu = 1500, hwaddr = eui,
     hwaddr_len = 6, netif_flags = 0x0F, netif_name = ''st'', netif_no = 0\<rparr>"

lemma netif_add_xnetif:
  assumes env: "starts env mem" and clk: "\<not> SCLK (sp_ports (b_spi b))"
  defines "eui \<equiv> eui_of mem (env_ret env)"
  shows "\<exists>e b'. netif_add (ethernetif_init prep env) heap i (Some (addr_of IPdevice)) (Some (addr_of IPmask))
        (Some (addr_of IPgw)) (lwip_start s, b)
      = Some (Some i, (lwip_start (s\<lparr>dev := e\<rparr>))\<lparr>netifs := (\<lambda>_. netif_zero)(i := (xnetif_up eui)\<lparr>netif_flags := 0x0A\<rparr>),
          netif_list := [i], netif_num := 1\<rparr>, b')
    \<and> rx_holds e [] \<and> tx_holds e [] \<and> rx_words e = 1024 \<and> tx_words e = 1024
    \<and> MAC_addr b' = eui \<and> s_pxNetIf b' = Some i \<and> TCPTimer b' = TCPTimer b \<and> ARPTimer b' = ARPTimer b \<and> SystemCoreClock (b_clk b') = SystemCoreClock (b_clk b)
    \<and> ETH_MAC_T e = mac_half eui 0 \<and> ETH_MAC_M e = mac_half eui 2 \<and> ETH_MAC_H e = mac_half eui 4"
proof -
  let ?st1 = "set_netif i (\<lambda>n. n\<lparr>ip_addr := 0, netmask := 0, gw := 0, mtu := 0, netif_flags := 0, netif_no := 0\<rparr>) (lwip_start s)"
  let ?st2 = "set_netif i (\<lambda>n. n\<lparr>ip_addr := 0xE901A8C0, netmask := 0x00FFFFFF, gw := 0x0101A8C0\<rparr>) ?st1"
  have addr: "netif_set_addr heap i (Some 0xE901A8C0) (Some 0x00FFFFFF) (Some 0x0101A8C0) ?st1 = Some ?st2"
    by (rule netif_set_addr_quiet) simp_all
  obtain e b' where init: "low_level_init prep env i (set_netif i (\<lambda>n. n\<lparr>netif_name := ''st''\<rparr>) ?st2, b)
      = Some ((set_netif i (\<lambda>n. n\<lparr>hwaddr_len := 6, hwaddr := eui, mtu := 1500, netif_flags := 0x0A\<rparr>)
          (set_netif i (\<lambda>n. n\<lparr>netif_name := ''st''\<rparr>) ?st2))\<lparr>sport := s\<lparr>dev := e\<rparr>\<rparr>, b')"
    and rest: "rx_holds e [] \<and> tx_holds e [] \<and> rx_words e = 1024 \<and> tx_words e = 1024
    \<and> MAC_addr b' = eui \<and> s_pxNetIf b' = Some i \<and> TCPTimer b' = TCPTimer b \<and> ARPTimer b' = ARPTimer b \<and> SystemCoreClock (b_clk b') = SystemCoreClock (b_clk b)
    \<and> ETH_MAC_T e = mac_half eui 0 \<and> ETH_MAC_M e = mac_half eui 2 \<and> ETH_MAC_H e = mac_half eui 4"
    using low_level_init_result [OF env clk, of prep i "set_netif i (\<lambda>n. n\<lparr>netif_name := ''st''\<rparr>) ?st2"]
    unfolding eui_def by (auto simp: lwip_start_def)
  have loop: "netif_num_loop i st = Some st" if "netif_list st = []" "netif_no (netifs st i) = 0" for st
    using that by (subst netif_num_loop.simps) (simp add: Let_def)
  let ?st3 = "(set_netif i (\<lambda>n. n\<lparr>hwaddr_len := 6, hwaddr := eui, mtu := 1500, netif_flags := 0x0A\<rparr>)
          (set_netif i (\<lambda>n. n\<lparr>netif_name := ''st''\<rparr>) ?st2))\<lparr>sport := s\<lparr>dev := e\<rparr>\<rparr>"
  have start: "netif_num (lwip_start s) = 0" "netif_list (lwip_start s) = []" "netifs (lwip_start s) i = netif_zero"
    by (simp_all add: lwip_start_def)
  have num: "netif_num_loop i ?st3 = Some ?st3"
    by (rule loop) (simp_all add: start)
  have code: "netif_add (ethernetif_init prep env) heap i (Some (addr_of IPdevice)) (Some (addr_of IPmask))
      (Some (addr_of IPgw)) (lwip_start s, b)
    = Some (Some i, ?st3\<lparr>netif_num := 1, netif_list := [i]\<rparr>, b')"
    unfolding netif_add_def Let_def prod.case start IP_addresses addr option.case ethernetif_init_def init
      option.map num by (simp add: start)
  have "?st3\<lparr>netif_num := 1, netif_list := [i]\<rparr>
      = (lwip_start (s\<lparr>dev := e\<rparr>))\<lparr>netifs := (\<lambda>_. netif_zero)(i := (xnetif_up eui)\<lparr>netif_flags := 0x0A\<rparr>),
          netif_list := [i], netif_num := 1\<rparr>"
    by (simp add: lwip_start_def set_netif_def netif_zero_def xnetif_up_def)
  then show ?thesis
    using rest code by auto
qed

lemma LwIP_Init_result:
  assumes env: "starts env mem" and clk: "\<not> SCLK (sp_ports (b_spi b))" and heap: "heap_ok heap"
  defines "eui \<equiv> eui_of mem (env_ret env)"
  shows "\<exists>s' b' fs. LwIP_Init prep env heap i (lwip_start s, b)
      = Some ((lwip_start s')\<lparr>netifs := (\<lambda>_. netif_zero)(i := xnetif_up eui), netif_list := [i],
          netif_default := Some i, netif_num := 1\<rparr>, b')
    \<and> rx_holds (dev s') [] \<and> tx_holds (dev s') fs \<and> rx_words (dev s') = 1024 \<and> tx_words (dev s') = 1024
    \<and> map tx_bytes fs = (if pbuf_alloc_RAM heap PBUF_LINK 28 = None then []
        else [ethbroadcast @ eui @ [0x08, 0x06] @ etharp_hdr ARP_REQUEST eui 0xE901A8C0 ethzero 0xE901A8C0])
    \<and> MAC_addr b' = eui \<and> s_pxNetIf b' = Some i \<and> TCPTimer b' = TCPTimer b \<and> ARPTimer b' = ARPTimer b \<and> SystemCoreClock (b_clk b') = SystemCoreClock (b_clk b)"
proof -
  obtain e b' where add: "netif_add (ethernetif_init prep env) heap i (Some (addr_of IPdevice)) (Some (addr_of IPmask))
        (Some (addr_of IPgw)) (lwip_start s, b)
      = Some (Some i, (lwip_start (s\<lparr>dev := e\<rparr>))\<lparr>netifs := (\<lambda>_. netif_zero)(i := (xnetif_up eui)\<lparr>netif_flags := 0x0A\<rparr>),
          netif_list := [i], netif_num := 1\<rparr>, b')"
    and e: "rx_holds e []" "tx_holds e []" "rx_words e = 1024" "tx_words e = 1024"
    and b': "MAC_addr b' = eui" "s_pxNetIf b' = Some i" "TCPTimer b' = TCPTimer b" "ARPTimer b' = ARPTimer b"
      "SystemCoreClock (b_clk b') = SystemCoreClock (b_clk b)"
    using netif_add_xnetif [OF env clk, of prep heap i s] unfolding eui_def by blast
  define st where "st = (\<lambda>s fl. (lwip_start s)\<lparr>netifs := (\<lambda>_. netif_zero)(i := (xnetif_up eui)\<lparr>netif_flags := fl\<rparr>),
      netif_list := [i], netif_default := Some i, netif_num := 1\<rparr>)"
  have st: "netifs (st s fl) i = (xnetif_up eui)\<lparr>netif_flags := fl\<rparr>" "sport (st s fl) = s"
    "set_netif i (\<lambda>n. n\<lparr>netif_flags := netif_flags n OR g\<rparr>) (st s fl) = st s (fl OR g)"
    "(st s fl)\<lparr>sport := s1\<rparr> = st s1 fl" for s s1 fl g
    by (simp_all add: st_def lwip_start_def set_netif_def)
  let ?s = "s\<lparr>dev := e\<rparr>"
  have up: "netif_set_up heap i (st ?s 0x0A) = Some (st ?s 0x0B)"
    by (simp add: netif_set_up_def st reg_defs netif_issue_reports_def Let_def)
  obtain s' gs where rep: "netif_issue_reports heap i (NETIF_REPORT_TYPE_IPV4 OR NETIF_REPORT_TYPE_IPV6) (st ?s 0x0F)
      = Some ((st ?s 0x0F)\<lparr>sport := s'\<rparr>)"
    and s': "tx_holds (dev s') ([] @ gs)" "tx_words (dev s') = tx_words (dev (sport (st ?s 0x0F)))"
      "rx_same (dev (sport (st ?s 0x0F))) (dev s')"
      "map tx_bytes gs = (if pbuf_alloc_RAM heap PBUF_LINK 28 = None then []
        else [ethbroadcast @ eui @ [0x08, 0x06] @ etharp_hdr ARP_REQUEST eui 0xE901A8C0 ethzero 0xE901A8C0])"
    using netif_issue_reports_sent [of "st ?s 0x0F" i heap "[]"] heap e
    by (auto simp: st xnetif_up_def tx_enc_def eui_def)
  have link: "netif_set_link_up heap i (st ?s 0x0B) = Some (st s' 0x0F)"
    using rep by (simp add: netif_set_link_up_def st) (simp add: reg_defs)
  have "LwIP_Init prep env heap i (lwip_start s, b) = Some (st s' 0x0F, b')"
    using up link by (simp add: LwIP_Init_def add [unfolded IP_addresses] netif_set_default_def)
      (simp add: st_def lwip_start_def)
  moreover have "st s' 0x0F = (lwip_start s')\<lparr>netifs := (\<lambda>_. netif_zero)(i := xnetif_up eui), netif_list := [i],
          netif_default := Some i, netif_num := 1\<rparr>"
    by (simp add: st_def xnetif_up_def)
  moreover have "rx_holds (dev s') []" "rx_words (dev s') = 1024" "tx_words (dev s') = 1024"
    using s'(2,3) e by (simp_all add: st rx_same_def)
  ultimately show ?thesis
    using s'(1,4) b' by (intro exI [of _ s'] exI [of _ b'] exI [of _ gs]) simp
qed

lemma xnetif_routes:
  assumes "netifs st i = xnetif_up eui" "netif_list st = [i]" "netif_default st = Some i"
  shows "ip4_route d st = (if d AND 0xFF = 127 then None else Some i)"
proof -
  have "d AND 0xFF = 0xC0" if "d AND 0xFFFFFF = 0x0001A8C0"
  proof -
    have "d AND 0xFF = (d AND 0xFFFFFF) AND 0xFF"
      by (simp add: and.assoc)
    then show ?thesis
      by (simp add: that)
  qed
  then show ?thesis
    using assms
    by (auto simp: ip4_route_def route_match_def xnetif_up_def netif_is_up_def netif_is_link_up_def reg_defs
        ip4_addr_isloopback_def ip4_addr_netcmp_def lwip_htonl_def)
qed

text \<open>
  C14. The network comes up. With a PHY that reports ready, a memory chip that follows its data sheet
  and holds an address that is not bad, \<open>LwIP_Init\<close> returns: the one interface is the default, it
  is up with link, 192.168.1.233/24, gateway 192.168.1.1, MTU 1500 and the hardware address
  from the chip; the receive queue is empty; the only frame in the transmit queue is the
  gratuitous ARP request for the own address, which is left out if the heap has no memory for it; the
  ARP table is empty and correct; and every destination is routed to the interface but the loop-back
  addresses 127.x.x.x, which have no route.
\<close>

theorem LwIP_Init_correct:
  assumes "starts env mem" "\<not> SCLK (sp_ports (b_spi b))" "heap_ok heap"
  shows "\<exists>st' b' fs. LwIP_Init prep env heap xnetif (lwip_start s, b) = Some (st', b')
    \<and> netifs st' xnetif = \<lparr>ip_addr = IP4_ADDR 192 168 1 233, netmask = IP4_ADDR 255 255 255 0,
         gw = IP4_ADDR 192 168 1 1, mtu = 1500, hwaddr = eui_of mem (env_ret env), hwaddr_len = 6,
         netif_flags = NETIF_FLAG_UP OR NETIF_FLAG_BROADCAST OR NETIF_FLAG_LINK_UP OR NETIF_FLAG_ETHARP,
         netif_name = ''st'', netif_no = 0\<rparr>
    \<and> netif_list st' = [xnetif] \<and> netif_default st' = Some xnetif \<and> (\<forall>d. ip4_route d st' = (if d AND 0xFF = 127 then None else Some xnetif))
    \<and> rx_holds (dev (sport st')) [] \<and> tx_holds (dev (sport st')) fs
    \<and> map tx_bytes fs = (let hw = eui_of mem (env_ret env); ip = IP4_ADDR 192 168 1 233 in
        if pbuf_alloc_RAM heap PBUF_LINK 28 = None then []
        else [ethbroadcast @ hw @ [0x08, 0x06] @ etharp_hdr ARP_REQUEST hw ip ethzero ip])
    \<and> MAC_addr b' = eui_of mem (env_ret env) \<and> s_pxNetIf b' = Some xnetif
    \<and> arp_ok st' \<and> arp_table st' = replicate ARP_TABLE_SIZE empty_entry"
proof -
  let ?eui = "eui_of mem (env_ret env)"
  let ?st = "\<lambda>s'. (lwip_start s')\<lparr>netifs := (\<lambda>_. netif_zero)(xnetif := xnetif_up ?eui), netif_list := [xnetif],
          netif_default := Some xnetif, netif_num := 1\<rparr>"
  obtain s' b' fs where r: "LwIP_Init prep env heap xnetif (lwip_start s, b) = Some (?st s', b')"
    "rx_holds (dev s') []" "tx_holds (dev s') fs" "MAC_addr b' = ?eui" "s_pxNetIf b' = Some xnetif"
    "map tx_bytes fs = (if pbuf_alloc_RAM heap PBUF_LINK 28 = None then []
        else [ethbroadcast @ ?eui @ [0x08, 0x06] @ etharp_hdr ARP_REQUEST ?eui 0xE901A8C0 ethzero 0xE901A8C0])"
    using LwIP_Init_result [OF assms, of prep xnetif s] by blast
  have ip: "IP4_ADDR 192 168 1 233 = 0xE901A8C0" "IP4_ADDR 255 255 255 0 = 0x00FFFFFF" "IP4_ADDR 192 168 1 1 = 0x0101A8C0"
    using IP_addresses by (simp_all add: addr_of_def IPdevice_def IPmask_def IPgw_def)
  have "ip4_route d (?st s') = (if d AND 0xFF = 127 then None else Some xnetif)" for d
    by (rule xnetif_routes) simp_all
  moreover have "arp_ok (?st s')" "arp_table (?st s') = replicate ARP_TABLE_SIZE empty_entry"
    using arp_ok_start [of s'] by (simp_all add: arp_ok_def lwip_start_def ARP_TABLE_SIZE_def)
  ultimately show ?thesis
    using r unfolding ip Let_def
    by (intro exI [of _ "?st s'"] exI [of _ b'] exI [of _ fs]) (simp add: xnetif_up_def reg_defs, simp add: lwip_start_def)
qed

definition sample_env :: env where
  "sample_env = \<lparr>env_rd = (\<lambda>_. (0, 0)), env_phy = (\<lambda>i. if i = 3 then 0x10 else 0), env_chip = sample_chip (\<lambda>a. a),
     env_pins = PORT_StructInit, env_ret = (\<lambda>_. 0)\<rparr>"

definition sample_board :: "unit board" where
  "sample_board = \<lparr>b_reads = 0, b_clk = clk_zero, b_spi = \<lparr>sp_ports = ports_zero, session = [], level = False\<rparr>,
     b_dma = (), MAC_addr = [], s_pxNetIf = None, TCPTimer = 0, ARPTimer = 0\<rparr>"

lemma sample_env_starts: "starts sample_env (\<lambda>a. a)" "eui_of (\<lambda>a. a) (env_ret sample_env) = [0xFA, 0xFB, 0xFC, 0xFD, 0xFE, 0xFF]"
proof -
  show eui: "eui_of (\<lambda>a. a) (env_ret sample_env) = [0xFA, 0xFB, 0xFC, 0xFD, 0xFE, 0xFF]"
    by (simp add: eui_of_def sample_env_def upt_rec)
  have "env_phy sample_env 3 AND ETH_PHY_FLAG_READY \<noteq> 0"
    by (simp add: sample_env_def reg_defs)
  then show "starts sample_env (\<lambda>a. a)"
    using sample_chip_answers unfolding starts_def eui by (auto simp: BAD_EUII_def) (simp_all add: sample_env_def)
qed

lemma sample_board_clock: "\<not> SCLK (sp_ports (b_spi sample_board))"
  by (simp add: sample_board_def SCLK_def pin_out_def ports_zero_def)

lemma LwIP_Init_correct_witness:
  "\<exists>st' b'. LwIP_Init (\<lambda>d. d) sample_env sample_heap 0x20001000 (lwip_start port_zero, sample_board) = Some (st', b')
     \<and> hwaddr (netifs st' 0x20001000) = [0xFA, 0xFB, 0xFC, 0xFD, 0xFE, 0xFF]
     \<and> ip4_route (IP4_ADDR 8 8 8 8) st' = Some 0x20001000 \<and> ip4_route (IP4_ADDR 127 0 0 1) st' = None
     \<and> netif_default st' = Some 0x20001000 \<and> arp_ok st'"
  using LwIP_Init_correct [OF sample_env_starts(1) sample_board_clock sample_heap_ok, of "\<lambda>d. d" "0x20001000" port_zero]
  unfolding sample_env_starts(2) by (auto simp: IP4_ADDR_def LWIP_MAKEU32_def lwip_htonl_def)

section \<open>The period of the timers\<close>

text \<open>Calls of \<open>LwIP_Periodic_Handle\<close>, each with what the heap answers and the time it is given.\<close>

fun periodic_calls ::
  "(stack \<Rightarrow> stack option) \<Rightarrow> (heap \<times> nat) list \<Rightarrow> stack \<times> 'd board \<Rightarrow> (stack \<times> 'd board) option" where
  "periodic_calls tcp_tmr [] s = Some s"
| "periodic_calls tcp_tmr ((heap, t) # cs) s =
     (case LwIP_Periodic_Handle tcp_tmr heap (of_nat t) s of None \<Rightarrow> None | Some s1 \<Rightarrow> periodic_calls tcp_tmr cs s1)"

text \<open>From time \<open>t\<close> on the clock advances by at most one between two calls.\<close>

fun follows :: "nat \<Rightarrow> nat list \<Rightarrow> bool" where
  "follows t [] \<longleftrightarrow> True"
| "follows t (u # us) \<longleftrightarrow> (u = t \<or> u = t + 1) \<and> u < 2 ^ 32 \<and> follows u us"

lemma etharp_tmr_returns:
  assumes "arp_ok st" "hw_ok st" "heap_ok heap"
  shows "\<exists>st'. etharp_tmr heap st = Some st' \<and> arp_ok st' \<and> hw_ok st'"
proof -
  have inv: "arp_inv (arp_table st)"
    using assms(1) by (simp add: arp_ok_def)
  obtain st' where st': "etharp_tmr heap st = Some st'" "hw_ok st'"
    using etharp_tmr_loop_returns [of heap st "[0..<ARP_TABLE_SIZE]"] assms(2,3) arp_inv_nth [OF inv]
    by (auto simp: etharp_tmr_def)
  moreover have "arp_ok st'"
    using arp_ticks_ok [OF assms(1)] st'(1) by (auto simp: arp_ticks_def)
  ultimately show ?thesis
    by blast
qed

lemma of_nat_diff_u32: "a \<le> b \<Longrightarrow> b < 2 ^ 32 \<Longrightarrow> unat (of_nat b - of_nat a :: u32) = b - a"
  using of_nat_diff [of a b, where 'a = "32 word"] unat_of_nat [of "b - a", where 'a = 32]
  by (simp add: take_bit_eq_mod)

text \<open>The last multiple of a period while the time advances by at most one.\<close>

lemma next_multiple:
  fixes u t n :: nat
  assumes "u = t \<or> u = t + 1" "n > 1"
  shows "n * (t div n) \<le> u" "u - n * (t div n) \<ge> n \<longleftrightarrow> u \<noteq> t \<and> n dvd u"
    "n * (u div n) = (if u \<noteq> t \<and> n dvd u then u else n * (t div n))"
proof -
  have rem: "k - n * (k div n) < n" "n * (k div n) \<le> k" for k
    using assms(2) by (simp_all add: minus_mult_div_eq_mod)
  have eq: "n * (u div n) = n * (t div n) + (if u \<noteq> t \<and> n dvd u then n else 0)"
  proof (cases "u = t")
    case False
    then have "u = Suc t"
      using assms(1) by simp
    then show ?thesis
      using div_Suc [of t n] by (simp add: dvd_eq_mod_eq_0)
  qed simp
  have all: "n * (u div n) = u" if "u \<noteq> t \<and> n dvd u"
    using that by simp
  have "b \<le> u \<and> (u - b \<ge> n \<longleftrightarrow> d) \<and> a = (if d then u else b)"
    if "a = b + (if d then n else 0)" "d \<Longrightarrow> a = u" "u - a < n" "a \<le> u" for a b d
    using that by (cases d) auto
  from this [OF eq all rem]
  show "n * (t div n) \<le> u" "u - n * (t div n) \<ge> n \<longleftrightarrow> u \<noteq> t \<and> n dvd u"
    "n * (u div n) = (if u \<noteq> t \<and> n dvd u then u else n * (t div n))"
    by blast+
qed

text \<open>Code that returns and keeps the ARP table and the interfaces correct.\<close>

definition timer_ok :: "(stack \<Rightarrow> stack option) \<Rightarrow> bool" where
  "timer_ok tmr \<longleftrightarrow> (\<forall>st. arp_ok st \<and> hw_ok st \<longrightarrow> (\<exists>st1. tmr st = Some st1 \<and> arp_ok st1 \<and> hw_ok st1))"

text \<open>
  The reference schedule, for times that advance by at most one: at each new multiple of 250 the TCP timer runs, at
  each new multiple of 1000 then the ARP timer, and nothing else happens.
\<close>

fun timer_runs :: "(stack \<Rightarrow> stack option) \<Rightarrow> nat \<Rightarrow> (heap \<times> nat) list \<Rightarrow> stack \<Rightarrow> stack option" where
  "timer_runs tcp_tmr t [] st = Some st"
| "timer_runs tcp_tmr t ((heap, u) # cs) st =
     (case (if u \<noteq> t \<and> 250 dvd u then tcp_tmr st else Some st) of
        None \<Rightarrow> None
      | Some st1 \<Rightarrow>
          (case (if u \<noteq> t \<and> 1000 dvd u then etharp_tmr heap st1 else Some st1) of
             None \<Rightarrow> None
           | Some st2 \<Rightarrow> timer_runs tcp_tmr u cs st2))"

text \<open>The timers of the handler show the last multiple of each period.\<close>

definition timers_at :: "nat \<Rightarrow> 'd board \<Rightarrow> bool" where
  "timers_at t b \<longleftrightarrow> TCPTimer b = of_nat (250 * (t div 250)) \<and> ARPTimer b = of_nat (1000 * (t div 1000))"

lemma timer_due:
  assumes "u = t \<or> u = t + 1" "u < 2 ^ 32" "n > 1" "n < 2 ^ 32"
  shows "of_nat u - of_nat (n * (t div n)) \<ge> (of_nat n :: u32) \<longleftrightarrow> u \<noteq> t \<and> n dvd u"
  unfolding word_le_nat_alt of_nat_diff_u32 [OF next_multiple(1) [OF assms(1,3)] assms(2)]
  using next_multiple(2) [OF assms(1,3)] assms(4) by (simp add: unat_of_nat take_bit_eq_mod)

lemma LwIP_Periodic_Handle_step:
  assumes tcp: "timer_ok tcp_tmr"
    and st: "arp_ok st" "hw_ok st" "heap_ok heap"
    and t: "u = t \<or> u = t + 1" "u < 2 ^ 32" "timers_at t b"
  shows "\<exists>st' b'. LwIP_Periodic_Handle tcp_tmr heap (of_nat u) (st, b) = Some (st', b')
    \<and> timer_runs tcp_tmr t [(heap, u)] st = Some st' \<and> arp_ok st' \<and> hw_ok st' \<and> timers_at u b'"
proof -
  have due: "of_nat u - TCPTimer b \<ge> 250 \<longleftrightarrow> u \<noteq> t \<and> 250 dvd u" "of_nat u - ARPTimer b \<ge> ARP_TMR_INTERVAL \<longleftrightarrow> u \<noteq> t \<and> 1000 dvd u"
    using timer_due [OF t(1,2), of 250] timer_due [OF t(1,2), of 1000] t(3) by (simp_all add: timers_at_def reg_defs)
  obtain st1 where s1: "(if u \<noteq> t \<and> 250 dvd u then tcp_tmr st else Some st) = Some st1" "arp_ok st1" "hw_ok st1"
    using tcp [unfolded timer_ok_def] st by (cases "u \<noteq> t \<and> 250 dvd u") auto
  obtain st2 where s2: "(if u \<noteq> t \<and> 1000 dvd u then etharp_tmr heap st1 else Some st1) = Some st2" "arp_ok st2" "hw_ok st2"
    using etharp_tmr_returns [OF s1(2,3) st(3)] s1(2,3) by (cases "u \<noteq> t \<and> 1000 dvd u") auto
  define b' where "b' = (let b1 = (if u \<noteq> t \<and> 250 dvd u then b\<lparr>TCPTimer := of_nat u\<rparr> else b)
    in if u \<noteq> t \<and> 1000 dvd u then b1\<lparr>ARPTimer := of_nat u\<rparr> else b1)"
  have "LwIP_Periodic_Handle tcp_tmr heap (of_nat u) (st, b) = Some (st2, b')"
    using s1(1) s2(1) due by (auto simp: LwIP_Periodic_Handle_def b'_def split: if_splits)
  moreover have "timers_at u b'"
    using t(3) next_multiple(3) [OF t(1), of 250] next_multiple(3) [OF t(1), of 1000] by (auto simp: timers_at_def b'_def)
  ultimately show ?thesis
    using s1(1) s2 by auto
qed

lemma periodic_calls_schedule:
  assumes tcp: "timer_ok tcp_tmr"
  shows "arp_ok st \<Longrightarrow> hw_ok st \<Longrightarrow> \<forall>h\<in>fst ` set cs. heap_ok h \<Longrightarrow> follows t (map snd cs) \<Longrightarrow> timers_at t b
    \<Longrightarrow> \<exists>st' b'. periodic_calls tcp_tmr cs (st, b) = Some (st', b') \<and> timer_runs tcp_tmr t cs st = Some st'
      \<and> arp_ok st' \<and> hw_ok st' \<and> timers_at (last (t # map snd cs)) b'"
proof (induction cs arbitrary: st b t)
  case (Cons c cs)
  obtain heap u where c: "c = (heap, u)"
    by force
  then obtain st1 b1 where "LwIP_Periodic_Handle tcp_tmr heap (of_nat u) (st, b) = Some (st1, b1)"
    "timer_runs tcp_tmr t [(heap, u)] st = Some st1" "arp_ok st1" "hw_ok st1" "timers_at u b1"
    using LwIP_Periodic_Handle_step [OF tcp Cons.prems(1,2), where heap = heap and u = u and t = t and b = b]
      Cons.prems(3-) by auto
  then show ?case
    using Cons.IH [of st1 u b1] Cons.prems(3,4) c by (auto split: option.splits)
qed simp

text \<open>
  C35. The period of the timers. The main loop calls \<open>LwIP_Periodic_Handle\<close> with the number of seconds,
  where the code compares with periods in milliseconds. While the seconds advance by at most
  one between two calls, every call returns, and the calls do to the stack exactly this: at each new multiple of 250
  seconds the TCP timer runs once, at each new multiple of 1000 seconds \<open>etharp_tmr\<close> runs once, and
  otherwise nothing changes. The ARP table stays correct. \<open>tcp_tmr\<close> stands for any code that returns and keeps
  the ARP table and the interfaces correct. So an entry lives for up to 300000 seconds instead of 300.
\<close>

theorem LwIP_Periodic_Handle_schedule:
  assumes "timer_ok tcp_tmr"
    and "arp_ok st" "hw_ok st" "\<forall>h\<in>fst ` set cs. heap_ok h" "follows 0 (map snd cs)" "TCPTimer b = 0" "ARPTimer b = 0"
  shows "\<exists>st' b'. periodic_calls tcp_tmr cs (st, b) = Some (st', b') \<and> timer_runs tcp_tmr 0 cs st = Some st' \<and> arp_ok st'
      \<and> ARPTimer b' = of_nat (1000 * (last (0 # map snd cs) div 1000))"
  using periodic_calls_schedule [OF assms(1-5), where b = b] assms(6,7) by (auto simp: timers_at_def)

lemma follows_upt: "t + n < 2 ^ 32 \<Longrightarrow> follows t (map (\<lambda>k. t + Suc k) [0..<n])"
proof (induction n arbitrary: t)
  case (Suc n)
  have "map (\<lambda>k. t + Suc k) [0..<Suc n] = (t + 1) # map (\<lambda>k. t + 1 + Suc k) [0..<n]"
    by (simp add: upt_conv_Cons map_Suc_upt [symmetric] del: upt_Suc)
  then show ?case
    using Suc.IH [of "t + 1"] Suc.prems by (simp del: upt_Suc)
qed simp

lemma follows_seconds:
  assumes "n < 2 ^ 32"
  shows "follows 0 (map snd (map (\<lambda>k. (heap, Suc k)) [0..<n]))" "last (0 # map snd (map (\<lambda>k. (heap, Suc k)) [0..<n])) = n"
proof -
  have eq: "map snd (map (\<lambda>k. (heap, Suc k)) [0..<n]) = map (\<lambda>k. 0 + Suc k) [0..<n]"
    by (simp add: comp_def)
  show "follows 0 (map snd (map (\<lambda>k. (heap, Suc k)) [0..<n]))"
    unfolding eq by (rule follows_upt) (use assms in simp)
  show "last (0 # map snd (map (\<lambda>k. (heap, Suc k)) [0..<n])) = n"
    unfolding eq by (cases n) simp_all
qed

lemma LwIP_Periodic_Handle_schedule_witness:
  "\<exists>st' b'. periodic_calls Some (map (\<lambda>k. (sample_heap, Suc k)) [0..<2500]) (lwip_start port_zero, sample_board)
      = Some (st', b') \<and> timer_runs Some 0 (map (\<lambda>k. (sample_heap, Suc k)) [0..<2500]) (lwip_start port_zero) = Some st'
      \<and> arp_ok st' \<and> ARPTimer b' = 2000"
proof -
  have "timer_ok Some"
    by (simp add: timer_ok_def)
  have "\<forall>h\<in>fst ` set (map (\<lambda>k. (sample_heap, Suc k)) [0..<2500]). heap_ok h"
    using sample_heap_ok by auto
  moreover have n: "2500 < (2 :: nat) ^ 32" "TCPTimer sample_board = 0" "ARPTimer sample_board = 0"
    by (simp_all add: sample_board_def)
  ultimately show ?thesis
    using LwIP_Periodic_Handle_schedule [OF \<open>timer_ok Some\<close> arp_ok_start hw_ok_start _ follows_seconds(1) n(2,3),
        of sample_heap 2500 port_zero]
    unfolding follows_seconds(2) [OF n(1)] using n(1) by simp
qed

end
