(* ===== verification/EthInput.thy ===== *)
theory EthInput
  imports Etharp
begin

text \<open>
  The input side of the link layer: \<open>ethernet_input\<close> of lwIP 2.1.2, \<open>netif/ethernet.c\<close>, which
  \<open>ethernetif_input\<close> calls with every received frame.

  IP packets are handed to the argument \<open>ip4_input\<close>. The flags \<open>PBUF_FLAG_LLMCAST\<close> and
  \<open>PBUF_FLAG_LLBCAST\<close> and the member \<open>if_idx\<close>, which are set here, are read only by code that
  is not compiled (\<open>IP_FORWARD\<close> is 0) and are left out; statistics too. \<open>None\<close> is an access
  through a \<open>NULL\<close> pointer or beyond the received bytes.
\<close>

type_synonym ip_input = "pbuf list \<Rightarrow> u32 \<Rightarrow> stack \<Rightarrow> stack option"

definition ethernet_input :: "ip_input \<Rightarrow> heap \<Rightarrow> pbuf list option \<Rightarrow> u32 \<Rightarrow> stack \<Rightarrow> stack option" where
  "ethernet_input ip4_input heap p i st =
     (case p of
        Some (q # qs) \<Rightarrow>
          if length (pb_payload q) \<le> SIZEOF_ETH_HDR then Some st
          else
            let ty = load16 (pb_payload q ! 12) (pb_payload q ! 13);
                arp = netif_flags (netifs st i) AND NETIF_FLAG_ETHARP \<noteq> 0
            in if ty = lwip_htons ETHTYPE_IP then
                 if \<not> arp then Some st
                 else (case pbuf_remove_header q SIZEOF_ETH_HDR of
                         None \<Rightarrow> Some st | Some q1 \<Rightarrow> ip4_input (q1 # qs) i st)
               else if ty = lwip_htons ETHTYPE_ARP then
                 if \<not> arp then Some st
                 else (case pbuf_remove_header q SIZEOF_ETH_HDR of
                         None \<Rightarrow> Some st | Some q1 \<Rightarrow> etharp_input heap (pb_payload q1) i st)
               else Some st
      | _ \<Rightarrow> None)"

end
