(* ===== verification/Timer.thy ===== *)
theory Timer
  imports RstClk
begin

text \<open>
  The general purpose timers: the register block \<open>MDR_TIMER_TypeDef\<close> and the routines of
  \<open>MDR32F9Qx_timer.c\<close> (for the 1986VE1T) that \<open>InitXTick\<close> and \<open>FlagTimerInit\<close> use, with those
  that set single fields of the counter. The four copies of each channel register are a
  function of the channel number, as in the pointer expressions \<open>&TIMERx->CH1_CNTRL + n\<close>.
\<close>

section \<open>Registers and initialisation structures\<close>

record MDR_TIMER_TypeDef =
  CNT :: u32
  PSG :: u32
  ARR :: u32
  TIM_CNTRL :: u32
  CCR :: "nat \<Rightarrow> u32"
  CH_CNTRL :: "nat \<Rightarrow> u32"
  CH_CNTRL1 :: "nat \<Rightarrow> u32"
  CH_DTG :: "nat \<Rightarrow> u32"
  BRKETR_CNTRL :: u32
  TIM_STATUS :: u32
  TIM_IE :: u32
  DMA_RE :: u32
  CH_CNTRL2 :: "nat \<Rightarrow> u32"
  CCR_1 :: "nat \<Rightarrow> u32"
  DMA_REChx :: "nat \<Rightarrow> u32"

datatype timer_id = MDR_TIMER1 | MDR_TIMER2 | MDR_TIMER3 | MDR_TIMER4

type_synonym timers = "timer_id \<Rightarrow> MDR_TIMER_TypeDef"

record TIMER_CntInitTypeDef =
  TIMER_IniCounter :: u32
  TIMER_Prescaler :: u16
  TIMER_Period :: u32
  TIMER_CounterMode :: u16
  TIMER_CounterDirection :: u16
  TIMER_EventSource :: u16
  TIMER_FilterSampling :: u16
  TIMER_ARR_UpdateMode :: u16
  TIMER_ETR_FilterConf :: u16
  TIMER_ETR_Prescaler :: u16
  TIMER_ETR_Polarity :: u16
  TIMER_BRK_Polarity :: u16

record TIMER_ChnInitTypeDef =
  TIMER_CH_Number :: u16
  TIMER_CH_Mode :: u16
  TIMER_CH_ETR_Ena :: u16
  TIMER_CH_ETR_Reset :: u16
  TIMER_CH_BRK_Reset :: u16
  TIMER_CH_REF_Format :: u16
  TIMER_CH_Prescaler :: u16
  TIMER_CH_EventSource :: u16
  TIMER_CH_FilterConf :: u16
  TIMER_CH_CCR_UpdateMode :: u16
  TIMER_CH_CCR1_Ena :: u16
  TIMER_CH_CCR1_EventSource :: u16

record TIMER_ChnOutInitTypeDef =
  TIMER_CHO_Number :: u16
  TIMER_CH_DirOut_Polarity :: u16
  TIMER_CH_DirOut_Source :: u16
  TIMER_CH_DirOut_Mode :: u16
  TIMER_CH_NegOut_Polarity :: u16
  TIMER_CH_NegOut_Source :: u16
  TIMER_CH_NegOut_Mode :: u16
  TIMER_CH_DTG_MainPrescaler :: u16
  TIMER_CH_DTG_AuxPrescaler :: u16
  TIMER_CH_DTG_ClockSource :: u16

definition TIMER_CNTRL_CNT_EN :: u32 where [reg_defs]: "TIMER_CNTRL_CNT_EN = 1"
definition TIMER_CNTRL_ARRB_EN :: u32 where [reg_defs]: "TIMER_CNTRL_ARRB_EN = 2"
definition TIMER_CNTRL_DIR :: u32 where [reg_defs]: "TIMER_CNTRL_DIR = 8"
definition TIMER_CNTRL_FDTS_Msk :: u32 where [reg_defs]: "TIMER_CNTRL_FDTS_Msk = 0x30"
definition TIMER_CNTRL_CNT_MODE_Msk :: u32 where [reg_defs]: "TIMER_CNTRL_CNT_MODE_Msk = 0xC0"
definition TIMER_CNTRL_EVENT_SEL_Msk :: u32 where [reg_defs]: "TIMER_CNTRL_EVENT_SEL_Msk = 0xF00"
definition TIMER_STATUS_CNT_ZERO :: u32 where [reg_defs]: "TIMER_STATUS_CNT_ZERO = 1"

section \<open>The counter\<close>

definition TIMER_DeInit :: "MDR_TIMER_TypeDef \<Rightarrow> MDR_TIMER_TypeDef" where
  "TIMER_DeInit tm =
     \<lparr>CNT = 0, PSG = 0, ARR = 0, TIM_CNTRL = 0, CCR = (\<lambda>_. 0), CH_CNTRL = (\<lambda>_. 0),
      CH_CNTRL1 = (\<lambda>_. 0), CH_DTG = (\<lambda>_. 0), BRKETR_CNTRL = 0, TIM_STATUS = 0, TIM_IE = 0,
      DMA_RE = 0, CH_CNTRL2 = (\<lambda>_. 0), CCR_1 = (\<lambda>_. 0), DMA_REChx = (\<lambda>_. 0)\<rparr>"

definition TIMER_CntInit :: "TIMER_CntInitTypeDef \<Rightarrow> MDR_TIMER_TypeDef \<Rightarrow> MDR_TIMER_TypeDef" where
  "TIMER_CntInit S tm = tm\<lparr>
     CNT := TIMER_IniCounter S,
     PSG := to_u32 (TIMER_Prescaler S),
     ARR := TIMER_Period S,
     TIM_CNTRL := to_u32 (TIMER_CounterMode S) + to_u32 (TIMER_CounterDirection S)
       + to_u32 (TIMER_EventSource S) + to_u32 (TIMER_FilterSampling S)
       + to_u32 (TIMER_ARR_UpdateMode S),
     BRKETR_CNTRL := push_bit 4 (to_u32 (TIMER_ETR_FilterConf S)) + to_u32 (TIMER_ETR_Prescaler S)
       + to_u32 (TIMER_ETR_Polarity S) + to_u32 (TIMER_BRK_Polarity S)\<rparr>"

definition TIMER_CntStructInit :: TIMER_CntInitTypeDef where
  "TIMER_CntStructInit =
     \<lparr>TIMER_IniCounter = 0, TIMER_Prescaler = 0, TIMER_Period = 0, TIMER_CounterMode = 0,
      TIMER_CounterDirection = 0, TIMER_EventSource = 0, TIMER_FilterSampling = 0,
      TIMER_ARR_UpdateMode = 0, TIMER_ETR_FilterConf = 0, TIMER_ETR_Prescaler = 0,
      TIMER_ETR_Polarity = 0, TIMER_BRK_Polarity = 0\<rparr>"

definition TIMER_Cmd :: "FunctionalState \<Rightarrow> MDR_TIMER_TypeDef \<Rightarrow> MDR_TIMER_TypeDef" where
  "TIMER_Cmd st tm = tm\<lparr>TIM_CNTRL := switch_bits st TIMER_CNTRL_CNT_EN (TIM_CNTRL tm)\<rparr>"

definition TIMER_SetCounter :: "u32 \<Rightarrow> MDR_TIMER_TypeDef \<Rightarrow> MDR_TIMER_TypeDef" where
  "TIMER_SetCounter v tm = tm\<lparr>CNT := v\<rparr>"

definition TIMER_SetCntPrescaler :: "u16 \<Rightarrow> MDR_TIMER_TypeDef \<Rightarrow> MDR_TIMER_TypeDef" where
  "TIMER_SetCntPrescaler v tm = tm\<lparr>PSG := to_u32 v\<rparr>"

definition TIMER_SetCntAutoreload :: "u32 \<Rightarrow> MDR_TIMER_TypeDef \<Rightarrow> MDR_TIMER_TypeDef" where
  "TIMER_SetCntAutoreload v tm = tm\<lparr>ARR := v\<rparr>"

text \<open>\<open>tmpreg &= ~mask; tmpreg += value\<close> on the control register.\<close>

definition cntrl_field :: "u32 \<Rightarrow> u32 \<Rightarrow> MDR_TIMER_TypeDef \<Rightarrow> MDR_TIMER_TypeDef" where
  [c_defs]: "cntrl_field m v tm = tm\<lparr>TIM_CNTRL := (TIM_CNTRL tm AND NOT m) + v\<rparr>"

definition TIMER_CntAutoreloadConfig :: "u32 \<Rightarrow> u32 \<Rightarrow> MDR_TIMER_TypeDef \<Rightarrow> MDR_TIMER_TypeDef" where
  "TIMER_CntAutoreloadConfig v mode tm = (cntrl_field TIMER_CNTRL_ARRB_EN mode tm)\<lparr>ARR := v\<rparr>"

definition TIMER_CntEventSourceConfig :: "u32 \<Rightarrow> MDR_TIMER_TypeDef \<Rightarrow> MDR_TIMER_TypeDef" where
  "TIMER_CntEventSourceConfig = cntrl_field TIMER_CNTRL_EVENT_SEL_Msk"

definition TIMER_FilterSamplingConfig :: "u32 \<Rightarrow> MDR_TIMER_TypeDef \<Rightarrow> MDR_TIMER_TypeDef" where
  "TIMER_FilterSamplingConfig = cntrl_field TIMER_CNTRL_FDTS_Msk"

definition TIMER_CounterModeConfig :: "u32 \<Rightarrow> MDR_TIMER_TypeDef \<Rightarrow> MDR_TIMER_TypeDef" where
  "TIMER_CounterModeConfig = cntrl_field TIMER_CNTRL_CNT_MODE_Msk"

definition TIMER_SetCounterDirection :: "u32 \<Rightarrow> MDR_TIMER_TypeDef \<Rightarrow> MDR_TIMER_TypeDef" where
  "TIMER_SetCounterDirection = cntrl_field TIMER_CNTRL_DIR"

section \<open>Channels\<close>

definition TIMER_ChnInit :: "TIMER_ChnInitTypeDef \<Rightarrow> MDR_TIMER_TypeDef \<Rightarrow> MDR_TIMER_TypeDef" where
  "TIMER_ChnInit S tm =
     (let c = to_u32 (TIMER_CH_Mode S) + to_u32 (TIMER_CH_ETR_Reset S) + to_u32 (TIMER_CH_BRK_Reset S)
            + to_u32 (TIMER_CH_REF_Format S) + push_bit 6 (to_u32 (TIMER_CH_Prescaler S))
            + to_u32 (TIMER_CH_EventSource S) + push_bit 0 (to_u32 (TIMER_CH_FilterConf S));
          c' = (if TIMER_CH_ETR_Ena S \<noteq> 0 then c + 0x2000 else c);
          n = unat (TIMER_CH_Number S);
          d = to_u32 (TIMER_CH_CCR_UpdateMode S) + to_u32 (TIMER_CH_CCR1_EventSource S);
          d' = (if TIMER_CH_CCR1_Ena S \<noteq> 0 then d + 4 else d)
      in tm\<lparr>CH_CNTRL := (CH_CNTRL tm)(n := c'), CH_CNTRL2 := (CH_CNTRL2 tm)(n := d')\<rparr>)"

definition TIMER_ChnStructInit :: TIMER_ChnInitTypeDef where
  "TIMER_ChnStructInit =
     \<lparr>TIMER_CH_Number = 0, TIMER_CH_Mode = 0, TIMER_CH_ETR_Ena = 0, TIMER_CH_ETR_Reset = 0,
      TIMER_CH_BRK_Reset = 0, TIMER_CH_REF_Format = 0, TIMER_CH_Prescaler = 0,
      TIMER_CH_EventSource = 0, TIMER_CH_FilterConf = 0, TIMER_CH_CCR_UpdateMode = 0,
      TIMER_CH_CCR1_Ena = 0, TIMER_CH_CCR1_EventSource = 0\<rparr>"

definition TIMER_SetChnCompare :: "nat \<Rightarrow> u32 \<Rightarrow> MDR_TIMER_TypeDef \<Rightarrow> MDR_TIMER_TypeDef" where
  "TIMER_SetChnCompare ch v tm = tm\<lparr>CCR := (CCR tm)(ch := v)\<rparr>"

definition TIMER_ChnOutInit :: "TIMER_ChnOutInitTypeDef \<Rightarrow> MDR_TIMER_TypeDef \<Rightarrow> MDR_TIMER_TypeDef" where
  "TIMER_ChnOutInit S tm =
     (let c = push_bit 4 (to_u32 (TIMER_CH_DirOut_Polarity S)) + push_bit 2 (to_u32 (TIMER_CH_DirOut_Source S))
            + push_bit 0 (to_u32 (TIMER_CH_DirOut_Mode S)) + push_bit 12 (to_u32 (TIMER_CH_NegOut_Polarity S))
            + push_bit 10 (to_u32 (TIMER_CH_NegOut_Source S)) + push_bit 8 (to_u32 (TIMER_CH_NegOut_Mode S));
          n = unat (TIMER_CHO_Number S);
          d = push_bit 8 (to_u32 (TIMER_CH_DTG_MainPrescaler S))
            + push_bit 0 (to_u32 (TIMER_CH_DTG_AuxPrescaler S)) + to_u32 (TIMER_CH_DTG_ClockSource S)
      in tm\<lparr>CH_CNTRL1 := (CH_CNTRL1 tm)(n := c), CH_DTG := (CH_DTG tm)(n := d)\<rparr>)"

text \<open>\<open>TIMER_ChnOutStructInit\<close> leaves the channel number as it is.\<close>

definition TIMER_ChnOutStructInit :: "TIMER_ChnOutInitTypeDef \<Rightarrow> TIMER_ChnOutInitTypeDef" where
  "TIMER_ChnOutStructInit S =
     \<lparr>TIMER_CHO_Number = TIMER_CHO_Number S, TIMER_CH_DirOut_Polarity = 0, TIMER_CH_DirOut_Source = 0,
      TIMER_CH_DirOut_Mode = 0, TIMER_CH_NegOut_Polarity = 0, TIMER_CH_NegOut_Source = 0,
      TIMER_CH_NegOut_Mode = 0, TIMER_CH_DTG_MainPrescaler = 0, TIMER_CH_DTG_AuxPrescaler = 0,
      TIMER_CH_DTG_ClockSource = 0\<rparr>"

section \<open>Interrupts and clock\<close>

definition TIMER_ITConfig :: "u32 \<Rightarrow> FunctionalState \<Rightarrow> MDR_TIMER_TypeDef \<Rightarrow> MDR_TIMER_TypeDef" where
  "TIMER_ITConfig it st tm = tm\<lparr>TIM_IE := switch_bits st it (TIM_IE tm)\<rparr>"

definition TIMER_GetITStatus :: "u32 \<Rightarrow> MDR_TIMER_TypeDef \<Rightarrow> FlagStatus" where
  "TIMER_GetITStatus it tm = (if TIM_STATUS tm AND TIM_IE tm AND it = 0 then RESET else SET)"

text \<open>The field, its position and the enable bit of each timer in the clock registers.\<close>

definition tim_brg :: "nat \<Rightarrow> u32 \<Rightarrow> u32 \<Rightarrow> u32 \<Rightarrow> u32 \<Rightarrow> u32" where
  [c_defs]: "tim_brg pos msk_bits en brg r = ((r AND NOT msk_bits) OR push_bit pos brg) OR en"

fun TIMER_BRGInit :: "timer_id \<Rightarrow> u32 \<Rightarrow> clk \<Rightarrow> clk" where
  "TIMER_BRGInit MDR_TIMER1 brg c = c\<lparr>TIM_CLOCK := tim_brg 0 0xFF 0x1000000 brg (TIM_CLOCK c)\<rparr>"
| "TIMER_BRGInit MDR_TIMER2 brg c = c\<lparr>TIM_CLOCK := tim_brg 8 0xFF00 0x2000000 brg (TIM_CLOCK c)\<rparr>"
| "TIMER_BRGInit MDR_TIMER3 brg c = c\<lparr>TIM_CLOCK := tim_brg 16 0xFF0000 0x4000000 brg (TIM_CLOCK c)\<rparr>"
| "TIMER_BRGInit MDR_TIMER4 brg c = c\<lparr>UART_CLOCK := tim_brg 16 0xFF0000 0x4000000 brg (UART_CLOCK c)\<rparr>"

section \<open>The interrupt controller\<close>

text \<open>\<open>NVIC->ISER[0] = 1 << n\<close> sets and \<open>NVIC->ICER[0] = 1 << n\<close> clears an enable bit; the priority
  is the byte of \<open>IP\<close> that belongs to the interrupt, of which two bits are implemented.\<close>

record NVIC_Type =
  NVIC_ISER :: u32
  NVIC_IP :: "nat \<Rightarrow> u8"

definition NVIC_EnableIRQ :: "nat \<Rightarrow> NVIC_Type \<Rightarrow> NVIC_Type" where
  "NVIC_EnableIRQ n v = v\<lparr>NVIC_ISER := NVIC_ISER v OR push_bit (n mod 32) 1\<rparr>"

definition NVIC_DisableIRQ :: "nat \<Rightarrow> NVIC_Type \<Rightarrow> NVIC_Type" where
  "NVIC_DisableIRQ n v = v\<lparr>NVIC_ISER := NVIC_ISER v AND NOT (push_bit (n mod 32) 1)\<rparr>"

definition NVIC_SetPriority :: "nat \<Rightarrow> u32 \<Rightarrow> NVIC_Type \<Rightarrow> NVIC_Type" where
  "NVIC_SetPriority n p v = v\<lparr>NVIC_IP := (NVIC_IP v)(n := to_u8 (push_bit 6 p AND 0xFF))\<rparr>"

definition TIMER1_IRQn :: nat where "TIMER1_IRQn = 14"
definition TIMER2_IRQn :: nat where "TIMER2_IRQn = 15"

section \<open>The period of a timer\<close>

text \<open>
  A running timer whose clock is enabled counts up from 0 to \<open>ARR\<close> at the CPU clock divided
  by \<open>PSG + 1\<close> (\<open>CLK = TIMER_CLK / (TIMER_Prescaler + 1)\<close>, \<open>MDR32F9Qx_timer.h\<close>), so that it passes
  zero once in this number of CPU cycles.
\<close>

definition timer_period :: "MDR_TIMER_TypeDef \<Rightarrow> nat" where
  "timer_period tm = (unat (PSG tm) + 1) * (unat (ARR tm) + 1)"

text \<open>Counting up by the CPU clock, enabled, with the interrupt at zero enabled.\<close>

definition timer_runs :: "MDR_TIMER_TypeDef \<Rightarrow> bool" where
  "timer_runs tm \<longleftrightarrow> TIM_CNTRL tm = TIMER_CNTRL_CNT_EN \<and> TIM_IE tm = TIMER_STATUS_CNT_ZERO
     \<and> CNT tm = 0 \<and> TIM_STATUS tm = 0"

end
