(* ===== verification/Board.thy ===== *)
theory Board
  imports RstClk
begin

text \<open>
  Start-up of the board in \<open>Application/Main.c\<close>: \<open>ClockConfigure\<close> switches the CPU to the PLL,
  \<open>InitWatchDog\<close> starts the independent watchdog through \<open>MDR32F9Qx_iwdg.c\<close>, and the code
  memory latency is set through \<open>EEPROM_SetLatency\<close> of \<open>MDR32F9Qx_eeprom.c\<close>.
\<close>

section \<open>Clock configuration\<close>

definition CPU_CLOCK_VALUE :: nat where "CPU_CLOCK_VALUE = 100000000"

definition PLL_MULL_VALUE :: u32 where
  "PLL_MULL_VALUE = of_nat (CPU_CLOCK_VALUE div unat HSE_Value - 1)"

text \<open>The choice of the preprocessor, \<open>EEPROM_LATENCY_VALUE\<close>.\<close>

definition EEPROM_LATENCY_VALUE :: u32 where
  "EEPROM_LATENCY_VALUE =
     (if CPU_CLOCK_VALUE < 25000000 then 0
      else if CPU_CLOCK_VALUE < 50000000 then 0x08
      else if CPU_CLOCK_VALUE < 75000000 then 0x10
      else if CPU_CLOCK_VALUE < 100000000 then 0x18
      else if CPU_CLOCK_VALUE < 125000000 then 0x20
      else if CPU_CLOCK_VALUE < 150000000 then 0x28
      else 0x38)"

text \<open>The register \<open>CMD\<close> of the code memory controller.\<close>

definition EEPROM_SetLatency :: "u32 \<Rightarrow> u32 \<Rightarrow> u32" where
  "EEPROM_SetLatency l cmd = l"

text \<open>\<open>while (status () != SUCCESS && cntr++ < 0x40000) __NOP ();\<close>\<close>

function retry_status :: "(nat \<Rightarrow> ErrorStatus \<times> nat) \<Rightarrow> nat \<Rightarrow> nat \<Rightarrow> nat" where
  "retry_status status t cntr =
     (let (st, t1) = status t
      in if st \<noteq> SUCCESS \<and> cntr < 0x40000 then retry_status status t1 (cntr + 1) else t1)"
  by pat_completeness auto
termination
  by (relation "measure (\<lambda>(status, t, cntr). 0x40000 - cntr)") auto

declare retry_status.simps [simp del]

text \<open>The result, the position in the reads, the clock registers, the code memory command.\<close>

definition ClockConfigure :: "clk_reads \<Rightarrow> nat \<Rightarrow> clk \<times> u32 \<Rightarrow> bool \<times> nat \<times> clk \<times> u32" where
  "ClockConfigure rd t s =
     (let (c, cmd) = s;
          c1 = RST_CLK_HSEconfig RST_CLK_HSE_Bypass c;
          (st1, t1) = RST_CLK_HSEstatus rd (retry_status (RST_CLK_HSEstatus rd) t 0)
      in if st1 \<noteq> SUCCESS then (False, t1, c1, cmd)
         else
           let c2 = RST_CLK_CPU_PLLconfig RST_CLK_CPU_PLLsrcHSEdiv1 PLL_MULL_VALUE c1;
               c3 = RST_CLK_CPU_PLLcmd ENABLE c2;
               (st2, t2) = RST_CLK_CPU_PLLstatus rd (retry_status (RST_CLK_CPU_PLLstatus rd) t1 0)
           in if st2 \<noteq> SUCCESS then (False, t2, c3, cmd)
              else
                let c4 = RST_CLK_PCLKcmd RST_CLK_PCLK_EEPROM ENABLE c3;
                    cmd' = EEPROM_SetLatency EEPROM_LATENCY_VALUE cmd;
                    c5 = RST_CLK_CPUclkPrescaler RST_CLK_CPUclkDIV1 c4;
                    c6 = RST_CLK_CPU_PLLuse ENABLE c5;
                    c7 = RST_CLK_CPUclkSelection RST_CLK_CPUclkCPU_C3 c6
                in (True, t2, SystemCoreClockUpdate c7, cmd'))"

section \<open>The watchdog\<close>

record MDR_IWDG_TypeDef =
  IWDG_KR :: u32
  IWDG_PR :: u32
  IWDG_RLR :: u32

definition IWDG_WriteAccessEnable :: "MDR_IWDG_TypeDef \<Rightarrow> MDR_IWDG_TypeDef" where
  "IWDG_WriteAccessEnable w = w\<lparr>IWDG_KR := 0x5555\<rparr>"

definition IWDG_WriteAccessDisable :: "MDR_IWDG_TypeDef \<Rightarrow> MDR_IWDG_TypeDef" where
  "IWDG_WriteAccessDisable w = w\<lparr>IWDG_KR := 0\<rparr>"

definition IWDG_SetPrescaler :: "u32 \<Rightarrow> MDR_IWDG_TypeDef \<Rightarrow> MDR_IWDG_TypeDef" where
  "IWDG_SetPrescaler p w = w\<lparr>IWDG_PR := p\<rparr>"

definition IWDG_SetReload :: "u32 \<Rightarrow> MDR_IWDG_TypeDef \<Rightarrow> MDR_IWDG_TypeDef" where
  "IWDG_SetReload r w = w\<lparr>IWDG_RLR := r\<rparr>"

definition IWDG_ReloadCounter :: "MDR_IWDG_TypeDef \<Rightarrow> MDR_IWDG_TypeDef" where
  "IWDG_ReloadCounter w = w\<lparr>IWDG_KR := 0xAAAA\<rparr>"

definition IWDG_Enable :: "MDR_IWDG_TypeDef \<Rightarrow> MDR_IWDG_TypeDef" where
  "IWDG_Enable w = w\<lparr>IWDG_KR := 0xCCCC\<rparr>"

text \<open>The flag from a value read from the status register \<open>SR\<close>.\<close>

definition IWDG_GetFlagStatus :: "u32 \<Rightarrow> u32 \<Rightarrow> FlagStatus" where
  "IWDG_GetFlagStatus flag sr = (if sr AND flag \<noteq> 0 then SET else RESET)"

definition IWDG_FLAG_PVU :: u32 where [reg_defs]: "IWDG_FLAG_PVU = 1"
definition IWDG_Prescaler_64 :: u32 where [reg_defs]: "IWDG_Prescaler_64 = 4"

text \<open>\<open>sr i\<close> is the \<open>i\<close>-th value read from \<open>SR\<close>; \<open>None\<close> when the wait for \<open>PVU\<close> does not end.\<close>

definition InitWatchDog ::
  "(nat \<Rightarrow> u32) \<Rightarrow> clk \<times> MDR_IWDG_TypeDef \<Rightarrow> (clk \<times> MDR_IWDG_TypeDef) option"
where
  "InitWatchDog sr s =
     (let (c, w) = s;
          c1 = RST_CLK_PCLKcmd RST_CLK_PCLK_IWDG ENABLE c;
          w1 = IWDG_SetPrescaler IWDG_Prescaler_64 (IWDG_WriteAccessEnable w)
      in map_option
           (\<lambda>t. (c1, IWDG_ReloadCounter (IWDG_Enable (IWDG_SetReload 2500 w1))))
           (wait_until (\<lambda>i. \<not> IWDG_GetFlagStatus IWDG_FLAG_PVU (sr i) \<noteq> SET) 0))"

text \<open>The time-out in seconds: \<open>LSI / 4 / 2 ^ PR\<close> counts per second.\<close>

definition watchdog_seconds :: "MDR_IWDG_TypeDef \<Rightarrow> nat" where
  "watchdog_seconds w = unat (IWDG_RLR w) div (unat LSI_Value div 4 div 2 ^ unat (IWDG_PR w))"

section \<open>Retrying\<close>

text \<open>With the retries, a generator has \<open>0x40002\<close> time-outs to become ready.\<close>

definition retry_budget :: "nat \<Rightarrow> nat \<Rightarrow> nat" where
  "retry_budget timeout cntr = (0x40001 - cntr) * (timeout + 1) + timeout"

lemma retry_status_ready:
  assumes "ready_from f rd t k" "0 < timeout" "cntr \<le> 0x40000"
  shows "\<exists>j. retry_status (poll_status f timeout rd) t cntr = t + j
    \<and> (k - j \<le> timeout \<longleftrightarrow> k \<le> retry_budget timeout cntr)"
  using assms
proof (induction "0x40000 - cntr" arbitrary: t k cntr)
  case 0
  then have c: "cntr = 0x40000" by simp
  show ?case
    by (rule exI [of _ "min (Suc k) timeout + 1"])
      (subst retry_status.simps, auto simp: c poll_status_ready [OF 0(2,3)] retry_budget_def)
next
  case (Suc n)
  note st = poll_status_ready [OF Suc.prems(1,2)]
  show ?case
  proof (cases "k \<le> timeout")
    case True
    then show ?thesis
      by (intro exI [of _ "min (Suc k) timeout + 1"])
        (subst retry_status.simps, auto simp: st retry_budget_def)
  next
    case False
    have lt: "cntr < 0x40000" using Suc.hyps(2) by simp
    obtain j where j: "retry_status (poll_status f timeout rd) (t + (timeout + 1)) (cntr + 1)
        = t + (timeout + 1) + j"
      "k - (timeout + 1) - j \<le> timeout \<longleftrightarrow> k - (timeout + 1) \<le> retry_budget timeout (cntr + 1)"
      using Suc.hyps(1) [of "cntr + 1" "t + (timeout + 1)" "k - (timeout + 1)"] Suc.hyps(2)
        ready_from_shift [OF Suc.prems(1), of "timeout + 1"] Suc.prems(2) lt
      by (metis Suc_diff_Suc Suc_eq_plus1 Suc_leI nat.inject)
    have "0x40001 - cntr = Suc (0x40001 - (cntr + 1))" using lt by simp
    then have "k \<le> retry_budget timeout cntr \<longleftrightarrow> k - (timeout + 1) \<le> retry_budget timeout (cntr + 1)"
      unfolding retry_budget_def using False by (simp only: mult_Suc) linarith
    then show ?thesis
      using False lt j
      by (intro exI [of _ "timeout + 1 + j"]) (subst retry_status.simps, auto simp: st add.assoc)
  qed
qed

lemma retried_status:
  assumes "ready_from f rd t k" "0 < timeout"
  shows "\<exists>t'. poll_status f timeout rd (retry_status (poll_status f timeout rd) t 0)
    = (if k \<le> retry_budget timeout 0 then SUCCESS else ERROR, t') \<and> t \<le> t'"
proof -
  obtain j where j: "retry_status (poll_status f timeout rd) t 0 = t + j"
    "k - j \<le> timeout \<longleftrightarrow> k \<le> retry_budget timeout 0"
    using retry_status_ready [OF assms, of 0] by auto
  show ?thesis
    unfolding j(1) poll_status_ready [OF ready_from_shift [OF assms(1)] assms(2)] j(2) by auto
qed

text \<open>The last steps of \<open>ClockConfigure\<close>, and the frequencies before and after them.\<close>

definition clk_on_PLL :: "clk \<Rightarrow> clk" where
  "clk_on_PLL c = SystemCoreClockUpdate (RST_CLK_CPUclkSelection RST_CLK_CPUclkCPU_C3
     (RST_CLK_CPU_PLLuse ENABLE (RST_CLK_CPUclkPrescaler RST_CLK_CPUclkDIV1
       (RST_CLK_PCLKcmd RST_CLK_PCLK_EEPROM ENABLE c))))"

lemmas cpu_clock_defs = SystemInit_def SystemCoreClockUpdate_def RST_CLK_HSEconfig_def
  RST_CLK_CPU_PLLconfig_def RST_CLK_CPU_PLLcmd_def RST_CLK_PCLKcmd_def RST_CLK_CPUclkPrescaler_def
  RST_CLK_CPU_PLLuse_def RST_CLK_CPUclkSelection_def

lemma PLL_MULL_VALUE_4: "PLL_MULL_VALUE = 3"
  by (simp add: PLL_MULL_VALUE_def CPU_CLOCK_VALUE_def HSE_Value_def)

lemma clk_before_PLL_freq:
  fixes c
  defines "c1 \<equiv> RST_CLK_HSEconfig RST_CLK_HSE_Bypass (SystemInit c)"
  shows "CPU_CLK_Frequency (RST_CLK_GetClocksFreq c1) = HSI_Value"
    "CPU_CLK_Frequency (RST_CLK_GetClocksFreq (RST_CLK_CPU_PLLcmd ENABLE
      (RST_CLK_CPU_PLLconfig RST_CLK_CPU_PLLsrcHSEdiv1 PLL_MULL_VALUE c1))) = HSI_Value"
  by (simp_all add: c1_def cpu_clock_defs RST_CLK_GetClocksFreq_def Let_def c_defs reg_defs)

lemma clk_on_PLL_freq:
  fixes c
  defines "c3 \<equiv> RST_CLK_CPU_PLLcmd ENABLE (RST_CLK_CPU_PLLconfig RST_CLK_CPU_PLLsrcHSEdiv1 PLL_MULL_VALUE
    (RST_CLK_HSEconfig RST_CLK_HSE_Bypass (SystemInit c)))"
  shows "unat (SystemCoreClock (clk_on_PLL c3)) = CPU_CLOCK_VALUE"
    "unat (CPU_CLK_Frequency (RST_CLK_GetClocksFreq (clk_on_PLL c3))) = CPU_CLOCK_VALUE"
    "PER_CLOCK (clk_on_PLL c3) = PER_CLOCK (SystemInit c) OR RST_CLK_PCLK_EEPROM"
  by (simp_all add: c3_def clk_on_PLL_def cpu_clock_defs RST_CLK_GetClocksFreq_def Let_def c_defs
      reg_defs PLL_MULL_VALUE_4 CPU_CLOCK_VALUE_def)

lemma ClockConfigure_result:
  assumes "ready_from RST_CLK_FLAG_HSERDY rd t k1" "ready_from RST_CLK_FLAG_PLLCPURDY rd t k2"
  shows "case ClockConfigure rd t (SystemInit c, cmd) of (r, t', c', cmd') \<Rightarrow>
      (k1 \<le> retry_budget HSEonTimeOut 0 \<and> k2 \<le> retry_budget PLLCPUonTimeOut 0 \<longrightarrow> r)
    \<and> (k1 > retry_budget HSEonTimeOut 0 \<longrightarrow> \<not> r)
    \<and> (r \<longrightarrow> unat (SystemCoreClock c') = CPU_CLOCK_VALUE
           \<and> unat (CPU_CLK_Frequency (RST_CLK_GetClocksFreq c')) = CPU_CLOCK_VALUE
           \<and> cmd' = 0x20 \<and> PER_CLOCK c' = PER_CLOCK (SystemInit c) OR RST_CLK_PCLK_EEPROM)
    \<and> (\<not> r \<longrightarrow> CPU_CLK_Frequency (RST_CLK_GetClocksFreq c') = HSI_Value \<and> cmd' = cmd)"
proof -
  have pos: "0 < HSEonTimeOut" "0 < PLLCPUonTimeOut" by (simp_all add: HSEonTimeOut_def PLLCPUonTimeOut_def)
  obtain t1 where h: "RST_CLK_HSEstatus rd (retry_status (RST_CLK_HSEstatus rd) t 0)
      = (if k1 \<le> retry_budget HSEonTimeOut 0 then SUCCESS else ERROR, t1)" "t \<le> t1"
    using retried_status [OF assms(1) pos(1)] unfolding RST_CLK_HSEstatus_def by blast
  then obtain j where "t1 = t + j" using le_Suc_ex by blast
  then obtain t2 where p: "RST_CLK_CPU_PLLstatus rd (retry_status (RST_CLK_CPU_PLLstatus rd) t1 0)
      = (if k2 - j \<le> retry_budget PLLCPUonTimeOut 0 then SUCCESS else ERROR, t2)"
    using retried_status [OF ready_from_shift [OF assms(2)] pos(2)]
    unfolding RST_CLK_CPU_PLLstatus_def by blast
  let ?c1 = "RST_CLK_HSEconfig RST_CLK_HSE_Bypass (SystemInit c)"
  let ?c3 = "RST_CLK_CPU_PLLcmd ENABLE
      (RST_CLK_CPU_PLLconfig RST_CLK_CPU_PLLsrcHSEdiv1 PLL_MULL_VALUE ?c1)"
  have code: "ClockConfigure rd t (SystemInit c, cmd) =
      (if k1 \<le> retry_budget HSEonTimeOut 0 then
         if k2 - j \<le> retry_budget PLLCPUonTimeOut 0
         then (True, t2, clk_on_PLL ?c3, EEPROM_LATENCY_VALUE) else (False, t2, ?c3, cmd)
       else (False, t1, ?c1, cmd))"
    unfolding ClockConfigure_def Let_def prod.case h(1) p EEPROM_SetLatency_def clk_on_PLL_def by simp
  have l: "EEPROM_LATENCY_VALUE = 0x20"
    by (simp add: EEPROM_LATENCY_VALUE_def CPU_CLOCK_VALUE_def)
  consider (hse) "\<not> k1 \<le> retry_budget HSEonTimeOut 0"
    | (pll) "k1 \<le> retry_budget HSEonTimeOut 0" "\<not> k2 - j \<le> retry_budget PLLCPUonTimeOut 0"
    | (ok) "k1 \<le> retry_budget HSEonTimeOut 0" "k2 - j \<le> retry_budget PLLCPUonTimeOut 0" by blast
  then show ?thesis
  proof cases
    case hse
    then show ?thesis using clk_before_PLL_freq(1) [of c] by (simp add: code)
  next
    case pll
    then show ?thesis using clk_before_PLL_freq(2) [of c] by (simp add: code)
  next
    case ok
    then show ?thesis using clk_on_PLL_freq [of c] l by (simp add: code)
  qed
qed

text \<open>
  After \<open>SystemInit\<close>, \<open>ClockConfigure\<close> succeeds exactly when the external generator and then
  the PLL become ready within the retries; it then runs the CPU from the PLL at the 100 MHz
  that the header promises, with a code memory latency that allows for this frequency.
  When it fails the CPU still runs from the internal generator.
\<close>

theorem ClockConfigure_correct:
  assumes "ready_from RST_CLK_FLAG_HSERDY rd t k1" "ready_from RST_CLK_FLAG_PLLCPURDY rd t k2"
  shows "case ClockConfigure rd t (SystemInit c, cmd) of (r, t', c', cmd') \<Rightarrow>
      (k1 \<le> retry_budget HSEonTimeOut 0 \<and> k2 \<le> retry_budget PLLCPUonTimeOut 0 \<longrightarrow> r)
    \<and> (k1 > retry_budget HSEonTimeOut 0 \<longrightarrow> \<not> r)
    \<and> (r \<longrightarrow> unat (SystemCoreClock c') = CPU_CLOCK_VALUE
           \<and> unat (CPU_CLK_Frequency (RST_CLK_GetClocksFreq c')) = CPU_CLOCK_VALUE
           \<and> cmd' = 0x20 \<and> PER_CLOCK c' = PER_CLOCK (SystemInit c) OR RST_CLK_PCLK_EEPROM)
    \<and> (\<not> r \<longrightarrow> CPU_CLK_Frequency (RST_CLK_GetClocksFreq c') = HSI_Value \<and> cmd' = cmd)"
  using assms by (rule ClockConfigure_result)

theorem ClockConfigure_correct_witness:
  "let rd = (\<lambda>i. (if i < 5000 then 0 else 6, 0)) in
   \<exists>t' c' cmd'. ClockConfigure rd 0 (SystemInit clk_zero, 0) = (True, t', c', cmd')
     \<and> unat (SystemCoreClock c') = 100000000 \<and> cmd' = 0x20"
proof -
  let ?rd = "\<lambda>i. (if i < (5000 :: nat) then 0 else 6, 0) :: u32 \<times> u32"
  have "ready_from RST_CLK_FLAG_HSERDY ?rd 0 5000" "ready_from RST_CLK_FLAG_PLLCPURDY ?rd 0 5000"
    by (simp_all add: ready_from_def RST_CLK_GetFlagStatus_def reg_defs)
  from ClockConfigure_correct [OF this, of clk_zero 0] show ?thesis
    by (cases "ClockConfigure ?rd 0 (SystemInit clk_zero, 0)")
      (simp add: retry_budget_def HSEonTimeOut_def PLLCPUonTimeOut_def CPU_CLOCK_VALUE_def)
qed

text \<open>
  \<open>InitWatchDog\<close> returns if and only if the flag \<open>PVU\<close> is read as set at some time: a
  prescaler update that is already over at the first read makes it wait for ever. When it
  returns, the clock of the watchdog is on, the time-out is the four seconds that the
  comment states, and the last key written is the one that reloads the counter.
\<close>

theorem InitWatchDog_correct:
  "((\<exists>r. InitWatchDog sr (c, w) = Some r) \<longleftrightarrow> (\<exists>i. sr i AND IWDG_FLAG_PVU \<noteq> 0))
   \<and> (\<forall>c' w'. InitWatchDog sr (c, w) = Some (c', w') \<longrightarrow>
        PER_CLOCK c' AND RST_CLK_PCLK_IWDG = RST_CLK_PCLK_IWDG
        \<and> watchdog_seconds w' = 4 \<and> IWDG_KR w' = 0xAAAA)"
proof -
  have "(\<exists>r. InitWatchDog sr (c, w) = Some r) \<longleftrightarrow> (\<exists>i\<ge>0. sr i AND IWDG_FLAG_PVU \<noteq> 0)"
    using wait_until_returns [of "\<lambda>i. sr i AND IWDG_FLAG_PVU \<noteq> 0" 0]
    by (auto simp: InitWatchDog_def IWDG_GetFlagStatus_def)
  moreover have "(x OR m) AND m = m" for x m :: u32 by (intro bit_word_eqI) (auto simp: bit_simps)
  ultimately show ?thesis
    by (auto simp: InitWatchDog_def watchdog_seconds_def RST_CLK_PCLKcmd_def c_defs reg_defs
        IWDG_SetPrescaler_def IWDG_WriteAccessEnable_def IWDG_ReloadCounter_def IWDG_Enable_def
        IWDG_SetReload_def)
qed

theorem InitWatchDog_correct_witness:
  "\<exists>c' w'. InitWatchDog (\<lambda>i. if i = 3 then 1 else 0) (clk_zero, \<lparr>IWDG_KR = 0, IWDG_PR = 0, IWDG_RLR = 0\<rparr>)
      = Some (c', w') \<and> watchdog_seconds w' = 4"
proof -
  let ?sr = "\<lambda>i. if i = (3 :: nat) then 1 else 0 :: u32" and ?w = "\<lparr>IWDG_KR = 0, IWDG_PR = 0, IWDG_RLR = 0\<rparr>"
  have "?sr 3 AND IWDG_FLAG_PVU \<noteq> 0" by (simp add: IWDG_FLAG_PVU_def)
  then obtain r where "InitWatchDog ?sr (clk_zero, ?w) = Some r"
    using InitWatchDog_correct [of ?sr clk_zero ?w] by blast
  then show ?thesis using InitWatchDog_correct [of ?sr clk_zero ?w] by (cases r) auto
qed

end
