(* ===== verification/XTick.thy ===== *)
theory XTick
  imports Prelude "HOL-Library.Monad_Syntax"
begin

text \<open>
  The tick counter \<open>Application/XTick.c\<close>: a free-running 24-bit hardware timer, an interrupt
  handler that counts its overflows, and the routines that combine both into one value.

  Hardware and code run concurrently. The model keeps the number of CPU cycles since the
  timer was started, from which the counter register and the moments of overflow follow,
  and an explicit \<open>elapse\<close> between any two accesses; the durations come from the environment,
  three for each pass of the loop in \<open>GetRawXTick\<close>: while the interrupt is enabled, from there
  to the load of the counter, and from there to the test of the overflow flag.
\<close>

section \<open>Timer, interrupt and state\<close>

record xtick =
  m_dwInternalTicks :: u32
  CNT_ZERO :: bool
  now :: nat

type_synonym delays = "nat \<Rightarrow> nat \<times> nat \<times> nat"

definition TIMER_HIGH_BITS_CNT :: nat where "TIMER_HIGH_BITS_CNT = 18"

definition TICKS_PER_SECOND :: nat where
  "TICKS_PER_SECOND = 100000000 div 2 ^ (24 - TIMER_HIGH_BITS_CNT)"

definition TICKS_PER_MILLISECOND :: nat where
  "TICKS_PER_MILLISECOND = TICKS_PER_SECOND div 1000"

definition GetHWTimerVal :: "xtick \<Rightarrow> u32" where
  "GetHWTimerVal s = of_nat (now s mod 2 ^ 24)"

text \<open>\<open>d\<close> cycles pass: an overflow sets the flag \<open>TIMER_STATUS_CNT_ZERO\<close>.\<close>

definition elapse :: "nat \<Rightarrow> xtick \<Rightarrow> xtick" where
  "elapse d s = s\<lparr>CNT_ZERO := CNT_ZERO s \<or> now s div 2 ^ 24 < (now s + d) div 2 ^ 24, now := now s + d\<rparr>"

definition TIMER1_IRQHandler :: "xtick \<Rightarrow> xtick" where
  "TIMER1_IRQHandler s = s\<lparr>m_dwInternalTicks := m_dwInternalTicks s + 1, CNT_ZERO := False\<rparr>"

text \<open>The interrupt controller while the interrupt is enabled.\<close>

definition take_irq :: "xtick \<Rightarrow> xtick" where
  "take_irq s = (if CNT_ZERO s then TIMER1_IRQHandler s else s)"

section \<open>Reading the counter\<close>

partial_function (option) GetRawXTick ::
  "delays \<Rightarrow> nat \<Rightarrow> xtick \<Rightarrow> ((u32 \<times> u32) \<times> nat \<times> xtick) option"
where
  "GetRawXTick dl k s =
     (let (a, b, c) = dl k;
          s1 = take_irq (elapse a (take_irq s));
          s2 = elapse b s1;
          LowBits = GetHWTimerVal s2;
          HighBits = m_dwInternalTicks s2;
          s3 = elapse c s2
      in if CNT_ZERO s3 then GetRawXTick dl (k + 1) s3
         else Some ((HighBits, LowBits), k + 1, take_irq s3))"

definition GetXTick :: "delays \<Rightarrow> nat \<Rightarrow> xtick \<Rightarrow> (u32 \<times> nat \<times> xtick) option" where
  "GetXTick dl k s = do {
     ((highbits, lowbits), k1, s1) \<leftarrow> GetRawXTick dl k s;
     let result = drop_bit (24 - TIMER_HIGH_BITS_CNT) lowbits;
     Some (result OR push_bit TIMER_HIGH_BITS_CNT highbits, k1, s1)
   }"

definition GetXTickDiv1024 :: "delays \<Rightarrow> nat \<Rightarrow> xtick \<Rightarrow> (u32 \<times> nat \<times> xtick) option" where
  "GetXTickDiv1024 dl k s = do {
     ((highbits, lowbits), k1, s1) \<leftarrow> GetRawXTick dl k s;
     let result = drop_bit (24 - (TIMER_HIGH_BITS_CNT - 10)) lowbits;
     Some (result OR push_bit (TIMER_HIGH_BITS_CNT - 10) highbits, k1, s1)
   }"

partial_function (option) DelayMs_loop ::
  "delays \<Rightarrow> u32 \<Rightarrow> u32 \<Rightarrow> nat \<Rightarrow> xtick \<Rightarrow> (nat \<times> xtick) option"
where
  "DelayMs_loop dl delay ticks k s =
     Option.bind (GetXTick dl k s) (\<lambda>(v, k1, s1).
       if v - ticks < of_nat TICKS_PER_MILLISECOND * delay then DelayMs_loop dl delay ticks k1 s1
       else Some (k1, s1))"

definition DelayMs :: "delays \<Rightarrow> u32 \<Rightarrow> nat \<Rightarrow> xtick \<Rightarrow> (nat \<times> xtick) option" where
  "DelayMs dl delay k s = do {
     (ticks, k1, s1) \<leftarrow> GetXTick dl k s;
     DelayMs_loop dl delay ticks k1 s1
   }"

section \<open>The counter and the overflow count agree\<close>

text \<open>The handler has counted all overflows but the one that the flag announces.\<close>

definition xtick_ok :: "xtick \<Rightarrow> bool" where
  "xtick_ok s \<longleftrightarrow> m_dwInternalTicks s + (if CNT_ZERO s then 1 else 0) = of_nat (now s div 2 ^ 24)"

definition short :: "delays \<Rightarrow> bool" where
  "short dl \<longleftrightarrow> (\<forall>k. case dl k of (a, b, c) \<Rightarrow> a + b + c < 2 ^ 22)"

lemma take_irq_now [simp]: "now (take_irq s) = now s" "\<not> CNT_ZERO (take_irq s)"
  by (simp_all add: take_irq_def TIMER1_IRQHandler_def)

lemma elapse_now [simp]: "now (elapse d s) = now s + d"
  by (simp add: elapse_def)

lemma elapse_add: "elapse c (elapse b s) = elapse (b + c) s"
proof -
  have "now s div 2 ^ 24 \<le> (now s + b) div 2 ^ 24" "(now s + b) div 2 ^ 24 \<le> (now s + b + c) div 2 ^ 24"
    by (rule div_le_mono, simp)+
  then have "(now s div 2 ^ 24 < (now s + b) div 2 ^ 24 \<or> (now s + b) div 2 ^ 24 < (now s + b + c) div 2 ^ 24)
      = (now s div 2 ^ 24 < (now s + b + c) div 2 ^ 24)"
    by linarith
  then show ?thesis by (simp add: elapse_def add.assoc)
qed

lemma take_irq_ok: "xtick_ok s \<Longrightarrow> xtick_ok (take_irq s)"
  by (auto simp: xtick_ok_def take_irq_def TIMER1_IRQHandler_def)

lemma div_step:
  fixes d t M :: nat
  assumes "d < M"
  shows "(t + d) div M = t div M + (if t mod M + d < M then 0 else 1)"
proof -
  have "t mod M < M" using assms by simp
  then have "t mod M + d - M < M" using assms by linarith
  then have "(t mod M + d) div M = (if t mod M + d < M then 0 else 1)"
    using assms by (simp add: le_div_geq)
  then show ?thesis using assms by (simp add: div_add1_eq [of t d M])
qed

lemma elapse_ok:
  assumes "xtick_ok s" "\<not> CNT_ZERO s" "d < 2 ^ 24"
  shows "xtick_ok (elapse d s)" "CNT_ZERO (elapse d s) \<longleftrightarrow> 2 ^ 24 \<le> now s mod 2 ^ 24 + d"
  using assms by (auto simp: xtick_ok_def elapse_def div_step)

text \<open>One pass of the loop, from a consistent state.\<close>

definition pass_result :: "delays \<Rightarrow> nat \<Rightarrow> xtick \<Rightarrow> xtick \<Rightarrow> bool" where
  "pass_result dl k s s3 \<longleftrightarrow> (case dl k of (a, b, c) \<Rightarrow>
     now s3 = now s + (a + b + c) \<and> xtick_ok s3
     \<and> (CNT_ZERO s3 \<longrightarrow> now s3 mod 2 ^ 24 < b + c \<and> GetRawXTick dl k s = GetRawXTick dl (k + 1) s3)
     \<and> (\<not> CNT_ZERO s3 \<longrightarrow> GetRawXTick dl k s =
          Some ((of_nat ((now s + a + b) div 2 ^ 24), of_nat ((now s + a + b) mod 2 ^ 24)), k + 1, s3))
     \<and> (now s mod 2 ^ 24 + (a + b + c) < 2 ^ 24 \<longrightarrow> \<not> CNT_ZERO s3))"

lemma GetRawXTick_pass:
  assumes ok: "xtick_ok s" and dl: "dl k = (a, b, c)" and le: "a + b + c < 2 ^ 22"
  shows "\<exists>s3. pass_result dl k s s3"
proof -
  define s1 where "s1 = take_irq (elapse a (take_irq s))"
  have s1: "xtick_ok s1" "\<not> CNT_ZERO s1" "now s1 = now s + a"
    unfolding s1_def using elapse_ok [OF take_irq_ok [OF ok]] le by (simp_all add: take_irq_ok)
  let ?s3 = "elapse c (elapse b s1)"
  have eq: "?s3 = elapse (b + c) s1" by (rule elapse_add)
  have bc: "b + c < 2 ^ 24" using le by simp
  note s3 = elapse_ok [OF s1(1,2) bc]
  have r1: "now ?s3 = now s + (a + b + c)" using s1 by simp
  have r2: "xtick_ok ?s3" using s3 eq by simp
  have code: "GetRawXTick dl k s = (if CNT_ZERO ?s3 then GetRawXTick dl (k + 1) ?s3
      else Some ((m_dwInternalTicks (elapse b s1), GetHWTimerVal (elapse b s1)), k + 1, take_irq ?s3))"
    by (subst GetRawXTick.simps) (simp add: dl Let_def s1_def)
  have r3: "now ?s3 mod 2 ^ 24 < b + c \<and> GetRawXTick dl k s = GetRawXTick dl (k + 1) ?s3" if "CNT_ZERO ?s3"
  proof -
    have ge: "2 ^ 24 \<le> now s1 mod 2 ^ 24 + (b + c)" using that s3(2) eq by simp
    have "now s1 mod 2 ^ 24 < (2 ^ 24 :: nat)" by simp
    then have "(now s1 mod 2 ^ 24 + (b + c)) mod 2 ^ 24 < b + c" using ge bc by (simp add: le_mod_geq)
    then show ?thesis using that code by (simp add: mod_add_left_eq add.assoc)
  qed
  have r4: "GetRawXTick dl k s =
      Some ((of_nat ((now s + a + b) div 2 ^ 24), of_nat ((now s + a + b) mod 2 ^ 24)), k + 1, ?s3)"
    if n: "\<not> CNT_ZERO ?s3"
  proof -
    have "now s1 mod 2 ^ 24 + (b + c) < 2 ^ 24" using n s3(2) eq by simp
    then have "(now s1 + b) div 2 ^ 24 = now s1 div 2 ^ 24" using bc by (simp add: div_step)
    moreover have "m_dwInternalTicks (elapse b s1) = of_nat (now s1 div 2 ^ 24)"
      using s1(1,2) by (simp add: xtick_ok_def elapse_def)
    ultimately show ?thesis
      using n s1(3) unfolding code by (simp add: take_irq_def GetHWTimerVal_def)
  qed
  have r5: "\<not> CNT_ZERO ?s3" if "now s mod 2 ^ 24 + (a + b + c) < 2 ^ 24"
  proof -
    have "now s1 mod 2 ^ 24 + (b + c) < 2 ^ 24"
      using that mod_add_left_eq [of "now s" "2 ^ 24" a] by (simp add: s1(3))
    then show ?thesis using s3(2) eq by simp
  qed
  show ?thesis
    using r1 r2 r3 r4 r5 unfolding pass_result_def dl prod.case by (intro exI [of _ ?s3] conjI impI) auto
qed

lemma GetRawXTick_returns:
  assumes ok: "xtick_ok s" and sh: "short dl"
  shows "\<exists>\<tau> k' s'. GetRawXTick dl k s = Some ((of_nat (\<tau> div 2 ^ 24), of_nat (\<tau> mod 2 ^ 24)), k', s')
    \<and> k < k' \<and> k' \<le> k + 2 \<and> now s \<le> \<tau> \<and> \<tau> \<le> now s' \<and> now s' < now s + 2 ^ 23 \<and> xtick_ok s'
    \<and> (case dl k of (a, b, c) \<Rightarrow> now s + (a + b + c) \<le> now s')"
proof -
  obtain a b c where dl: "dl k = (a, b, c)" by (cases "dl k")
  obtain a' b' c' where dl': "dl (k + 1) = (a', b', c')" by (cases "dl (k + 1)")
  have le: "a + b + c < 2 ^ 22" "a' + b' + c' < 2 ^ 22"
    using sh [unfolded short_def, rule_format, of k] sh [unfolded short_def, rule_format, of "k + 1"]
    unfolding dl dl' by simp_all
  obtain s3 where "pass_result dl k s s3" using GetRawXTick_pass [of s dl k, OF ok dl le(1)] by blast
  note s3 = this [unfolded pass_result_def dl prod.case]
  show ?thesis
  proof (cases "CNT_ZERO s3")
    case False
    then show ?thesis
      using s3 le dl by (intro exI [of _ "now s + a + b"] exI [of _ "k + 1"] exI [of _ s3]) simp
  next
    case True
    obtain s4 where "pass_result dl (k + 1) s3 s4"
      using GetRawXTick_pass [of s3 dl "k + 1", OF _ dl' le(2)] s3 by blast
    note s4 = this [unfolded pass_result_def dl' prod.case]
    have "now s3 mod 2 ^ 24 < b + c" using s3 True by blast
    then have "now s3 mod 2 ^ 24 + (a' + b' + c') < 2 ^ 24" using le by (simp del: mod_less)
    then show ?thesis
      using s3 s4 True le dl
      by (intro exI [of _ "now s3 + a' + b'"] exI [of _ "k + 2"] exI [of _ s4]) simp
  qed
qed

lemma combine_bits:
  assumes "h \<le> 24"
  shows "drop_bit (24 - h) (of_nat (\<tau> mod 2 ^ 24) :: u32) OR push_bit h (of_nat (\<tau> div 2 ^ 24))
    = of_nat (\<tau> div 2 ^ (24 - h))"
proof (rule bit_word_eqI)
  fix n
  assume "n < LENGTH(32)"
  moreover have "\<not> n < h \<Longrightarrow> n + (24 - h) = 24 + (n - h)" using assms by simp
  moreover have "n < h \<Longrightarrow> n + (24 - h) < 24" using assms by linarith
  ultimately show "bit (drop_bit (24 - h) (of_nat (\<tau> mod 2 ^ 24) :: u32)
      OR push_bit h (of_nat (\<tau> div 2 ^ 24))) n = bit (of_nat (\<tau> div 2 ^ (24 - h)) :: u32) n"
    unfolding drop_bit_eq_div [symmetric] take_bit_eq_mod [symmetric]
    using assms by (cases "n < h") (auto simp: bit_simps add.commute)
qed

lemma GetXTick_returns:
  assumes "xtick_ok s" "short dl"
  shows "\<exists>\<tau> k' s'. GetXTick dl k s = Some (of_nat (\<tau> div 64), k', s')
      \<and> GetXTickDiv1024 dl k s = Some (of_nat (\<tau> div 65536), k', s')
      \<and> k < k' \<and> k' \<le> k + 2 \<and> now s \<le> \<tau> \<and> \<tau> \<le> now s' \<and> now s' < now s + 2 ^ 23 \<and> xtick_ok s'
      \<and> (case dl k of (a, b, c) \<Rightarrow> now s + (a + b + c) \<le> now s')"
  using GetRawXTick_returns [OF assms, of k]
proof (elim exE conjE)
  fix \<tau> k' s'
  assume "GetRawXTick dl k s = Some ((of_nat (\<tau> div 2 ^ 24), of_nat (\<tau> mod 2 ^ 24)), k', s')"
  then have "GetXTick dl k s = Some (of_nat (\<tau> div 64), k', s')"
    "GetXTickDiv1024 dl k s = Some (of_nat (\<tau> div 65536), k', s')"
    using combine_bits [of 18 \<tau>] combine_bits [of 8 \<tau>]
    by (simp_all add: GetXTick_def GetXTickDiv1024_def TIMER_HIGH_BITS_CNT_def)
  moreover assume "k < k'" "k' \<le> k + 2" "now s \<le> \<tau>" "\<tau> \<le> now s'" "now s' < now s + 2 ^ 23" "xtick_ok s'"
    "case dl k of (a, b, c) \<Rightarrow> now s + (a + b + c) \<le> now s'"
  ultimately show ?thesis by (intro exI [of _ \<tau>] exI [of _ k'] exI [of _ s'] conjI)
qed

text \<open>
  C21. From any state in which the handler has served all overflows but at most one, and
  whatever the timing of the overflow relative to the loads, as long as one pass of the
  loop takes less than \<open>2 ^ 22\<close> cycles: \<open>GetXTick\<close> and \<open>GetXTickDiv1024\<close> return after at most two
  passes, no overflow is lost or counted twice, and the value returned is the number of
  cycles, divided by 64 or by 65536, at a moment between the call and the return.
\<close>

theorem GetXTick_correct:
  assumes "xtick_ok s" "short dl"
  shows "\<exists>\<tau> k' s'. GetXTick dl k s = Some (of_nat (\<tau> div 64), k', s')
      \<and> GetXTickDiv1024 dl k s = Some (of_nat (\<tau> div 65536), k', s')
      \<and> k' \<le> k + 2 \<and> now s \<le> \<tau> \<and> \<tau> \<le> now s' \<and> xtick_ok s'"
  using GetXTick_returns [OF assms, of k] by blast

text \<open>An overflow between the load of the counter and the test of the flag.\<close>

theorem GetXTick_correct_witness:
  "let s = \<lparr>m_dwInternalTicks = 0, CNT_ZERO = False, now = 2 ^ 24 - 30\<rparr> in
   \<exists>\<tau> k' s'. GetXTick (\<lambda>_. (10, 10, 20)) 0 s = Some (of_nat (\<tau> div 64), k', s')
     \<and> k' \<le> 2 \<and> 2 ^ 24 - 30 \<le> \<tau> \<and> \<tau> \<le> now s'"
proof -
  let ?s = "\<lparr>m_dwInternalTicks = 0, CNT_ZERO = False, now = 2 ^ 24 - 30\<rparr>"
  have "xtick_ok ?s" "short (\<lambda>_. (10, 10, 20))" by (simp_all add: xtick_ok_def short_def)
  from GetXTick_correct [OF this, of 0] show ?thesis by auto
qed

section \<open>The delay\<close>

definition passing :: "delays \<Rightarrow> bool" where
  "passing dl \<longleftrightarrow> (\<forall>k. case dl k of (a, b, c) \<Rightarrow> 0 < a + b + c)"

lemma unat_tick_diff:
  assumes "\<tau>0 \<le> \<tau>" "\<tau> div 64 - \<tau>0 div 64 < 2 ^ 32"
  shows "unat (of_nat (\<tau> div 64) - of_nat (\<tau>0 div 64) :: u32) = \<tau> div 64 - \<tau>0 div 64"
proof -
  have "\<tau>0 div 64 \<le> \<tau> div 64" using assms(1) by (rule div_le_mono)
  then have "(of_nat (\<tau> div 64) - of_nat (\<tau>0 div 64) :: u32) = of_nat (\<tau> div 64 - \<tau>0 div 64)"
    by (simp add: of_nat_diff)
  then show ?thesis using assms(2) unat_of_nat_u32 by simp
qed

lemma DelayMs_loop_returns:
  fixes delay :: u32
  defines "D \<equiv> TICKS_PER_MILLISECOND * unat delay"
  assumes sh: "short dl" "passing dl" and D: "D < 2 ^ 31"
    and "xtick_ok s" "\<tau>0 \<le> now s" "now s < \<tau>0 + 64 * D + 64 + 2 ^ 24"
  shows "\<exists>k' s'. DelayMs_loop dl delay (of_nat (\<tau>0 div 64)) k s = Some (k', s')
    \<and> xtick_ok s' \<and> \<tau>0 + 64 * D < now s' + 64 \<and> now s' < (if now s < \<tau>0 + 64 * D + 64 then \<tau>0 + 64 * D + 64 + 2 ^ 24 else now s + 2 ^ 23)"
  using assms(5-)
proof (induction "\<tau>0 + 64 * D + 64 - now s" arbitrary: s k rule: less_induct)
  case less
  obtain \<tau> k1 s1 where r: "GetXTick dl k s = Some (of_nat (\<tau> div 64), k1, s1)" "now s \<le> \<tau>" "\<tau> \<le> now s1"
    "now s1 < now s + 2 ^ 23" "xtick_ok s1" "now s < now s1"
    using GetXTick_returns [OF less.prems(1) sh(1), of k] sh(2) [unfolded passing_def, rule_format, of k]
    by (cases "dl k") auto
  have b: "\<tau> div 64 - \<tau>0 div 64 < 2 ^ 32" "\<tau>0 \<le> \<tau>" using r less.prems D by auto
  have lim: "unat (of_nat TICKS_PER_MILLISECOND * delay) = D"
  proof -
    have "(of_nat TICKS_PER_MILLISECOND * delay :: u32) = of_nat D" by (simp add: D_def)
    then show ?thesis using D unat_of_nat_u32 [of D] by simp
  qed
  have code: "DelayMs_loop dl delay (of_nat (\<tau>0 div 64)) k s =
      (if \<tau> div 64 - \<tau>0 div 64 < D then DelayMs_loop dl delay (of_nat (\<tau>0 div 64)) k1 s1 else Some (k1, s1))"
    by (subst DelayMs_loop.simps) (simp add: r(1) word_less_nat_alt lim unat_tick_diff [OF b(2,1)])
  show ?case
  proof (cases "\<tau> div 64 - \<tau>0 div 64 < D")
    case True
    then have "\<tau> < \<tau>0 + 64 * D + 64" by linarith
    then have lt: "now s < \<tau>0 + 64 * D + 64" using r(2) by linarith
    then have m: "\<tau>0 + 64 * D + 64 - now s1 < \<tau>0 + 64 * D + 64 - now s" using r(6) by linarith
    have le: "\<tau>0 \<le> now s1" "now s1 < \<tau>0 + 64 * D + 64 + 2 ^ 24" using lt r less.prems by simp_all
    obtain k' s' where "DelayMs_loop dl delay (of_nat (\<tau>0 div 64)) k1 s1 = Some (k', s')"
      "xtick_ok s'" "\<tau>0 + 64 * D < now s' + 64"
      "now s' < (if now s1 < \<tau>0 + 64 * D + 64 then \<tau>0 + 64 * D + 64 + 2 ^ 24 else now s1 + 2 ^ 23)"
      using less.hyps [of s1 k1, OF m r(5)] le by blast
    then show ?thesis using lt r True unfolding code by (auto split: if_splits)
  next
    case False
    then have "64 * D \<le> 64 * (\<tau> div 64 - \<tau>0 div 64)" by simp
    then have "\<tau>0 + 64 * D < \<tau> + 64" using b(2) by linarith
    then show ?thesis using r False unfolding code by auto
  qed
qed

lemma DelayMs_returns:
  assumes "xtick_ok s" "short dl" "passing dl" "unat delay < 2 ^ 20"
  shows "\<exists>k' s'. DelayMs dl delay k s = Some (k', s') \<and> xtick_ok s'
    \<and> now s + 99968 * unat delay < now s' + 64 \<and> now s' < now s + 99968 * unat delay + 2 ^ 25"
proof -
  have T: "TICKS_PER_MILLISECOND = 1562"
    by (simp add: TICKS_PER_MILLISECOND_def TICKS_PER_SECOND_def TIMER_HIGH_BITS_CNT_def)
  obtain \<tau>0 k1 s1 where r: "GetXTick dl k s = Some (of_nat (\<tau>0 div 64), k1, s1)" "now s \<le> \<tau>0"
    "\<tau>0 \<le> now s1" "now s1 < now s + 2 ^ 23" "xtick_ok s1"
    using GetXTick_returns [OF assms(1,2), of k] by blast
  then show ?thesis
    using DelayMs_loop_returns [OF assms(2,3), of delay s1 \<tau>0 k1] assms(4)
    by (auto simp: DelayMs_def T split: if_splits)
qed

text \<open>
  \<open>DelayMs\<close> returns, and it waits for \<open>delay\<close> milliseconds of 99968 cycles, up to one tick
  of 64 cycles less: since \<open>TICKS_PER_MILLISECOND\<close> is rounded down from 1562.5, the wait can be
  shorter than the 100000 cycles per millisecond of the 100 MHz clock.
\<close>

theorem DelayMs_correct:
  assumes "xtick_ok s" "short dl" "passing dl" "unat delay < 2 ^ 20"
  shows "\<exists>k' s'. DelayMs dl delay k s = Some (k', s') \<and> xtick_ok s'
    \<and> now s + 99968 * unat delay < now s' + 64 \<and> now s' < now s + 99968 * unat delay + 2 ^ 25"
  using assms by (rule DelayMs_returns)

theorem DelayMs_correct_witness:
  "let s = \<lparr>m_dwInternalTicks = 0, CNT_ZERO = False, now = 0\<rparr> in
   \<exists>k' s'. DelayMs (\<lambda>_. (10, 10, 20)) 50 0 s = Some (k', s') \<and> 4998400 < now s' + 64"
proof -
  let ?s = "\<lparr>m_dwInternalTicks = 0, CNT_ZERO = False, now = 0\<rparr>"
  have "xtick_ok ?s" "short (\<lambda>_. (10, 10, 20))" "passing (\<lambda>_. (10, 10, 20))"
    by (simp_all add: xtick_ok_def short_def passing_def)
  from DelayMs_correct [OF this, of 50 0] show ?thesis by auto
qed

end
