(* ===== verification/PPS.thy ===== *)
theory PPS
  imports Timer Port Board XTick
begin

text \<open>
  The two timers of the application: \<open>InitXTick\<close> of \<open>XTick.c\<close> and the one-second generator
  \<open>PPS.c\<close> (\<open>FlagTimerInit\<close>, \<open>TIMER2_IRQHandler\<close>, \<open>GetSecond\<close>).
\<close>

section \<open>State\<close>

record tmr =
  tmr_clk :: clk
  tmr_ports :: ports
  tmr_timers :: timers
  tmr_nvic :: NVIC_Type

definition on_clk :: "(clk \<Rightarrow> clk) \<Rightarrow> tmr \<Rightarrow> tmr" where
  [c_defs]: "on_clk f s = s\<lparr>tmr_clk := f (tmr_clk s)\<rparr>"

definition on_timer :: "timer_id \<Rightarrow> (MDR_TIMER_TypeDef \<Rightarrow> MDR_TIMER_TypeDef) \<Rightarrow> tmr \<Rightarrow> tmr" where
  [c_defs]: "on_timer i f s = s\<lparr>tmr_timers := (tmr_timers s)(i := f (tmr_timers s i))\<rparr>"

definition on_nvic :: "(NVIC_Type \<Rightarrow> NVIC_Type) \<Rightarrow> tmr \<Rightarrow> tmr" where
  [c_defs]: "on_nvic f s = s\<lparr>tmr_nvic := f (tmr_nvic s)\<rparr>"

section \<open>The tick timer\<close>

definition InitXTick :: "tmr \<Rightarrow> tmr" where
  "InitXTick s =
     (let s1 = on_clk (RST_CLK_PCLKcmd RST_CLK_PCLK_TIMER1 ENABLE) s;
          s2 = on_timer MDR_TIMER1 TIMER_DeInit s1;
          sTimerCnt = TIMER_CntStructInit
            \<lparr>TIMER_Prescaler := 0, TIMER_Period := push_bit 24 1 - 1, TIMER_CounterMode := 0,
             TIMER_CounterDirection := 0, TIMER_EventSource := 0, TIMER_FilterSampling := 0,
             TIMER_ARR_UpdateMode := 0, TIMER_ETR_FilterConf := 0, TIMER_ETR_Prescaler := 0,
             TIMER_ETR_Polarity := 0, TIMER_BRK_Polarity := 0\<rparr>;
          s3 = on_timer MDR_TIMER1 (TIMER_CntInit sTimerCnt) s2;
          s4 = on_clk (TIMER_BRGInit MDR_TIMER1 0) s3;
          s5 = on_timer MDR_TIMER1 (TIMER_ITConfig TIMER_STATUS_CNT_ZERO ENABLE) s4;
          s6 = on_nvic (NVIC_EnableIRQ TIMER1_IRQn \<circ> NVIC_SetPriority TIMER1_IRQn 3) s5
      in on_timer MDR_TIMER1 (TIMER_Cmd ENABLE) s6)"

section \<open>The one-second timer\<close>

definition RST_CLK_PCLK_PORTE :: u32 where "RST_CLK_PCLK_PORTE = PCLK_BIT 0x400C8000"

text \<open>
  \<open>junk\<close> is what the automatic variable \<open>PortInit\<close> holds before its members are set, \<open>junk_out\<close>
  the same for \<open>sTimerChnOut\<close>.
\<close>

definition FlagTimerInit :: "PORT_InitTypeDef \<Rightarrow> TIMER_ChnOutInitTypeDef \<Rightarrow> tmr \<Rightarrow> tmr" where
  "FlagTimerInit junk junk_out s =
     (let s1 = on_clk (RST_CLK_PCLKcmd RST_CLK_PCLK_PORTE ENABLE) s;
          PortInit = junk\<lparr>PORT_OE := 1, PORT_FUNC := 1, PORT_MODE := 1, PORT_SPEED := 2,
                          PORT_Pin := 0x80\<rparr>;
          s2 = s1\<lparr>tmr_ports := PORT_Init MDR_PORTE PortInit (tmr_ports s1)\<rparr>;
          s3 = on_clk (RST_CLK_PCLKcmd RST_CLK_PCLK_TIMER2 ENABLE) s2;
          s4 = on_timer MDR_TIMER2 TIMER_DeInit s3;
          sTimerCnt = TIMER_CntStructInit
            \<lparr>TIMER_Prescaler := of_nat (CPU_CLOCK_VALUE div 10000), TIMER_Period := 10000 - 1,
             TIMER_CounterMode := 0, TIMER_CounterDirection := 0, TIMER_EventSource := 0,
             TIMER_FilterSampling := 0, TIMER_ARR_UpdateMode := 0, TIMER_ETR_FilterConf := 0,
             TIMER_ETR_Prescaler := 0, TIMER_ETR_Polarity := 0, TIMER_BRK_Polarity := 0\<rparr>;
          s5 = on_timer MDR_TIMER2 (TIMER_CntInit sTimerCnt) s4;
          sTimerChnInit = TIMER_ChnStructInit
            \<lparr>TIMER_CH_Mode := 0, TIMER_CH_REF_Format := push_bit 9 7, TIMER_CH_Number := 0\<rparr>;
          s6 = on_timer MDR_TIMER2 (TIMER_ChnInit sTimerChnInit) s5;
          s7 = on_timer MDR_TIMER2 (TIMER_SetChnCompare 0 300) s6;
          sTimerChnOut = (TIMER_ChnOutStructInit junk_out)
            \<lparr>TIMER_CH_DirOut_Source := 2, TIMER_CH_DirOut_Mode := 1, TIMER_CH_NegOut_Source := 2,
             TIMER_CH_NegOut_Mode := 1, TIMER_CHO_Number := 0\<rparr>;
          s8 = on_timer MDR_TIMER2 (TIMER_ChnOutInit sTimerChnOut) s7;
          s9 = on_clk (TIMER_BRGInit MDR_TIMER2 0) s8;
          s10 = on_timer MDR_TIMER2 (TIMER_ITConfig TIMER_STATUS_CNT_ZERO ENABLE) s9;
          s11 = on_nvic (NVIC_EnableIRQ TIMER2_IRQn \<circ> NVIC_SetPriority TIMER2_IRQn 3) s10
      in on_timer MDR_TIMER2 (TIMER_Cmd ENABLE) s11)"

text \<open>The counter of seconds and the status register of timer 2.\<close>

record pps =
  ticks_two :: u32
  PPS_STATUS :: u32

definition TIMER2_IRQHandler :: "pps \<Rightarrow> pps" where
  "TIMER2_IRQHandler p =
     p\<lparr>ticks_two := ticks_two p + 1, PPS_STATUS := PPS_STATUS p AND NOT TIMER_STATUS_CNT_ZERO\<rparr>"

definition GetSecond :: "pps \<Rightarrow> u32" where
  "GetSecond p = ticks_two p"

section \<open>What the two timers measure\<close>

lemma or_and_same: "(x OR m) AND m = m" for x m :: "'a::len word"
  by (intro bit_word_eqI) (auto simp: bit_simps)

lemmas timer_setup_defs = Let_def TIMER_CntInit_def TIMER_CntStructInit_def TIMER_DeInit_def
  TIMER_Cmd_def TIMER_ITConfig_def TIMER_ChnInit_def TIMER_SetChnCompare_def TIMER_ChnOutInit_def
  NVIC_EnableIRQ_def NVIC_SetPriority_def RST_CLK_PCLKcmd_def

text \<open>
  After \<open>InitXTick\<close> timer 1 runs with a period of \<open>2 ^ 24\<close> cycles, the one that \<open>GetXTick\<close>
  relies on, and its interrupt and its clocks are enabled.
\<close>

theorem InitXTick_period:
  "timer_runs (tmr_timers (InitXTick s) MDR_TIMER1)
   \<and> timer_period (tmr_timers (InitXTick s) MDR_TIMER1) = 2 ^ 24
   \<and> TIM_CLOCK (tmr_clk (InitXTick s)) AND 0x10000FF = 0x1000000
   \<and> PER_CLOCK (tmr_clk (InitXTick s)) AND RST_CLK_PCLK_TIMER1 = RST_CLK_PCLK_TIMER1
   \<and> bit (NVIC_ISER (tmr_nvic (InitXTick s))) TIMER1_IRQn"
proof (intro conjI)
  have t: "tmr_timers (InitXTick s) MDR_TIMER1 = (TIMER_DeInit (tmr_timers s MDR_TIMER1))
      \<lparr>ARR := 0xFFFFFF, TIM_CNTRL := 1, TIM_IE := 1\<rparr>"
    by (simp add: InitXTick_def c_defs timer_setup_defs reg_defs)
  show "timer_runs (tmr_timers (InitXTick s) MDR_TIMER1)"
    "timer_period (tmr_timers (InitXTick s) MDR_TIMER1) = 2 ^ 24"
    unfolding t by (simp_all add: timer_runs_def timer_period_def TIMER_DeInit_def reg_defs)
  have "TIM_CLOCK (tmr_clk (InitXTick s)) = tim_brg 0 0xFF 0x1000000 0 (TIM_CLOCK (tmr_clk s))"
    by (simp add: InitXTick_def c_defs timer_setup_defs)
  then show "TIM_CLOCK (tmr_clk (InitXTick s)) AND 0x10000FF = 0x1000000"
    by (simp add: tim_brg_def and.assoc bit.conj_disj_distrib2)
  show "PER_CLOCK (tmr_clk (InitXTick s)) AND RST_CLK_PCLK_TIMER1 = RST_CLK_PCLK_TIMER1"
    by (simp add: InitXTick_def c_defs timer_setup_defs or_and_same)
  show "bit (NVIC_ISER (tmr_nvic (InitXTick s))) TIMER1_IRQn"
    by (simp add: InitXTick_def c_defs timer_setup_defs TIMER1_IRQn_def bit_simps)
qed

lemma FlagTimerInit_timer:
  "timer_runs (tmr_timers (FlagTimerInit junk junk_out s) MDR_TIMER2)
   \<and> timer_period (tmr_timers (FlagTimerInit junk junk_out s) MDR_TIMER2) = CPU_CLOCK_VALUE + 10000
   \<and> 100 * (86400 * timer_period (tmr_timers (FlagTimerInit junk junk_out s) MDR_TIMER2))
       = (100 * 86400 + 864) * CPU_CLOCK_VALUE
   \<and> CCR (tmr_timers (FlagTimerInit junk junk_out s) MDR_TIMER2) 0 = 300
   \<and> bit (NVIC_ISER (tmr_nvic (FlagTimerInit junk junk_out s))) TIMER2_IRQn"
proof -
  let ?t = "tmr_timers (FlagTimerInit junk junk_out s) MDR_TIMER2"
  have t: "PSG ?t = 10000" "ARR ?t = 9999" "TIM_CNTRL ?t = 1" "TIM_IE ?t = 1" "CNT ?t = 0"
    "TIM_STATUS ?t = 0" "CCR ?t 0 = 300"
    by (simp_all add: FlagTimerInit_def c_defs timer_setup_defs reg_defs CPU_CLOCK_VALUE_def)
  have "bit (NVIC_ISER (tmr_nvic (FlagTimerInit junk junk_out s))) TIMER2_IRQn"
    by (simp add: FlagTimerInit_def c_defs timer_setup_defs TIMER2_IRQn_def bit_simps)
  with t show ?thesis
    by (simp add: timer_runs_def timer_period_def reg_defs CPU_CLOCK_VALUE_def)
qed

lemma FlagTimerInit_clocks:
  "TIM_CLOCK (tmr_clk (FlagTimerInit junk junk_out s)) AND 0x200FF00 = 0x2000000"
  "PER_CLOCK (tmr_clk (FlagTimerInit junk junk_out s)) AND RST_CLK_PCLK_TIMER2 = RST_CLK_PCLK_TIMER2"
  "PER_CLOCK (tmr_clk (FlagTimerInit junk junk_out s)) AND RST_CLK_PCLK_PORTE = RST_CLK_PCLK_PORTE"
proof -
  have tim: "TIM_CLOCK (tmr_clk (FlagTimerInit junk junk_out s)) = tim_brg 8 0xFF00 0x2000000 0 (TIM_CLOCK (tmr_clk s))"
    and per: "PER_CLOCK (tmr_clk (FlagTimerInit junk junk_out s)) = PER_CLOCK (tmr_clk s) OR RST_CLK_PCLK_PORTE OR RST_CLK_PCLK_TIMER2"
    by (simp_all add: FlagTimerInit_def c_defs timer_setup_defs or.assoc)
  show "TIM_CLOCK (tmr_clk (FlagTimerInit junk junk_out s)) AND 0x200FF00 = 0x2000000"
    unfolding tim by (simp add: tim_brg_def and.assoc bit.conj_disj_distrib2)
  show "PER_CLOCK (tmr_clk (FlagTimerInit junk junk_out s)) AND RST_CLK_PCLK_TIMER2 = RST_CLK_PCLK_TIMER2"
    "PER_CLOCK (tmr_clk (FlagTimerInit junk junk_out s)) AND RST_CLK_PCLK_PORTE = RST_CLK_PCLK_PORTE"
    unfolding per by (auto intro!: bit_word_eqI simp: bit_simps)
qed

text \<open>
  C39. After \<open>FlagTimerInit\<close> timer 2 runs: it has the clock of the bus (\<open>PER_CLOCK\<close>) and its own
  clock enabled, the latter not divided (bit 25 of \<open>TIM_CLOCK\<close> is set, the divider in bits 8 to 15 is 0), its interrupt is enabled in the
  timer and in the interrupt controller, and the port of its output has its clock. But its period is 100010000 cycles of the
  100 MHz CPU clock: the prescaler register divides by its value plus one. A day counted by this
  timer lasts 8.64 seconds too long.
\<close>

theorem FlagTimerInit_period:
  "let s' = FlagTimerInit junk junk_out s; t = tmr_timers s' MDR_TIMER2
   in timer_runs t \<and> TIM_IE t = TIMER_STATUS_CNT_ZERO
   \<and> timer_period t = CPU_CLOCK_VALUE + 10000
   \<and> 100 * (86400 * timer_period t) = (100 * 86400 + 864) * CPU_CLOCK_VALUE
   \<and> CCR t 0 = 300
   \<and> TIM_CLOCK (tmr_clk s') AND 0x200FF00 = 0x2000000
   \<and> PER_CLOCK (tmr_clk s') AND RST_CLK_PCLK_TIMER2 = RST_CLK_PCLK_TIMER2
   \<and> PER_CLOCK (tmr_clk s') AND RST_CLK_PCLK_PORTE = RST_CLK_PCLK_PORTE
   \<and> bit (NVIC_ISER (tmr_nvic s')) TIMER2_IRQn"
proof -
  have "TIM_IE (tmr_timers (FlagTimerInit junk junk_out s) MDR_TIMER2) = TIMER_STATUS_CNT_ZERO"
    by (simp add: FlagTimerInit_def c_defs timer_setup_defs reg_defs)
  then show ?thesis
    unfolding Let_def using FlagTimerInit_timer [of junk junk_out s] FlagTimerInit_clocks [of junk junk_out s] by blast
qed

text \<open>After \<open>n\<close> interrupts the counter has advanced by \<open>n\<close>, modulo \<open>2 ^ 32\<close>.\<close>

lemma GetSecond_after: "GetSecond ((TIMER2_IRQHandler ^^ n) p) = GetSecond p + of_nat n"
  by (induction n) (simp_all add: GetSecond_def TIMER2_IRQHandler_def)

end
