(* ===== verification/App.thy ===== *)
theory App
  imports Datagram Netconf EthInput PPS
begin

text \<open>
  The application, \<open>Application/Main.c\<close>: the UDP transport (\<open>UDPTransportInit\<close>, \<open>UDPSend\<close>), the counting
  of seconds (\<open>Counting_seconds\<close>) and the endless loop of \<open>main\<close>, over the clock, the datagram, the
  lamp and the network.

  The variable \<open>Datagram\<close> is the field \<open>payload\<close>. The seconds are counted by the interrupt handler of
  timer 2: an input says how many of its interrupts arrive before each read of the counter.
  Debug output with \<open>printf\<close> is left out. The IP input, the timer of TCP and the division of
  datagrams are arguments. \<open>None\<close> is a copy to a \<open>NULL\<close> pointer or beyond an array.
\<close>

section \<open>State\<close>

text \<open>The ports of the chip are \<open>sp_ports (b_spi (board s))\<close>, the ones on which \<open>eeprom_new.c\<close> works.\<close>

record 'd system =
  net :: stack
  board :: "'d board"
  pps :: pps
  iwdg :: MDR_IWDG_TypeDef
  payload :: PAYLOAD
  DATA :: "u8 list"
  UDPSock :: "u32 option"
  ticks :: u32
  MACdevice_test :: "u16 \<times> u16 \<times> u16"

section \<open>UDP\<close>

definition IPdest :: "u32 list" where "IPdest = [255, 255, 255, 255]"
definition IPdevicee :: "u32 list" where "IPdevicee = [192, 168, 1, 233]"
definition PORTdevice :: u16 where "PORTdevice = 0"
definition PORTdest :: u16 where "PORTdest = 12233"

definition UDPTransportInit :: "heap \<Rightarrow> stack \<Rightarrow> u32 option \<times> stack" where
  "UDPTransportInit heap st =
     (let (sock, st1) = udp_new heap st;
          (status, st2) = udp_bind sock (addr_of IPdevicee) PORTdevice st1;
          st3 = udp_recv sock None 0 st2;
          (status', st4) = udp_connect sock (addr_of IPdest) PORTdest st3
      in (sock, st4))"

text \<open>
  The first allocation is the one of \<open>pbuf_alloc\<close>. If it fails, the code prints a message and then
  copies through the \<open>NULL\<close> pointer.
\<close>

definition UDPSend :: "outfn \<Rightarrow> heap \<Rightarrow> u32 option \<Rightarrow> u8 list \<Rightarrow> stack \<Rightarrow> stack option" where
  "UDPSend frag heap sock buf st =
     (case pbuf_alloc_RAM heap PBUF_TRANSPORT (of_nat (length buf)) of
        None \<Rightarrow> None
      | Some p \<Rightarrow>
          let p1 = put_bytes 0 buf p;
              server = addr_of IPdest;
              netif = ip4_route server st
          in map_option snd (udp_sendto_if frag (\<lambda>i. heap (1 + i)) sock [p1] server PORTdest netif st))"

section \<open>The seconds\<close>

text \<open>What one pass through the loop meets: heaps, levels, interrupts.\<close>

record pass_in =
  in_rx_heap :: heap
  in_arp_heap :: heap
  in_phy :: "u16 \<times> u16"
  in_tmr_heap :: heap
  in_irq :: "nat \<times> nat"
  in_levels :: "u32 \<times> u32"
  in_udp_heap :: heap

definition set_ports :: "ports \<Rightarrow> 'd board \<Rightarrow> 'd board" where
  "set_ports ps b = b\<lparr>b_spi := (b_spi b)\<lparr>sp_ports := ps\<rparr>\<rparr>"

definition get_ports :: "'d board \<Rightarrow> ports" where
  "get_ports b = sp_ports (b_spi b)"

text \<open>The ports with a level vector on the pins of port D.\<close>

definition with_levels :: "u32 \<Rightarrow> ports \<Rightarrow> ports" where
  "with_levels w ps = ps(MDR_PORTD := (ps MDR_PORTD)\<lparr>RXTX := w\<rparr>)"

definition status_colour :: "PAYLOAD \<Rightarrow> TBiLEDColor option" where
  "status_colour D =
     (let v = attribute_bits D
      in if v = 0 then Some LED_BLACK else if v = 1 then Some LED_RED else if v = 2 then Some LED_YELLOW
         else if v = 3 then Some LED_GREEN else None)"

text \<open>The body of the \<open>if\<close> of \<open>Counting_seconds\<close> up to \<open>DATA_construct\<close>, on the datagram.\<close>

definition next_datagram :: "u32 \<times> u32 \<Rightarrow> ports \<Rightarrow> PAYLOAD \<Rightarrow> PAYLOAD" where
  "next_datagram levels ps D =
     (let D1 = D\<lparr>number := number D + 1, msk := (msk D)\<lparr>second := second (msk D) + 1\<rparr>,
                 local := (local D)\<lparr>second := second (local D) + 1\<rparr>\<rparr>;
          D2 = Asking (with_levels (fst levels) ps) (with_levels (snd levels) ps) D1
      in D2\<lparr>check_sum := Get_check_sum D2\<rparr>)"

text \<open>The flag tells whether the body was entered, that is, whether \<open>UDPSend\<close> was called.\<close>

definition Counting_seconds :: "outfn \<Rightarrow> pass_in \<Rightarrow> 'd system \<Rightarrow> (bool \<times> 'd system) option" where
  "Counting_seconds frag inp s =
     (let p1 = (TIMER2_IRQHandler ^^ fst (in_irq inp)) (pps s)
      in if GetSecond p1 - ticks s \<ge> 1
         then
           let p2 = (TIMER2_IRQHandler ^^ snd (in_irq inp)) p1;
               D = next_datagram (in_levels inp) (get_ports (board s)) (payload s);
               d = DATA_construct D;
               ps = (case status_colour D of None \<Rightarrow> get_ports (board s)
                     | Some c \<Rightarrow> SetBiLED m_Led c (get_ports (board s)))
           in case UDPSend frag (in_udp_heap inp) (UDPSock s) d (net s) of
                None \<Rightarrow> None
              | Some st \<Rightarrow>
                  Some (True, s\<lparr>net := st, board := set_ports (SetBiLED m_Led LED_BLACK ps) (board s),
                                pps := p2, payload := D, DATA := d, ticks := GetSecond p2,
                                MACdevice_test := ETH_GetMACAddress (dev (sport st))\<rparr>)
         else Some (False, s\<lparr>pps := p1\<rparr>))"

section \<open>The loop\<close>

definition LwIP_Pkt_Handle ::
  "ip_input \<Rightarrow> pass_in \<Rightarrow> stack \<times> 'd board \<Rightarrow> (stack \<times> 'd board) option" where
  "LwIP_Pkt_Handle ip4_input inp s =
     (let (st, b) = s
      in case ethernetif_input (in_rx_heap inp) (sport st) of
           None \<Rightarrow> None
         | Some (r, sp) \<Rightarrow>
             let st1 = st\<lparr>sport := sp\<rparr>;
                 b1 = set_ports (phy_status_leds (fst (in_phy inp)) (snd (in_phy inp)) (get_ports b)) b
             in map_option (\<lambda>st2. (st2, b1))
                  (case (r, s_pxNetIf b) of
                     (None, _) \<Rightarrow> Some st1
                   | (Some p, None) \<Rightarrow> None
                   | (Some p, Some i) \<Rightarrow> ethernet_input ip4_input (in_arp_heap inp) p i st1))"

text \<open>One pass through the loop of \<open>main\<close>, with what was sent in it.\<close>

definition main_pass ::
  "ip_input \<Rightarrow> (stack \<Rightarrow> stack option) \<Rightarrow> outfn \<Rightarrow> pass_in \<Rightarrow> 'd system \<Rightarrow> (u8 list list \<times> 'd system) option" where
  "main_pass ip4_input tcp_tmr frag inp s =
     (case LwIP_Pkt_Handle ip4_input inp (net s, board s) of
        None \<Rightarrow> None
      | Some nb \<Rightarrow>
          (case LwIP_Periodic_Handle tcp_tmr (in_tmr_heap inp) (ticks s) nb of
             None \<Rightarrow> None
           | Some (st, b) \<Rightarrow>
               let D = payload s
               in case (Time_counting (msk D), Time_counting (local D)) of
                    (Some m, Some l) \<Rightarrow>
                      map_option
                        (\<lambda>(sent, s1). (if sent then [DATA s1] else [], s1\<lparr>iwdg := IWDG_ReloadCounter (iwdg s1)\<rparr>))
                        (Counting_seconds frag inp (s\<lparr>net := st, board := b, payload := D\<lparr>msk := m, local := l\<rparr>\<rparr>))
                  | _ \<Rightarrow> None))"

text \<open>Any number of passes; their inputs, and the datagrams given to \<open>UDPSend\<close>, in order.\<close>

inductive main_loop ::
  "ip_input \<Rightarrow> (stack \<Rightarrow> stack option) \<Rightarrow> outfn \<Rightarrow> 'd system \<Rightarrow> pass_in list \<Rightarrow> u8 list list \<Rightarrow> 'd system \<Rightarrow> bool"
  for ip4_input tcp_tmr frag s where
  loop_start: "main_loop ip4_input tcp_tmr frag s [] [] s"
| loop_pass: "main_loop ip4_input tcp_tmr frag s inps ds s1 \<Longrightarrow> main_pass ip4_input tcp_tmr frag inp s1 = Some (d, s2)
    \<Longrightarrow> main_loop ip4_input tcp_tmr frag s (inps @ [inp]) (ds @ d) s2"

section \<open>The clock over any number of passes\<close>

text \<open>The last second for which the year does not overflow, a generous bound.\<close>

definition clock_end :: nat where
  "clock_end = 86400 * (365 * 65535)"

lemma days_before_year_ge: "365 * y \<le> days_before_year y"
proof (induction y)
  case (Suc y)
  then show ?case
    by (simp add: days_before_year_Suc year_length_def)
qed simp

lemma seconds_of_year: "86400 * (365 * unat (year t)) \<le> seconds_of t"
proof -
  have "365 * unat (year t) \<le> day_number t"
    using days_before_year_ge [of "unat (year t)"] by (simp add: day_number_def)
  then show ?thesis
    by (simp add: seconds_of_def)
qed

lemma year_before_end: "seconds_of t < clock_end \<Longrightarrow> unat (year t) < 65535"
  using seconds_of_year [of t] by (simp add: clock_end_def)

text \<open>
  \<open>clock_at D0 k D\<close>: \<open>D\<close> is the datagram \<open>D0\<close> after \<open>k\<close> seconds, the last of them perhaps not yet
  carried into the minutes.
\<close>

definition clock_at :: "PAYLOAD \<Rightarrow> nat \<Rightarrow> PAYLOAD \<Rightarrow> bool" where
  "clock_at D0 k D \<longleftrightarrow> time_pending (msk D) \<and> time_pending (local D)
     \<and> seconds_of (msk D) = seconds_of (msk D0) + k \<and> seconds_of (local D) = seconds_of (local D0) + k
     \<and> number D = number D0 + of_nat k \<and> identificator D = identificator D0 \<and> useful_info D = useful_info D0
     \<and> timering D = timering D0 \<and> timering_sign D = timering_sign D0 \<and> reserve_first D = reserve_first D0
     \<and> reserve_second D = reserve_second D0 \<and> reserve_third D = reserve_third D0"

text \<open>A datagram that announces second \<open>k\<close>: its seconds are \<open>1\<close> to \<open>60\<close>.\<close>

definition announces :: "PAYLOAD \<Rightarrow> nat \<Rightarrow> u8 list \<Rightarrow> bool" where
  "announces D0 k d \<longleftrightarrow> (\<exists>D. d = DATA_construct D \<and> clock_at D0 k D \<and> flags_ok D \<and> check_sum D = Get_check_sum D
     \<and> unat (second (msk D)) = (seconds_of (msk D0) + k - 1) mod 60 + 1
     \<and> unat (second (local D)) = (seconds_of (local D0) + k - 1) mod 60 + 1)"

lemma clock_at_start: "time_ok (msk D) \<Longrightarrow> time_ok (local D) \<Longrightarrow> clock_at D 0 D"
  by (simp add: clock_at_def time_ok_pending)

lemma clock_at_carry:
  assumes "clock_at D0 k D" "seconds_of (msk D0) + k < clock_end" "seconds_of (local D0) + k < clock_end"
  shows "\<exists>m l. Time_counting (msk D) = Some m \<and> Time_counting (local D) = Some l \<and> time_ok m \<and> time_ok l
    \<and> clock_at D0 k (D\<lparr>msk := m, local := l\<rparr>)"
proof -
  have pend: "time_pending (msk D)" "time_pending (local D)"
    "unat (year (msk D)) < 65535" "unat (year (local D)) < 65535"
    using assms by (auto simp: clock_at_def intro: year_before_end)
  obtain m l where "Time_counting (msk D) = Some m" "time_ok m" "seconds_of m = seconds_of (msk D)"
    "Time_counting (local D) = Some l" "time_ok l" "seconds_of l = seconds_of (local D)"
    using Time_counting_result [OF pend(1,3)] Time_counting_result [OF pend(2,4)] by blast
  then show ?thesis
    using assms(1) by (simp add: clock_at_def time_ok_pending)
qed

lemma second_of_next:
  assumes "time_ok t"
  shows "unat (second t + 1) = seconds_of t mod 60 + 1"
    "seconds_of (t\<lparr>second := second t + 1\<rparr>) = seconds_of t + 1"
proof -
  have s: "unat (second t) < 60"
    using assms by (simp add: time_ok_def time_upto_def)
  then show "seconds_of (t\<lparr>second := second t + 1\<rparr>) = seconds_of t + 1"
    by (intro seconds_of_tick) simp
  have "seconds_of t mod 60 = unat (second t)"
    unfolding seconds_of_def by (simp only: mod_mult_self3 mod_less [OF s])
  then show "unat (second t + 1) = seconds_of t mod 60 + 1"
    using s by (simp add: c_arith)
qed

lemma next_datagram_announces:
  assumes "clock_at D0 k D" "time_ok (msk D)" "time_ok (local D)"
  shows "clock_at D0 (Suc k) (next_datagram lv ps D)" "announces D0 (Suc k) (DATA_construct (next_datagram lv ps D))"
proof -
  let ?D = "next_datagram lv ps D"
  have D: "msk ?D = (msk D)\<lparr>second := second (msk D) + 1\<rparr>" "local ?D = (local D)\<lparr>second := second (local D) + 1\<rparr>"
    "number ?D = number D + 1"
    by (simp_all add: next_datagram_def Asking_def Let_def)
  show c: "clock_at D0 (Suc k) ?D"
    using assms unfolding clock_at_def D
    by (simp add: second_of_next(2) time_ok_tick_pending) (simp add: next_datagram_def Asking_def Let_def)
  have "check_sum ?D = Get_check_sum ?D" "flags_ok ?D"
    by (simp_all add: next_datagram_def Let_def Get_check_sum_DATA DATA_construct_def flags_ok_def Asking_def)
  then show "announces D0 (Suc k) (DATA_construct ?D)"
    unfolding announces_def using c assms
    by (intro exI [of _ ?D]) (simp add: D second_of_next(1) clock_at_def)
qed

lemma main_pass_counting:
  assumes "main_pass ip4_input tcp_tmr frag inp s = Some (d, s2)"
  obtains m l st b sent s1 where "Time_counting (msk (payload s)) = Some m" "Time_counting (local (payload s)) = Some l"
    "Counting_seconds frag inp (s\<lparr>net := st, board := b, payload := (payload s)\<lparr>msk := m, local := l\<rparr>\<rparr>) = Some (sent, s1)"
    "d = (if sent then [DATA s1] else [])" "s2 = s1\<lparr>iwdg := IWDG_ReloadCounter (iwdg s1)\<rparr>"
  using assms that by (auto simp: main_pass_def Let_def split: option.splits prod.splits)

lemma main_pass_cases:
  assumes "main_pass ip4_input tcp_tmr frag inp s = Some (d, s2)"
  obtains m l where "Time_counting (msk (payload s)) = Some m" "Time_counting (local (payload s)) = Some l"
    "d = []" "payload s2 = (payload s)\<lparr>msk := m, local := l\<rparr>"
  | m l lv ps where "Time_counting (msk (payload s)) = Some m" "Time_counting (local (payload s)) = Some l"
    "payload s2 = next_datagram lv ps ((payload s)\<lparr>msk := m, local := l\<rparr>)" "d = [DATA_construct (payload s2)]"
  using assms
proof (cases rule: main_pass_counting)
  case (1 m l st b sent s1)
  show thesis
  proof (cases sent)
    case True
    then have "payload s1 = next_datagram (in_levels inp) (get_ports b) ((payload s)\<lparr>msk := m, local := l\<rparr>)"
      "DATA s1 = DATA_construct (payload s1)"
      using 1(3) by (auto simp: Counting_seconds_def Let_def split: if_splits option.splits)
    then show thesis
      using that(2) 1 True by simp
  next
    case False
    then have "payload s1 = (payload s)\<lparr>msk := m, local := l\<rparr>"
      using 1(3) by (auto simp: Counting_seconds_def Let_def split: if_splits option.splits)
    then show thesis
      using that(1) 1 False by simp
  qed
qed

text \<open>Interrupts and datagrams of one pass.\<close>

definition irqs :: "pass_in \<Rightarrow> nat" where
  "irqs inp = fst (in_irq inp) + snd (in_irq inp)"

lemma u32_ge_1: "(1 :: u32) \<le> x \<longleftrightarrow> x \<noteq> 0"
  by (simp add: word_le_nat_alt Suc_le_eq unat_gt_0)

lemma main_pass_irqs:
  assumes "main_pass ip4_input tcp_tmr frag inp s = Some (d, s2)" "ticks s = GetSecond (pps s)"
  shows "ticks s2 = GetSecond (pps s2)" "length d \<le> irqs inp"
    "fst (in_irq inp) \<le> 1 \<Longrightarrow> snd (in_irq inp) = 0 \<Longrightarrow> length d = irqs inp"
    "\<exists>p. pps s2 = (TIMER2_IRQHandler ^^ p) (pps s)"
proof -
  obtain m l st b sent s1 where 1: "Time_counting (msk (payload s)) = Some m" "Time_counting (local (payload s)) = Some l"
    "Counting_seconds frag inp (s\<lparr>net := st, board := b, payload := (payload s)\<lparr>msk := m, local := l\<rparr>\<rparr>) = Some (sent, s1)"
    "d = (if sent then [DATA s1] else [])" "s2 = s1\<lparr>iwdg := IWDG_ReloadCounter (iwdg s1)\<rparr>"
    using assms(1) by (rule main_pass_counting)
  let ?p1 = "(TIMER2_IRQHandler ^^ fst (in_irq inp)) (pps s)"
  have new: "1 \<le> GetSecond ?p1 - ticks s \<longleftrightarrow> (of_nat (fst (in_irq inp)) :: u32) \<noteq> 0"
    by (simp add: u32_ge_1 GetSecond_after assms(2))
  show "ticks s2 = GetSecond (pps s2)"
    using 1(3,5) new by (auto simp: Counting_seconds_def Let_def GetSecond_after assms(2) split: if_splits option.splits)
  have "sent \<Longrightarrow> (of_nat (fst (in_irq inp)) :: u32) \<noteq> 0"
    using 1(3) new by (auto simp: Counting_seconds_def Let_def split: if_splits option.splits)
  then have "sent \<Longrightarrow> fst (in_irq inp) \<noteq> 0"
    by (cases "fst (in_irq inp) = 0") simp_all
  then show "length d \<le> irqs inp"
    using 1(4) by (simp add: irqs_def Suc_le_eq)
  show "fst (in_irq inp) \<le> 1 \<Longrightarrow> snd (in_irq inp) = 0 \<Longrightarrow> length d = irqs inp"
    using 1(3,4) new by (auto simp: Counting_seconds_def Let_def irqs_def le_Suc_eq split: if_splits option.splits)
  show "\<exists>p. pps s2 = (TIMER2_IRQHandler ^^ p) (pps s)"
    using 1(3,5) by (auto simp: Counting_seconds_def Let_def funpow_add [symmetric, unfolded o_def fun_eq_iff, rule_format]
        split: if_splits option.splits)
qed

lemma main_loop_counts:
  assumes "main_loop ip4_input tcp_tmr frag s inps ds s'" "ticks s = GetSecond (pps s)"
  shows "length ds \<le> sum_list (map irqs inps) \<and> ticks s' = GetSecond (pps s')
    \<and> ((\<forall>inp\<in>set inps. fst (in_irq inp) \<le> 1 \<and> snd (in_irq inp) = 0) \<longrightarrow> length ds = sum_list (map irqs inps))"
  using assms(1)
proof (induction rule: main_loop.induct)
  case loop_start
  then show ?case
    using assms(2) by simp
next
  case (loop_pass inps ds s1 inp d s2)
  then show ?case
    using main_pass_irqs(1-3) [OF loop_pass(2)] by (auto intro: add_mono)
qed

text \<open>
  C4. One datagram per second. However the interrupts of the second timer fall, the program never
  sends more datagrams than there were interrupts. When the loop is fast enough that at most
  one interrupt falls into each pass, before the counter is read, it sends exactly one for
  every interrupt; a second interrupt in the same pass is lost, for good, as \<open>ticks\<close> always is the
  counter at the end of a pass.
\<close>

theorem main_loop_one_per_second:
  assumes "main_loop ip4_input tcp_tmr frag s inps ds s'" "ticks s = GetSecond (pps s)"
  shows "length ds \<le> sum_list (map irqs inps) \<and> ticks s' = GetSecond (pps s')
    \<and> ((\<forall>inp\<in>set inps. fst (in_irq inp) \<le> 1 \<and> snd (in_irq inp) = 0) \<longrightarrow> length ds = sum_list (map irqs inps))"
  using assms by (rule main_loop_counts)

lemma main_loop_clock:
  assumes "main_loop ip4_input tcp_tmr frag s inps ds s'"
    and "time_ok (msk (payload s))" "time_ok (local (payload s))"
    and "seconds_of (msk (payload s)) + length ds < clock_end" "seconds_of (local (payload s)) + length ds < clock_end"
  shows "clock_at (payload s) (length ds) (payload s') \<and> (\<forall>k<length ds. announces (payload s) (Suc k) (ds ! k))"
  using assms(1,4,5)
proof (induction rule: main_loop.induct)
  case loop_start
  then show ?case
    using clock_at_start [OF assms(2,3)] by simp
next
  case (loop_pass inps ds s1 inp d s2)
  have IH: "clock_at (payload s) (length ds) (payload s1)" "\<forall>k<length ds. announces (payload s) (Suc k) (ds ! k)"
    and bound: "seconds_of (msk (payload s)) + length ds < clock_end" "seconds_of (local (payload s)) + length ds < clock_end"
    using loop_pass by auto
  obtain m l where c: "Time_counting (msk (payload s1)) = Some m" "Time_counting (local (payload s1)) = Some l"
    "time_ok m" "time_ok l" "clock_at (payload s) (length ds) ((payload s1)\<lparr>msk := m, local := l\<rparr>)"
    using clock_at_carry [OF IH(1) bound] by blast
  show ?case
    using loop_pass(2)
  proof (cases rule: main_pass_cases)
    case 1
    then show ?thesis
      using c IH by simp
  next
    case (2 m' l' lv ps)
    then show ?thesis
      using c IH next_datagram_announces [OF c(5), of lv ps] by (auto simp: less_Suc_eq nth_append)
  qed
qed

text \<open>
  C2. The time that the program announces. Over any number of passes through the loop of \<open>main\<close>,
  with any traffic and any number of interrupts, the \<open>k\<close>-th datagram handed to \<open>UDPSend\<close> carries
  the number \<open>k\<close> modulo 256, Moscow and local time exactly \<open>k\<close> seconds after the times set at the
  start, both valid in the Gregorian calendar but for one pending second, correct flags and check
  sum. As the second is carried only in the next pass, the seconds byte runs from 1 to 60: a
  full minute is announced as second 60 of the minute before. The hypothesis bounds the run so that
  the year stays below 65535.
\<close>

theorem main_loop_announces:
  assumes "main_loop ip4_input tcp_tmr frag s inps ds s'"
    and "time_ok (msk (payload s))" "time_ok (local (payload s))"
    and "seconds_of (msk (payload s)) + length ds < clock_end" "seconds_of (local (payload s)) + length ds < clock_end"
  shows "clock_at (payload s) (length ds) (payload s') \<and> (\<forall>k<length ds. announces (payload s) (Suc k) (ds ! k))"
  using assms by (rule main_loop_clock)

section \<open>From the datagram to the frame\<close>

text \<open>The network as \<open>LwIP_Init\<close> and \<open>UDPTransportInit\<close> leave it: interface \<open>n\<close>, control block \<open>a\<close>.\<close>

definition time_pcb :: udp_pcb where
  "time_pcb = \<lparr>local_ip = 0xE901A8C0, remote_ip = 0xFFFFFFFF, pcb_tos = 0, pcb_ttl = 255, pcb_flags = UDP_FLAGS_CONNECTED,
     local_port = 0xC001, remote_port = 12233, pcb_netif_idx = 0, pcb_recv = None, pcb_recv_arg = 0\<rparr>"

definition net_ready :: "u32 \<Rightarrow> u32 \<Rightarrow> u8 list \<Rightarrow> stack \<Rightarrow> bool" where
  "net_ready n a eui st \<longleftrightarrow> netifs st n = xnetif_up eui \<and> length eui = 6 \<and> netif_list st = [n]
     \<and> netif_default st = Some n \<and> pcbs st a = time_pcb \<and> udp_pcbs st = [a]"

lemma app_addresses [simp]: "addr_of IPdest = 0xFFFFFFFF" "addr_of IPdevicee = 0xE901A8C0"
  by (simp_all add: addr_of_def IPdest_def IPdevicee_def IP4_ADDR_def LWIP_MAKEU32_def lwip_htonl_def)

text \<open>The first port that \<open>udp_new_port\<close> gives out after the start is 0xC001.\<close>

lemma UDPTransportInit_result:
  assumes "heap 0 32 = Some (a, bs)" "udp_pcbs st = []" "udp_port st = 0xC000"
  shows "UDPTransportInit heap st = (Some a, st\<lparr>pcbs := (pcbs st)(a := time_pcb), udp_pcbs := [a], udp_port := 0xC001\<rparr>)"
proof -
  have "udp_new_port_loop [] 0 0xC000 = (0xC001, 0xC001)"
    by (subst udp_new_port_loop.simps) (simp add: next_port_def reg_defs Let_def)
  then show ?thesis
    using assms
    by (simp add: UDPTransportInit_def udp_recv_def udp_new_def udp_bind_def udp_connect_def udp_new_port_def set_pcb_def Let_def
        PORTdevice_def PORTdest_def time_pcb_def)
qed

lemma net_ready_route: "net_ready n a eui st \<Longrightarrow> ip4_route 0xFFFFFFFF st = Some n"
  using xnetif_routes [of st n eui "0xFFFFFFFF"] by (auto simp: net_ready_def)

lemma UDPSend_sent:
  assumes ready: "net_ready n a eui st" and heap: "heap_ok heap" "pbuf_alloc_RAM heap PBUF_TRANSPORT 26 = Some p"
    and buf: "length buf = 26"
    and tx: "tx_holds (dev (sport st)) fs" "length (tx_enc fs) + 19 < tx_words (dev (sport st))"
  shows "\<exists>s' f. UDPSend frag heap (Some a) buf st = Some (st\<lparr>ip_id := ip_id st + 1, sport := s'\<rparr>)
    \<and> tx_holds (dev s') (fs @ [f]) \<and> tx_words (dev s') = tx_words (dev (sport st)) \<and> rx_same (dev (sport st)) (dev s')
    \<and> broadcast_frame eui 0xE901A8C0 0xC001 12233 255 0 (ip_id st) buf (tx_bytes f)"
proof -
  have "fresh PBUF_TRANSPORT 26 p"
    using pbuf_alloc_RAM_eq [OF heap(1), of 26 PBUF_TRANSPORT] heap(2) by simp
  then have p1: "headroom 42 (put_bytes 0 buf p)" "pb_payload (put_bytes 0 buf p) = buf"
    using buf by (simp_all add: fresh_def headroom_def put_bytes_def)
  have n: "netifs st n = xnetif_up eui" "pcbs st a = time_pcb" "length eui = 6"
    using ready by (simp_all add: net_ready_def)
  have "sendable st a n (length (pb_payload (put_bytes 0 buf p)))"
    using n p1(2) buf by (simp add: sendable_def time_pcb_def xnetif_up_def reg_defs)
  from udp_broadcast_sent [OF this p1(1) tx(1), of frag "\<lambda>i. heap (1 + i)" 12233] tx(2) p1(2) buf
  obtain s' f where "udp_sendto_if frag (\<lambda>i. heap (1 + i)) (Some a) [put_bytes 0 buf p] 0xFFFFFFFF 12233 (Some n) st
      = Some (ERR_OK, st\<lparr>ip_id := ip_id st + 1, sport := s'\<rparr>)"
    "tx_holds (dev s') (fs @ [f])" "tx_words (dev s') = tx_words (dev (sport st))" "rx_same (dev (sport st)) (dev s')"
    "broadcast_frame eui 0xE901A8C0 0xC001 12233 255 0 (ip_id st) buf (tx_bytes f)"
    by (auto simp: words_of_def n xnetif_up_def time_pcb_def)
  then show ?thesis
    using heap(2) buf net_ready_route [OF ready]
    by (intro exI [of _ s'] exI [of _ f]) (simp add: UDPSend_def PORTdest_def Let_def)
qed

text \<open>
  C3. A new second on the wire. When the network is up, the heap has a buffer and the transmit
  region has room, a call of \<open>Counting_seconds\<close> that sees a new second appends exactly one frame to
  the transmit queue: a broadcast with the hardware address of the interface, IP and UDP headers
  with correct lengths and checksums from 192.168.1.233 port 0xC001 to 255.255.255.255 port 12233, and
  the 26 bytes of the new datagram; the receive queue is untouched and the lamp is off
  afterwards. A call that sees no new second does nothing. Without memory for the buffer the code
  copies through a \<open>NULL\<close> pointer.
\<close>

theorem Counting_seconds_broadcasts:
  assumes "net_ready n a eui (net s)" "UDPSock s = Some a" "heap_ok (in_udp_heap inp)"
    and "tx_holds (dev (sport (net s))) fs" "length (tx_enc fs) + 19 < tx_words (dev (sport (net s)))"
  shows "let seen = GetSecond (pps s) + of_nat (fst (in_irq inp));
             D = next_datagram (in_levels inp) (get_ports (board s)) (payload s)
    in if seen = ticks s
       then Counting_seconds frag inp s = Some (False, s\<lparr>pps := (TIMER2_IRQHandler ^^ fst (in_irq inp)) (pps s)\<rparr>)
       else if pbuf_alloc_RAM (in_udp_heap inp) PBUF_TRANSPORT 26 = None then Counting_seconds frag inp s = None
       else \<exists>s' f. Counting_seconds frag inp s = Some (True, s') \<and> payload s' = D \<and> DATA s' = DATA_construct D
         \<and> ticks s' = seen + of_nat (snd (in_irq inp)) \<and> ticks s' = GetSecond (pps s')
         \<and> tx_holds (dev (sport (net s'))) (fs @ [f])
         \<and> broadcast_frame eui (IP4_ADDR 192 168 1 233) 0xC001 12233 255 0 (ip_id (net s)) (DATA_construct D) (tx_bytes f)
         \<and> rx_same (dev (sport (net s))) (dev (sport (net s'))) \<and> net_ready n a eui (net s')
         \<and> shown m_Led (get_ports (board s')) = lamps LED_BLACK"
proof -
  let ?p1 = "(TIMER2_IRQHandler ^^ fst (in_irq inp)) (pps s)"
  let ?D = "next_datagram (in_levels inp) (get_ports (board s)) (payload s)"
  have new: "1 \<le> GetSecond ?p1 - ticks s \<longleftrightarrow> GetSecond (pps s) + of_nat (fst (in_irq inp)) \<noteq> ticks s"
    by (simp add: u32_ge_1 GetSecond_after)
  have ip: "IP4_ADDR 192 168 1 233 = 0xE901A8C0"
    by (simp add: IP4_ADDR_def LWIP_MAKEU32_def lwip_htonl_def)
  show ?thesis
  proof (cases "pbuf_alloc_RAM (in_udp_heap inp) PBUF_TRANSPORT 26")
    case None
    then show ?thesis
      using new by (simp add: Counting_seconds_def Let_def UDPSend_def)
  next
    case (Some p)
    obtain s1 f where u: "UDPSend frag (in_udp_heap inp) (Some a) (DATA_construct ?D) (net s)
        = Some ((net s)\<lparr>ip_id := ip_id (net s) + 1, sport := s1\<rparr>)"
      "tx_holds (dev s1) (fs @ [f])" "rx_same (dev (sport (net s))) (dev s1)"
      "broadcast_frame eui 0xE901A8C0 0xC001 12233 255 0 (ip_id (net s)) (DATA_construct ?D) (tx_bytes f)"
      using UDPSend_sent [OF assms(1,3) Some length_DATA_construct assms(4,5)] by blast
    let ?st = "(net s)\<lparr>ip_id := ip_id (net s) + 1, sport := s1\<rparr>"
    have r: "net_ready n a eui ?st"
      using assms(1) by (simp add: net_ready_def)
    show ?thesis
    proof (cases "GetSecond (pps s) + of_nat (fst (in_irq inp)) = ticks s")
      case True
      then show ?thesis
        using new by (simp add: Counting_seconds_def Let_def)
    next
      case False
      define ps where "ps = (case status_colour ?D of None \<Rightarrow> get_ports (board s)
        | Some c \<Rightarrow> SetBiLED m_Led c (get_ports (board s)))"
      define s' where "s' = s\<lparr>net := ?st, board := set_ports (SetBiLED m_Led LED_BLACK ps) (board s),
        pps := (TIMER2_IRQHandler ^^ snd (in_irq inp)) ?p1, payload := ?D, DATA := DATA_construct ?D,
        ticks := GetSecond ((TIMER2_IRQHandler ^^ snd (in_irq inp)) ?p1), MACdevice_test := ETH_GetMACAddress (dev s1)\<rparr>"
      have "Counting_seconds frag inp s = Some (True, s')"
        using False new u(1) assms(2) by (simp add: Counting_seconds_def Let_def s'_def ps_def del: SetBiLED.simps)
      moreover have "shown m_Led (get_ports (board s')) = lamps LED_BLACK"
        by (simp add: s'_def get_ports_def set_ports_def SetBiLED_shows [OF m_Led_ok] del: SetBiLED.simps)
      moreover have "payload s' = ?D" "DATA s' = DATA_construct ?D" "net s' = ?st" "ticks s' = GetSecond (pps s')"
        "ticks s' = GetSecond (pps s) + of_nat (fst (in_irq inp)) + of_nat (snd (in_irq inp))"
        by (simp_all add: s'_def GetSecond_after)
      ultimately show ?thesis
        unfolding Let_def ip using False Some u(2-4) r
        by (simp del: split_paired_Ex) (intro exI [of _ f]; simp)
    qed
  qed
qed

section \<open>A pass on a quiet network\<close>

lemma LwIP_Pkt_Handle_quiet:
  assumes "rx_holds (dev (sport st)) []"
  shows "LwIP_Pkt_Handle ip4_input inp (st, b)
    = Some (st, set_ports (phy_status_leds (fst (in_phy inp)) (snd (in_phy inp)) (get_ports b)) b)"
  using rx_pending_holds [OF assms]
  by (simp add: LwIP_Pkt_Handle_def ethernetif_input_def rx_pending_def Let_def)

lemma LwIP_Periodic_Handle_early:
  "\<not> 250 \<le> loc - TCPTimer b \<Longrightarrow> \<not> 1000 \<le> loc - ARPTimer b \<Longrightarrow> LwIP_Periodic_Handle tcp_tmr heap loc (st, b) = Some (st, b)"
  by (simp add: LwIP_Periodic_Handle_def reg_defs)

lemma Counting_seconds_returns:
  assumes "net_ready n a eui (net s)" "UDPSock s = Some a" "heap_ok (in_udp_heap inp)"
    and "pbuf_alloc_RAM (in_udp_heap inp) PBUF_TRANSPORT 26 = Some p"
    and "tx_holds (dev (sport (net s))) fs" "length (tx_enc fs) + 19 < tx_words (dev (sport (net s)))"
  shows "\<exists>s'. Counting_seconds frag inp s = Some (GetSecond (pps s) + of_nat (fst (in_irq inp)) \<noteq> ticks s, s')"
proof -
  have new: "1 \<le> GetSecond ((TIMER2_IRQHandler ^^ fst (in_irq inp)) (pps s)) - ticks s
      \<longleftrightarrow> GetSecond (pps s) + of_nat (fst (in_irq inp)) \<noteq> ticks s"
    by (simp add: u32_ge_1 GetSecond_after)
  obtain st where "UDPSend frag (in_udp_heap inp) (Some a)
      (DATA_construct (next_datagram (in_levels inp) (get_ports (board s)) (payload s))) (net s) = Some st"
    using UDPSend_sent [OF assms(1,3,4) length_DATA_construct assms(5,6)] by blast
  then show ?thesis
    using new assms(2) by (simp add: Counting_seconds_def Let_def)
qed

lemma main_pass_quiet:
  assumes "net_ready n a eui (net s)" "UDPSock s = Some a" "heap_ok (in_udp_heap inp)"
    and "pbuf_alloc_RAM (in_udp_heap inp) PBUF_TRANSPORT 26 = Some p"
    and "tx_holds (dev (sport (net s))) fs" "length (tx_enc fs) + 19 < tx_words (dev (sport (net s)))"
    and "rx_holds (dev (sport (net s))) []" "\<not> 250 \<le> ticks s - TCPTimer (board s)" "\<not> 1000 \<le> ticks s - ARPTimer (board s)"
    and "time_ok (msk (payload s))" "time_ok (local (payload s))"
    and "year (msk (payload s)) < 65535" "year (local (payload s)) < 65535"
  shows "\<exists>d s'. main_pass ip4_input tcp_tmr frag inp s = Some (d, s')
    \<and> length d = (if GetSecond (pps s) + of_nat (fst (in_irq inp)) = ticks s then 0 else 1)"
proof -
  define b where "b = set_ports (phy_status_leds (fst (in_phy inp)) (snd (in_phy inp)) (get_ports (board s))) (board s)"
  have b: "TCPTimer b = TCPTimer (board s)" "ARPTimer b = ARPTimer (board s)"
    by (simp_all add: b_def set_ports_def)
  obtain m l where "Time_counting (msk (payload s)) = Some m" "Time_counting (local (payload s)) = Some l"
    using Time_counting_result [OF time_ok_pending [OF assms(10)]] Time_counting_result [OF time_ok_pending [OF assms(11)]]
      assms(12,13) by (auto simp: word_less_nat_alt)
  moreover have "LwIP_Periodic_Handle tcp_tmr (in_tmr_heap inp) (ticks s) (net s, b) = Some (net s, b)"
    using assms(8,9) by (simp add: LwIP_Periodic_Handle_early b)
  moreover obtain s' where "Counting_seconds frag inp (s\<lparr>net := net s, board := b, payload := (payload s)\<lparr>msk := m, local := l\<rparr>\<rparr>)
      = Some (GetSecond (pps s) + of_nat (fst (in_irq inp)) \<noteq> ticks s, s')"
    using Counting_seconds_returns [of n a eui "s\<lparr>net := net s, board := b, payload := (payload s)\<lparr>msk := m, local := l\<rparr>\<rparr>" inp p fs frag]
      assms(1-6) by auto
  ultimately show ?thesis
    by (simp add: main_pass_def LwIP_Pkt_Handle_quiet [OF assms(7)] b_def [symmetric])
qed

definition sample_pass :: pass_in where
  "sample_pass = \<lparr>in_rx_heap = sample_heap, in_arp_heap = sample_heap, in_phy = (0, 0), in_tmr_heap = sample_heap, in_irq = (1, 0),
     in_levels = (0, 0), in_udp_heap = sample_heap\<rparr>"

definition sample_system :: "unit system" where
  "sample_system = \<lparr>net = (lwip_start port_zero)\<lparr>netifs := (\<lambda>_. xnetif_up [0, 1, 2, 3, 4, 5]), netif_list := [1],
       netif_default := Some 1, pcbs := (\<lambda>_. time_pcb), udp_pcbs := [2]\<rparr>,
     board = sample_board, pps = \<lparr>ticks_two = 0, PPS_STATUS = 0\<rparr>, iwdg = \<lparr>IWDG_KR = 0, IWDG_PR = 0, IWDG_RLR = 0\<rparr>,
     payload = sample_payload, DATA = [], UDPSock = Some 2, ticks = 0, MACdevice_test = (0, 0, 0)\<rparr>"

lemma sample_system_ready: "net_ready 1 2 [0, 1, 2, 3, 4, 5] (net sample_system)"
  and sample_system_queues: "sport (net sample_system) = port_zero" "rx_holds (dev port_zero) []"
  and sample_system_state: "payload sample_system = sample_payload" "UDPSock sample_system = Some 2" "ticks sample_system = 0"
    "GetSecond (pps sample_system) = 0" "TCPTimer (board sample_system) = 0" "ARPTimer (board sample_system) = 0"
  and sample_pass_state: "in_udp_heap sample_pass = sample_heap" "in_irq sample_pass = (1, 0)"
  by (simp_all add: sample_system_def net_ready_def lwip_start_def port_zero_def EthOn_queues sample_board_def GetSecond_def
      sample_pass_def)

lemmas sample_states = sample_system_queues sample_system_state sample_pass_state

lemma days_before_year_le: "days_before_year y \<le> 366 * y"
proof (induction y)
  case (Suc y)
  then show ?case
    by (simp add: days_before_year_Suc year_length_def)
qed (simp add: days_before_year_def)

lemma sample_years: "year (msk sample_payload) < 65535" "year (local sample_payload) < 65535"
    "seconds_of (msk sample_payload) + 1 < clock_end" "seconds_of (local sample_payload) + 1 < clock_end"
  using days_before_year_le [of 2022] days_before_year_le [of 2021]
  by (simp_all add: sample_payload_def seconds_of_def day_number_def days_before_month_def month_length_def upt_rec clock_end_def)

lemma sample_run:
  "\<exists>d s'. main_loop ip4_input tcp_tmr frag sample_system [sample_pass] [d] s'"
proof -
  obtain p where p: "pbuf_alloc_RAM sample_heap PBUF_TRANSPORT 26 = Some p"
    using pbuf_alloc_sample [of 26 PBUF_TRANSPORT] by auto
  obtain d s' where ds: "main_pass ip4_input tcp_tmr frag sample_pass sample_system = Some (d, s')" "length d = 1"
    using main_pass_quiet [OF sample_system_ready, of sample_pass p "[]" ip4_input tcp_tmr frag] sample_heap_ok p port_zero_queue
      time_ok_sample sample_years by (auto simp: sample_states tx_enc_def)
  have "main_loop ip4_input tcp_tmr frag sample_system ([] @ [sample_pass]) ([] @ d) s'"
    by (rule loop_pass [OF loop_start ds(1)])
  then show ?thesis
    using ds(2) by (auto simp: length_Suc_conv)
qed

lemma main_loop_announces_witness:
  "\<exists>d s'. main_loop (\<lambda>_ _ _. None) Some (\<lambda>_ _ _ _. None) sample_system [sample_pass] [d] s'
    \<and> announces sample_payload 1 d \<and> clock_at sample_payload 1 (payload s')"
proof -
  obtain d s' where d: "main_loop (\<lambda>_ _ _. None) Some (\<lambda>_ _ _ _. None) sample_system [sample_pass] [d] s'"
    using sample_run by blast
  from main_loop_announces [OF d] show ?thesis
    using d sample_years time_ok_sample by (auto simp: sample_states)
qed

lemma main_loop_one_per_second_witness:
  "\<exists>d s'. main_loop (\<lambda>_ _ _. None) Some (\<lambda>_ _ _ _. None) sample_system [sample_pass] [d] s'
    \<and> ticks s' = GetSecond (pps s')"
proof -
  obtain d s' where d: "main_loop (\<lambda>_ _ _. None) Some (\<lambda>_ _ _ _. None) sample_system [sample_pass] [d] s'"
    using sample_run by blast
  from main_loop_one_per_second [OF d] show ?thesis
    using d by (auto simp: sample_states)
qed

lemma Counting_seconds_broadcasts_witness:
  "\<exists>s' f. Counting_seconds (\<lambda>_ _ _ _. None) sample_pass sample_system = Some (True, s')
     \<and> tx_holds (dev (sport (net s'))) [f] \<and> ticks s' = 1"
proof -
  obtain p where p: "pbuf_alloc_RAM sample_heap PBUF_TRANSPORT 26 = Some p"
    using pbuf_alloc_sample [of 26 PBUF_TRANSPORT] by auto
  have "\<exists>s' f. Counting_seconds (\<lambda>_ _ _ _. None) sample_pass sample_system = Some (True, s') \<and> ticks s' = 0 + of_nat 1 + of_nat 0
      \<and> tx_holds (dev (sport (net s'))) ([] @ [f])"
    using Counting_seconds_broadcasts [OF sample_system_ready, of sample_pass "[]" "\<lambda>_ _ _ _. None"] sample_heap_ok port_zero_queue p
    unfolding sample_states Let_def fst_conv snd_conv by (simp add: tx_enc_def) blast
  then show ?thesis
    by auto
qed

end
