(* ===== verification/Icmp.thy ===== *)
theory Icmp
  imports Udp
begin

text \<open>
  \<open>core/ipv4/icmp.c\<close> of lwIP 2.1.2: answers to pings and error messages, with the options of \<open>lwipopts.h\<close>; pings of
  broadcast and multicast addresses are not answered. The global variable \<open>ip_data\<close>, which is valid during the call of
  \<open>ip4_input\<close> only, is the argument \<open>d\<close>. \<open>None\<close> is a read beyond the received bytes. The caller frees the packet in
  every case, and the functions return nothing that is used: their result is the state of the stack.

  The reply to a ping is made in the buffer of the request, and its checksum by an addition to the old one; the lemmas
  show that it is the reply, with right checksums.
\<close>

section \<open>Headers\<close>

definition IPH_HL_BYTES :: "u8 list \<Rightarrow> u8" where
  "IPH_HL_BYTES hdr = (hdr ! 0 AND 0x0F) * 4"

definition IP_PROTO_ICMP :: u8 where "IP_PROTO_ICMP = 1"

definition IP_PROTO_TCP :: u8 where "IP_PROTO_TCP = 6"

definition ICMP_ER :: u8 where "ICMP_ER = 0"

definition ICMP_DUR :: u8 where "ICMP_DUR = 3"

definition ICMP_ECHO :: u8 where "ICMP_ECHO = 8"

definition ICMP_TE :: u8 where "ICMP_TE = 11"

definition ICMP_DUR_PROTO :: u8 where "ICMP_DUR_PROTO = 2"

definition ICMP_DUR_PORT :: u8 where "ICMP_DUR_PORT = 3"

definition ICMP_TTL :: u8 where "ICMP_TTL = 255"

definition ICMP_DEST_UNREACH_DATASIZE :: nat where "ICMP_DEST_UNREACH_DATASIZE = 8"

definition SIZEOF_ICMP_ECHO_HDR :: nat where "SIZEOF_ICMP_ECHO_HDR = 8"

text \<open>\<open>current_ip4_header\<close> has the bytes of the packet from its IP header on.\<close>

record ip_globals =
  current_netif :: u32
  current_input_netif :: u32
  current_ip4_header :: "u8 list"
  current_ip_header_tot_len :: u16
  current_iphdr_src :: u32
  current_iphdr_dest :: u32

section \<open>Operations\<close>

definition icmp_echo_hdr :: "u8 \<Rightarrow> u8 \<Rightarrow> u16 \<Rightarrow> u16 \<Rightarrow> u16 \<Rightarrow> u8 list" where
  "icmp_echo_hdr type code chksum id_be seqno_be =
     [type, code] @ store16 chksum @ store16 id_be @ store16 seqno_be"

definition icmp_send_response :: "heap \<Rightarrow> outfn \<Rightarrow> pbuf list \<Rightarrow> u8 \<Rightarrow> u8 \<Rightarrow> stack \<Rightarrow> stack option" where
  "icmp_send_response heap frag p type code st =
     (case pbuf_alloc_RAM heap PBUF_IP (of_nat (SIZEOF_ICMP_ECHO_HDR + IP_HLEN + ICMP_DEST_UNREACH_DATASIZE)) of
        None \<Rightarrow> Some st
      | Some q \<Rightarrow>
          if p = [] \<or> length (pb_payload (hd p)) < IP_HLEN + ICMP_DEST_UNREACH_DATASIZE then None
          else
            let data = take (IP_HLEN + ICMP_DEST_UNREACH_DATASIZE) (pb_payload (hd p));
                iphdr_src = load32 (drop 12 (pb_payload (hd p)))
            in (case ip4_route iphdr_src st of
                  None \<Rightarrow> Some st
                | Some n \<Rightarrow>
                    let q1 = put_bytes 0 (icmp_echo_hdr type code 0 0 0 @ data) q;
                        c = inet_chksum (bit (pb_at q1) 0) (pb_payload q1);
                        q2 = put_bytes 2 (store16 c) q1
                    in map_option snd
                         (ip4_output_if (\<lambda>i. heap (1 + i)) frag [q2] 0 (Some iphdr_src) ICMP_TTL 0 IP_PROTO_ICMP n st)))"

definition icmp_dest_unreach :: "heap \<Rightarrow> outfn \<Rightarrow> pbuf list \<Rightarrow> u8 \<Rightarrow> stack \<Rightarrow> stack option" where
  "icmp_dest_unreach heap frag p t = icmp_send_response heap frag p ICMP_DUR t"

definition icmp_time_exceeded :: "heap \<Rightarrow> outfn \<Rightarrow> pbuf list \<Rightarrow> u8 \<Rightarrow> stack \<Rightarrow> stack option" where
  "icmp_time_exceeded heap frag p t = icmp_send_response heap frag p ICMP_TE t"

text \<open>
  The buffer for the reply: the request itself when all headers fit in front of it, otherwise a
  copy with the IP header of the request; \<open>None\<close> is the label \<open>icmperr\<close>.
\<close>

definition icmp_reply_buffer :: "heap \<Rightarrow> nat \<Rightarrow> u8 list \<Rightarrow> pbuf list \<Rightarrow> pbuf list option" where
  "icmp_reply_buffer heap hlen iphdr_in p =
     (case add_header (hlen + SIZEOF_ETH_HDR + 0) p of
        Some p1 \<Rightarrow> map_option (\<lambda>q. q # tl p1) (pbuf_remove_header (hd p1) (hlen + SIZEOF_ETH_HDR + 0))
      | None \<Rightarrow>
          let tot = pb_tot_len (hd p); alloc_len = tot + of_nat hlen
          in if alloc_len < tot then None
             else (case pbuf_alloc_RAM heap PBUF_LINK alloc_len of
                     None \<Rightarrow> None
                   | Some r \<Rightarrow>
                       if unat (pb_len r) < hlen + SIZEOF_ICMP_ECHO_HDR then None
                       else (case pbuf_remove_header (put_bytes 0 (take hlen iphdr_in) r) hlen of
                               None \<Rightarrow> None
                             | Some r1 \<Rightarrow>
                                 (case pbuf_copy [r1] p of
                                    (err, r2) \<Rightarrow> if err = ERR_OK then Some r2 else None))))"

text \<open>The checksum, when the type goes from \<open>ICMP_ECHO\<close> to \<open>ICMP_ER\<close>.\<close>

definition icmp_adjust_chksum :: "u16 \<Rightarrow> u16" where
  "icmp_adjust_chksum c =
     (if c > lwip_htons (0xFFFF - push_bit 8 (to_u16 ICMP_ECHO)) then c + lwip_htons (push_bit 8 (to_u16 ICMP_ECHO)) + 1
      else c + lwip_htons (push_bit 8 (to_u16 ICMP_ECHO)))"

text \<open>The request \<open>b\<close> from its IP header on, in the first pbuf, made a reply.\<close>

definition icmp_make_reply :: "nat \<Rightarrow> u32 \<Rightarrow> u32 \<Rightarrow> pbuf \<Rightarrow> pbuf" where
  "icmp_make_reply hlen src dest q =
     (let q1 = put_bytes 16 (store32 dest) (put_bytes 12 (store32 src) q);
          q2 = put_bytes hlen [ICMP_ER] q1;
          c = load16 (pb_payload q2 ! (hlen + 2)) (pb_payload q2 ! (hlen + 3));
          q3 = put_bytes (hlen + 2) (store16 (icmp_adjust_chksum c)) q2;
          q4 = put_bytes 10 [0, 0] (put_bytes 8 [ICMP_TTL] q3)
      in put_bytes 10 (store16 (inet_chksum (bit (pb_at q4) 0) (take hlen (pb_payload q4)))) q4)"

definition icmp_input :: "heap \<Rightarrow> outfn \<Rightarrow> ip_globals \<Rightarrow> pbuf list \<Rightarrow> u32 \<Rightarrow> stack \<Rightarrow> stack option" where
  "icmp_input heap frag d p inp st =
     (let hlen = unat (IPH_HL_BYTES (current_ip4_header d)); dest = current_iphdr_dest d
      in if p = [] then None
         else if hlen < IP_HLEN then Some st
         else if pb_len (hd p) < 4 then Some st
         else if pb_payload (hd p) ! 0 = ICMP_ECHO then
           if ip4_addr_ismulticast dest then Some st
           else if ip4_addr_isbroadcast_u32 dest (netifs st (current_netif d)) then Some st
           else if unat (pb_tot_len (hd p)) < SIZEOF_ICMP_ECHO_HDR then Some st
           else if inet_chksum_pbuf (pieces p) \<noteq> 0 then Some st
           else
             (case icmp_reply_buffer heap hlen (current_ip4_header d) p of
                None \<Rightarrow> Some st
              | Some p1 \<Rightarrow>
                  (case add_header hlen p1 of
                     None \<Rightarrow> Some st
                   | Some p2 \<Rightarrow>
                       map_option snd
                         (ip4_output_if (\<lambda>i. heap (1 + i)) frag
                            (icmp_make_reply hlen dest (current_iphdr_src d) (hd p2) # tl p2)
                            dest None ICMP_TTL 0 IP_PROTO_ICMP inp st)))
         else Some st)"

section \<open>The checksum of a reply\<close>

lemma unat_icmp_adjust:
  "unat (icmp_adjust_chksum c) = (if unat c > 65527 then unat c - 65527 else unat c + 8)"
proof -
  have eq: "icmp_adjust_chksum c = (if c > 0xFFF7 then c + 8 + 1 else c + 8)"
    by (simp add: icmp_adjust_chksum_def ICMP_ECHO_def lwip_htons_def)
  have c9: "unat (c + 8 + 1) = (unat c + 9) mod 65536"
    by (simp add: unat_word_ariths(1) add.assoc)
  have big: "c > 0xFFF7 \<longleftrightarrow> unat c > 65527"
    by (simp add: word_less_nat_alt)
  show ?thesis
  proof (cases "unat c > 65527")
    case True
    have "unat c + 9 - 65536 < 65536" "65536 \<le> unat c + 9"
      using True unat_u16_less [of c] by linarith+
    then have "(unat c + 9) mod 65536 = unat c + 9 - 65536"
      by (simp only: le_mod_geq mod_less)
    then show ?thesis
      using True c9 unfolding eq big by simp
  next
    case False
    then show ?thesis
      unfolding eq big by (simp add: unat_word_ariths(1))
  qed
qed

lemma icmp_adjust_residue:
  assumes "ones_residue (le_value ([8, code] @ store16 c @ rest)) = 65535"
  shows "ones_residue (le_value ([0, code] @ store16 (icmp_adjust_chksum c) @ rest)) = 65535"
proof -
  define n where "n = 256 * unat code + 65536 * (65536 * le_value rest)"
  have eight: "unat (8 :: u8) = 8"
    by simp
  have old: "le_value ([8, code] @ store16 c @ rest) = n + 8 + 65536 * unat c"
    and new: "le_value ([0, code] @ store16 (icmp_adjust_chksum c) @ rest) = n + 65536 * unat (icmp_adjust_chksum c)"
    by (simp_all only: append.simps le_value.simps le_value_append le_value_store16 n_def length_store16 eight)
       (simp_all add: algebra_simps)
  have "ones_residue (n + 8 + 65536 * unat c) = ones_residue (n + 8 + unat c)"
    "ones_residue (n + 65536 * unat (icmp_adjust_chksum c)) = ones_residue (n + unat (icmp_adjust_chksum c))"
    by (intro residue_add_cong residue_65536 refl)+
  then have "ones_residue (n + 8 + unat c) = 65535"
    and goal: "ones_residue (le_value ([0, code] @ store16 (icmp_adjust_chksum c) @ rest))
      = ones_residue (n + unat (icmp_adjust_chksum c))"
    using assms by (simp_all only: old new)
  moreover have "(n + (unat c - 65527)) mod 65535 = (n + 8 + unat c) mod 65535" if "unat c > 65527"
  proof -
    have "n + 8 + unat c = n + (unat c - 65527) + 65535"
      using that by simp
    then show ?thesis
      by (simp only: mod_add_self2)
  qed
  then have "ones_residue (n + unat (icmp_adjust_chksum c)) = ones_residue (n + 8 + unat c)"
    unfolding unat_icmp_adjust by (intro ones_residue_eqI) (auto simp: add.commute add.left_commute)
  ultimately show ?thesis
    by simp
qed

lemma icmp_chksum_adjusted:
  assumes "inet_chksum here ([8, code] @ c1 @ rest) = 0" "length c1 = 2" "length rest \<le> 65000"
  shows "inet_chksum there ([0, code] @ store16 (icmp_adjust_chksum (load16 (c1 ! 0) (c1 ! 1))) @ rest) = 0"
proof -
  have c1: "store16 (load16 (c1 ! 0) (c1 ! 1)) = c1"
    using assms(2) by (auto simp: store16_load16 length_Suc_conv eval_nat_numeral)
  have "ones_residue (le_value ([8, code] @ store16 (load16 (c1 ! 0) (c1 ! 1)) @ rest)) = 65535"
    unfolding c1 using assms by (subst (asm) inet_chksum_zero) simp_all
  from icmp_adjust_residue [OF this] show ?thesis
    using assms(3) by (subst inet_chksum_zero) simp_all
qed

section \<open>The reply to a ping\<close>

text \<open>Six parts of a request, in the first pbuf.\<close>

lemma split_request:
  assumes "20 \<le> hl" "hl + 4 \<le> length b"
  obtains h8 ttl proto s d opts ty code c0 c1 rest
  where "b = h8 @ [ttl, proto] @ c0 @ s @ d @ opts @ [ty, code] @ c1 @ rest" "length h8 = 8" "length c0 = 2"
    "length s = 4" "length d = 4" "length opts = hl - 20" "length c1 = 2"
proof -
  have part: "\<exists>xs. length xs = m \<and> drop k b = xs @ drop j b" if "j = k + m" "j \<le> length b" for k m j
    using that append_take_drop_id [of m "drop k b"]
    by (intro exI [of _ "take m (drop k b)"]) (simp add: add.commute)
  have pair: "drop k b = [b ! k, b ! (k + 1)] @ drop (k + 2) b" if "k + 2 \<le> length b" for k
    using that by (simp add: Cons_nth_drop_Suc)
  obtain h8 c0 where l1: "length h8 = 8" "length c0 = 2" and e1: "drop 0 b = h8 @ drop 8 b" "drop 10 b = c0 @ drop 12 b"
    using part [of 8 0 8] part [of 12 10 2] assms by auto
  obtain s d where l2: "length s = 4" "length d = 4" and e2: "drop 12 b = s @ drop 16 b" "drop 16 b = d @ drop 20 b"
    using part [of 16 12 4] part [of 20 16 4] assms by auto
  obtain opts where l3: "length opts = hl - 20" and e3: "drop 20 b = opts @ drop hl b"
    using part [of hl 20 "hl - 20"] assms by auto
  obtain c1 where l4: "length c1 = 2" and e4: "drop (hl + 2) b = c1 @ drop (hl + 4) b"
    using part [of "hl + 4" "hl + 2" 2] assms by (simp only: add.assoc numeral_plus_numeral) auto
  have f: "drop 8 b = [b ! 8, b ! 9] @ drop 10 b" "drop hl b = [b ! hl, b ! (hl + 1)] @ drop (hl + 2) b"
    using pair [of 8] pair [of hl] assms by simp_all
  have "drop 0 b = h8 @ [b ! 8, b ! 9] @ c0 @ s @ d @ opts @ [b ! hl, b ! (hl + 1)] @ c1 @ drop (hl + 4) b"
    by (simp only: e1 e2 e3 e4 f)
  then show thesis
    using l1 l2 l3 l4 by (intro that [of h8 "b ! 8" "b ! 9" c0 s d opts "b ! hl" "b ! (hl + 1)" c1]) simp_all
qed

text \<open>An echo request, as bytes from the IP header on, and a reply to it.\<close>

definition header_length :: "u8 list \<Rightarrow> nat" where
  "header_length b = unat (IPH_HL_BYTES b)"

lemma header_length_le: "header_length b \<le> 60"
proof -
  have "b ! 0 AND 0x0F \<le> 0x0F"
    by (rule word_and_le1)
  then have "unat (b ! 0 AND 0x0F) \<le> 15"
    by (simp add: word_le_nat_alt)
  then show ?thesis
    unfolding header_length_def IPH_HL_BYTES_def by (simp add: unat_word_ariths(2))
qed

definition echo_request :: "u8 list \<Rightarrow> bool" where
  "echo_request b \<longleftrightarrow> drop_bit 4 (b ! 0) = 4 \<and> 20 \<le> header_length b \<and> header_length b + 8 \<le> length b
     \<and> unat (lwip_htons (load16 (b ! 2) (b ! 3))) = length b
     \<and> load16 (b ! 6) (b ! 7) AND lwip_htons 0x3FFF = 0 \<and> b ! 9 = 1
     \<and> inet_chksum False (take (header_length b) b) = 0
     \<and> b ! header_length b = 8 \<and> inet_chksum False (drop (header_length b) b) = 0"

definition echo_reply :: "u8 list \<Rightarrow> u8 list \<Rightarrow> bool" where
  "echo_reply b r \<longleftrightarrow> (let hl = header_length b in
     length r = length b \<and> take 8 r = take 8 b \<and> r ! 8 = 255 \<and> r ! 9 = b ! 9
     \<and> take 4 (drop 12 r) = take 4 (drop 16 b) \<and> take 4 (drop 16 r) = take 4 (drop 12 b)
     \<and> take (hl - 20) (drop 20 r) = take (hl - 20) (drop 20 b)
     \<and> r ! hl = 0 \<and> r ! (hl + 1) = b ! (hl + 1) \<and> drop (hl + 4) r = drop (hl + 4) b
     \<and> inet_chksum False (take hl r) = 0 \<and> inet_chksum False (drop hl r) = 0)"

lemma icmp_make_reply_bytes:
  assumes q: "pb_payload q = h8 @ [ttl, proto] @ c0 @ s @ d @ opts @ [ty, code] @ c1 @ rest"
    and len: "length h8 = 8" "length c0 = 2" "length s = 4" "length d = 4" "length c1 = 2"
    and hl: "hl = 20 + length opts"
  shows "\<exists>c. icmp_make_reply hl (load32 d) (load32 s) q = q\<lparr>pb_payload :=
      h8 @ [255, proto] @ store16 c @ d @ s @ opts @ [0, code] @ store16 (icmp_adjust_chksum (load16 (c1 ! 0) (c1 ! 1))) @ rest\<rparr>
    \<and> c = inet_chksum (bit (pb_at q) 0) (h8 @ [255, proto] @ [0, 0] @ d @ s @ opts)"
proof -
  let ?c1 = "icmp_adjust_chksum (load16 (c1 ! 0) (c1 ! 1))"
  have st: "store32 (load32 d) = d" "store32 (load32 s) = s"
    using len by (simp_all add: store32_load32)
  have 1: "put_bytes 12 d q = q\<lparr>pb_payload := (h8 @ [ttl, proto] @ c0) @ d @ (d @ opts @ [ty, code] @ c1 @ rest)\<rparr>"
    by (rule put_bytes_at [of _ _ s]) (simp_all add: q len)
  have 2: "put_bytes 16 s (put_bytes 12 d q) = q\<lparr>pb_payload := (h8 @ [ttl, proto] @ c0 @ d) @ s @ (opts @ [ty, code] @ c1 @ rest)\<rparr>"
    unfolding 1 by (subst put_bytes_at [of _ "h8 @ [ttl, proto] @ c0 @ d" d]) (simp_all add: len)
  have 3: "put_bytes hl [ICMP_ER] (put_bytes 16 s (put_bytes 12 d q))
      = q\<lparr>pb_payload := (h8 @ [ttl, proto] @ c0 @ d @ s @ opts) @ [0] @ (code # c1 @ rest)\<rparr>"
    unfolding 2 by (subst put_bytes_at [of _ "h8 @ [ttl, proto] @ c0 @ d @ s @ opts" "[ty]"]) (simp_all add: len hl ICMP_ER_def)
  let ?q2 = "q\<lparr>pb_payload := (h8 @ [ttl, proto] @ c0 @ d @ s @ opts) @ [0] @ (code # c1 @ rest)\<rparr>"
  have c: "pb_payload ?q2 ! (hl + 2) = c1 ! 0" "pb_payload ?q2 ! (hl + 3) = c1 ! 1"
    using len by (simp_all add: hl nth_append)
  have 4: "put_bytes (hl + 2) (store16 ?c1) ?q2
      = q\<lparr>pb_payload := (h8 @ [ttl, proto] @ c0 @ d @ s @ opts @ [0, code]) @ store16 ?c1 @ rest\<rparr>"
    by (subst put_bytes_at [of _ "h8 @ [ttl, proto] @ c0 @ d @ s @ opts @ [0, code]" c1 rest]) (simp_all add: len hl)
  have 5: "put_bytes 8 [ICMP_TTL] (put_bytes (hl + 2) (store16 ?c1) ?q2)
      = q\<lparr>pb_payload := h8 @ [255] @ (proto # c0 @ d @ s @ opts @ [0, code] @ store16 ?c1 @ rest)\<rparr>"
    unfolding 4 by (subst put_bytes_at [of _ h8 "[ttl]"]) (simp_all add: len ICMP_TTL_def)
  define c where "c = inet_chksum (bit (pb_at q) 0) (h8 @ [255, proto] @ [0, 0] @ d @ s @ opts)"
  let ?x = "(h8 @ [255, proto]) @ [0, 0] @ (d @ s @ opts @ [0, code] @ store16 ?c1 @ rest)"
  have 6: "put_bytes 10 [0, 0] (q\<lparr>pb_payload := h8 @ [255] @ (proto # c0 @ d @ s @ opts @ [0, code] @ store16 ?c1 @ rest)\<rparr>)
      = q\<lparr>pb_payload := ?x\<rparr>"
    by (subst put_bytes_at [of _ "h8 @ [255, proto]" c0]) (simp_all add: len)
  have x: "take hl ?x = h8 @ [255, proto] @ [0, 0] @ d @ s @ opts"
    using take_exact [of "h8 @ [255, proto] @ [0, 0] @ d @ s @ opts" hl "[0, code] @ store16 ?c1 @ rest"] len
    by (simp add: hl del: take_append)
  have 7: "put_bytes 10 (store16 c) (q\<lparr>pb_payload := ?x\<rparr>)
      = q\<lparr>pb_payload := (h8 @ [255, proto]) @ store16 c @ (d @ s @ opts @ [0, code] @ store16 ?c1 @ rest)\<rparr>"
    by (subst put_bytes_at [of _ "h8 @ [255, proto]" "[0, 0]"]) (simp_all add: len)
  have "icmp_make_reply hl (load32 d) (load32 s) q
      = put_bytes 10 (store16 (inet_chksum (bit (pb_at q) 0) (take hl ?x))) (q\<lparr>pb_payload := ?x\<rparr>)"
    unfolding icmp_make_reply_def Let_def st 3 c 5 6 by simp
  also have "\<dots> = q\<lparr>pb_payload := (h8 @ [255, proto]) @ store16 c @ (d @ s @ opts @ [0, code] @ store16 ?c1 @ rest)\<rparr>"
    unfolding x c_def [symmetric] by (rule 7)
  finally show ?thesis
    by (intro exI [of _ c]) (simp add: c_def)
qed

lemma icmp_make_reply_correct:
  assumes req: "echo_request b" "length b \<le> 65000" and b: "b = pb_payload q @ tail"
    and hl: "header_length b + 4 \<le> length (pb_payload q)"
  shows "\<exists>r. icmp_make_reply (header_length b) (load32 (drop 16 b)) (load32 (drop 12 b)) q = q\<lparr>pb_payload := r\<rparr>
    \<and> length r = length (pb_payload q) \<and> echo_reply b (r @ tail)"
proof -
  define n where "n = header_length b"
  have n: "20 \<le> n" "n + 4 \<le> length (pb_payload q)"
    using req(1) hl by (simp_all add: echo_request_def n_def)
  obtain h8 ttl proto s d opts ty code c0 c1 rest where
    q: "pb_payload q = h8 @ [ttl, proto] @ c0 @ s @ d @ opts @ [ty, code] @ c1 @ rest"
    and len: "length h8 = 8" "length c0 = 2" "length s = 4" "length d = 4" "length opts = n - 20" "length c1 = 2"
    by (rule split_request [OF n]) blast
  have n': "n = 20 + length opts"
    using n(1) len(5) by simp
  have eq: "b = (h8 @ [ttl, proto] @ c0 @ s @ d @ opts) @ [ty, code] @ c1 @ rest @ tail"
    by (simp add: b q)
  have ip: "load32 (drop 16 b) = load32 d" "load32 (drop 12 b) = load32 s"
    using len by (simp_all add: eq load32_append)
  have pre: "length (h8 @ [ttl, proto] @ c0 @ s @ d @ opts) = n"
    using len n' by simp
  have icmp: "drop n b = [ty, code] @ c1 @ rest @ tail" "b ! n = ty" "b ! (n + 1) = code"
    unfolding eq using drop_exact [OF pre] nth_exact [OF pre, of _ 0] nth_exact [OF pre, of _ 1] by simp_all
  have drop4: "drop (n + 4) b = rest @ tail"
    using len arg_cong [OF icmp(1), of "drop 4"] by (simp add: add.commute)
  let ?c1 = "icmp_adjust_chksum (load16 (c1 ! 0) (c1 ! 1))"
  obtain c where c: "c = inet_chksum (bit (pb_at q) 0) ((h8 @ [255, proto]) @ [0, 0] @ d @ s @ opts)"
    and made: "icmp_make_reply n (load32 d) (load32 s) q
      = q\<lparr>pb_payload := h8 @ [255, proto] @ store16 c @ d @ s @ opts @ [0, code] @ store16 ?c1 @ rest\<rparr>"
    using icmp_make_reply_bytes [OF q len(1-4,6) n'] by auto
  let ?r = "h8 @ [255, proto] @ store16 c @ d @ s @ opts @ [0, code] @ store16 ?c1 @ rest"
  have r: "?r @ tail = (h8 @ [255, proto] @ store16 c @ d @ s @ opts) @ [0, code] @ store16 ?c1 @ rest @ tail"
    by simp
  have short: "n \<le> 65000"
    using req hl by (simp add: echo_request_def n_def)
  have "inet_chksum False ((h8 @ [255, proto]) @ store16 c @ d @ s @ opts) = 0"
    unfolding c by (rule ip_chksum_completed) (use len n' short in simp_all)
  then have hdr: "inet_chksum False (h8 @ [255, proto] @ store16 c @ d @ s @ opts) = 0"
    by (simp only: append_assoc)
  have "ty = 8"
    using req(1) icmp(2) by (simp add: echo_request_def n_def)
  then have "inet_chksum False ([8, code] @ c1 @ rest @ tail) = 0"
    using req(1) icmp(1) by (simp add: echo_request_def n_def)
  then have body: "inet_chksum False ([0, code] @ store16 ?c1 @ rest @ tail) = 0"
    using req(2) len by (intro icmp_chksum_adjusted) (simp_all add: eq)
  have parts: "length (?r @ tail) = length b" "take 8 (?r @ tail) = take 8 b" "(?r @ tail) ! 8 = 255"
    "(?r @ tail) ! 9 = b ! 9" "take 4 (drop 12 (?r @ tail)) = take 4 (drop 16 b)"
    "take 4 (drop 16 (?r @ tail)) = take 4 (drop 12 b)"
    "take (n - 20) (drop 20 (?r @ tail)) = take (n - 20) (drop 20 b)"
    unfolding eq using len by (simp_all add: nth_append)
  have "take n (?r @ tail) = h8 @ [255, proto] @ store16 c @ d @ s @ opts"
    unfolding r by (rule take_exact) (use len n' in simp)
  moreover have pre': "length (h8 @ [255, proto] @ store16 c @ d @ s @ opts) = n"
    using len n' by simp
  have body': "drop n (?r @ tail) = [0, code] @ store16 ?c1 @ rest @ tail" "(?r @ tail) ! n = 0" "(?r @ tail) ! (n + 1) = code"
    unfolding r using drop_exact [OF pre'] nth_exact [OF pre', of _ 0] nth_exact [OF pre', of _ 1] by simp_all
  moreover have "drop (n + 4) (?r @ tail) = rest @ tail"
  proof -
    have "drop (n + 4) (?r @ tail) = drop 4 (drop n (?r @ tail))"
      by (simp only: drop_drop add.commute)
    then show ?thesis
      unfolding body'(1) by simp
  qed
  ultimately have "echo_reply b (?r @ tail)"
    using parts hdr body icmp drop4 unfolding echo_reply_def n_def [symmetric] Let_def by (simp only: simp_thms)
  moreover have "length ?r = length (pb_payload q)"
    using len by (simp add: q)
  ultimately show ?thesis
    unfolding n_def [symmetric] ip using made by blast
qed

lemma icmp_reply_buffer_in_place:
  assumes "contiguous (pb_type q)" "pb_room q = r0 @ h" "length h = hlen + 14"
    "unat (pb_tot_len q) + length h < 65536" "length (pb_payload q) \<le> unat (pb_tot_len q)"
  shows "icmp_reply_buffer heap hlen hdr (q # qs) = Some (q # qs)"
proof -
  have h: "h \<noteq> []" "length h + unat (pb_tot_len q) < 65536"
    using assms(3,4) by auto
  note add = pbuf_add_header_eq [OF assms(1,2) h, unfolded assms(3)]
  let ?q = "q\<lparr>pb_room := r0, pb_payload := h @ pb_payload q, pb_tot_len := pb_tot_len q + of_nat (length h),
    pb_at := pb_at q - of_nat (length h)\<rparr>"
  have "pb_payload ?q = h @ pb_payload q" "length (pb_payload ?q) < 65536"
    using assms(4,5) by simp_all
  from pbuf_remove_header_eq [OF this(1) h(1) this(2)] have "pbuf_remove_header ?q (length h) = Some q"
    using assms(2) by simp
  then show ?thesis
    using add by (simp add: icmp_reply_buffer_def add_header_def SIZEOF_ETH_HDR_def assms(3))
qed

lemma echo_checks:
  assumes b: "b = iph @ pbuf_bytes (q # qs)" "length iph = header_length b" "echo_request b" "length b \<le> 65000"
    and q: "4 \<le> length (pb_payload q)"
  shows "pb_payload q ! 0 = 8" "8 \<le> length (pbuf_bytes (q # qs))" "inet_chksum_pbuf (pieces (q # qs)) = 0"
proof -
  have icmp: "drop (length iph) b = pbuf_bytes (q # qs)"
    by (simp add: b(1))
  have req: "b ! length iph = 8" "length iph + 8 \<le> length b" "inet_chksum False (pbuf_bytes (q # qs)) = 0"
    using b(3) unfolding echo_request_def b(2) [symmetric] icmp by simp_all
  then show "inet_chksum_pbuf (pieces (q # qs)) = 0" "8 \<le> length (pbuf_bytes (q # qs))"
    using b(1,4) by (simp_all add: inet_chksum_pbuf_zero inet_chksum_zero)
  show "pb_payload q ! 0 = 8"
    using req(1) q by (cases "pb_payload q") (simp_all add: b(1) nth_append pbuf_bytes_def)
qed

lemma icmp_input_echo:
  assumes q: "contiguous (pb_type q)" "pb_room q = r0 @ iph" "14 \<le> length r0" "tot_len_ok (q # qs)" "4 \<le> length (pb_payload q)"
    and b: "b = iph @ pbuf_bytes (q # qs)" "length iph = header_length b" "echo_request b" "length b \<le> 65000"
    and d: "current_ip4_header d = b1" "b1 ! 0 = b ! 0" "current_iphdr_dest d = load32 (drop 16 b)"
      "current_iphdr_src d = load32 (drop 12 b)"
    and addr: "\<not> ip4_addr_ismulticast (load32 (drop 16 b))"
      "\<not> ip4_addr_isbroadcast_u32 (load32 (drop 16 b)) (netifs st (current_netif d))"
  shows "\<exists>q'. icmp_input heap frag d (q # qs) inp st
      = map_option snd (ip4_output_netif (\<lambda>i. heap (1 + i)) frag inp (q' # qs) (load32 (drop 12 b)) st)
    \<and> pb_type q' = pb_type q \<and> pb_room q' = r0 \<and> unat (pb_tot_len q') = length b \<and> echo_reply b (pb_payload q' @ pbuf_bytes qs)"
proof -
  have hl: "unat (IPH_HL_BYTES b1) = length iph" "20 \<le> length iph" "length iph \<le> 60"
    using d(2) b(2,3) header_length_le [of b] by (simp_all add: header_length_def IPH_HL_BYTES_def echo_request_def)
  have tot: "unat (pb_tot_len q) = length b - length iph" "length (pb_payload q) \<le> unat (pb_tot_len q)"
    "length b = length iph + length (pb_payload q) + length (pbuf_bytes qs)"
    using q(4) by (simp_all add: b(1) pbuf_bytes_def)
  note echo = echo_checks [OF b q(5)]
  then have "8 \<le> unat (pb_tot_len q)"
    using tot by (simp add: b(1))
  have q4: "\<not> pb_len q < 4"
    using q(5) unat_pb_len [of q] tot b(4) by (simp add: word_less_nat_alt)
  define r1 e where "r1 = take (length r0 - 14) r0" and "e = drop (length r0 - 14) r0"
  have "pb_room q = r1 @ e @ iph" "length (e @ iph) = length iph + 14" "unat (pb_tot_len q) + length (e @ iph) < 65536"
    using q(2,3) hl(3) tot b(4) by (simp_all add: r1_def e_def)
  from icmp_reply_buffer_in_place [OF q(1) this tot(2)]
  have buf: "icmp_reply_buffer heap (length iph) b1 (q # qs) = Some (q # qs)" .
  define q2 where "q2 = q\<lparr>pb_room := r0, pb_payload := iph @ pb_payload q, pb_tot_len := pb_tot_len q + of_nat (length iph),
    pb_at := pb_at q - of_nat (length iph)\<rparr>"
  have add: "add_header (length iph) (q # qs) = Some (q2 # qs)"
    using pbuf_add_header_eq [OF q(1,2)] hl tot b(4) by (force simp: add_header_def q2_def)
  have "b = pb_payload q2 @ pbuf_bytes qs"
    by (simp add: b(1) q2_def pbuf_bytes_def)
  moreover have "header_length b + 4 \<le> length (pb_payload q2)"
    unfolding b(2) [symmetric] using q(5) by (simp add: q2_def)
  ultimately obtain r where
    r: "icmp_make_reply (length iph) (load32 (drop 16 b)) (load32 (drop 12 b)) q2 = q2\<lparr>pb_payload := r\<rparr>"
    "length r = length (pb_payload q2)" "echo_reply b (r @ pbuf_bytes qs)"
    using icmp_make_reply_correct [OF b(3,4), of q2 "pbuf_bytes qs"] unfolding b(2) by blast
  define q' where "q' = q2\<lparr>pb_payload := r\<rparr>"
  have r20: "20 \<le> length r" "length r < 65536"
    using r(2) hl(2) tot b(4) by (simp_all add: q2_def)
  have to: "load32 (drop 16 r) = load32 (drop 12 b)"
  proof -
    have "load32 (take 4 (drop 16 (r @ pbuf_bytes qs))) = load32 (take 4 (drop 12 b))"
      using r(3) by (simp add: echo_reply_def Let_def)
    then show ?thesis
      using r20(1) by (simp add: load32_def)
  qed
  have "\<not> pb_len q' < 20"
    using unat_pb_len [of q'] r20 by (simp add: word_less_nat_alt q'_def)
  then have out: "ip4_output_if hp frag (q' # qs) src None t tos pr inp st
      = ip4_output_netif hp frag inp (q' # qs) (load32 (drop 12 b)) st" for hp src t tos pr
    using to by (simp add: ip4_output_if_def ip4_output_if_src_def IP_HLEN_def q'_def)
  have "icmp_input heap frag d (q # qs) inp st
      = map_option snd (ip4_output_netif (\<lambda>i. heap (1 + i)) frag inp (q' # qs) (load32 (drop 12 b)) st)"
    using hl(2) q4 echo addr \<open>8 \<le> unat (pb_tot_len q)\<close>
    by (simp add: icmp_input_def Let_def d hl(1) IP_HLEN_def ICMP_ECHO_def SIZEOF_ICMP_ECHO_HDR_def buf add
        r(1) q'_def [symmetric] out)
  moreover have "unat (pb_tot_len q') = length b"
    using tot hl(3) b(4) by (simp add: q'_def q2_def unat_word_ariths(1) unat_of_nat_u16)
  ultimately show ?thesis
    using r(3) by (intro exI [of _ q']) (simp add: q'_def q2_def)
qed

section \<open>Output to a known host\<close>

lemma output_resolved:
  assumes "resolved i ip k st" "contiguous (pb_type q)" "14 \<le> length (pb_room q)"
    "unat (pb_tot_len q) = length (pbuf_bytes (q # qs))" and mtu: "length (pbuf_bytes (q # qs)) \<le> unat (mtu (netifs st i))"
    "unat (mtu (netifs st i)) \<le> 1500" and tx: "tx_holds (dev (sport st)) fs"
    "length (tx_enc fs) + words_of (length (pbuf_bytes (q # qs)) + 14) + 2 < tx_words (dev (sport st))"
  shows "\<exists>s' f. ip4_output_netif heap frag i (q # qs) ip st = Some (ERR_OK, st\<lparr>etharp_cached_entry := k, sport := s'\<rparr>)
    \<and> tx_holds (dev s') (fs @ [f]) \<and> rx_same (dev (sport st)) (dev s')
    \<and> tx_bytes f = ent_ethaddr (arp_table st ! k) @ hwaddr (netifs st i) @ [0x08, 0x00] @ pbuf_bytes (q # qs)"
proof -
  have "\<not> pb_tot_len q > mtu (netifs st i)"
    using assms(4) mtu(1) by (simp add: word_less_nat_alt)
  moreover have "length (pbuf_bytes (q # qs)) \<le> 1500"
    using mtu by simp
  ultimately show ?thesis
    using etharp_output_resolved [OF assms(1-4) _ tx, of heap] by (simp add: ip4_output_netif_def)
qed

section \<open>Error messages\<close>

definition packet_src :: "u8 list \<Rightarrow> u32" where "packet_src b = load32 (drop 12 b)"

definition packet_dest :: "u8 list \<Rightarrow> u32" where "packet_dest b = load32 (drop 16 b)"

text \<open>
  An error message about the packet \<open>b\<close>, from \<open>src\<close>: the IP header with identification \<open>idn\<close> and the ICMP message with the
  first 28 bytes of the packet.
\<close>

definition error_message :: "u8 \<Rightarrow> u8 \<Rightarrow> u32 \<Rightarrow> u16 \<Rightarrow> u8 list \<Rightarrow> u8 list \<Rightarrow> bool" where
  "error_message type code src idn b r \<longleftrightarrow>
     (\<exists>c c'. let iph = ip_hdr 0x45 0 (lwip_htons 56) (lwip_htons idn) 255 1 c src (packet_src b);
                 icmp = [type, code] @ store16 c' @ [0, 0, 0, 0] @ take 28 b
             in r = iph @ icmp \<and> inet_chksum False iph = 0 \<and> inet_chksum False icmp = 0)"

lemma error_message_prefix:
  assumes "take 28 b = take 28 b'" "28 \<le> length b" "28 \<le> length b'"
  shows "packet_src b = packet_src b'" "error_message type code src idn b r \<longleftrightarrow> error_message type code src idn b' r"
proof -
  have "b ! j = b' ! j" if "j < 28" for j
    using arg_cong [OF assms(1), of "\<lambda>xs. xs ! j"] that by simp
  then show src: "packet_src b = packet_src b'"
    using assms(2,3) by (simp add: packet_src_def load32_def)
  show "error_message type code src idn b r \<longleftrightarrow> error_message type code src idn b' r"
    by (simp only: error_message_def assms(1) src)
qed

lemma icmp_send_response_sent:
  assumes p: "28 \<le> length (pb_payload q)" "b = pb_payload q"
    and route: "ip4_route (packet_src b) st = Some i" "ip_addr (netifs st i) \<noteq> 0"
    and heap: "pbuf_alloc_RAM heap PBUF_IP 36 = Some a" "fresh PBUF_IP 36 a"
    and host: "resolved i (packet_src b) k st" and mtu: "56 \<le> unat (mtu (netifs st i))"
    and tx: "tx_holds (dev (sport st)) fs" "length (tx_enc fs) + 20 < tx_words (dev (sport st))"
  shows "\<exists>s' f r. icmp_send_response heap frag (q # qs) type code st
      = Some (st\<lparr>ip_id := ip_id st + 1, etharp_cached_entry := k, sport := s'\<rparr>)
    \<and> tx_holds (dev s') (fs @ [f]) \<and> error_message type code (ip_addr (netifs st i)) (ip_id st) b r
    \<and> tx_bytes f = ent_ethaddr (arp_table st ! k) @ hwaddr (netifs st i) @ [0x08, 0x00] @ r"
proof -
  let ?data = "take 28 b" and ?src = "packet_src b" and ?own = "ip_addr (netifs st i)"
  have b: "take 28 (pb_payload q) = ?data" "load32 (drop 12 (pb_payload q)) = ?src" "length ?data = 28"
    using p by (simp_all add: packet_src_def)
  have a: "length (pb_payload a) = 36" "headroom 34 a"
    using heap(2) by (simp_all add: fresh_def headroom_def)
  define q1 where "q1 = put_bytes 0 (icmp_echo_hdr type code 0 0 0 @ ?data) a"
  define c' where "c' = inet_chksum (bit (pb_at q1) 0) (pb_payload q1)"
  define q2 where "q2 = put_bytes 2 (store16 c') q1"
  have q1: "pb_payload q1 = [type, code] @ [0, 0] @ [0, 0, 0, 0] @ ?data"
    using a(1) b(3) by (simp add: q1_def put_bytes_def icmp_echo_hdr_def store16_def)
  have q2: "pb_payload q2 = [type, code] @ store16 c' @ [0, 0, 0, 0] @ ?data" "headroom 34 q2"
    using a b(3) by (simp_all add: q2_def put_bytes_def q1 headroom_def) (simp_all add: q1_def put_bytes_def)
  have icmp: "inet_chksum False (pb_payload q2) = 0"
    unfolding q2(1) c'_def q1 by (rule ip_chksum_completed) (use b(3) in simp_all)
  have resp: "icmp_send_response heap frag (q # qs) type code st
      = map_option snd (ip4_output_if_src (\<lambda>j. heap (1 + j)) frag [q2] ?own (Some ?src) 255 0 1 i st)"
    using p(1) route heap(1)
    by (simp add: icmp_send_response_def SIZEOF_ICMP_ECHO_HDR_def IP_HLEN_def ICMP_DEST_UNREACH_DATASIZE_def b Let_def
        q1_def [symmetric] c'_def [symmetric] q2_def [symmetric] ip4_output_if_def ICMP_TTL_def IP_PROTO_ICMP_def)
  have len: "length (pb_payload q2) = 36"
    using b(3) by (simp add: q2(1))
  then have "length (pb_payload q2) + 20 \<le> unat (mtu (netifs st i))"
    using mtu by simp
  from ip4_output_frame [OF q2(2) this, of "\<lambda>j. heap (1 + j)" frag ?own ?src 255 0 1] obtain q3 c where
    q3: "ip4_output_if_src (\<lambda>j. heap (1 + j)) frag [q2] ?own (Some ?src) 255 0 1 i st
      = etharp_output (\<lambda>j. heap (1 + j)) i [q3] ?src (st\<lparr>ip_id := ip_id st + 1\<rparr>)" "headroom 14 q3"
    "pb_payload q3 = ip_hdr 0x45 0 (lwip_htons 56) (lwip_htons (ip_id st)) 255 1 c ?own ?src @ pb_payload q2"
    and c: "c = ip_chk_sum 0x45 0 255 1 (lwip_htons 56) (lwip_htons (ip_id st)) ?own ?src"
    by (auto simp: len)
  have len3: "length (pbuf_bytes [q3]) = 56"
    by (simp add: pbuf_bytes_def q3(3) len)
  have "error_message type code ?own (ip_id st) b (pbuf_bytes [q3])"
    unfolding error_message_def Let_def using icmp ip_hdr_verifies
    by (intro exI [of _ c] exI [of _ c']) (simp add: pbuf_bytes_def q3(3) q2(1) c)
  moreover have "resolved i ?src k (st\<lparr>ip_id := ip_id st + 1\<rparr>)"
    using host by (simp add: resolved_def arp_ok_def)
  from etharp_output_resolved [OF this, of q3 "[]" fs "\<lambda>j. heap (1 + j)"] obtain s' f where
    "etharp_output (\<lambda>j. heap (1 + j)) i [q3] ?src (st\<lparr>ip_id := ip_id st + 1\<rparr>)
      = Some (ERR_OK, st\<lparr>ip_id := ip_id st + 1, etharp_cached_entry := k, sport := s'\<rparr>)" "tx_holds (dev s') (fs @ [f])"
    "tx_bytes f = ent_ethaddr (arp_table st ! k) @ hwaddr (netifs st i) @ [0x08, 0x00] @ pbuf_bytes [q3]"
    using q3(2) tx len3 by (auto simp: headroom_def contiguous_def words_of_def pbuf_bytes_def)
  ultimately show ?thesis
    unfolding resp q3(1) by (intro exI [of _ s'] exI [of _ f] exI [of _ "pbuf_bytes [q3]"]) simp
qed

end
