(* ===== verification/UdpInput.thy ===== *)
theory UdpInput
  imports Icmp
begin

text \<open>
  The input side of \<open>core/udp.c\<close>: the search for the control block of a datagram and \<open>udp_input\<close>. The call-backs of the
  application are the argument \<open>recv\<close>; the program registers none. \<open>None\<close> is a read beyond the received bytes.
\<close>

section \<open>Operations\<close>

definition udp_input_local_match :: "ip_globals \<Rightarrow> bool \<Rightarrow> netif \<Rightarrow> stack \<Rightarrow> udp_pcb \<Rightarrow> bool" where
  "udp_input_local_match d broadcast inp st pcb \<longleftrightarrow>
     (if pcb_netif_idx pcb \<noteq> 0 \<and> pcb_netif_idx pcb \<noteq> netif_get_index (netifs st (current_input_netif d)) then False
      else if broadcast
      then local_ip pcb = 0 \<or> current_iphdr_dest d = 0xFFFFFFFF
           \<or> ip4_addr_netcmp (local_ip pcb) (current_iphdr_dest d) (netmask inp)
      else local_ip pcb = 0 \<or> local_ip pcb = current_iphdr_dest d)"

text \<open>
  The loop over the control blocks: the one with the right remote end, where the loop stops, and
  the best one without a remote end before it.
\<close>

fun udp_input_loop ::
  "ip_globals \<Rightarrow> bool \<Rightarrow> netif \<Rightarrow> stack \<Rightarrow> u16 \<Rightarrow> u16 \<Rightarrow> u32 option \<Rightarrow> u32 list \<Rightarrow> u32 option \<times> u32 option" where
  "udp_input_loop d broadcast inp st src dest uncon [] = (None, uncon)"
| "udp_input_loop d broadcast inp st src dest uncon (i # is) =
     (let pcb = pcbs st i in
      if local_port pcb = dest \<and> udp_input_local_match d broadcast inp st pcb then
        let uncon' =
              (if pcb_flags pcb AND UDP_FLAGS_CONNECTED = 0
               then (case uncon of
                       None \<Rightarrow> Some i
                     | Some u \<Rightarrow>
                         if broadcast \<and> current_iphdr_dest d = 0xFFFFFFFF \<and> local_ip (pcbs st u) \<noteq> ip_addr inp
                            \<and> local_ip pcb = ip_addr inp
                         then Some i else uncon)
               else uncon)
        in if remote_port pcb = src \<and> (remote_ip pcb = 0 \<or> remote_ip pcb = current_iphdr_src d)
           then (Some i, uncon') else udp_input_loop d broadcast inp st src dest uncon' is
      else udp_input_loop d broadcast inp st src dest uncon is)"

type_synonym recv_fn = "u32 \<Rightarrow> u32 \<Rightarrow> u32 \<Rightarrow> pbuf list \<Rightarrow> u32 \<Rightarrow> u16 \<Rightarrow> stack \<Rightarrow> stack option"

text \<open>
  \<open>recv f\<close> is the function at address \<open>f\<close>. A control block with the right remote end goes to the front of
  the list.
\<close>

definition udp_input ::
  "recv_fn \<Rightarrow> heap \<Rightarrow> outfn \<Rightarrow> ip_globals \<Rightarrow> pbuf list \<Rightarrow> u32 \<Rightarrow> stack \<Rightarrow> stack option" where
  "udp_input recv heap frag d p inp st =
     (if p = [] then None
      else if unat (pb_len (hd p)) < UDP_HLEN then Some st
      else
        let b = pb_payload (hd p);
            dst = current_iphdr_dest d;
            broadcast = ip4_addr_isbroadcast_u32 dst (netifs st (current_netif d));
            src = lwip_htons (load16 (b ! 0) (b ! 1));
            dest = lwip_htons (load16 (b ! 2) (b ! 3));
            (con, uncon) = udp_input_loop d broadcast (netifs st inp) st src dest None (udp_pcbs st);
            st1 = (case con of None \<Rightarrow> st | Some i \<Rightarrow> st\<lparr>udp_pcbs := i # remove1 i (udp_pcbs st)\<rparr>);
            pcb = (case con of None \<Rightarrow> uncon | Some i \<Rightarrow> con)
        in if pcb = None \<and> ip_addr (netifs st inp) \<noteq> dst then Some st1
           else if load16 (b ! 6) (b ! 7) \<noteq> 0
                   \<and> ip_chksum_pseudo (pieces p) IP_PROTO_UDP (pb_tot_len (hd p)) (current_iphdr_src d) dst \<noteq> 0
           then Some st1
           else
             (case pbuf_remove_header (hd p) UDP_HLEN of
                None \<Rightarrow> Some st1
              | Some q \<Rightarrow>
                  (case pcb of
                     Some i \<Rightarrow>
                       (case pcb_recv (pcbs st1 i) of
                          None \<Rightarrow> Some st1
                        | Some f \<Rightarrow> recv f (pcb_recv_arg (pcbs st1 i)) i (q # tl p) (current_iphdr_src d) src st1)
                   | None \<Rightarrow>
                       if \<not> broadcast \<and> \<not> ip4_addr_ismulticast dst
                       then (case pbuf_header_force q (unat (current_ip_header_tot_len d) + UDP_HLEN) of
                               None \<Rightarrow> None
                             | Some r \<Rightarrow> icmp_dest_unreach heap frag (case_option q id r # tl p) ICMP_DUR_PORT st1)
                       else Some st1)))"

section \<open>The control block for a datagram\<close>

text \<open>
  A control block is for a datagram: it is bound to the port; if it is bound to an interface, the datagram came in
  there; and if it is bound to an address, the datagram is for this address, or it is a broadcast to all or to the network
  of this address. The loop-free description that the search is compared with.
\<close>

definition pcb_match :: "ip_globals \<Rightarrow> bool \<Rightarrow> netif \<Rightarrow> stack \<Rightarrow> u16 \<Rightarrow> u32 \<Rightarrow> bool" where
  "pcb_match d broadcast n st dest i \<longleftrightarrow>
     local_port (pcbs st i) = dest
     \<and> pcb_netif_idx (pcbs st i) \<in> {0, netif_no (netifs st (current_input_netif d)) + 1}
     \<and> (local_ip (pcbs st i) \<in> {0, current_iphdr_dest d}
        \<or> broadcast \<and> (current_iphdr_dest d = 0xFFFFFFFF
            \<or> local_ip (pcbs st i) AND netmask n = current_iphdr_dest d AND netmask n))"

lemma pcb_match_code:
  "pcb_match d broadcast n st dest i \<longleftrightarrow> local_port (pcbs st i) = dest \<and> udp_input_local_match d broadcast n st (pcbs st i)"
  by (auto simp: pcb_match_def udp_input_local_match_def netif_get_index_def ip4_addr_netcmp_def)

text \<open>
  Its remote end fits the sender. The code does not ask whether the control block is connected: one that is not has the
  remote port 0 and no remote address, so this holds of it for a datagram from port 0.
\<close>

definition remote_match :: "ip_globals \<Rightarrow> stack \<Rightarrow> u16 \<Rightarrow> u32 \<Rightarrow> bool" where
  "remote_match d st src i \<longleftrightarrow> remote_port (pcbs st i) = src \<and> (remote_ip (pcbs st i) = 0 \<or> remote_ip (pcbs st i) = current_iphdr_src d)"

definition unconnected :: "stack \<Rightarrow> u32 \<Rightarrow> bool" where
  "unconnected st i \<longleftrightarrow> pcb_flags (pcbs st i) AND UDP_FLAGS_CONNECTED = 0"

definition find_or :: "('a \<Rightarrow> bool) \<Rightarrow> 'a list \<Rightarrow> 'a option \<Rightarrow> 'a option" where
  "find_or P xs other = (case find P xs of None \<Rightarrow> other | Some x \<Rightarrow> Some x)"

lemma udp_input_loop_con:
  "fst (udp_input_loop d broadcast n st src dest u is)
   = find (\<lambda>i. pcb_match d broadcast n st dest i \<and> remote_match d st src i) is"
  by (induction "is" arbitrary: u) (auto simp: pcb_match_code remote_match_def Let_def)

text \<open>The pointer \<open>uncon_pcb\<close> of the loop, in the abstract.\<close>

fun best :: "bool \<Rightarrow> ('a \<Rightarrow> bool) \<Rightarrow> ('a \<Rightarrow> bool) \<Rightarrow> 'a option \<Rightarrow> 'a list \<Rightarrow> 'a option" where
  "best limited P own u [] = u"
| "best limited P own u (x # xs) =
     best limited P own (if P x then (case u of None \<Rightarrow> Some x | Some v \<Rightarrow> if limited \<and> \<not> own v \<and> own x then Some x else u)
                         else u) xs"

lemma best_Some:
  "best limited P own (Some v) xs = (if limited \<and> \<not> own v then find_or (\<lambda>x. P x \<and> own x) xs (Some v) else Some v)"
  by (induction xs arbitrary: v) (auto simp: find_or_def)

lemma best_None:
  "best limited P own None xs = (if limited then find_or (\<lambda>x. P x \<and> own x) xs (find P xs) else find P xs)"
  by (induction xs) (auto simp: best_Some find_or_def)

lemma udp_input_loop_uncon:
  assumes "\<forall>i \<in> set is. \<not> (pcb_match d broadcast n st dest i \<and> remote_match d st src i)"
  shows "snd (udp_input_loop d broadcast n st src dest u is)
    = best (broadcast \<and> current_iphdr_dest d = 0xFFFFFFFF) (\<lambda>i. pcb_match d broadcast n st dest i \<and> unconnected st i)
        (\<lambda>i. local_ip (pcbs st i) = ip_addr n) u is"
  using assms
proof (induction "is" arbitrary: u)
  case (Cons i "is")
  let ?u = "if pcb_match d broadcast n st dest i \<and> unconnected st i
    then (case u of None \<Rightarrow> Some i | Some v \<Rightarrow>
      if (broadcast \<and> current_iphdr_dest d = 0xFFFFFFFF) \<and> local_ip (pcbs st v) \<noteq> ip_addr n \<and> local_ip (pcbs st i) = ip_addr n
      then Some i else u) else u"
  have "udp_input_loop d broadcast n st src dest u (i # is) = udp_input_loop d broadcast n st src dest ?u is"
    using Cons.prems
    by (cases u) (auto simp: pcb_match_code remote_match_def unconnected_def Let_def)
  moreover have "\<forall>i \<in> set is. \<not> (pcb_match d broadcast n st dest i \<and> remote_match d st src i)"
    using Cons.prems by simp
  ultimately show ?case
    using Cons.IH [of ?u] by simp
qed simp

text \<open>
  C25. The search of \<open>udp_input\<close> in one pass with its three pointers finds what a direct description says. Of the control
  blocks that are for the datagram (port, interface and local address, with the rules for broadcasts) it is the first in
  the list whose remote port is the port of the sender and whose remote address is that of the sender or none, or else
  the first one that is not connected; for a datagram to 255.255.255.255 of these one that is bound to the address
  of the interface goes before. The comment in the code says that the first choice is a connected control block; but
  for a datagram from port 0 it can be one that is not connected, before one that is.
\<close>

theorem udp_input_selects:
  "(case udp_input_loop d broadcast n st src dest None is of (con, uncon) \<Rightarrow> case con of None \<Rightarrow> uncon | Some i \<Rightarrow> Some i) =
    (let P = (\<lambda>i. pcb_match d broadcast n st dest i \<and> unconnected st i)
     in find_or (\<lambda>i. pcb_match d broadcast n st dest i \<and> remote_match d st src i) is
          (if broadcast \<and> current_iphdr_dest d = 0xFFFFFFFF
           then find_or (\<lambda>i. P i \<and> local_ip (pcbs st i) = ip_addr n) is (find P is) else find P is))"
proof (cases "find (\<lambda>i. pcb_match d broadcast n st dest i \<and> remote_match d st src i) is")
  case None
  then have "\<forall>i \<in> set is. \<not> (pcb_match d broadcast n st dest i \<and> remote_match d st src i)"
    by (simp add: find_None_iff)
  moreover have "find_or (\<lambda>i. pcb_match d broadcast n st dest i \<and> remote_match d st src i) is x = x" for x
    by (simp only: find_or_def None option.case)
  ultimately show ?thesis
    using None udp_input_loop_con [of d broadcast n st src dest None "is"] udp_input_loop_uncon [of "is" d broadcast n st dest src None]
    by (simp only: split_def best_None Let_def option.case)
next
  case (Some i)
  then show ?thesis
    using udp_input_loop_con [of d broadcast n st src dest None "is"] by (simp add: split_def find_or_def Let_def)
qed

section \<open>A port that nobody listens on\<close>

lemma udp_input_loop_none:
  "\<forall>i \<in> set is. local_port (pcbs st i) \<noteq> dest \<Longrightarrow> udp_input_loop d broadcast n st src dest u is = (None, u)"
  by (induction "is" arbitrary: u) (simp_all add: Let_def)

lemma udp_input_no_port:
  assumes q: "contiguous (pb_type q)" "pb_room q = front @ iph" "tot_len_ok (q # qs)" "8 \<le> length (pb_payload q)"
      "length iph = unat (current_ip_header_tot_len d)" "length iph \<le> 60" "length (pbuf_bytes (q # qs)) \<le> 65000"
    and b: "b = pb_payload q"
    and port: "\<forall>i \<in> set (udp_pcbs st). local_port (pcbs st i) \<noteq> lwip_htons (load16 (b ! 2) (b ! 3))"
    and addr: "current_iphdr_dest d = ip_addr (netifs st inp)" "unicast_addr (current_iphdr_dest d) (netifs st (current_netif d))"
    and sum: "load16 (b ! 6) (b ! 7) = 0 \<or>
      ip_chksum_pseudo (pieces (q # qs)) IP_PROTO_UDP (pb_tot_len q) (current_iphdr_src d) (current_iphdr_dest d) = 0"
  shows "\<exists>q'. udp_input recv heap frag d (q # qs) inp st = icmp_dest_unreach heap frag (q' # qs) ICMP_DUR_PORT st
    \<and> pb_payload q' = iph @ b"
proof -
  define h rest where "h = take 8 b" and "rest = drop 8 b"
  have pay: "pb_payload q = h @ rest" "length h = 8" "h \<noteq> []" "b = h @ rest"
    using q(4) b by (auto simp: h_def rest_def)
  have less: "length (pb_payload q) < 65536" "unat (pb_tot_len q) = length (pbuf_bytes (q # qs))"
    using tot_len_ok_less [OF q(3)] q(3) by simp_all
  define q1 where "q1 = q\<lparr>pb_room := pb_room q @ h, pb_payload := rest, pb_tot_len := pb_tot_len q - 8, pb_at := pb_at q + 8\<rparr>"
  have rem: "pbuf_remove_header q 8 = Some q1"
    using pbuf_remove_header_eq [OF pay(1,3) less(1)] pay(2) by (simp add: q1_def)
  have "8 \<le> pb_tot_len q"
    using q(4) less(2) by (simp add: word_le_nat_alt pbuf_bytes_def)
  then have "unat (pb_tot_len q1) \<le> 65000"
    using q(7) less(2) by (simp add: q1_def unat_minus_le)
  then have "length (iph @ h) + unat (pb_tot_len q1) < 65536"
    using q(6) pay(2) by simp
  then obtain q' where q': "pbuf_add_header q1 (length iph + 8) = Some q'" "pb_payload q' = iph @ b"
    using pbuf_add_header_eq [of q1 front "iph @ h"] q(1,2) pay by (force simp: q1_def)
  have len: "\<not> unat (pb_len q) < 8" "contiguous (pb_type q1)"
    using q(1,4) unat_pb_len [OF less(1)] by (simp_all add: q1_def)
  have "udp_input recv heap frag d (q # qs) inp st = icmp_dest_unreach heap frag (q' # qs) ICMP_DUR_PORT st"
    using len addr sum q'(1) q(5)
    by (auto simp: udp_input_def UDP_HLEN_def Let_def b [symmetric] udp_input_loop_none [OF port] rem pbuf_header_force_def
        unicast_addr_def)
  then show ?thesis
    using q'(2) by blast
qed

end
