(* ===== verification/Ip4Input.thy ===== *)
theory Ip4Input
  imports UdpInput EthInput
begin

text \<open>
  The way of an IP packet into lwIP 2.1.2: \<open>ip4_input\<close> of \<open>core/ipv4/ip4.c\<close>, which \<open>ethernet_input\<close> calls, with the options
  of \<open>lwipopts.h\<close>: no raw sockets, no multicast groups, no forwarding. Arguments stand for \<open>tcp_input\<close>, the
  reassembly of fragments \<open>ip4_reass\<close> and the division of output into fragments \<open>frag\<close> (\<open>Reass\<close> and \<open>Frag\<close> have those of lwIP), and the call-backs of the
  application \<open>recv\<close>. \<open>None\<close> is a read beyond the received bytes.

  The theorems follow packets through the stack: pings and datagrams without a receiver are answered with one
  frame, and what is refused leaves no trace.
\<close>

section \<open>Operations\<close>

definition ip4_input_accept :: "u32 \<Rightarrow> netif \<Rightarrow> bool" where
  "ip4_input_accept dest n \<longleftrightarrow> netif_is_up n \<and> ip_addr n \<noteq> 0
     \<and> (dest = ip_addr n \<or> ip4_addr_isbroadcast_u32 dest n)"

text \<open>The interface that the packet is for.\<close>

definition ip4_input_netif :: "u32 \<Rightarrow> u32 \<Rightarrow> stack \<Rightarrow> u32 option" where
  "ip4_input_netif dest inp st =
     (if ip4_addr_ismulticast dest
      then if netif_is_up (netifs st inp) \<and> ip_addr (netifs st inp) \<noteq> 0 then Some inp else None
      else if ip4_input_accept dest (netifs st inp) then Some inp
      else if \<not> ip4_addr_isloopback dest
      then find (\<lambda>j. j \<noteq> inp \<and> ip4_input_accept dest (netifs st j)) (netif_list st)
      else None)"

definition LWIP_IANA_PORT_DHCP_CLIENT :: u16 where "LWIP_IANA_PORT_DHCP_CLIENT = 68"

type_synonym reass_fn = "pbuf list \<Rightarrow> stack \<Rightarrow> (pbuf list option \<times> stack) option"

type_synonym tcp_fn = "ip_globals \<Rightarrow> pbuf list \<Rightarrow> u32 \<Rightarrow> stack \<Rightarrow> stack option"

text \<open>The part of \<open>ip4_input\<close> from the assignment of \<open>ip_data.current_netif\<close> on.\<close>

definition ip4_deliver ::
  "tcp_fn \<Rightarrow> recv_fn \<Rightarrow> outfn \<Rightarrow> heap \<Rightarrow> pbuf list \<Rightarrow> nat \<Rightarrow> u32 \<Rightarrow> u32 \<Rightarrow> u32 \<Rightarrow> u32 \<Rightarrow> stack \<Rightarrow> stack option" where
  "ip4_deliver tcp_input recv frag heap p iphdr_hlen src dest n inp st =
     (if p = [] \<or> length (pb_payload (hd p)) < IP_HLEN then None
      else
        let iphdr = pb_payload (hd p);
            d = \<lparr>current_netif = n, current_input_netif = inp, current_ip4_header = iphdr,
                 current_ip_header_tot_len = to_u16 (IPH_HL_BYTES iphdr), current_iphdr_src = src, current_iphdr_dest = dest\<rparr>;
            q = (case pbuf_remove_header (hd p) iphdr_hlen of None \<Rightarrow> hd p | Some q \<Rightarrow> q);
            proto = iphdr ! 9
        in if proto = IP_PROTO_UDP then udp_input recv heap frag d (q # tl p) inp st
           else if proto = IP_PROTO_TCP then tcp_input d (q # tl p) inp st
           else if proto = IP_PROTO_ICMP then icmp_input heap frag d (q # tl p) inp st
           else if \<not> ip4_addr_isbroadcast_u32 dest (netifs st n) \<and> \<not> ip4_addr_ismulticast dest
           then (case pbuf_header_force q iphdr_hlen of
                   None \<Rightarrow> None
                 | Some r \<Rightarrow> icmp_dest_unreach heap frag (case_option q id r # tl p) ICMP_DUR_PROTO st)
           else Some st)"

text \<open>The part before it, from the copy of the addresses on: \<open>p\<close> has a valid header.\<close>

definition ip4_receive ::
  "reass_fn \<Rightarrow> tcp_fn \<Rightarrow> recv_fn \<Rightarrow> outfn \<Rightarrow> heap \<Rightarrow> pbuf list \<Rightarrow> nat \<Rightarrow> u32 \<Rightarrow> stack \<Rightarrow> stack option" where
  "ip4_receive ip4_reass tcp_input recv frag heap p iphdr_hlen inp st =
     (let b = pb_payload (hd p);
          dest = load32 (drop 16 b); src = load32 (drop 12 b);
          netif = ip4_input_netif dest inp st;
          udp = (netif = None \<and> b ! 9 = IP_PROTO_UDP)
      in if udp \<and> length b < iphdr_hlen + 4 then None
         else
           let dhcp = (udp \<and> load16 (b ! (iphdr_hlen + 2)) (b ! (iphdr_hlen + 3))
                             = lwip_htons LWIP_IANA_PORT_DHCP_CLIENT);
               netif' = (if dhcp then Some inp else netif);
               check_ip_src = (\<not> dhcp)
           in if check_ip_src \<and> src \<noteq> 0
                 \<and> (ip4_addr_isbroadcast_u32 src (netifs st inp) \<or> ip4_addr_ismulticast src)
              then Some st
              else
                (case netif' of
                   None \<Rightarrow> Some st
                 | Some n \<Rightarrow>
                     if load16 (b ! 6) (b ! 7) AND lwip_htons 0x3FFF \<noteq> 0
                     then (case ip4_reass p st of
                             None \<Rightarrow> None
                           | Some (None, st1) \<Rightarrow> Some st1
                           | Some (Some p1, st1) \<Rightarrow> ip4_deliver tcp_input recv frag heap p1 iphdr_hlen src dest n inp st1)
                     else ip4_deliver tcp_input recv frag heap p iphdr_hlen src dest n inp st))"

definition ip4_input :: "reass_fn \<Rightarrow> tcp_fn \<Rightarrow> recv_fn \<Rightarrow> outfn \<Rightarrow> heap \<Rightarrow> ip_input" where
  "ip4_input ip4_reass tcp_input recv frag heap p0 inp st =
     (if p0 = [] \<or> length (pb_payload (hd p0)) < 1 then None
      else if drop_bit 4 (pb_payload (hd p0) ! 0) \<noteq> 4 then Some st
      else if length (pb_payload (hd p0)) < 4 then None
      else
        let iphdr_hlen = unat (IPH_HL_BYTES (pb_payload (hd p0)));
            iphdr_len = lwip_htons (load16 (pb_payload (hd p0) ! 2) (pb_payload (hd p0) ! 3))
        in (case (if iphdr_len < pb_tot_len (hd p0) then pbuf_realloc p0 iphdr_len else Some p0) of
              None \<Rightarrow> None
            | Some p \<Rightarrow>
                if iphdr_hlen > unat (pb_len (hd p)) \<or> iphdr_len > pb_tot_len (hd p) \<or> iphdr_hlen < IP_HLEN then Some st
                else if inet_chksum (bit (pb_at (hd p)) 0) (take iphdr_hlen (pb_payload (hd p))) \<noteq> 0 then Some st
                else ip4_receive ip4_reass tcp_input recv frag heap p iphdr_hlen inp st))"

section \<open>Acceptance of packets\<close>

text \<open>
  What \<open>ip4_input\<close> asks of the header of a packet in a chain, whose first pbuf has the bytes \<open>b\<close> and
  whose length is \<open>tot\<close>.
\<close>

definition packet_length :: "u8 list \<Rightarrow> nat" where
  "packet_length b = unat (lwip_htons (load16 (b ! 2) (b ! 3)))"

definition header_ok :: "nat \<Rightarrow> u8 list \<Rightarrow> bool" where
  "header_ok tot b \<longleftrightarrow> drop_bit 4 (b ! 0) = 4 \<and> 20 \<le> header_length b \<and> header_length b \<le> length b
     \<and> header_length b \<le> packet_length b \<and> packet_length b \<le> tot
     \<and> inet_chksum False (take (header_length b) b) = 0"

definition source_ok :: "u32 \<Rightarrow> netif \<Rightarrow> bool" where
  "source_ok src n \<longleftrightarrow> src = 0 \<or> \<not> ip4_addr_isbroadcast_u32 src n \<and> \<not> ip4_addr_ismulticast src"

lemma take_fields:
  assumes "20 \<le> n" "20 \<le> length b"
  shows "load32 (drop 12 (take n b)) = packet_src b" "load32 (drop 16 (take n b)) = packet_dest b"
    and "\<And>i. i < 20 \<Longrightarrow> take n b ! i = b ! i"
  using assms by (simp_all add: load32_def packet_src_def packet_dest_def)

text \<open>The header is read from the first pbuf before it is cut, and again after.\<close>

definition cut_head :: "pbuf \<Rightarrow> pbuf" where
  "cut_head q = q\<lparr>pb_payload := take (packet_length (pb_payload q)) (pb_payload q),
     pb_tot_len := lwip_htons (load16 (pb_payload q ! 2) (pb_payload q ! 3))\<rparr>"

lemma ip4_input_step:
  assumes "p = q # qs" "b = pb_payload q" "20 \<le> length b"
    and "(if len < pb_tot_len q then pbuf_realloc p len else Some p) = Some p'"
    and "len = lwip_htons (load16 (b ! 2) (b ! 3))"
  shows "ip4_input reass tcp recv frag heap p inp st =
     (if drop_bit 4 (b ! 0) \<noteq> 4 then Some st
      else if header_length b > unat (pb_len (hd p')) \<or> len > pb_tot_len (hd p') \<or> header_length b < 20 then Some st
      else if inet_chksum (bit (pb_at (hd p')) 0) (take (header_length b) (pb_payload (hd p'))) \<noteq> 0 then Some st
      else ip4_receive reass tcp recv frag heap p' (header_length b) inp st)"
proof -
  have "\<not> length b < 4" "\<not> length b < 1"
    using assms(3) by linarith+
  then show ?thesis
    unfolding ip4_input_def Let_def assms(1) list.sel assms(2) [symmetric] assms(5) [symmetric] header_length_def IP_HLEN_def
      assms(4) [unfolded assms(1)]
    by (simp del: One_nat_def length_0_conv less_one)
qed

lemma ip4_input_dropped:
  assumes p: "p = q # qs" "tot_len_ok p" and b: "b = pb_payload q" "20 \<le> length b"
    and bad: "\<not> header_ok (length (pbuf_bytes p)) b"
  shows "ip4_input reass tcp recv frag heap p inp st = Some st"
proof -
  define len where "len = lwip_htons (load16 (b ! 2) (b ! 3))"
  have tot: "unat (pb_tot_len q) = length (pbuf_bytes p)" "length b < 65536"
    using p(2) tot_len_ok_less [of q qs] by (simp_all add: p(1) b(1))
  show ?thesis
  proof (cases "unat len \<le> length (pbuf_bytes p)")
    case True
    obtain q' qs' where cut: "(if len < pb_tot_len q then pbuf_realloc p len else Some p) = Some (q' # qs')"
      "q' = q\<lparr>pb_payload := take (unat len) b, pb_tot_len := len\<rparr>"
      using pbuf_realloc_cut [OF p(2) _ True] by (auto simp: p(1) b(1))
    have "unat (pb_len q') = min (length b) (unat len)"
      using unat_pb_len [of q'] tot(2) by (simp add: cut(2))
    then have "drop_bit 4 (b ! 0) \<noteq> 4 \<or> header_length b > unat (pb_len q') \<or> header_length b < 20
        \<or> inet_chksum (bit (pb_at q') 0) (take (header_length b) (pb_payload q')) \<noteq> 0"
      using bad True inet_chksum_alignment [of "take (header_length b) b" False "bit (pb_at q') 0"] tot(2)
      by (auto simp: header_ok_def packet_length_def len_def [symmetric] cut(2) min_def split: if_splits)
    then show ?thesis
      unfolding ip4_input_step [OF p(1) b cut(1) len_def] by (elim disjE) simp_all
  next
    case False
    then have "\<not> len < pb_tot_len q" "len > pb_tot_len q"
      using tot(1) by (simp_all add: word_less_nat_alt)
    then show ?thesis
      using ip4_input_step [OF p(1) b _ len_def, of p] by (simp add: p(1))
  qed
qed

lemma ip4_input_accepted:
  assumes p: "p = q # qs" "tot_len_ok p" and b: "b = pb_payload q" "20 \<le> length b"
    and good: "header_ok (length (pbuf_bytes p)) b"
  shows "\<exists>qs'. pbuf_bytes (cut_head q # qs') = take (packet_length b) (pbuf_bytes p) \<and> tot_len_ok (cut_head q # qs')
    \<and> ip4_input reass tcp recv frag heap p inp st
        = ip4_receive reass tcp recv frag heap (cut_head q # qs') (header_length b) inp st"
proof -
  define len where "len = lwip_htons (load16 (b ! 2) (b ! 3))"
  have plen: "packet_length b = unat len"
    by (simp add: packet_length_def len_def)
  have ok: "drop_bit 4 (b ! 0) = 4" "20 \<le> header_length b" "header_length b \<le> length b" "header_length b \<le> unat len"
    "unat len \<le> length (pbuf_bytes p)" "inet_chksum False (take (header_length b) b) = 0"
    using good by (simp_all add: header_ok_def plen)
  have tot: "length b < 65536"
    using p(2) tot_len_ok_less [of q qs] by (simp add: p(1) b(1))
  obtain qs' where cut: "(if len < pb_tot_len q then pbuf_realloc p len else Some p) = Some (cut_head q # qs')"
    "pbuf_bytes (cut_head q # qs') = take (unat len) (pbuf_bytes p)" "tot_len_ok (cut_head q # qs')"
    using pbuf_realloc_cut [OF p(2) _ ok(5)] by (auto simp: p(1) b(1) cut_head_def packet_length_def len_def)
  have head: "pb_payload (cut_head q) = take (unat len) b" "pb_tot_len (cut_head q) = len" "pb_at (cut_head q) = pb_at q"
    by (simp_all add: cut_head_def b(1) [symmetric] plen len_def)
  have "unat (pb_len (cut_head q)) = min (length b) (unat len)"
    using unat_pb_len [of "cut_head q"] tot by (simp add: head)
  then have fits: "\<not> header_length b > unat (pb_len (cut_head q))"
    using ok by simp
  have "inet_chksum (bit (pb_at q) 0) (take (header_length b) (take (unat len) b)) = 0"
    using ok(4,6) inet_chksum_alignment [of "take (header_length b) b" "bit (pb_at q) 0" False] tot
    by (simp add: min_def)
  then have "ip4_input reass tcp recv frag heap p inp st
        = ip4_receive reass tcp recv frag heap (cut_head q # qs') (header_length b) inp st"
    using ip4_input_step [OF p(1) b cut(1) len_def] ok(1,2) fits by (simp add: head)
  then show ?thesis
    using cut(2,3) plen by auto
qed

lemma ip4_receive_own:
  assumes "b = pb_payload q" "ip4_input_netif (packet_dest b) inp st = Some k" "source_ok (packet_src b) (netifs st inp)"
    "load16 (b ! 6) (b ! 7) AND lwip_htons 0x3FFF = 0"
  shows "ip4_receive reass tcp recv frag heap (q # qs) hl inp st
    = ip4_deliver tcp recv frag heap (q # qs) hl (packet_src b) (packet_dest b) k inp st"
  using assms by (auto simp: ip4_receive_def Let_def packet_src_def packet_dest_def source_ok_def)

lemma ip4_receive_refused:
  assumes "b = pb_payload q" and "if ip4_input_netif (packet_dest b) inp st = None
      then b ! 9 = 17 \<longrightarrow> hl + 4 \<le> length b \<and> load16 (b ! (hl + 2)) (b ! (hl + 3)) \<noteq> lwip_htons 68
      else \<not> source_ok (packet_src b) (netifs st inp)"
  shows "ip4_receive reass tcp recv frag heap (q # qs) hl inp st = Some st"
proof (cases "ip4_input_netif (packet_dest b) inp st")
  case None
  then show ?thesis
    using assms by (cases "b ! 9 = 17")
      (simp_all add: ip4_receive_def Let_def packet_dest_def IP_PROTO_UDP_def LWIP_IANA_PORT_DHCP_CLIENT_def)
next
  case (Some k)
  then show ?thesis
    using assms by (simp add: ip4_receive_def Let_def packet_src_def packet_dest_def source_ok_def)
qed

section \<open>Packets for the interface\<close>

definition own_address :: "u32 \<Rightarrow> netif \<Rightarrow> bool" where
  "own_address ip n \<longleftrightarrow> netif_is_up n \<and> ip = ip_addr n \<and> unicast_addr ip n"

lemma own_address_accepted:
  "own_address dest (netifs st i) \<Longrightarrow> ip4_input_netif dest i st = Some i"
  unfolding own_address_def ip4_input_netif_def ip4_input_accept_def unicast_addr_def by auto

text \<open>The first pbuf of a chain that starts with the packet \<open>b\<close> has the fields of its header.\<close>

lemma prefix_take:
  "pbuf_bytes (q # qs) = b @ pad \<Longrightarrow> n \<le> length (pb_payload q) \<Longrightarrow> n \<le> length b \<Longrightarrow> take n (pb_payload q) = take n b"
  by (drule arg_cong [of _ _ "take n"]) (simp add: pbuf_bytes_def)

lemma prefix_nth:
  assumes "pbuf_bytes (q # qs) = b @ pad" "20 \<le> length (pb_payload q)" "20 \<le> length b" "j < 20"
  shows "pb_payload q ! j = b ! j"
  using arg_cong [OF prefix_take [OF assms(1-3)], of "\<lambda>xs. xs ! j"] assms(4) by simp

lemma prefix_fields:
  assumes "pbuf_bytes (q # qs) = b @ pad" "20 \<le> length (pb_payload q)" "20 \<le> length b"
  shows "header_length (pb_payload q) = header_length b" "packet_length (pb_payload q) = packet_length b"
    "packet_src (pb_payload q) = packet_src b" "packet_dest (pb_payload q) = packet_dest b"
  using assms(2,3) prefix_nth [OF assms]
  by (simp_all add: header_length_def IPH_HL_BYTES_def packet_length_def packet_src_def packet_dest_def load32_def)

text \<open>A packet for the interface that is not a fragment reaches the layer above, without its padding.\<close>

definition whole_packet :: "u8 list \<Rightarrow> bool" where
  "whole_packet b \<longleftrightarrow> header_ok (length b) b \<and> packet_length b = length b
     \<and> load16 (b ! 6) (b ! 7) AND lwip_htons 0x3FFF = 0"

lemma ip4_input_own:
  assumes q: "tot_len_ok (q # qs)" "header_length b \<le> length (pb_payload q)"
    and b: "pbuf_bytes (q # qs) = b @ pad" "whole_packet b"
    and addr: "own_address (packet_dest b) (netifs st i)" "source_ok (packet_src b) (netifs st i)"
  shows "\<exists>q' qs'. ip4_input reass tcp recv frag heap (q # qs) i st
      = ip4_deliver tcp recv frag heap (q' # qs') (header_length b) (packet_src b) (packet_dest b) i i st
    \<and> b = pbuf_bytes (q' # qs') \<and> tot_len_ok (q' # qs') \<and> pb_payload q' = take (length b) (pb_payload q)
    \<and> pb_room q' = pb_room q \<and> pb_type q' = pb_type q"
proof -
  let ?bq = "pb_payload q"
  have ok: "header_ok (length b) b" "packet_length b = length b" "load16 (b ! 6) (b ! 7) AND lwip_htons 0x3FFF = 0"
    using b(2) by (simp_all add: whole_packet_def)
  then have hl: "20 \<le> header_length b" "header_length b \<le> length b"
    by (simp_all add: header_ok_def)
  have len: "20 \<le> length ?bq" "20 \<le> length b"
    using q(2) hl by simp_all
  note cut = prefix_take [OF b(1)] and nth = prefix_nth [OF b(1) len] and same = prefix_fields [OF b(1) len, unfolded ok(2)]
  have "header_ok (length (pbuf_bytes (q # qs))) ?bq"
    using ok(1) q(2) hl cut [of "header_length b"] by (simp add: header_ok_def same nth b(1))
  then obtain qs' where qs': "pbuf_bytes (cut_head q # qs') = take (length b) (pbuf_bytes (q # qs))" "tot_len_ok (cut_head q # qs')"
    "ip4_input reass tcp recv frag heap (q # qs) i st
      = ip4_receive reass tcp recv frag heap (cut_head q # qs') (header_length b) i st"
    using ip4_input_accepted [OF refl q(1) refl, of reass tcp recv frag heap i st] len unfolding same by auto
  have head: "pb_payload (cut_head q) = take (length b) ?bq" "pb_room (cut_head q) = pb_room q" "pb_type (cut_head q) = pb_type q"
    by (simp_all add: cut_head_def same)
  have hdr: "packet_dest (pb_payload (cut_head q)) = packet_dest b" "packet_src (pb_payload (cut_head q)) = packet_src b"
    "pb_payload (cut_head q) ! 6 = b ! 6" "pb_payload (cut_head q) ! 7 = b ! 7"
    using len by (simp_all add: head packet_src_def packet_dest_def load32_def nth)
  have "ip4_receive reass tcp recv frag heap (cut_head q # qs') (header_length b) i st
      = ip4_deliver tcp recv frag heap (cut_head q # qs') (header_length b) (packet_src b) (packet_dest b) i i st"
    using ip4_receive_own [OF refl, of "cut_head q" i st i] own_address_accepted [OF addr(1)] addr(2) ok(3)
    by (simp add: hdr)
  moreover have "b = pbuf_bytes (cut_head q # qs')"
    using qs'(1) by (simp add: b(1))
  ultimately show ?thesis
    using qs'(2,3) head by (intro exI [of _ "cut_head q"] exI [of _ qs']) simp
qed

lemma ethernet_input_ip:
  assumes q: "tot_len_ok (q # qs)" "14 < length (pb_payload q)"
    and bytes: "pbuf_bytes (q # qs) = ethhdr @ [0x08, 0x00] @ bs" "length ethhdr = 12"
    and n: "netif_flags (netifs st i) AND NETIF_FLAG_ETHARP \<noteq> 0"
  shows "\<exists>q1. ethernet_input ip_in heap (Some (q # qs)) i st = ip_in (q1 # qs) i st \<and> pb_type q1 = pb_type q
    \<and> 14 \<le> length (pb_room q1) \<and> tot_len_ok (q1 # qs) \<and> pbuf_bytes (q1 # qs) = bs
    \<and> length (pb_payload q1) = length (pb_payload q) - 14"
proof -
  obtain q1 eth where rem: "pbuf_remove_header q 14 = Some q1" and pay: "pb_payload q = eth @ pb_payload q1" "length eth = 14"
    and q1: "pb_room q1 = pb_room q @ eth" "pb_type q1 = pb_type q" "tot_len_ok (q1 # qs)"
      "pbuf_bytes (q # qs) = eth @ pbuf_bytes (q1 # qs)"
    using strip_header [OF q(1), of 14] q(2) by auto
  have "eth @ pbuf_bytes (q1 # qs) = (ethhdr @ [0x08, 0x00]) @ bs" "length eth = length (ethhdr @ [0x08, 0x00])"
    using bytes pay(2) q1(4) by simp_all
  then have eth: "eth = ethhdr @ [0x08, 0x00]" and bs: "pbuf_bytes (q1 # qs) = bs"
    by (auto simp del: append_assoc)
  have "load16 (pb_payload q ! 12) (pb_payload q ! 13) = lwip_htons ETHTYPE_IP"
    using bytes(2) by (simp add: pay(1) eth nth_append load16_def ETHTYPE_IP_def lwip_htons_def)
  then have "ethernet_input ip_in heap (Some (q # qs)) i st = ip_in (q1 # qs) i st"
    using q(2) n by (simp add: ethernet_input_def SIZEOF_ETH_HDR_def Let_def rem)
  then show ?thesis
    using q1 bs pay by (intro exI [of _ q1]) simp
qed

section \<open>A ping through the stack\<close>

lemma ip4_deliver_echo:
  assumes q: "contiguous (pb_type q)" "14 \<le> length (pb_room q)" "tot_len_ok (q # qs)" "header_length b + 4 \<le> length (pb_payload q)"
    and b: "b = pbuf_bytes (q # qs)" "echo_request b" "length b \<le> 65000"
    and addr: "unicast_addr (packet_dest b) (netifs st k)"
  shows "\<exists>q'. ip4_deliver tcp recv frag heap (q # qs) (header_length b) (packet_src b) (packet_dest b) k inp st
      = map_option snd (ip4_output_netif (\<lambda>i. heap (1 + i)) frag inp (q' # qs) (packet_src b) st)
    \<and> pb_type q' = pb_type q \<and> pb_room q' = pb_room q \<and> unat (pb_tot_len q') = length b
    \<and> echo_reply b (pb_payload q' @ pbuf_bytes qs)"
proof -
  define hl where "hl = header_length b"
  have hl: "20 \<le> hl" "hl + 4 \<le> length (pb_payload q)"
    using b(2) q(4) by (simp_all add: echo_request_def hl_def)
  obtain q1 iph where rem: "pbuf_remove_header q hl = Some q1" and pay: "pb_payload q = iph @ pb_payload q1" "length iph = hl"
    and q1: "pb_room q1 = pb_room q @ iph" "pb_type q1 = pb_type q" "tot_len_ok (q1 # qs)"
      "pbuf_bytes (q # qs) = iph @ pbuf_bytes (q1 # qs)"
    using strip_header [OF q(3), of hl] hl by auto
  have b': "b = iph @ pbuf_bytes (q1 # qs)" "length iph = header_length b" "4 \<le> length (pb_payload q1)"
    using q1(4) pay hl(2) by (simp_all add: b(1) hl_def)
  define d where "d = \<lparr>current_netif = k, current_input_netif = inp, current_ip4_header = pb_payload q,
    current_ip_header_tot_len = to_u16 (IPH_HL_BYTES (pb_payload q)), current_iphdr_src = packet_src b,
    current_iphdr_dest = packet_dest b\<rparr>"
  have same: "b ! i = pb_payload q ! i" if "i < 20" for i
    using hl that by (simp add: b(1) pbuf_bytes_def nth_append)
  have "b ! 9 = 1"
    using b(2) by (simp add: echo_request_def)
  then have "pb_payload q ! 9 = 1" "b ! 0 = pb_payload q ! 0"
    using same [of 9] same [of 0] by simp_all
  then have "ip4_deliver tcp recv frag heap (q # qs) hl (packet_src b) (packet_dest b) k inp st
      = icmp_input heap frag d (q1 # qs) inp st"
    using hl by (simp add: ip4_deliver_def rem d_def Let_def IP_HLEN_def IP_PROTO_UDP_def IP_PROTO_TCP_def IP_PROTO_ICMP_def)
  moreover have "\<exists>q'. icmp_input heap frag d (q1 # qs) inp st
      = map_option snd (ip4_output_netif (\<lambda>i. heap (1 + i)) frag inp (q' # qs) (load32 (drop 12 b)) st)
    \<and> pb_type q' = pb_type q1 \<and> pb_room q' = pb_room q \<and> unat (pb_tot_len q') = length b
    \<and> echo_reply b (pb_payload q' @ pbuf_bytes qs)"
    using q(1,2) q1(1-3) addr \<open>b ! 0 = _\<close>
    by (intro icmp_input_echo [OF _ _ _ _ b'(3,1,2) b(2,3)]) (simp_all add: d_def packet_src_def packet_dest_def unicast_addr_def)
  ultimately show ?thesis
    by (simp add: hl_def [symmetric] packet_src_def q1(2))
qed

lemma echo_request_whole: "echo_request b \<Longrightarrow> whole_packet b"
  by (auto simp: echo_request_def whole_packet_def header_ok_def packet_length_def)

lemma ip4_input_echo:
  assumes q: "contiguous (pb_type q)" "14 \<le> length (pb_room q)" "tot_len_ok (q # qs)" "header_length b + 4 \<le> length (pb_payload q)"
    and b: "pbuf_bytes (q # qs) = b @ pad" "echo_request b" "length b \<le> 65000"
    and addr: "own_address (packet_dest b) (netifs st i)" "source_ok (packet_src b) (netifs st i)"
  shows "\<exists>q' qs'. ip4_input reass tcp recv frag heap (q # qs) i st
      = map_option snd (ip4_output_netif (\<lambda>j. heap (1 + j)) frag i (q' # qs') (packet_src b) st)
    \<and> contiguous (pb_type q') \<and> 14 \<le> length (pb_room q') \<and> unat (pb_tot_len q') = length b
    \<and> echo_reply b (pbuf_bytes (q' # qs'))"
proof -
  have "header_length b \<le> length (pb_payload q)"
    using q(4) by simp
  from ip4_input_own [OF q(3) this b(1) echo_request_whole [OF b(2)] addr, of reass tcp recv frag heap]
  obtain q1 qs' where q1: "ip4_input reass tcp recv frag heap (q # qs) i st
      = ip4_deliver tcp recv frag heap (q1 # qs') (header_length b) (packet_src b) (packet_dest b) i i st"
    "b = pbuf_bytes (q1 # qs')" "tot_len_ok (q1 # qs')" "pb_payload q1 = take (length b) (pb_payload q)"
    "pb_room q1 = pb_room q" "pb_type q1 = pb_type q"
    by blast
  have own: "unicast_addr (packet_dest b) (netifs st i)"
    using addr(1) unfolding own_address_def by blast
  have "header_length b + 4 \<le> length (pb_payload q1)"
    using q(4) b(2) by (simp add: q1(4) echo_request_def)
  from ip4_deliver_echo [OF _ _ q1(3) this q1(2) b(2,3) own, of tcp recv frag heap i] obtain q' where
    "ip4_deliver tcp recv frag heap (q1 # qs') (header_length b) (packet_src b) (packet_dest b) i i st
      = map_option snd (ip4_output_netif (\<lambda>j. heap (1 + j)) frag i (q' # qs') (packet_src b) st)"
    "pb_type q' = pb_type q" "pb_room q' = pb_room q" "unat (pb_tot_len q') = length b"
    "echo_reply b (pb_payload q' @ pbuf_bytes qs')"
    using q(1,2) q1(5,6) by auto
  then show ?thesis
    using q(1,2) by (intro exI [of _ q'] exI [of _ qs']) (simp add: q1(1) pbuf_bytes_def)
qed

lemma ethernet_input_ping:
  assumes q: "pb_type q = PBUF_POOL" "tot_len_ok (q # qs)" "header_length b + 18 \<le> length (pb_payload q)"
    and bytes: "pbuf_bytes (q # qs) = ethhdr @ [0x08, 0x00] @ b @ pad" "length ethhdr = 12" "echo_request b"
    and n: "netif_flags (netifs st i) AND NETIF_FLAG_ETHARP \<noteq> 0" "own_address (packet_dest b) (netifs st i)"
      "length b \<le> unat (mtu (netifs st i))" "unat (mtu (netifs st i)) \<le> 1500"
    and host: "resolved i (packet_src b) k st"
    and tx: "tx_holds (dev (sport st)) fs" "length (tx_enc fs) + words_of (length b + 14) + 2 < tx_words (dev (sport st))"
  shows "\<exists>s' f r. ethernet_input (ip4_input reass tcp recv frag heap) arp_heap (Some (q # qs)) i st
      = Some (st\<lparr>etharp_cached_entry := k, sport := s'\<rparr>)
    \<and> tx_holds (dev s') (fs @ [f]) \<and> rx_same (dev (sport st)) (dev s') \<and> echo_reply b r
    \<and> tx_bytes f = ent_ethaddr (arp_table st ! k) @ hwaddr (netifs st i) @ [0x08, 0x00] @ r"
proof -
  have "14 < length (pb_payload q)"
    using q(3) by simp
  then obtain q1 where q1: "ethernet_input (ip4_input reass tcp recv frag heap) arp_heap (Some (q # qs)) i st
      = ip4_input reass tcp recv frag heap (q1 # qs) i st" "pb_type q1 = PBUF_POOL" "14 \<le> length (pb_room q1)"
    "tot_len_ok (q1 # qs)" "pbuf_bytes (q1 # qs) = b @ pad" "length (pb_payload q1) = length (pb_payload q) - 14"
    using ethernet_input_ip [OF q(2) _ bytes(1,2) n(1)] q(1) by metis
  have src: "source_ok (packet_src b) (netifs st i)" and b65: "length b \<le> 65000"
    using host n(3,4) by (simp_all add: resolved_def on_link_def unicast_addr_def source_ok_def)
  have "contiguous (pb_type q1)" "header_length b + 4 \<le> length (pb_payload q1)"
    using q(3) q1(2,6) by (simp_all add: contiguous_def)
  from ip4_input_echo [OF this(1) q1(3,4) this(2) q1(5) bytes(3) b65 n(2) src, of reass tcp recv frag heap]
  obtain q' qs' where q': "ip4_input reass tcp recv frag heap (q1 # qs) i st
      = map_option snd (ip4_output_netif (\<lambda>j. heap (1 + j)) frag i (q' # qs') (packet_src b) st)"
    "contiguous (pb_type q')" "14 \<le> length (pb_room q')" "unat (pb_tot_len q') = length b"
    "echo_reply b (pbuf_bytes (q' # qs'))"
    by blast
  have len: "length (pbuf_bytes (q' # qs')) = length b"
    using q'(5) by (simp add: echo_reply_def Let_def)
  have "unat (pb_tot_len q') = length (pbuf_bytes (q' # qs'))"
    using q'(4) len by simp
  from output_resolved [OF host q'(2,3) this, unfolded len, OF n(3,4) tx, of "\<lambda>j. heap (1 + j)" frag]
  obtain s' f where sent: "ip4_output_netif (\<lambda>j. heap (1 + j)) frag i (q' # qs') (packet_src b) st
      = Some (ERR_OK, st\<lparr>etharp_cached_entry := k, sport := s'\<rparr>)" "tx_holds (dev s') (fs @ [f])"
    "rx_same (dev (sport st)) (dev s')" "tx_bytes f = ent_ethaddr (arp_table st ! k) @ hwaddr (netifs st i) @ [0x08, 0x00] @ pbuf_bytes (q' # qs')"
    by blast
  then show ?thesis
    unfolding q1(1) q'(1) sent(1) using q'(5)
    by (intro exI [of _ s'] exI [of _ f] exI [of _ "pbuf_bytes (q' # qs')"]) simp
qed

definition sample_ping :: "u8 list" where
  "sample_ping = [0x45, 0, 0, 28, 0, 1, 0x40, 0, 64, 1, 0xB6, 0xA5, 192, 168, 1, 1, 192, 168, 1, 233,
     8, 0, 0xF7, 0xFD, 0, 1, 0, 1]"

lemma sample_ping_fields:
  "header_length sample_ping = 20" "packet_src sample_ping = 0x0101A8C0" "packet_dest sample_ping = 0xE901A8C0"
  by (simp_all add: sample_ping_def header_length_def IPH_HL_BYTES_def packet_src_def packet_dest_def load32_def load16_def)

lemma sample_ping_request: "echo_request sample_ping"
  unfolding echo_request_def sample_ping_fields
  by (simp add: sample_ping_def inet_chksum_zero residue_word_sum [symmetric] load16_def lwip_htons_def ones_residue_def)

definition sample_host :: stack where
  "sample_host = sample_stack\<lparr>arp_table := (arp_table sample_stack)[3 := empty_entry\<lparr>ent_ipaddr := 0x0101A8C0, ent_netif := Some 1,
     ent_state := ETHARP_STATE_STABLE, ent_ethaddr := [2, 0, 0, 0, 0, 9]\<rparr>]\<rparr>"

lemma sample_host_simps [simp]:
  "netifs sample_host = netifs sample_stack" "sport sample_host = port_zero"
  "arp_table sample_host ! 3 = empty_entry\<lparr>ent_ipaddr := 0x0101A8C0, ent_netif := Some 1,
     ent_state := ETHARP_STATE_STABLE, ent_ethaddr := [2, 0, 0, 0, 0, 9]\<rparr>"
  by (simp_all add: sample_host_def)

lemma sample_host_ok: "arp_ok sample_host"
proof -
  have "arp_table sample_host ! j = (if j = 3 then arp_table sample_host ! 3 else empty_entry)" if "j < 10" for j
    using that by (simp add: sample_host_def)
  then show ?thesis
    by (auto simp: arp_ok_def arp_inv_def ARP_TABLE_SIZE_def entry_ok_def in_use_def empty_entry_def)
       (simp_all add: sample_host_def sample_stack_def lwip_start_def ARP_MAXAGE_def)
qed

lemma sample_netif:
  "own_address 0xE901A8C0 (netifs sample_stack 1)" "on_link 0x0101A8C0 (netifs sample_stack 1)"
  "length (hwaddr (netifs sample_stack 1)) = 6" "mtu (netifs sample_stack 1) = 1500"
  "netif_flags (netifs sample_stack 1) AND NETIF_FLAG_ETHARP \<noteq> 0"
  by (simp_all add: sample_stack_def lwip_start_def own_address_def on_link_def unicast_addr_def netif_is_up_def
      ip4_addr_isbroadcast_u32_def ip4_addr_ismulticast_def ip4_addr_netcmp_def lwip_htonl_def reg_defs)

lemma sample_host_resolved: "resolved 1 0x0101A8C0 3 sample_host"
  using sample_netif sample_host_ok
  by (simp add: resolved_def arp_hit_def ARP_TABLE_SIZE_def empty_entry_def)

definition sample_frame :: "u8 list \<Rightarrow> pbuf" where
  "sample_frame b = (sample_pbuf (replicate 12 0 @ [0x08, 0x00] @ b @ replicate 18 0))\<lparr>pb_type := PBUF_POOL\<rparr>"

section \<open>Packets that are not taken\<close>

text \<open>
  C31. Packets that the stack refuses leave no trace. A packet with another version than 4, a header
  that is too short or does not fit the first buffer or the packet, a length beyond the received
  bytes or a wrong header checksum; a packet for another host, unless it goes to the port of the
  DHCP client; and one with a broadcast or multicast address as its source: nothing is sent and the
  state of the stack is unchanged.
\<close>

theorem ip4_input_drops:
  assumes "tot_len_ok (q # qs)" "b = pb_payload q" "20 \<le> length b"
    and bad: "\<not> header_ok (length (pbuf_bytes (q # qs))) b
      \<or> ip4_input_netif (packet_dest b) inp st = None
        \<and> (b ! 9 = 17 \<longrightarrow> header_length b + 4 \<le> min (length b) (packet_length b)
             \<and> load16 (b ! (header_length b + 2)) (b ! (header_length b + 3)) \<noteq> lwip_htons 68)
      \<or> ip4_input_netif (packet_dest b) inp st \<noteq> None \<and> \<not> source_ok (packet_src b) (netifs st inp)"
  shows "ip4_input reass tcp recv frag heap (q # qs) inp st = Some st"
proof (cases "header_ok (length (pbuf_bytes (q # qs))) b")
  case True
  then have len: "20 \<le> packet_length b"
    by (simp add: header_ok_def)
  from ip4_input_accepted [OF refl assms(1-3) True, of reass tcp recv frag heap inp st] obtain qs' where
    eq: "ip4_input reass tcp recv frag heap (q # qs) inp st
      = ip4_receive reass tcp recv frag heap (cut_head q # qs') (header_length b) inp st"
    by blast
  have pay: "pb_payload (cut_head q) = take (packet_length b) b"
    by (simp add: cut_head_def assms(2))
  have "packet_dest (take (packet_length b) b) = packet_dest b" "packet_src (take (packet_length b) b) = packet_src b"
    "take (packet_length b) b ! 9 = b ! 9"
    using take_fields [OF len assms(3)] by (simp_all add: packet_src_def packet_dest_def)
  then show ?thesis
    using bad True unfolding eq by (intro ip4_receive_refused [OF refl]) (auto simp: pay)
next
  case False
  then show ?thesis
    by (rule ip4_input_dropped [OF refl assms(1-3)])
qed

lemma ip4_input_drops_witness:
  "ip4_input (\<lambda>_ _. None) (\<lambda>_ _ _ _. None) (\<lambda>_ _ _ _ _ _ _. None) (\<lambda>_ _ _ _. None) sample_heap
     [sample_pbuf (0x65 # tl sample_ping)] 1 sample_host = Some sample_host"
proof (rule ip4_input_drops [OF _ refl])
  show "tot_len_ok [sample_pbuf (0x65 # tl sample_ping)]" "20 \<le> length (pb_payload (sample_pbuf (0x65 # tl sample_ping)))"
    by (simp_all add: sample_pbuf_def pbuf_bytes_def sample_ping_def)
qed (simp add: header_ok_def sample_pbuf_def)

section \<open>A datagram that nobody waits for\<close>

definition udp_datagram :: "u8 list \<Rightarrow> u16 \<Rightarrow> bool" where
  "udp_datagram b port \<longleftrightarrow> whole_packet b \<and> b ! 9 = 17 \<and> header_length b + 8 \<le> length b
     \<and> (let u = drop (header_length b) b
        in port = lwip_htons (load16 (u ! 2) (u ! 3))
           \<and> (load16 (u ! 6) (u ! 7) = 0
              \<or> inet_chksum_pseudo [(False, u)] 17 (of_nat (length u)) (packet_src b) (packet_dest b) = 0))"

lemma ip4_deliver_no_port:
  assumes q: "contiguous (pb_type q)" "tot_len_ok (q # qs)" "header_length b + 8 \<le> length (pb_payload q)"
    and b: "b = pbuf_bytes (q # qs)" "udp_datagram b port" "length b \<le> 65000"
    and port: "\<forall>j \<in> set (udp_pcbs st). local_port (pcbs st j) \<noteq> port"
    and addr: "packet_dest b = ip_addr (netifs st i)" "unicast_addr (packet_dest b) (netifs st i)"
  shows "\<exists>q'. ip4_deliver tcp recv frag heap (q # qs) (header_length b) (packet_src b) (packet_dest b) i i st
      = icmp_dest_unreach heap frag (q' # qs) ICMP_DUR_PORT st \<and> pb_payload q' = pb_payload q"
proof -
  define hl where "hl = header_length b"
  have hl: "20 \<le> hl" "hl + 8 \<le> length (pb_payload q)" "hl \<le> 60"
    using b(2) q(3) header_length_le [of b] by (simp_all add: udp_datagram_def whole_packet_def header_ok_def hl_def)
  obtain q1 iph where rem: "pbuf_remove_header q hl = Some q1" and pay: "pb_payload q = iph @ pb_payload q1" "length iph = hl"
    and q1: "pb_room q1 = pb_room q @ iph" "pb_type q1 = pb_type q" "tot_len_ok (q1 # qs)"
      "pbuf_bytes (q # qs) = iph @ pbuf_bytes (q1 # qs)"
    using strip_header [OF q(2), of hl] hl by auto
  let ?u = "pb_payload q1"
  have u: "drop hl b = pbuf_bytes (q1 # qs)" "length (pbuf_bytes (q1 # qs)) \<le> 65000" "8 \<le> length ?u"
    using pay b(3) hl(2) by (simp_all add: b(1) q1(4))
  have tot1: "unat (pb_tot_len q1) = length (pbuf_bytes (q1 # qs))"
    using q1(3) by simp
  have rest: "drop hl b ! j = ?u ! j" if "j < 8" for j
    using that u(3) by (simp add: u(1) pbuf_bytes_def nth_append)
  define d where "d = \<lparr>current_netif = i, current_input_netif = i, current_ip4_header = pb_payload q,
    current_ip_header_tot_len = to_u16 (IPH_HL_BYTES (pb_payload q)), current_iphdr_src = packet_src b,
    current_iphdr_dest = packet_dest b\<rparr>"
  have same: "b ! j = pb_payload q ! j" if "j < 20" for j
    using hl that by (simp add: b(1) pbuf_bytes_def nth_append)
  have "b ! 9 = 17" and dgram: "port = lwip_htons (load16 (?u ! 2) (?u ! 3))"
    "load16 (?u ! 6) (?u ! 7) = 0
       \<or> inet_chksum_pseudo [(False, drop hl b)] 17 (of_nat (length (drop hl b))) (packet_src b) (packet_dest b) = 0"
    using b(2) by (simp_all add: udp_datagram_def hl_def [symmetric] Let_def rest del: length_drop)
  then have udp: "ip4_deliver tcp recv frag heap (q # qs) hl (packet_src b) (packet_dest b) i i st
      = udp_input recv heap frag d (q1 # qs) i st"
    using hl same [of 9] by (simp add: ip4_deliver_def rem d_def Let_def IP_HLEN_def IP_PROTO_UDP_def)
  have "length iph = unat (current_ip_header_tot_len d)"
    using same [of 0] by (simp add: d_def pay(2) hl_def header_length_def IPH_HL_BYTES_def)
  moreover have "ip_chksum_pseudo (pieces (q1 # qs)) IP_PROTO_UDP (pb_tot_len q1) (packet_src b) (packet_dest b)
      = inet_chksum_pseudo [(False, drop hl b)] 17 (of_nat (length (drop hl b))) (packet_src b) (packet_dest b)"
    using u(2) of_nat_tot [OF tot1] by (subst pseudo_flat) (simp_all add: u(1) IP_PROTO_UDP_def)
  ultimately have "\<exists>q'. udp_input recv heap frag d (q1 # qs) i st = icmp_dest_unreach heap frag (q' # qs) ICMP_DUR_PORT st
      \<and> pb_payload q' = iph @ ?u"
    using q(1) pay(2) hl(3) q1(1-3) u(2,3) port dgram addr
    by (intro udp_input_no_port [where front = "pb_room q"]) (auto simp: d_def)
  then show ?thesis
    unfolding hl_def [symmetric] udp pay(1) .
qed

text \<open>
  C30. A datagram for a port that nobody listens on is answered with the message that the port is unreachable, with
  the first 28 bytes of the packet, to the host that sent it; the datagram is otherwise ignored. Its
  own checksum must be right or zero, else nothing is sent.
\<close>

theorem udp_port_unreachable:
  assumes q: "pb_type q = PBUF_POOL" "tot_len_ok (q # qs)" "header_length b + 22 \<le> length (pb_payload q)"
    and bytes: "pbuf_bytes (q # qs) = ethhdr @ [0x08, 0x00] @ b @ pad" "length ethhdr = 12"
    and b: "udp_datagram b port" "\<forall>j \<in> set (udp_pcbs st). local_port (pcbs st j) \<noteq> port" "length b \<le> 65000"
    and n: "netif_flags (netifs st i) AND NETIF_FLAG_ETHARP \<noteq> 0" "own_address (packet_dest b) (netifs st i)"
      "56 \<le> unat (mtu (netifs st i))" "ip4_route (packet_src b) st = Some i"
    and host: "resolved i (packet_src b) k st"
    and heap: "pbuf_alloc_RAM heap PBUF_IP 36 = Some a" "fresh PBUF_IP 36 a"
    and tx: "tx_holds (dev (sport st)) fs" "length (tx_enc fs) + 20 < tx_words (dev (sport st))"
  shows "\<exists>s' f r. ethernet_input (ip4_input reass tcp recv frag heap) arp_heap (Some (q # qs)) i st
      = Some (st\<lparr>ip_id := ip_id st + 1, etharp_cached_entry := k, sport := s'\<rparr>)
    \<and> tx_holds (dev s') (fs @ [f]) \<and> error_message 3 3 (packet_dest b) (ip_id st) b r
    \<and> tx_bytes f = ent_ethaddr (arp_table st ! k) @ hwaddr (netifs st i) @ [0x08, 0x00] @ r"
proof -
  have whole: "whole_packet b" "header_length b + 8 \<le> length b" "20 \<le> header_length b"
    using b(1) by (simp_all add: udp_datagram_def whole_packet_def header_ok_def)
  have own: "packet_dest b = ip_addr (netifs st i)" "unicast_addr (packet_dest b) (netifs st i)" "ip_addr (netifs st i) \<noteq> 0"
    using n(2) unfolding own_address_def unicast_addr_def by auto
  have src: "source_ok (packet_src b) (netifs st i)"
    using host by (simp add: resolved_def on_link_def unicast_addr_def source_ok_def)
  have "14 < length (pb_payload q)"
    using q(3) by simp
  then obtain q1 where q1: "ethernet_input (ip4_input reass tcp recv frag heap) arp_heap (Some (q # qs)) i st
      = ip4_input reass tcp recv frag heap (q1 # qs) i st" "pb_type q1 = PBUF_POOL"
    "tot_len_ok (q1 # qs)" "pbuf_bytes (q1 # qs) = b @ pad" "length (pb_payload q1) = length (pb_payload q) - 14"
    using ethernet_input_ip [OF q(2) _ bytes n(1)] q(1) by metis
  have "header_length b \<le> length (pb_payload q1)"
    using q(3) q1(5) by simp
  from ip4_input_own [OF q1(3) this q1(4) whole(1) n(2) src, of reass tcp recv frag heap]
  obtain q2 qs' where q2: "ip4_input reass tcp recv frag heap (q1 # qs) i st
      = ip4_deliver tcp recv frag heap (q2 # qs') (header_length b) (packet_src b) (packet_dest b) i i st"
    "b = pbuf_bytes (q2 # qs')" "tot_len_ok (q2 # qs')" "pb_payload q2 = take (length b) (pb_payload q1)"
    "pb_type q2 = pb_type q1"
    by blast
  have "contiguous (pb_type q2)" "header_length b + 8 \<le> length (pb_payload q2)"
    using q(3) q1(2,5) q2(5) whole(2) by (simp_all add: contiguous_def q2(4))
  from ip4_deliver_no_port [OF this(1) q2(3) this(2) q2(2) b(1,3,2) own(1,2), of tcp recv frag heap]
  obtain q3 where q3: "ip4_input reass tcp recv frag heap (q1 # qs) i st = icmp_send_response heap frag (q3 # qs') 3 3 st"
    "pb_payload q3 = pb_payload q2"
    by (auto simp: q2(1) icmp_dest_unreach_def ICMP_DUR_def ICMP_DUR_PORT_def)
  have pre: "take 28 (pb_payload q3) = take 28 b" "28 \<le> length (pb_payload q3)" "28 \<le> length b"
    using \<open>header_length b + 8 \<le> length (pb_payload q2)\<close> whole arg_cong [OF q2(2), of "take 28"]
    by (simp_all add: q3(2) pbuf_bytes_def)
  note msg = error_message_prefix [OF pre]
  show ?thesis
    using icmp_send_response_sent [OF pre(2) refl, of st i heap a k fs frag qs' 3 3] n(3,4) own(1,3) heap host tx
    unfolding msg q1(1) q3(1) by simp
qed

definition sample_datagram :: "u8 list" where
  "sample_datagram = [0x45, 0, 0, 30, 0, 1, 0, 0, 64, 17, 0xf6, 0x93, 192, 168, 1, 1, 192, 168, 1, 233,
     0x30, 0x39, 0, 7, 0, 10, 0, 0, 0x41, 0x42]"

lemma sample_datagram_fields:
  "header_length sample_datagram = 20" "packet_src sample_datagram = 0x0101A8C0" "packet_dest sample_datagram = 0xE901A8C0"
  by (simp_all add: sample_datagram_def header_length_def IPH_HL_BYTES_def packet_src_def packet_dest_def load32_def load16_def)

lemma sample_datagram_ok: "udp_datagram sample_datagram 7"
  unfolding udp_datagram_def whole_packet_def header_ok_def packet_length_def sample_datagram_fields
  by (simp add: sample_datagram_def inet_chksum_zero residue_word_sum [symmetric] load16_def lwip_htons_def ones_residue_def)

lemma sample_route: "ip4_route 0x0101A8C0 sample_host = Some 1" "udp_pcbs sample_host = []"
  by (simp_all add: ip4_route_def route_match_def netif_is_up_def netif_is_link_up_def ip4_addr_netcmp_def reg_defs
      sample_host_def sample_stack_def lwip_start_def)

lemma udp_port_unreachable_witness:
  "\<exists>st' f r. ethernet_input (ip4_input (\<lambda>_ _. None) (\<lambda>_ _ _ _. None) (\<lambda>_ _ _ _ _ _ _. None) (\<lambda>_ _ _ _. None) sample_heap)
      sample_heap (Some [sample_frame sample_datagram]) 1 sample_host = Some st'
    \<and> tx_holds (dev (sport st')) [f] \<and> error_message 3 3 0xE901A8C0 (ip_id sample_host) sample_datagram r
    \<and> tx_bytes f = [2, 0, 0, 0, 0, 9] @ [0, 4, 0xA3, 1, 2, 3] @ [0x08, 0x00] @ r"
proof -
  have len: "length sample_datagram = 30"
    by (simp add: sample_datagram_def)
  then have q: "pb_type (sample_frame sample_datagram) = PBUF_POOL" "tot_len_ok [sample_frame sample_datagram]"
    "header_length sample_datagram + 22 \<le> length (pb_payload (sample_frame sample_datagram))"
    "pbuf_bytes [sample_frame sample_datagram] = replicate 12 0 @ [0x08, 0x00] @ sample_datagram @ replicate 18 0"
    by (simp_all add: sample_frame_def sample_pbuf_def pbuf_bytes_def sample_datagram_fields)
  obtain a where a: "pbuf_alloc_RAM sample_heap PBUF_IP 36 = Some a" "fresh PBUF_IP 36 a"
    using pbuf_alloc_sample [of 36 PBUF_IP] by auto
  have tx: "tx_holds (dev (sport sample_host)) []" "length (tx_enc []) + 20 < tx_words (dev (sport sample_host))"
    using port_zero_queue by (simp_all add: tx_enc_def)
  have none: "\<forall>j \<in> set (udp_pcbs sample_host). local_port (pcbs sample_host j) \<noteq> 7"
    by (simp add: sample_route)
  from udp_port_unreachable [OF q _ sample_datagram_ok none _ _ _ _ _ _ a tx, of 1 3] show ?thesis
    using sample_netif sample_host_resolved sample_route(1) len
    by (fastforce simp: sample_datagram_fields empty_entry_def sample_stack_def)
qed

end
