(* ===== verification/Server.thy ===== *)
theory Server
  imports App Ip4Input
begin

text \<open>
  The stack as the main loop drives it: what one call of \<open>LwIP_Pkt_Handle\<close> does with a received frame, from the
  receive memory of the controller through \<open>ethernetif_input\<close>, \<open>ethernet_input\<close> and \<open>ip4_input\<close> to the transmit memory.
\<close>

section \<open>A ping\<close>

lemma LwIP_Pkt_Handle_frame:
  assumes "rx_holds (dev (sport st)) (f # fr)" "rx_frame_len f \<le> 1516" "s_pxNetIf b = Some i"
    and "heap_ok (in_rx_heap inp)" "\<forall>j. in_rx_heap inp j pool_block_size \<noteq> None"
  obtains q qs sp where
    "LwIP_Pkt_Handle ip_in inp (st, b) = map_option (\<lambda>st2. (st2, set_ports (phy_status_leds (fst (in_phy inp)) (snd (in_phy inp))
        (get_ports b)) b)) (ethernet_input ip_in (in_arp_heap inp) (Some (q # qs)) i (st\<lparr>sport := sp\<rparr>))"
    and "rx_holds (dev sp) fr" "tx_same (dev (sport st)) (dev sp)" "pbuf_bytes (q # qs) = rx_bytes f"
    and "tot_len_ok (q # qs)" "pb_type q = PBUF_POOL" "length (pb_payload q) = min 500 (length (rx_bytes f))"
  using ethernetif_input_chain [OF assms(1,4,5)] assms(2,3) by (force simp: LwIP_Pkt_Handle_def Let_def)

text \<open>
  C8. Pings are answered. When the oldest frame in the receive memory is an echo request for the address of the
  interface, with any IP options and any data that fits one packet, from a host whose hardware address is known,
  one call of \<open>LwIP_Pkt_Handle\<close> takes it out and puts exactly one frame behind those that wait in the transmit
  memory: the reply, to that hardware address. It has the addresses exchanged, the same identifier, sequence number
  and data, and both checksums are right. Padding behind the packet is left away.
\<close>

theorem ping_answered:
  assumes rx: "rx_holds (dev (sport st)) (f # fr)" "rx_frame_len f \<le> 1516"
    and frame: "rx_bytes f = ethhdr @ [0x08, 0x00] @ req @ pad" "length ethhdr = 12" "echo_request req"
    and n: "s_pxNetIf b = Some i" "netif_flags (netifs st i) AND NETIF_FLAG_ETHARP \<noteq> 0"
      "own_address (packet_dest req) (netifs st i)" "length req \<le> unat (mtu (netifs st i))" "unat (mtu (netifs st i)) \<le> 1500"
    and host: "resolved i (packet_src req) k st"
    and heap: "heap_ok (in_rx_heap inp)" "\<forall>j. in_rx_heap inp j pool_block_size \<noteq> None"
    and tx: "tx_holds (dev (sport st)) fs" "length (tx_enc fs) + words_of (length req + 14) + 2 < tx_words (dev (sport st))"
  shows "\<exists>st' b' g r. LwIP_Pkt_Handle (ip4_input reass tcp recv frag ip_heap) inp (st, b) = Some (st', b')
    \<and> rx_holds (dev (sport st')) fr \<and> tx_holds (dev (sport st')) (fs @ [g]) \<and> echo_reply req r
    \<and> tx_bytes g = ent_ethaddr (arp_table st ! k) @ hwaddr (netifs st i) @ [0x08, 0x00] @ r"
proof -
  obtain q qs sp where handle: "LwIP_Pkt_Handle (ip4_input reass tcp recv frag ip_heap) inp (st, b)
      = map_option (\<lambda>st2. (st2, set_ports (phy_status_leds (fst (in_phy inp)) (snd (in_phy inp)) (get_ports b)) b))
          (ethernet_input (ip4_input reass tcp recv frag ip_heap) (in_arp_heap inp) (Some (q # qs)) i (st\<lparr>sport := sp\<rparr>))"
    and sp: "rx_holds (dev sp) fr" "tx_same (dev (sport st)) (dev sp)"
    and q: "pbuf_bytes (q # qs) = rx_bytes f" "tot_len_ok (q # qs)" "pb_type q = PBUF_POOL"
      "length (pb_payload q) = min 500 (length (rx_bytes f))"
    using LwIP_Pkt_Handle_frame [OF rx n(1) heap] by blast
  let ?st = "st\<lparr>sport := sp\<rparr>"
  have "header_length req + 8 \<le> length req"
    using frame(3) by (simp add: echo_request_def)
  then have first: "header_length req + 18 \<le> length (pb_payload q)"
    using header_length_le [of req] by (simp add: q(4) frame(1,2))
  have n': "netif_flags (netifs ?st i) AND NETIF_FLAG_ETHARP \<noteq> 0" "own_address (packet_dest req) (netifs ?st i)"
      "length req \<le> unat (mtu (netifs ?st i))" "unat (mtu (netifs ?st i)) \<le> 1500"
    and host': "resolved i (packet_src req) k ?st" and tx': "tx_holds (dev (sport ?st)) fs"
      "length (tx_enc fs) + words_of (length req + 14) + 2 < tx_words (dev (sport ?st))"
    using n host sp(2) tx by (simp_all add: resolved_def arp_ok_def tx_same_def)
  have "pbuf_bytes (q # qs) = ethhdr @ [0x08, 0x00] @ req @ pad"
    using q(1) frame(1) by simp
  from ethernet_input_ping [OF q(3,2) first this frame(2,3) n' host' tx', of reass tcp recv frag ip_heap "in_arp_heap inp"]
  obtain s' g r where out: "ethernet_input (ip4_input reass tcp recv frag ip_heap) (in_arp_heap inp) (Some (q # qs)) i ?st
      = Some (?st\<lparr>etharp_cached_entry := k, sport := s'\<rparr>)" "tx_holds (dev s') (fs @ [g])" "rx_same (dev sp) (dev s')"
    "echo_reply req r" "tx_bytes g = ent_ethaddr (arp_table st ! k) @ hwaddr (netifs st i) @ [0x08, 0x00] @ r"
    by auto
  have "rx_holds (dev s') fr"
    using out(3) sp(1) by (simp add: rx_same_def)
  then show ?thesis
    unfolding handle out(1) using out(2,4,5) by (cases g) auto
qed

definition sample_bytes :: "nat \<Rightarrow> u8" where
  "sample_bytes = (\<lambda>i. (replicate 12 0 @ [0x08, 0x00] @ sample_ping @ replicate 22 0) ! i)"

definition sample_rx :: rx_frame where
  "sample_rx = (64, load_words (word_at sample_bytes) 0 16)"

lemma sample_rx_ok: "rx_frame_len sample_rx = 64" "rx_frame_ok sample_rx"
  by (simp_all add: sample_rx_def rx_frame_ok_def rx_frame_len_def words_of_def load_words_def)

lemma copy_from_nth: "n \<le> length b \<Longrightarrow> copy_from (\<lambda>i. b ! i) 0 n = take n b"
  by (rule nth_equalityI) (simp_all add: copy_from_def)

lemma sample_ping_length: "length sample_ping = 28"
  by (simp add: sample_ping_def)

lemma sample_rx_bytes: "rx_bytes sample_rx = replicate 12 0 @ [0x08, 0x00] @ sample_ping @ replicate 18 0"
proof -
  have "rx_bytes sample_rx = copy_from sample_bytes 0 60"
    using take_copy_from [of 60 64 sample_bytes 0] bytes_of_words_load [of sample_bytes 0 16]
    by (simp add: rx_bytes_def sample_rx_ok) (simp add: sample_rx_def)
  also have "\<dots> = take 60 (replicate 12 (0 :: u8) @ [0x08, 0x00] @ sample_ping @ replicate 22 0)"
    unfolding sample_bytes_def by (rule copy_from_nth) (simp add: sample_ping_length)
  finally show ?thesis
    by (simp add: sample_ping_length)
qed

lemma mac_receive_tx:
  "ETH_X_Head (mac_receive f e) = ETH_X_Head e" "ETH_X_Tail (mac_receive f e) = ETH_X_Tail e"
  "ETH_Dilimiter (mac_receive f e) = ETH_Dilimiter e"
  by (simp_all add: mac_receive_def Let_def)

lemma ping_answered_witness:
  "\<exists>st' b' g r. LwIP_Pkt_Handle (ip4_input (\<lambda>_ _. None) (\<lambda>_ _ _ _. None) (\<lambda>_ _ _ _ _ _ _. None) (\<lambda>_ _ _ _. None) sample_heap)
      sample_pass (sample_host\<lparr>sport := port_zero\<lparr>dev := mac_receive sample_rx (EthOn eth_zero)\<rparr>\<rparr>, sample_board\<lparr>s_pxNetIf := Some 1\<rparr>)
      = Some (st', b')
    \<and> tx_holds (dev (sport st')) [g] \<and> echo_reply sample_ping r
    \<and> tx_bytes g = [2, 0, 0, 0, 0, 9] @ [0, 4, 0xA3, 1, 2, 3] @ [0x08, 0x00] @ r"
proof -
  let ?st = "sample_host\<lparr>sport := port_zero\<lparr>dev := mac_receive sample_rx (EthOn eth_zero)\<rparr>\<rparr>"
  have fits: "rx_fits (rx_words (EthOn eth_zero)) [] sample_rx"
    using sample_rx_ok by (simp add: rx_fits_def EthOn_words rx_enc_def sample_rx_def load_words_def)
  then have rx: "rx_holds (dev (sport ?st)) [sample_rx]"
    using mac_receive_queue [OF EthOn_queues(1), of sample_rx eth_zero] by simp
  note len = sample_ping_length
  have host: "resolved 1 (packet_src sample_ping) 3 ?st"
    using sample_host_resolved by (simp add: resolved_def arp_ok_def sample_ping_fields)
  have tx: "tx_holds (dev (sport ?st)) []" "length (tx_enc []) + words_of (length sample_ping + 14) + 2 < tx_words (dev (sport ?st))"
    using EthOn_queues(2) [of eth_zero] mac_receive_tx [of sample_rx "EthOn eth_zero"] len EthOn_words(2) [of eth_zero]
    by (simp_all add: tx_holds_def tx_enc_def tx_ok_def tx_words_def tx_base_def tx_head_def tx_tail_def ring_get_def words_of_def)
  have net: "s_pxNetIf (sample_board\<lparr>s_pxNetIf := Some 1\<rparr>) = Some 1" "netif_flags (netifs ?st 1) AND NETIF_FLAG_ETHARP \<noteq> 0"
    "own_address (packet_dest sample_ping) (netifs ?st 1)" "length sample_ping \<le> unat (mtu (netifs ?st 1))" "unat (mtu (netifs ?st 1)) \<le> 1500"
    using sample_netif len by (simp_all add: sample_ping_fields)
  have heap: "heap_ok (in_rx_heap sample_pass)" "\<forall>j. in_rx_heap sample_pass j pool_block_size \<noteq> None"
    using sample_heap_ok by (simp_all add: sample_pass_def sample_heap_def)
  have small: "rx_frame_len sample_rx \<le> 1516"
    by (simp add: sample_rx_ok)
  have hdr: "length (replicate 12 0 :: u8 list) = 12"
    by simp
  note ping = ping_answered [OF rx small sample_rx_bytes hdr sample_ping_request net host heap tx]
  show ?thesis
    using ping [of "\<lambda>_ _. None" "\<lambda>_ _ _ _. None" "\<lambda>_ _ _ _ _ _ _. None" "\<lambda>_ _ _ _. None" sample_heap] by (auto simp: sample_stack_def)
qed

end
