(* ===== verification/Uart.thy ===== *)
theory Uart
  imports RstClk Port
begin

text \<open>
  The debug output: the driver \<open>MDR32F9Qx_uart.c\<close> for the 1986VE1T, and \<open>InitUART\<close> and \<open>fputc\<close> of
  \<open>Main.c\<close>, through which \<open>printf\<close> writes. The model of the transmitter keeps the characters
  stored to \<open>DR\<close> in order; the flag register is read from a stream of values.
\<close>

section \<open>Registers\<close>

record MDR_UART_TypeDef =
  DR :: u32
  RSR_ECR :: u32
  FR :: u32
  ILPR :: u32
  IBRD :: u32
  FBRD :: u32
  LCR_H :: u32
  UART_CR :: u32
  IFLS :: u32
  IMSC :: u32
  RIS :: u32
  MIS :: u32
  ICR :: u32
  DMACR :: u32
  tx_log :: "u32 list"

datatype uart_id = MDR_UART1 | MDR_UART2

datatype BaudRateStatus = BaudRateInvalid | BaudRateValid

record UART_InitTypeDef =
  UART_BaudRate :: u32
  UART_WordLength :: u16
  UART_StopBits :: u16
  UART_Parity :: u16
  UART_FIFOMode :: u16
  UART_HardwareFlowControl :: u16

definition UART_FLAG_TXFE :: u32 where [reg_defs]: "UART_FLAG_TXFE = 0x80"
definition UART_FLAG_RXFE :: u32 where [reg_defs]: "UART_FLAG_RXFE = 0x10"
definition UART_HardwareFlowControl_RXE :: u16 where [reg_defs]: "UART_HardwareFlowControl_RXE = 0x200"
definition UART_HardwareFlowControl_TXE :: u16 where [reg_defs]: "UART_HardwareFlowControl_TXE = 0x100"

section \<open>The driver\<close>

definition UART_DeInit :: "MDR_UART_TypeDef \<Rightarrow> MDR_UART_TypeDef" where
  "UART_DeInit u = u\<lparr>LCR_H := 0, RSR_ECR := 0, FR := UART_FLAG_TXFE OR UART_FLAG_RXFE, ILPR := 0,
     IBRD := 0, FBRD := 0, IFLS := 2, IMSC := 0, DMACR := 0,
     UART_CR := to_u32 (UART_HardwareFlowControl_RXE OR UART_HardwareFlowControl_TXE)\<rparr>"

text \<open>The clock of a UART: the CPU frequency divided as \<open>UART_CLOCK\<close> says.\<close>

fun uart_clock :: "uart_id \<Rightarrow> clk \<Rightarrow> u32" where
  "uart_clock MDR_UART1 c =
     CPU_CLK_Frequency (RST_CLK_GetClocksFreq c) div push_bit (unat (UART_CLOCK c AND 7)) 1"
| "uart_clock MDR_UART2 c =
     CPU_CLK_Frequency (RST_CLK_GetClocksFreq c) div push_bit (unat (drop_bit 8 (UART_CLOCK c AND 0x700))) 1"

definition UART_Init ::
  "uart_id \<Rightarrow> UART_InitTypeDef \<Rightarrow> clk \<Rightarrow> MDR_UART_TypeDef \<Rightarrow> BaudRateStatus \<times> MDR_UART_TypeDef"
where
  "UART_Init i S c u =
     (let cpuclock = uart_clock i c;
          divider = cpuclock div drop_bit 2 (UART_BaudRate S);
          integerdivider = drop_bit 6 divider;
          fractionaldivider = divider AND 0x3F;
          realspeed = (cpuclock * 4) div (integerdivider * 64 + fractionaldivider);
          speederror = ((realspeed - UART_BaudRate S) * 128) div UART_BaudRate S
      in if speederror > 2 then (BaudRateInvalid, u)
         else (BaudRateValid, u\<lparr>
           IBRD := integerdivider, FBRD := fractionaldivider,
           LCR_H := LCR_H u OR to_u32 (UART_WordLength S OR UART_StopBits S OR UART_Parity S
                                       OR UART_FIFOMode S),
           UART_CR := (UART_CR u AND NOT 0xFF80) OR to_u32 (UART_HardwareFlowControl S)\<rparr>))"

definition UART_StructInit :: UART_InitTypeDef where
  "UART_StructInit = \<lparr>UART_BaudRate = 9600, UART_WordLength = 0, UART_StopBits = 0, UART_Parity = 0,
     UART_FIFOMode = 0,
     UART_HardwareFlowControl = UART_HardwareFlowControl_RXE OR UART_HardwareFlowControl_TXE\<rparr>"

definition UART_Cmd :: "FunctionalState \<Rightarrow> MDR_UART_TypeDef \<Rightarrow> MDR_UART_TypeDef" where
  "UART_Cmd st u = u\<lparr>UART_CR := (if st \<noteq> DISABLE then UART_CR u OR 1 else UART_CR u AND 0xFFFE)\<rparr>"

definition UART_ITConfig :: "u32 \<Rightarrow> FunctionalState \<Rightarrow> MDR_UART_TypeDef \<Rightarrow> MDR_UART_TypeDef" where
  "UART_ITConfig it st u = u\<lparr>IMSC := switch_bits st it (IMSC u)\<rparr>"

definition UART_GetITStatus :: "u32 \<Rightarrow> MDR_UART_TypeDef \<Rightarrow> FlagStatus" where
  "UART_GetITStatus it u = (if RIS u AND it = it then SET else RESET)"

definition UART_GetITStatusMasked :: "u32 \<Rightarrow> MDR_UART_TypeDef \<Rightarrow> FlagStatus" where
  "UART_GetITStatusMasked it u = (if MIS u AND it \<noteq> 0 then SET else RESET)"

definition UART_ClearITPendingBit :: "u32 \<Rightarrow> MDR_UART_TypeDef \<Rightarrow> MDR_UART_TypeDef" where
  "UART_ClearITPendingBit it u = u\<lparr>ICR := ICR u OR it\<rparr>"

definition UART_DMAConfig :: "u32 \<Rightarrow> u32 \<Rightarrow> MDR_UART_TypeDef \<Rightarrow> MDR_UART_TypeDef" where
  "UART_DMAConfig rb tb u = u\<lparr>IFLS := push_bit 3 rb OR tb\<rparr>"

text \<open>\<open>(uint16_t) ~UART_DMAReq\<close> also clears the upper half of the register.\<close>

definition UART_DMACmd :: "u32 \<Rightarrow> FunctionalState \<Rightarrow> MDR_UART_TypeDef \<Rightarrow> MDR_UART_TypeDef" where
  "UART_DMACmd req st u =
     u\<lparr>DMACR := (if st \<noteq> DISABLE then DMACR u OR req else DMACR u AND to_u32 (to_u16 (NOT req)))\<rparr>"

definition UART_SendData :: "u16 \<Rightarrow> MDR_UART_TypeDef \<Rightarrow> MDR_UART_TypeDef" where
  "UART_SendData d u = u\<lparr>DR := to_u32 (d AND 0xFF), tx_log := tx_log u @ [to_u32 (d AND 0xFF)]\<rparr>"

definition UART_ReceiveData :: "MDR_UART_TypeDef \<Rightarrow> u16" where
  "UART_ReceiveData u = to_u16 (DR u)"

definition UART_BreakLine :: "FunctionalState \<Rightarrow> MDR_UART_TypeDef \<Rightarrow> MDR_UART_TypeDef" where
  "UART_BreakLine st u = u\<lparr>LCR_H := (if st \<noteq> DISABLE then LCR_H u OR 1 else LCR_H u OR 0xFFFE)\<rparr>"

definition UART_IrDAConfig :: "u32 \<Rightarrow> clk \<Rightarrow> MDR_UART_TypeDef \<Rightarrow> MDR_UART_TypeDef" where
  "UART_IrDAConfig m c u =
     (let u1 = (if m = 4 then u\<lparr>ILPR := CPU_CLK_Frequency (RST_CLK_GetClocksFreq c) div 1843200\<rparr> else u)
      in u1\<lparr>UART_CR := UART_CR u1 OR m\<rparr>)"

definition UART_IrDACmd :: "FunctionalState \<Rightarrow> MDR_UART_TypeDef \<Rightarrow> MDR_UART_TypeDef" where
  "UART_IrDACmd st u = u\<lparr>UART_CR := (if st \<noteq> DISABLE then UART_CR u OR 2 else UART_CR u OR 0xFFFD)\<rparr>"

text \<open>The flag from a value read from the flag register.\<close>

definition UART_GetFlagStatus :: "u32 \<Rightarrow> u32 \<Rightarrow> FlagStatus" where
  "UART_GetFlagStatus flag fr = (if fr AND flag \<noteq> 0 then SET else RESET)"

fun UART_BRGInit :: "uart_id \<Rightarrow> u32 \<Rightarrow> clk \<Rightarrow> clk" where
  "UART_BRGInit MDR_UART1 brg c =
     c\<lparr>UART_CLOCK := ((UART_CLOCK c OR 0x1000000) AND NOT 0xFF) OR brg\<rparr>"
| "UART_BRGInit MDR_UART2 brg c =
     c\<lparr>UART_CLOCK := ((UART_CLOCK c OR 0x2000000) AND NOT 0xFF00) OR push_bit 8 brg\<rparr>"

section \<open>The application\<close>

text \<open>\<open>junk\<close>: the automatic variable \<open>PortInitStruct\<close> before its members are set. The result has
  the status that \<open>UART_Init\<close> returns, which the code ignores.\<close>

definition InitUART ::
  "PORT_InitTypeDef \<Rightarrow> clk \<times> ports \<times> MDR_UART_TypeDef \<Rightarrow> BaudRateStatus \<times> clk \<times> ports \<times> MDR_UART_TypeDef"
where
  "InitUART junk s =
     (let (c, ps, u) = s;
          P = junk\<lparr>PORT_SPEED := 2, PORT_MODE := 1\<rparr>;
          P1 = P\<lparr>PORT_OE := 1, PORT_Pin := 0x10, PORT_FUNC := 1\<rparr>;
          c1 = RST_CLK_PCLKcmd RST_CLK_PCLK_PORTC ENABLE c;
          ps1 = PORT_Init MDR_PORTC P1 ps;
          P2 = P1\<lparr>PORT_OE := 0, PORT_Pin := 0x08, PORT_FUNC := 1\<rparr>;
          c2 = RST_CLK_PCLKcmd RST_CLK_PCLK_PORTC ENABLE c1;
          ps2 = PORT_Init MDR_PORTC P2 ps1;
          c3 = RST_CLK_PCLKcmd RST_CLK_PCLK_UART1 ENABLE c2;
          c4 = UART_BRGInit MDR_UART1 0 c3;
          S = \<lparr>UART_BaudRate = 115200, UART_WordLength = 0x60, UART_StopBits = 0, UART_Parity = 0,
               UART_FIFOMode = 0x10,
               UART_HardwareFlowControl = UART_HardwareFlowControl_RXE OR UART_HardwareFlowControl_TXE\<rparr>;
          (r, u1) = UART_Init MDR_UART1 S c4 u
      in (r, c4, ps2, UART_Cmd ENABLE u1))"

text \<open>\<open>while (UART_GetFlagStatus (MY_UART, UART_FLAG_TXFE) != SET);\<close> then the character.\<close>

definition fputc ::
  "(nat \<Rightarrow> u32) \<Rightarrow> u32 \<Rightarrow> nat \<times> MDR_UART_TypeDef \<Rightarrow> (u32 \<times> nat \<times> MDR_UART_TypeDef) option"
where
  "fputc fr ch s =
     (let (t, u) = s
      in map_option (\<lambda>t'. (ch, t', UART_SendData (to_u16 ch) u))
           (wait_until (\<lambda>i. \<not> UART_GetFlagStatus UART_FLAG_TXFE (fr i) \<noteq> SET) t))"

section \<open>The baud rate\<close>

lemma divider_parts: "drop_bit 6 d * 64 + (d AND 0x3F) = d" for d :: u32
proof -
  have "(0x3F :: u32) = mask 6" by (simp add: mask_eq_exp_minus_1)
  then have "d AND 0x3F = take_bit 6 d" by (simp only: take_bit_eq_mask)
  moreover have "drop_bit 6 d * 64 = push_bit 6 (drop_bit 6 d)" by (simp add: push_bit_eq_mult)
  ultimately show ?thesis using bits_ident [of 6 d] by simp
qed

text \<open>The speed that a divider gives, over the naturals.\<close>

definition real_speed :: "nat \<Rightarrow> nat \<Rightarrow> nat" where
  "real_speed f b = 4 * f div (f div b)"

lemma real_speed_bounds:
  assumes "0 < b" "b \<le> f"
  shows "4 * b \<le> real_speed f b" "real_speed f b < 8 * b + 4"
proof -
  define q where "q = f div b"
  have q: "1 \<le> q" using assms by (simp add: q_def Suc_leI div_greater_zero_iff)
  have f: "q * b \<le> f" "f < (q + 1) * b"
    using assms(1) div_times_less_eq_dividend [of f b] dividend_less_div_times [of b f] by (simp_all add: q_def mult.commute)
  show "4 * b \<le> real_speed f b"
    unfolding real_speed_def q_def [symmetric]
    using q f(1) by (simp add: less_eq_div_iff_mult_less_eq mult.commute mult.left_commute)
  have "4 * f < 4 * ((q + 1) * b)" using f(2) by simp
  also have "\<dots> \<le> 4 * ((q + q) * b)" using q by (intro mult_le_mono2 mult_le_mono1) simp
  also have "\<dots> = q * (8 * b)" by (simp add: algebra_simps)
  finally have "4 * f div q < 8 * b + 4" using q by (simp add: div_less_iff_less_mult algebra_simps)
  then show "real_speed f b < 8 * b + 4" by (simp add: real_speed_def q_def)
qed

text \<open>
  For every speed that is a multiple of four, \<open>UART_Init\<close> programs the two divider registers
  with the truncated quotient of clock and speed, so that the speed obtained is never below
  the one asked for, and it accepts the setting exactly when the excess is less than 3/128;
  a refused setting leaves the registers as they were.
\<close>

theorem UART_Init_rate:
  fixes b :: nat
  assumes B: "unat (UART_BaudRate S) = 4 * b" and b: "0 < b" "b < 2 ^ 22"
    and f: "b \<le> unat (uart_clock i c)" "unat (uart_clock i c) < 2 ^ 30"
  shows "4 * b \<le> real_speed (unat (uart_clock i c)) b
    \<and> (fst (UART_Init i S c u) = BaudRateValid
        \<longleftrightarrow> 128 * (real_speed (unat (uart_clock i c)) b - 4 * b) < 3 * (4 * b))
    \<and> (fst (UART_Init i S c u) = BaudRateValid \<longrightarrow>
         unat (IBRD (snd (UART_Init i S c u))) * 64 + unat (FBRD (snd (UART_Init i S c u)))
           = unat (uart_clock i c) div b)
    \<and> (fst (UART_Init i S c u) = BaudRateInvalid \<longrightarrow> snd (UART_Init i S c u) = u)"
proof -
  let ?f = "uart_clock i c" and ?B = "UART_BaudRate S"
  define d where "d = ?f div drop_bit 2 ?B"
  have d: "unat d = unat ?f div b"
    using B by (simp add: d_def unat_div drop_bit_eq_div)
  have f4: "unat (?f * 4) = 4 * unat ?f"
    using f(2) by (simp add: unat_word_ariths)
  note r = real_speed_bounds [OF b(1) f(1)]
  have rs: "unat ((?f * 4) div (drop_bit 6 d * 64 + (d AND 0x3F))) = real_speed (unat ?f) b"
    by (simp add: divider_parts unat_div f4 d real_speed_def)
  let ?r = "(?f * 4) div (drop_bit 6 d * 64 + (d AND 0x3F))"
  have "?B \<le> ?r" using r(1) by (simp add: word_le_nat_alt rs B)
  then have "unat (?r - ?B) = real_speed (unat ?f) b - 4 * b" by (simp add: unat_minus_le rs B)
  then have m: "unat ((?r - ?B) * 128) = 128 * (real_speed (unat ?f) b - 4 * b)"
    using r b by (subst unat_mult_u32) simp_all
  define er where "er = (?r - ?B) * 128 div ?B"
  have err: "unat er = 128 * (real_speed (unat ?f) b - 4 * b) div (4 * b)"
    unfolding er_def unat_div m B ..
  have split: "unat (drop_bit 6 d) * 64 + unat (d AND 0x3F) = unat d"
  proof -
    have "(0x3F :: u32) = mask 6" by (simp add: mask_eq_exp_minus_1)
    then have "unat (d AND 0x3F) = unat d mod 64"
      by (simp only: take_bit_eq_mask [symmetric] unsigned_take_bit_eq) (simp add: take_bit_eq_mod)
    then show ?thesis by (simp add: drop_bit_eq_div unat_div)
  qed
  have "er > 2 \<longleftrightarrow> \<not> unat er < 3" by (simp add: word_less_nat_alt not_less) linarith
  also have "unat er < 3 \<longleftrightarrow> 128 * (real_speed (unat ?f) b - 4 * b) < 3 * (4 * b)"
    unfolding err using b(1) by (intro div_less_iff_less_mult) simp
  finally have valid: "er > 2 \<longleftrightarrow> \<not> 128 * (real_speed (unat ?f) b - 4 * b) < 3 * (4 * b)" .
  have code: "UART_Init i S c u = (if er > 2 then (BaudRateInvalid, u)
      else (BaudRateValid, u\<lparr>IBRD := drop_bit 6 d, FBRD := d AND 0x3F,
           LCR_H := LCR_H u OR to_u32 (UART_WordLength S OR UART_StopBits S OR UART_Parity S OR UART_FIFOMode S),
           UART_CR := (UART_CR u AND NOT 0xFF80) OR to_u32 (UART_HardwareFlowControl S)\<rparr>))"
    unfolding UART_Init_def Let_def d_def er_def ..
  show ?thesis
    using r(1) split d unfolding code valid by auto
qed

text \<open>The setting of \<open>InitUART\<close> at 100 MHz.\<close>

definition uart_zero :: MDR_UART_TypeDef where
  "uart_zero = \<lparr>DR = 0, RSR_ECR = 0, FR = 0, ILPR = 0, IBRD = 0, FBRD = 0, LCR_H = 0, UART_CR = 0,
     IFLS = 0, IMSC = 0, RIS = 0, MIS = 0, ICR = 0, DMACR = 0, tx_log = []\<rparr>"

definition uart_115200 :: UART_InitTypeDef where
  "uart_115200 = UART_StructInit\<lparr>UART_BaudRate := 115200\<rparr>"

definition clk_100MHz :: clk where
  "clk_100MHz = clk_zero\<lparr>CPU_CLOCK := 0x106, PLL_CONTROL := 0x300\<rparr>"

lemma clk_100MHz_freq: "uart_clock MDR_UART1 clk_100MHz = 100000000"
  by (simp add: clk_100MHz_def clk_zero_def RST_CLK_GetClocksFreq_def c_defs reg_defs Let_def)

theorem UART_Init_rate_witness:
  "fst (UART_Init MDR_UART1 uart_115200 clk_100MHz uart_zero) = BaudRateValid
   \<and> unat (IBRD (snd (UART_Init MDR_UART1 uart_115200 clk_100MHz uart_zero))) * 64
      + unat (FBRD (snd (UART_Init MDR_UART1 uart_115200 clk_100MHz uart_zero))) = 3472"
proof -
  have "unat (UART_BaudRate uart_115200) = 4 * 28800" by (simp add: uart_115200_def)
  from UART_Init_rate [OF this, of MDR_UART1 clk_100MHz uart_zero] show ?thesis
    by (simp add: clk_100MHz_freq real_speed_def del: uart_clock.simps)
qed

text \<open>
  \<open>InitUART\<close> run at the configured CPU clock of 100 MHz is accepted by \<open>UART_Init\<close> and leaves
  the UART enabled for transmission and reception with 8 data bits, no parity, one stop bit,
  its FIFO on and dividers 54 + 16/64, which is 115207 baud for the 115200 asked for.
\<close>

theorem InitUART_speed:
  assumes "CPU_CLK_Frequency (RST_CLK_GetClocksFreq c) = 100000000"
    and "LCR_H u = 0" "UART_CR u = 0"
  shows "\<exists>c' ps' u'. InitUART junk (c, ps, u) = (BaudRateValid, c', ps', u')
    \<and> IBRD u' = 54 \<and> FBRD u' = 16 \<and> LCR_H u' = 0x70 \<and> UART_CR u' = 0x301
    \<and> real_speed 100000000 28800 = 115207"
proof -
  let ?c = "UART_BRGInit MDR_UART1 0 (RST_CLK_PCLKcmd RST_CLK_PCLK_UART1 ENABLE
      (RST_CLK_PCLKcmd RST_CLK_PCLK_PORTC ENABLE (RST_CLK_PCLKcmd RST_CLK_PCLK_PORTC ENABLE c)))"
  have "RST_CLK_GetClocksFreq ?c = RST_CLK_GetClocksFreq c"
    by (simp add: RST_CLK_GetClocksFreq_def RST_CLK_PCLKcmd_def c_defs Let_def)
  moreover have "UART_CLOCK ?c AND 7 = 0" by (simp add: and.assoc)
  ultimately have "uart_clock MDR_UART1 ?c = 100000000" using assms(1) by simp
  then show ?thesis
    using assms(2,3)
    by (simp add: InitUART_def UART_Init_def UART_Cmd_def reg_defs Let_def real_speed_def)
qed

theorem InitUART_speed_witness:
  "\<exists>c' ps' u'. InitUART PORT_StructInit (clk_100MHz, ports_zero, uart_zero) = (BaudRateValid, c', ps', u')
    \<and> IBRD u' = 54 \<and> FBRD u' = 16"
proof -
  have "CPU_CLK_Frequency (RST_CLK_GetClocksFreq clk_100MHz) = 100000000"
    by (simp add: clk_100MHz_def clk_zero_def RST_CLK_GetClocksFreq_def c_defs reg_defs Let_def)
  from InitUART_speed [OF this, of uart_zero PORT_StructInit ports_zero] show ?thesis
    by (auto simp: uart_zero_def)
qed

text \<open>
  \<open>fputc\<close> returns if and only if the transmitter is empty at some later read of the flags; it
  then has handed over exactly the low eight bits of its argument, once, and returns its
  argument.
\<close>

theorem fputc_sends:
  "((\<exists>r. fputc fr ch (t, u) = Some r) \<longleftrightarrow> (\<exists>i\<ge>t. fr i AND UART_FLAG_TXFE \<noteq> 0))
   \<and> (\<forall>r t' u'. fputc fr ch (t, u) = Some (r, t', u') \<longrightarrow>
        r = ch \<and> t < t' \<and> fr (t' - 1) AND UART_FLAG_TXFE \<noteq> 0
        \<and> tx_log u' = tx_log u @ [to_u32 (to_u16 ch AND 0xFF)])"
proof -
  have w: "(\<lambda>i. \<not> UART_GetFlagStatus UART_FLAG_TXFE (fr i) \<noteq> SET) = (\<lambda>i. fr i AND UART_FLAG_TXFE \<noteq> 0)"
    by (simp add: UART_GetFlagStatus_def)
  show ?thesis
    using wait_until_returns [of "\<lambda>i. fr i AND UART_FLAG_TXFE \<noteq> 0" t]
      wait_until_Some_hit [of "\<lambda>i. fr i AND UART_FLAG_TXFE \<noteq> 0" t]
    unfolding fputc_def Let_def prod.case w by (auto simp: UART_SendData_def)
qed

theorem fputc_sends_witness:
  "\<exists>t' u'. fputc (\<lambda>i. if i < 5 then 0 else 0x80) 0x41 (2, uart_zero) = Some (0x41, t', u') \<and> tx_log u' = [0x41]"
proof -
  let ?fr = "\<lambda>i. if i < (5 :: nat) then 0 else 0x80 :: u32"
  have "?fr 5 AND UART_FLAG_TXFE \<noteq> 0" "(2 :: nat) \<le> 5" by (simp_all add: UART_FLAG_TXFE_def)
  then obtain r where "fputc ?fr 0x41 (2, uart_zero) = Some r"
    using fputc_sends [of ?fr "0x41" 2 uart_zero] by blast
  then show ?thesis
    using fputc_sends [of ?fr "0x41" 2 uart_zero] by (cases r) (auto simp: uart_zero_def)
qed

text \<open>
  The two routines that should switch a mode off with \<open>|=\<close> and a complemented mask do the
  opposite: the break condition and the IrDA mode are never ended by them.
\<close>

theorem UART_switch_off_fails:
  "LCR_H (UART_BreakLine DISABLE u) AND 1 = LCR_H u AND 1
   \<and> LCR_H (UART_BreakLine DISABLE u) AND 0xFFFE = 0xFFFE
   \<and> UART_CR (UART_IrDACmd DISABLE u) AND 2 = UART_CR u AND 2
   \<and> UART_CR (UART_IrDACmd DISABLE u) AND 0xFFFD = 0xFFFD"
  by (simp add: UART_BreakLine_def UART_IrDACmd_def bit.conj_disj_distrib2)

end
