(* ===== verification/Boot.thy ===== *)
theory Boot
  imports Server Board Uart
begin

text \<open>
  The start of the program: the sequence of initialisations at the head of \<open>main\<close>, on the whole of the
  hardware, and the composition with the loop. The state adds to the one of the loop what only the start uses: the
  control register of the code memory, timers, interrupt controller, serial port, tick and \<open>MACdevice\<close>.
  \<open>boot_env\<close> has what the surroundings answer and what uninitialised variables hold. \<open>httpd_init\<close> is an argument:
  it opens a TCP port, and the state of TCP is not part of \<open>stack\<close>. \<open>None\<close>: the code never
  gets past this point.
\<close>

section \<open>main, up to the loop\<close>

record 'd machine =
  sys :: "'d system"
  code_cmd :: u32
  m_timers :: timers
  m_nvic :: NVIC_Type
  m_uart :: MDR_UART_TypeDef
  m_tick :: xtick
  MACdevice :: "u8 list"

record boot_env = env +
  be_iwdg :: "nat \<Rightarrow> u32"
  be_delays :: delays
  be_ret :: "nat \<Rightarrow> u8"
  be_pins :: "nat \<Rightarrow> PORT_InitTypeDef"
  be_out :: TIMER_ChnOutInitTypeDef
  be_heap :: heap
  be_udp_heap :: heap

text \<open>\<open>InitXTick\<close> restarts the counter from zero.\<close>

definition tick_restart :: "xtick \<Rightarrow> xtick" where
  "tick_restart x = x\<lparr>CNT_ZERO := False, now := 0\<rparr>"

text \<open>From \<open>SystemInit\<close> to \<open>eeprom_read\<close>: the parts of the board.\<close>

definition main_init_board :: "boot_env \<Rightarrow> 'd machine \<Rightarrow> 'd machine option" where
  "main_init_board E m =
     (let s = sys m; b = board s;
          c1 = SystemInit (b_clk b);
          (_, t, c2, cmd) = ClockConfigure (env_rd E) (b_reads b) (c1, code_cmd m);
          (c3, ps1) = InitBiLED m_Led (c2, sp_ports (b_spi b));
          ps2 = SetBiLED m_Led LED_YELLOW ps1
      in do {
        (c4, w) \<leftarrow> InitWatchDog (be_iwdg E) (c3, iwdg s);
        let x = InitXTick \<lparr>tmr_clk = c4, tmr_ports = ps2, tmr_timers = m_timers m, tmr_nvic = m_nvic m\<rparr>;
        let (c5, ps3) = InputDisturbancePortInit (be_pins E 0) (tmr_clk x, tmr_ports x);
        (_, tick) \<leftarrow> DelayMs (be_delays E) 50 0 (tick_restart (m_tick m));
        let (_, c6, ps4, u) = InitUART (be_pins E 1) (c5, ps3, m_uart m);
        let (c7, sp1) = eeprom_new_init (env_chip E) (be_pins E 2) (c6, (b_spi b)\<lparr>sp_ports := ps4\<rparr>);
        (mac, sp2) \<leftarrow> eeprom_read (env_chip E) (be_ret E) sp1;
        Some (m\<lparr>sys := s\<lparr>board := b\<lparr>b_reads := t, b_clk := c7, b_spi := sp2\<rparr>, iwdg := w\<rparr>, code_cmd := cmd,
                m_timers := tmr_timers x, m_nvic := tmr_nvic x, m_uart := u, m_tick := tick, MACdevice := mac\<rparr>)
      })"

text \<open>And the network, the clock and the timer.\<close>

definition main_init ::
  "(stack \<Rightarrow> stack option) \<Rightarrow> ('d \<Rightarrow> 'd) \<Rightarrow> boot_env \<Rightarrow> u32 \<Rightarrow> 'd machine \<Rightarrow> 'd machine option" where
  "main_init httpd_init prep E xnetif m =
     do {
       m1 \<leftarrow> main_init_board E m;
       let s = sys m1;
       (st1, b) \<leftarrow> LwIP_Init prep (env.truncate E) (be_heap E) xnetif (net s, board s);
       st2 \<leftarrow> httpd_init st1;
       let (sock, st3) = UDPTransportInit (be_udp_heap E) st2;
       D \<leftarrow> Datagram_parameters_initialisation (payload s);
       let y = FlagTimerInit (be_pins E 3) (be_out E)
                 \<lparr>tmr_clk = b_clk b, tmr_ports = get_ports b, tmr_timers = m_timers m1, tmr_nvic = m_nvic m1\<rparr>;
       Some (m1\<lparr>sys := s\<lparr>net := st3, board := set_ports (tmr_ports y) (b\<lparr>b_clk := tmr_clk y\<rparr>), payload := D,
                          UDPSock := sock, ticks := 0\<rparr>,
                m_timers := tmr_timers y, m_nvic := tmr_nvic y\<rparr>)
     }"

section \<open>What the steps leave alone\<close>

lemma InitXTick_frame:
  "\<exists>p q. tmr_clk (InitXTick s) = (tmr_clk s)\<lparr>PER_CLOCK := p, TIM_CLOCK := q\<rparr>" "tmr_ports (InitXTick s) = tmr_ports s"
  by (force simp: InitXTick_def c_defs RST_CLK_PCLKcmd_def Let_def)+

lemma FlagTimerInit_frame:
  "SystemCoreClock (tmr_clk (FlagTimerInit P out s)) = SystemCoreClock (tmr_clk s)"
  "tmr_timers (FlagTimerInit P out s) MDR_TIMER1 = tmr_timers s MDR_TIMER1"
  "bit (NVIC_ISER (tmr_nvic s)) TIMER1_IRQn \<Longrightarrow> bit (NVIC_ISER (tmr_nvic (FlagTimerInit P out s))) TIMER1_IRQn"
  by (simp_all add: FlagTimerInit_def c_defs RST_CLK_PCLKcmd_def Let_def NVIC_EnableIRQ_def NVIC_SetPriority_def bit_simps)

lemma InitBiLED_frame:
  assumes "InitBiLED m_Led (c, ps) = (c', ps')"
  shows "\<exists>p. c' = c\<lparr>PER_CLOCK := p\<rparr>" "SCLK (SetBiLED m_Led col ps') = SCLK ps"
proof -
  show "\<exists>p. c' = c\<lparr>PER_CLOCK := p\<rparr>"
    using assms by (auto simp: InitBiLED_def InitLED_Pin_def RST_CLK_PCLKcmd_def)
  have "pin_out (SetBiLED m_Led col ps') MDR_PORTC 7 = pin_out ps' MDR_PORTC 7"
    by (rule SetBiLED_frame [OF m_Led_ok]) (simp_all add: m_Led_def)
  then show "SCLK (SetBiLED m_Led col ps') = SCLK ps"
    using assms by (auto simp: SCLK_def InitBiLED_def InitLED_Pin_def pin_out_PORT_Init)
qed

lemma InputDisturbancePortInit_frame:
  assumes "InputDisturbancePortInit P (c, ps) = (c', ps')"
  shows "\<exists>p. c' = c\<lparr>PER_CLOCK := p\<rparr>" "SCLK ps' = SCLK ps"
  using assms by (auto simp: InputDisturbancePortInit_def RST_CLK_PCLKcmd_def SCLK_def pin_out_PORT_Init)

lemma InitUART_frame:
  assumes "InitUART P (c, ps, u) = (r, c', ps', u')"
  shows "SystemCoreClock c' = SystemCoreClock c" "SCLK ps' = SCLK ps"
  using assms
  by (auto simp: InitUART_def Let_def RST_CLK_PCLKcmd_def SCLK_def pin_out_PORT_Init split: prod.splits)

lemma CPU_frequency_frame:
  "CPU_CLK_Frequency (RST_CLK_GetClocksFreq (c\<lparr>PER_CLOCK := p\<rparr>)) = CPU_CLK_Frequency (RST_CLK_GetClocksFreq c)"
  "CPU_CLK_Frequency (RST_CLK_GetClocksFreq (c\<lparr>TIM_CLOCK := p\<rparr>)) = CPU_CLK_Frequency (RST_CLK_GetClocksFreq c)"
  by (simp_all add: RST_CLK_GetClocksFreq_def cpu_freq_def Let_def)

section \<open>The start\<close>

text \<open>
  Surroundings in which the program can start: the external generator and the PLL become ready within the
  retries, the watchdog reports the update of its prescaler, the cycles that pass between reads of the tick are bounded,
  the PHY reports ready, the memory chip holds a good address, and the heap is not exhausted.
\<close>

definition powered :: "nat \<Rightarrow> boot_env \<Rightarrow> (u8 \<Rightarrow> u8) \<Rightarrow> u32 \<Rightarrow> bool" where
  "powered t E mem sock \<longleftrightarrow>
     (\<exists>k1 k2. ready_from RST_CLK_FLAG_HSERDY (env_rd E) t k1 \<and> k1 \<le> retry_budget HSEonTimeOut 0
        \<and> ready_from RST_CLK_FLAG_PLLCPURDY (env_rd E) t k2 \<and> k2 \<le> retry_budget PLLCPUonTimeOut 0)
     \<and> (\<exists>i. be_iwdg E i AND IWDG_FLAG_PVU \<noteq> 0) \<and> short (be_delays E) \<and> passing (be_delays E)
     \<and> starts (env.truncate E) mem \<and> eui_of mem (be_ret E) \<notin> set BAD_EUII
     \<and> heap_ok (be_heap E) \<and> (\<exists>bs. be_udp_heap E 0 32 = Some (sock, bs))"

text \<open>The state after reset: initialised variables, the reset values of the serial port, the clock line of the chip low.\<close>

definition at_reset :: "'d machine \<Rightarrow> bool" where
  "at_reset m \<longleftrightarrow> net (sys m) = lwip_start (sport (net (sys m))) \<and> m_dwInternalTicks (m_tick m) = 0
     \<and> GetSecond (pps (sys m)) = 0 \<and> TCPTimer (board (sys m)) = 0 \<and> ARPTimer (board (sys m)) = 0
     \<and> LCR_H (m_uart m) = 0 \<and> UART_CR (m_uart m) = 0 \<and> \<not> SCLK (sp_ports (b_spi (board (sys m))))"

definition first_payload :: PAYLOAD where
  "first_payload = sample_payload\<lparr>number := 0, attributes := \<lparr>validity = 0, efficency = 0\<rparr>, check_sum := 0\<rparr>"

lemma clock_configured:
  assumes "ready_from RST_CLK_FLAG_HSERDY rd t k" "k \<le> retry_budget HSEonTimeOut 0"
    and "ready_from RST_CLK_FLAG_PLLCPURDY rd t l" "l \<le> retry_budget PLLCPUonTimeOut 0"
  obtains t' c' where "ClockConfigure rd t (SystemInit c, cmd) = (True, t', c', 0x20)"
    "unat (SystemCoreClock c') = CPU_CLOCK_VALUE" "CPU_CLK_Frequency (RST_CLK_GetClocksFreq c') = 100000000"
proof -
  obtain r t' c' cmd' where q: "ClockConfigure rd t (SystemInit c, cmd) = (r, t', c', cmd')"
    by (metis prod_cases4)
  moreover have "r" "unat (SystemCoreClock c') = CPU_CLOCK_VALUE" "cmd' = 0x20"
      "unat (CPU_CLK_Frequency (RST_CLK_GetClocksFreq c')) = 100000000"
    using ClockConfigure_result [OF assms(1,3), of c cmd] assms(2,4) by (simp_all add: q CPU_CLOCK_VALUE_def)
  moreover from this(4) have "CPU_CLK_Frequency (RST_CLK_GetClocksFreq c') = 100000000"
    by (simp add: word_unat_eq_iff)
  ultimately show ?thesis
    using that by simp
qed

lemma watchdog_armed:
  assumes "\<exists>i. sr i AND IWDG_FLAG_PVU \<noteq> 0"
  obtains c' w' p where "InitWatchDog sr (c, w) = Some (c\<lparr>PER_CLOCK := p\<rparr>, w')" "watchdog_seconds w' = 4" "IWDG_KR w' = 0xAAAA"
proof -
  obtain c' w' where i: "InitWatchDog sr (c, w) = Some (c', w')" "watchdog_seconds w' = 4" "IWDG_KR w' = 0xAAAA"
    using InitWatchDog_correct [of sr c w] assms by (metis surj_pair)
  then have "c' = RST_CLK_PCLKcmd RST_CLK_PCLK_IWDG ENABLE c"
    by (auto simp: InitWatchDog_def)
  then show ?thesis
    using that i by (simp add: RST_CLK_PCLKcmd_def)
qed

lemma main_init_board_result:
  assumes E: "powered (b_reads (board (sys m))) E mem a" and m: "at_reset m"
  shows "\<exists>m'. main_init_board E m = Some m' \<and> net (sys m') = net (sys m) \<and> pps (sys m') = pps (sys m)
    \<and> TCPTimer (board (sys m')) = 0 \<and> ARPTimer (board (sys m')) = 0 \<and> \<not> SCLK (sp_ports (b_spi (board (sys m'))))
    \<and> unat (SystemCoreClock (b_clk (board (sys m')))) = CPU_CLOCK_VALUE \<and> code_cmd m' = 0x20
    \<and> watchdog_seconds (iwdg (sys m')) = 4 \<and> IWDG_KR (iwdg (sys m')) = 0xAAAA
    \<and> timer_runs (m_timers m' MDR_TIMER1) \<and> bit (NVIC_ISER (m_nvic m')) TIMER1_IRQn
    \<and> IBRD (m_uart m') = 54 \<and> FBRD (m_uart m') = 16 \<and> LCR_H (m_uart m') = 0x70 \<and> UART_CR (m_uart m') = 0x301
    \<and> 4998336 < now (m_tick m') \<and> MACdevice m' = eui_of mem (be_ret E)"
proof -
  let ?b = "board (sys m)"
  have E': "(\<exists>i. be_iwdg E i AND IWDG_FLAG_PVU \<noteq> 0)" "short (be_delays E)" "passing (be_delays E)"
    "answers_read (env_chip E) mem" "eui_of mem (be_ret E) \<notin> set BAD_EUII"
    using E by (simp_all add: powered_def starts_def env.truncate_def)
  obtain k1 k2 where "ready_from RST_CLK_FLAG_HSERDY (env_rd E) (b_reads ?b) k1" "k1 \<le> retry_budget HSEonTimeOut 0"
      "ready_from RST_CLK_FLAG_PLLCPURDY (env_rd E) (b_reads ?b) k2" "k2 \<le> retry_budget PLLCPUonTimeOut 0"
    using E by (auto simp: powered_def)
  then obtain t c2 where clk: "ClockConfigure (env_rd E) (b_reads ?b) (SystemInit (b_clk ?b), code_cmd m) = (True, t, c2, 0x20)"
    "unat (SystemCoreClock c2) = CPU_CLOCK_VALUE" "CPU_CLK_Frequency (RST_CLK_GetClocksFreq c2) = 100000000"
    by (rule clock_configured)
  obtain c3 ps1 where led: "InitBiLED m_Led (c2, sp_ports (b_spi ?b)) = (c3, ps1)"
    by force
  obtain p4 w where wd: "InitWatchDog (be_iwdg E) (c3, iwdg (sys m)) = Some (c3\<lparr>PER_CLOCK := p4\<rparr>, w)"
    "watchdog_seconds w = 4" "IWDG_KR w = 0xAAAA"
    using watchdog_armed [OF E'(1)] by metis
  define ps2 where "ps2 = SetBiLED m_Led LED_YELLOW ps1"
  let ?s = "\<lparr>tmr_clk = c3\<lparr>PER_CLOCK := p4\<rparr>, tmr_ports = ps2, tmr_timers = m_timers m, tmr_nvic = m_nvic m\<rparr>"
  define x where "x = InitXTick ?s"
  obtain c5 ps3 where pd: "InputDisturbancePortInit (be_pins E 0) (tmr_clk x, tmr_ports x) = (c5, ps3)"
    by force
  have "xtick_ok (tick_restart (m_tick m))"
    using m by (simp add: at_reset_def xtick_ok_def tick_restart_def)
  from DelayMs_returns [OF this E'(2,3), of 50 0]
  obtain k tick where tick: "DelayMs (be_delays E) 50 0 (tick_restart (m_tick m)) = Some (k, tick)" "4998336 < now tick"
    by (auto simp: tick_restart_def)
  obtain p3 p q p5 where c5: "c3 = c2\<lparr>PER_CLOCK := p3\<rparr>" "tmr_clk x = c3\<lparr>PER_CLOCK := p, TIM_CLOCK := q\<rparr>"
      "c5 = (tmr_clk x)\<lparr>PER_CLOCK := p5\<rparr>"
    using InitBiLED_frame(1) [OF led] InitXTick_frame(1) [of ?s, folded x_def] InputDisturbancePortInit_frame(1) [OF pd] by auto
  have freq: "CPU_CLK_Frequency (RST_CLK_GetClocksFreq c5) = 100000000" "SystemCoreClock c5 = SystemCoreClock c2"
    using clk(3) unfolding c5 by (simp_all add: CPU_frequency_frame)
  obtain c6 ps4 u where ua: "InitUART (be_pins E 1) (c5, ps3, m_uart m) = (BaudRateValid, c6, ps4, u)"
    "IBRD u = 54" "FBRD u = 16" "LCR_H u = 0x70" "UART_CR u = 0x301"
    using InitUART_speed [OF freq(1), of "m_uart m" "be_pins E 1" ps3] m by (auto simp: at_reset_def)
  let ?sp = "(b_spi ?b)\<lparr>sp_ports := ps4\<rparr>"
  have low: "\<not> SCLK (sp_ports ?sp)"
    using m InitUART_frame(2) [OF ua(1)] InputDisturbancePortInit_frame(2) [OF pd] InitBiLED_frame(2) [OF led]
    by (simp add: at_reset_def x_def InitXTick_frame(2) ps2_def del: SetBiLED.simps)
  obtain c7 sp1 where ee: "eeprom_new_init (env_chip E) (be_pins E 2) (c6, ?sp) = (c7, sp1)"
    by force
  obtain sp2 where mac: "eeprom_read (env_chip E) (be_ret E) sp1 = Some (eui_of mem (be_ret E), sp2)" "\<not> SCLK (sp_ports sp2)"
    using eeprom_address [OF E'(4) low E'(5) ee] by blast
  have "main_init_board E m = Some (m\<lparr>sys := (sys m)\<lparr>board := ?b\<lparr>b_reads := t, b_clk := c7, b_spi := sp2\<rparr>, iwdg := w\<rparr>,
      code_cmd := 0x20, m_timers := tmr_timers x, m_nvic := tmr_nvic x, m_uart := u, m_tick := tick,
      MACdevice := eui_of mem (be_ret E)\<rparr>)"
    by (simp add: main_init_board_def Let_def clk(1) led wd(1) pd tick(1) ua(1) ee mac(1)
        x_def [symmetric] ps2_def [symmetric] del: SetBiLED.simps One_nat_def)
  moreover have "SystemCoreClock c7 = SystemCoreClock c2"
    using eeprom_new_init_SystemCoreClock [OF ee] InitUART_frame(1) [OF ua(1)] freq(2) by simp
  moreover have "timer_runs (tmr_timers x MDR_TIMER1)" "bit (NVIC_ISER (tmr_nvic x)) TIMER1_IRQn"
    using InitXTick_period [of ?s] by (simp_all add: x_def)
  ultimately show ?thesis
    using clk(2) wd(2,3) ua(2-) tick(2) mac(2) m by (simp add: at_reset_def)
qed

lemma start_times:
  "time_ok (msk first_payload)" "time_ok (local first_payload)"
  "seconds_of (msk first_payload) + n < clock_end" "seconds_of (local first_payload) + n < clock_end" if "n \<le> 10 ^ 12"
  using days_before_year_le [of 2022] days_before_year_le [of 2021] time_ok_sample that
  by (simp_all add: first_payload_def)
     (simp_all add: sample_payload_def seconds_of_def day_number_def days_before_month_def month_length_def upt_rec clock_end_def)

text \<open>
  What the start leaves behind. The interface is up with the address of the chip and the one control block is connected;
  nothing has been received, and the only frame in the transmit queue announces the own address, if
  there was memory for it; the clock of the program stands at its first value; the CPU runs at 100 MHz with the
  latency of the code memory set for it, the watchdog has just been reloaded and gives four seconds, both timers
  run with their interrupts enabled, and the serial port is set to 115200 bits per second.
\<close>

definition started :: "boot_env \<Rightarrow> (u8 \<Rightarrow> u8) \<Rightarrow> u32 \<Rightarrow> u32 \<Rightarrow> 'd machine \<Rightarrow> bool" where
  "started E mem xnetif a m \<longleftrightarrow>
     net_ready xnetif a (eui_of mem (env_ret E)) (net (sys m)) \<and> UDPSock (sys m) = Some a
     \<and> s_pxNetIf (board (sys m)) = Some xnetif \<and> TCPTimer (board (sys m)) = 0 \<and> ARPTimer (board (sys m)) = 0
     \<and> rx_holds (dev (sport (net (sys m)))) []
     \<and> (\<exists>fs. tx_holds (dev (sport (net (sys m)))) fs
        \<and> map tx_bytes fs = (let hw = eui_of mem (env_ret E); ip = IP4_ADDR 192 168 1 233 in
            if pbuf_alloc_RAM (be_heap E) PBUF_LINK 28 = None then []
            else [ethbroadcast @ hw @ [0x08, 0x06] @ etharp_hdr ARP_REQUEST hw ip ethzero ip]))
     \<and> payload (sys m) = first_payload \<and> ticks (sys m) = 0 \<and> GetSecond (pps (sys m)) = 0
     \<and> unat (SystemCoreClock (b_clk (board (sys m)))) = CPU_CLOCK_VALUE \<and> code_cmd m = 0x20
     \<and> watchdog_seconds (iwdg (sys m)) = 4 \<and> IWDG_KR (iwdg (sys m)) = 0xAAAA
     \<and> timer_runs (m_timers m MDR_TIMER1) \<and> timer_runs (m_timers m MDR_TIMER2)
     \<and> bit (NVIC_ISER (m_nvic m)) TIMER1_IRQn \<and> bit (NVIC_ISER (m_nvic m)) TIMER2_IRQn
     \<and> IBRD (m_uart m) = 54 \<and> FBRD (m_uart m) = 16 \<and> LCR_H (m_uart m) = 0x70 \<and> UART_CR (m_uart m) = 0x301
     \<and> MACdevice m = eui_of mem (be_ret E)"

lemma main_init_result:
  assumes E: "powered (b_reads (board (sys m))) E mem a" and m: "at_reset m" and http: "\<forall>st. httpd_init st = Some st"
  shows "\<exists>m'. main_init httpd_init prep E xnetif m = Some m' \<and> started E mem xnetif a m'"
proof -
  obtain m1 where m1: "main_init_board E m = Some m1" "net (sys m1) = net (sys m)" "pps (sys m1) = pps (sys m)"
    "TCPTimer (board (sys m1)) = 0" "ARPTimer (board (sys m1)) = 0"
    and low: "\<not> SCLK (sp_ports (b_spi (board (sys m1))))"
    and clk: "unat (SystemCoreClock (b_clk (board (sys m1)))) = CPU_CLOCK_VALUE"
    and rest: "code_cmd m1 = 0x20" "watchdog_seconds (iwdg (sys m1)) = 4" "IWDG_KR (iwdg (sys m1)) = 0xAAAA"
      "IBRD (m_uart m1) = 54" "FBRD (m_uart m1) = 16" "LCR_H (m_uart m1) = 0x70" "UART_CR (m_uart m1) = 0x301"
      "MACdevice m1 = eui_of mem (be_ret E)"
    and tm: "timer_runs (m_timers m1 MDR_TIMER1)" "bit (NVIC_ISER (m_nvic m1)) TIMER1_IRQn"
    using main_init_board_result [OF E m] by blast
  define eui where "eui = eui_of mem (env_ret E)"
  have env: "starts (env.truncate E) mem" "heap_ok (be_heap E)" "env_ret (env.truncate E) = env_ret E"
    using E by (simp_all add: powered_def env.truncate_def)
  define st where "st = (\<lambda>s. (lwip_start s)\<lparr>netifs := (\<lambda>_. netif_zero)(xnetif := xnetif_up eui), netif_list := [xnetif],
          netif_default := Some xnetif, netif_num := 1\<rparr>)"
  obtain s' b fs where lw: "LwIP_Init prep (env.truncate E) (be_heap E) xnetif (net (sys m1), board (sys m1)) = Some (st s', b)"
    and q: "rx_holds (dev s') []" "tx_holds (dev s') fs"
    and fs: "map tx_bytes fs = (if pbuf_alloc_RAM (be_heap E) PBUF_LINK 28 = None then []
        else [ethbroadcast @ eui @ [0x08, 0x06] @ etharp_hdr ARP_REQUEST eui 0xE901A8C0 ethzero 0xE901A8C0])"
    and b: "s_pxNetIf b = Some xnetif" "TCPTimer b = 0" "ARPTimer b = 0"
      "SystemCoreClock (b_clk b) = SystemCoreClock (b_clk (board (sys m1)))"
    using LwIP_Init_result [OF env(1) low env(2), of prep xnetif "sport (net (sys m))"] m m1(2-)
    unfolding env(3) at_reset_def st_def eui_def by metis
  obtain bs where "be_udp_heap E 0 32 = Some (a, bs)"
    using E by (auto simp: powered_def)
  then have udp: "UDPTransportInit (be_udp_heap E) (st s')
      = (Some a, (st s')\<lparr>pcbs := (pcbs (st s'))(a := time_pcb), udp_pcbs := [a], udp_port := 0xC001\<rparr>)"
    by (rule UDPTransportInit_result) (simp_all add: st_def lwip_start_def)
  let ?y = "\<lparr>tmr_clk = b_clk b, tmr_ports = get_ports b, tmr_timers = m_timers m1, tmr_nvic = m_nvic m1\<rparr>"
  define y where "y = FlagTimerInit (be_pins E 3) (be_out E) ?y"
  have y: "timer_runs (tmr_timers y MDR_TIMER1)" "timer_runs (tmr_timers y MDR_TIMER2)"
      "bit (NVIC_ISER (tmr_nvic y)) TIMER1_IRQn" "bit (NVIC_ISER (tmr_nvic y)) TIMER2_IRQn"
      "SystemCoreClock (tmr_clk y) = SystemCoreClock (b_clk b)"
    using FlagTimerInit_timer [of "be_pins E 3" "be_out E" ?y] FlagTimerInit_frame [where s = ?y] tm by (simp_all add: y_def)
  define m' where "m' = m1\<lparr>sys := (sys m1)
      \<lparr>net := (st s')\<lparr>pcbs := (pcbs (st s'))(a := time_pcb), udp_pcbs := [a], udp_port := 0xC001\<rparr>,
       board := set_ports (tmr_ports y) (b\<lparr>b_clk := tmr_clk y\<rparr>), payload := first_payload, UDPSock := Some a, ticks := 0\<rparr>,
      m_timers := tmr_timers y, m_nvic := tmr_nvic y\<rparr>"
  have "main_init httpd_init prep E xnetif m = Some m'"
    by (simp add: main_init_def m1(1) lw http udp Datagram_parameters_initialisation_eq y_def [symmetric]
        first_payload_def [symmetric] Let_def m'_def)
  moreover have "net_ready xnetif a eui (net (sys m'))"
    by (simp add: m'_def net_ready_def st_def eui_def)
  moreover have "sport (net (sys m')) = s'" "GetSecond (pps (sys m')) = 0"
    using m m1(3) by (simp_all add: m'_def st_def lwip_start_def at_reset_def)
  moreover have "IP4_ADDR 192 168 1 233 = 0xE901A8C0"
    by (simp add: IP4_ADDR_def LWIP_MAKEU32_def lwip_htonl_def)
  ultimately show ?thesis
    unfolding started_def eui_def [symmetric] using q fs b clk rest y
    by (intro exI [of _ m']) (auto simp: m'_def set_ports_def)
qed

text \<open>
  C13. The program starts. From any state of the registers after reset, in surroundings as above, the initialisation
  of \<open>main\<close> returns and reaches its loop with everything set up. \<open>httpd_init\<close> is only asked not to touch interfaces and UDP.
\<close>

theorem main_starts:
  assumes "powered (b_reads (board (sys m))) E mem a" "at_reset m" "\<forall>st. httpd_init st = Some st"
  shows "\<exists>m'. main_init httpd_init prep E xnetif m = Some m' \<and> started E mem xnetif a m'"
  using assms by (rule main_init_result)

definition sample_boot :: boot_env where
  "sample_boot = \<lparr>env_rd = (\<lambda>_. (6, 0)), env_phy = env_phy sample_env, env_chip = env_chip sample_env, env_pins = PORT_StructInit,
     env_ret = (\<lambda>_. 0), be_iwdg = (\<lambda>_. 1), be_delays = (\<lambda>_. (10, 10, 20)), be_ret = (\<lambda>_. 0), be_pins = (\<lambda>_. PORT_StructInit),
     be_out = \<lparr>TIMER_CHO_Number = 0, TIMER_CH_DirOut_Polarity = 0, TIMER_CH_DirOut_Source = 0, TIMER_CH_DirOut_Mode = 0,
       TIMER_CH_NegOut_Polarity = 0, TIMER_CH_NegOut_Source = 0, TIMER_CH_NegOut_Mode = 0, TIMER_CH_DTG_MainPrescaler = 0,
       TIMER_CH_DTG_AuxPrescaler = 0, TIMER_CH_DTG_ClockSource = 0\<rparr>, be_heap = sample_heap, be_udp_heap = sample_heap\<rparr>"

definition sample_machine :: "unit machine" where
  "sample_machine = \<lparr>sys = sample_system\<lparr>net := lwip_start port_zero\<rparr>, code_cmd = 0, m_timers = (\<lambda>_. \<lparr>CNT = 0, PSG = 0, ARR = 0, TIM_CNTRL = 0, CCR = (\<lambda>_. 0),
       CH_CNTRL = (\<lambda>_. 0), CH_CNTRL1 = (\<lambda>_. 0), CH_DTG = (\<lambda>_. 0), BRKETR_CNTRL = 0, TIM_STATUS = 0, TIM_IE = 0, DMA_RE = 0,
       CH_CNTRL2 = (\<lambda>_. 0), CCR_1 = (\<lambda>_. 0), DMA_REChx = (\<lambda>_. 0)\<rparr>),
     m_nvic = \<lparr>NVIC_ISER = 0, NVIC_IP = (\<lambda>_. 0)\<rparr>, m_uart = uart_zero,
     m_tick = \<lparr>m_dwInternalTicks = 0, CNT_ZERO = False, now = 0\<rparr>, MACdevice = []\<rparr>"

lemma sample_boot_powered: "powered 0 sample_boot (\<lambda>a. a) (fst (the (sample_heap 0 32)))"
proof -
  have ready: "ready_from RST_CLK_FLAG_HSERDY (env_rd sample_boot) 0 0" "ready_from RST_CLK_FLAG_PLLCPURDY (env_rd sample_boot) 0 0"
    by (simp_all add: ready_from_def sample_boot_def RST_CLK_GetFlagStatus_def reg_defs)
  have env: "starts (env.truncate sample_boot) (\<lambda>a. a)" "eui_of (\<lambda>a. a) (be_ret sample_boot) \<notin> set BAD_EUII"
    using sample_env_starts(1) by (simp_all add: starts_def env.truncate_def sample_boot_def) (simp_all add: sample_env_def)
  have "\<exists>bs. sample_heap 0 32 = Some (fst (the (sample_heap 0 32)), bs)"
    by (simp add: sample_heap_def)
  then show ?thesis
    unfolding powered_def using ready env sample_heap_ok
    by (auto simp: sample_boot_def short_def passing_def reg_defs intro: exI [of _ 0])
qed

lemma sample_machine_reset: "at_reset sample_machine" "b_reads (board (sys sample_machine)) = 0"
  using sample_board_clock
  by (simp_all add: at_reset_def sample_machine_def sample_system_def uart_zero_def GetSecond_def lwip_start_def)
     (simp_all add: sample_board_def)

lemma main_starts_witness:
  "\<exists>m' a. main_init Some (\<lambda>d. d) sample_boot 1 sample_machine = Some m' \<and> started sample_boot (\<lambda>a. a) 1 a m'"
  using main_starts [of sample_machine sample_boot, unfolded sample_machine_reset(2), OF sample_boot_powered sample_machine_reset(1)]
  by blast

text \<open>
  C1. From reset to the wire. The initialisation reaches the loop, and in every run of the loop from there, with any
  traffic and any interrupts, for 31000 years, the \<open>k\<close>-th datagram announces second \<open>k\<close> after 1 January 2022, 0:59:30
  Moscow time, and there are never more datagrams than interrupts of the one-second timer.
\<close>

theorem main_announces:
  assumes "powered (b_reads (board (sys m))) E mem a" "at_reset m" "\<forall>st. httpd_init st = Some st"
  shows "\<exists>m'. main_init httpd_init prep E xnetif m = Some m'
    \<and> msk (payload (sys m')) = \<lparr>second = 30, minute = 59, hour = 0, day = 1, month = 1, year = 2022\<rparr>
    \<and> (\<forall>ip tcp_tmr frag inps ds s'. main_loop ip tcp_tmr frag (sys m') inps ds s' \<and> length ds \<le> 10 ^ 12 \<longrightarrow>
         (\<forall>k<length ds. announces (payload (sys m')) (Suc k) (ds ! k))
         \<and> length ds \<le> sum_list (map irqs inps)
         \<and> ((\<forall>inp\<in>set inps. fst (in_irq inp) \<le> 1 \<and> snd (in_irq inp) = 0) \<longrightarrow> length ds = sum_list (map irqs inps)))"
proof -
  obtain m' where m': "main_init httpd_init prep E xnetif m = Some m'"
    "payload (sys m') = first_payload" "ticks (sys m') = GetSecond (pps (sys m'))"
    using main_init_result [OF assms, of prep xnetif] by (auto simp: started_def)
  moreover have "msk first_payload = \<lparr>second = 30, minute = 59, hour = 0, day = 1, month = 1, year = 2022\<rparr>"
    by (simp add: first_payload_def sample_payload_def)
  ultimately show ?thesis
    using main_loop_clock [where s = "sys m'"] main_loop_counts [where s = "sys m'"] start_times by fastforce
qed

lemma main_announces_witness:
  "\<exists>m'. main_init Some (\<lambda>d. d) sample_boot 1 sample_machine = Some m'
    \<and> (\<forall>ip tcp_tmr frag inps ds s'. main_loop ip tcp_tmr frag (sys m') inps ds s' \<and> length ds \<le> 10 ^ 12 \<longrightarrow>
         (\<forall>k<length ds. announces (payload (sys m')) (Suc k) (ds ! k)))"
  using main_announces [of sample_machine sample_boot, unfolded sample_machine_reset(2), OF sample_boot_powered sample_machine_reset(1)]
  by fast

end
