(* ===== verification/Allocator.thy ===== *)
theory Allocator
  imports Prelude
begin

text \<open>
  The interface of a heap as its clients see it: blocks of memory that are given out, hold what is
  written into them, and are taken back. \<open>Mem\<close> interprets the locale on \<open>mem_malloc\<close> and \<open>mem_free\<close>.
\<close>

text \<open>
  The histories of a client from the heap \<open>s0\<close>. The second state is what the client knows: its blocks with
  their contents. A fresh block has an arbitrary content.
\<close>

inductive client ::
  "('s \<Rightarrow> int \<Rightarrow> u8) \<Rightarrow> (u16 \<Rightarrow> 's \<Rightarrow> (int option \<times> 's) option) \<Rightarrow> (int \<Rightarrow> 's \<Rightarrow> 's) \<Rightarrow> (int \<Rightarrow> u8 \<Rightarrow> 's \<Rightarrow> 's)
    \<Rightarrow> 's \<Rightarrow> 's \<Rightarrow> (nat \<rightharpoonup> u8 list) \<Rightarrow> bool"
  for cont malloc free store s0 where
  client_start: "client cont malloc free store s0 s0 Map.empty"
| client_malloc: "client cont malloc free store s0 s c \<Longrightarrow> malloc n s = Some (Some p, s')
    \<Longrightarrow> client cont malloc free store s0 s' (c(nat p \<mapsto> map (\<lambda>i. cont s' (p + int i)) [0..<unat n]))"
| client_null: "client cont malloc free store s0 s c \<Longrightarrow> malloc n s = Some (None, s') \<Longrightarrow> client cont malloc free store s0 s' c"
| client_free: "client cont malloc free store s0 s c \<Longrightarrow> a \<in> dom c \<Longrightarrow> client cont malloc free store s0 (free (int a) s) (c(a := None))"
| client_store: "client cont malloc free store s0 s c \<Longrightarrow> c a = Some bs \<Longrightarrow> i < length bs
    \<Longrightarrow> client cont malloc free store s0 (store (int (a + i)) v s) (c(a \<mapsto> bs[i := v]))"

text \<open>Blocks are pairs of address and capacity.\<close>

type_synonym live_block = "nat \<times> nat"

definition kept :: "live_block set \<Rightarrow> (int \<Rightarrow> u8) \<Rightarrow> (int \<Rightarrow> u8) \<Rightarrow> bool" where
  "kept L m m' \<longleftrightarrow> (\<forall>(a, n)\<in>L. \<forall>i. int a \<le> i \<and> i < int (a + n) \<longrightarrow> m' i = m i)"

locale allocator =
  fixes holds :: "'s \<Rightarrow> live_block set \<Rightarrow> bool"
    and cont :: "'s \<Rightarrow> int \<Rightarrow> u8"
    and malloc :: "u16 \<Rightarrow> 's \<Rightarrow> (int option \<times> 's) option"
    and free :: "int \<Rightarrow> 's \<Rightarrow> 's"
    and store :: "int \<Rightarrow> u8 \<Rightarrow> 's \<Rightarrow> 's"
  assumes apart: "holds s L \<Longrightarrow> (a, n) \<in> L \<Longrightarrow> (b, k) \<in> L \<Longrightarrow> (a, n) = (b, k) \<or> a \<noteq> b \<and> (a + n \<le> b \<or> b + k \<le> a)"
    and malloc_null: "holds s L \<Longrightarrow> malloc w s = Some (None, s') \<Longrightarrow> s' = s"
    and malloc_block: "holds s L \<Longrightarrow> malloc w s = Some (Some p, s')
      \<Longrightarrow> \<exists>a k. p = int a \<and> unat w \<le> k \<and> (a, k) \<notin> L \<and> holds s' (insert (a, k) L) \<and> kept L (cont s) (cont s')"
    and free_block: "holds s L \<Longrightarrow> (a, n) \<in> L \<Longrightarrow> holds (free (int a) s) (L - {(a, n)})
      \<and> kept (L - {(a, n)}) (cont s) (cont (free (int a) s))"
    and store_byte: "holds s L \<Longrightarrow> (a, n) \<in> L \<Longrightarrow> int a \<le> i \<Longrightarrow> i < int (a + n)
      \<Longrightarrow> holds (store i v s) L \<and> cont (store i v s) = (cont s)(i := v)"
begin

text \<open>What the client knows is true: its blocks are those of the heap, with the contents it stored.\<close>

definition agree :: "'s \<Rightarrow> live_block set \<Rightarrow> (nat \<rightharpoonup> u8 list) \<Rightarrow> bool" where
  "agree s L c \<longleftrightarrow> fst ` L = dom c
     \<and> (\<forall>a n bs. (a, n) \<in> L \<longrightarrow> c a = Some bs \<longrightarrow> length bs \<le> n \<and> bs = map (\<lambda>i. cont s (int (a + i))) [0..<length bs])"

lemma agree_kept:
  assumes "agree s L c" "L' \<subseteq> L" "kept L' (cont s) (cont s')" "(a, n) \<in> L'" "c a = Some bs"
  shows "length bs \<le> n" "bs = map (\<lambda>i. cont s' (int (a + i))) [0..<length bs]"
proof -
  show len: "length bs \<le> n"
    using assms by (auto simp: agree_def)
  have "\<forall>i. int a \<le> i \<and> i < int (a + n) \<longrightarrow> cont s' i = cont s i"
    using assms(3,4) by (auto simp: kept_def)
  then have "map (\<lambda>i. cont s' (int (a + i))) [0..<length bs] = map (\<lambda>i. cont s (int (a + i))) [0..<length bs]"
    using len by simp
  then show "bs = map (\<lambda>i. cont s' (int (a + i))) [0..<length bs]"
    using assms by (metis agree_def subsetD)
qed

theorem client_agrees:
  assumes "client cont malloc free store s0 s c" "holds s0 {}"
  shows "\<exists>L. holds s L \<and> agree s L c"
  using assms(1)
proof (induction rule: client.induct)
  case client_start
  then show ?case
    using assms(2) by (intro exI [of _ "{}"]) (simp add: agree_def)
next
  case (client_malloc s c n p s')
  then obtain L where L: "holds s L" "agree s L c" by blast
  then obtain a k where p: "p = int a" "unat n \<le> k" "(a, k) \<notin> L" "holds s' (insert (a, k) L)" "kept L (cont s) (cont s')"
    using malloc_block client_malloc(2) by blast
  have new: "b \<noteq> a" if "(b, j) \<in> L" for b j
    using apart [OF p(4), of a k b j] that p(3) by auto
  have "agree s' (insert (a, k) L) (c(a \<mapsto> map (\<lambda>i. cont s' (int (a + i))) [0..<unat n]))"
    unfolding agree_def
  proof (intro conjI allI impI)
    show "fst ` insert (a, k) L = dom (c(a \<mapsto> map (\<lambda>i. cont s' (int (a + i))) [0..<unat n]))"
      using L(2) by (simp add: agree_def)
  next
    fix b j bs
    assume b: "(b, j) \<in> insert (a, k) L" "(c(a \<mapsto> map (\<lambda>i. cont s' (int (a + i))) [0..<unat n])) b = Some bs"
    show "length bs \<le> j" "bs = map (\<lambda>i. cont s' (int (b + i))) [0..<length bs]"
      using b p(2) new agree_kept [OF L(2) order_refl p(5), of b j bs] by (cases "b = a"; auto)+
  qed
  then show ?case
    using p(4) unfolding p(1) nat_int of_nat_add by blast
next
  case (client_null s c n s')
  then show ?case
    using malloc_null by metis
next
  case (client_free s c a)
  then obtain L where L: "holds s L" "agree s L c" by blast
  then have "a \<in> fst ` L"
    using client_free(2) by (simp add: agree_def)
  then obtain n where n: "(a, n) \<in> L" by force
  have only: "b \<noteq> a" if "(b, j) \<in> L - {(a, n)}" for b j
    using apart [OF L(1) n, of b j] that by auto
  note f = free_block [OF L(1) n]
  have "agree (free (int a) s) (L - {(a, n)}) (c(a := None))"
    unfolding agree_def
  proof (intro conjI allI impI)
    have "fst ` (L - {(a, n)}) = fst ` L - {a}"
      using only by force
    then show "fst ` (L - {(a, n)}) = dom (c(a := None))"
      using L(2) by (auto simp: agree_def)
  next
    fix b j bs
    assume b: "(b, j) \<in> L - {(a, n)}" "(c(a := None)) b = Some bs"
    then show "length bs \<le> j" "bs = map (\<lambda>i. cont (free (int a) s) (int (b + i))) [0..<length bs]"
      using agree_kept [OF L(2) _ conjunct2 [OF f], of b j bs] by (auto split: if_splits)
  qed
  then show ?case
    using f by blast
next
  case (client_store s c a bs i v)
  then obtain L where L: "holds s L" "agree s L c" by blast
  then have "a \<in> fst ` L"
    using client_store(2) by (auto simp: agree_def)
  then obtain n where "(a, n) \<in> L" by force
  then have n: "(a, n) \<in> L" "length bs \<le> n"
    using L(2) client_store(2) by (auto simp: agree_def)
  have st: "holds (store (int (a + i)) v s) L" "cont (store (int (a + i)) v s) = (cont s)(int (a + i) := v)"
    using store_byte [OF L(1) n(1), of "int (a + i)" v] n(2) client_store(3) by auto
  have "agree (store (int (a + i)) v s) L (c(a \<mapsto> bs[i := v]))"
    unfolding agree_def
  proof (intro conjI allI impI)
    show "fst ` L = dom (c(a \<mapsto> bs[i := v]))"
      using L(2) client_store(2) by (auto simp: agree_def)
  next
    fix b j cs
    assume b: "(b, j) \<in> L" "(c(a \<mapsto> bs[i := v])) b = Some cs"
    have ab: "b = a \<or> a + n \<le> b \<or> b + j \<le> a"
      using apart [OF L(1) n(1) b(1)] by auto
    show "length cs \<le> j" "cs = map (\<lambda>k. cont (store (int (a + i)) v s) (int (b + k))) [0..<length cs]"
    proof -
      have old: "length ds \<le> j \<and> ds = map (\<lambda>k. cont s (int (b + k))) [0..<length ds]" if "c b = Some ds" for ds
        using L(2) b(1) that by (simp add: agree_def)
      show "length cs \<le> j"
        using old b(2) client_store(2) by (cases "b = a") auto
      show "cs = map (\<lambda>k. cont (store (int (a + i)) v s) (int (b + k))) [0..<length cs]"
      proof (cases "b = a")
        case True
        then have cs: "cs = bs[i := v]"
          using b(2) by simp
        have "bs ! k = cont s (int (a + k))" if "k < length bs" for k
          using arg_cong [OF conjunct2 [OF old], of bs "\<lambda>ds. ds ! k"] client_store(2) True that by simp
        then show ?thesis
          using True client_store(3) unfolding st(2) cs by (intro nth_equalityI) (auto simp: nth_list_update)
      next
        case False
        then have "cs = map (\<lambda>k. cont s (int (b + k))) [0..<length cs]" "length cs \<le> j"
          using old b(2) by auto
        moreover have "cont (store (int (a + i)) v s) (int (b + k)) = cont s (int (b + k))" if "k < length cs" for k
          using that ab False n(2) client_store(3) \<open>length cs \<le> j\<close> unfolding st(2) by auto
        then have "map (\<lambda>k. cont (store (int (a + i)) v s) (int (b + k))) [0..<length cs] = map (\<lambda>k. cont s (int (b + k))) [0..<length cs]"
          by simp
        ultimately show ?thesis
          by simp
      qed
    qed
  qed
  then show ?case
    using st by blast
qed

end

end
