(* ===== verification/Mem.thy ===== *)
theory Mem
  imports Pbuf Allocator
begin

text \<open>
  The heap of lwIP, \<open>core/mem.c\<close>, as configured (\<open>MEM_SIZE\<close> 10240, \<open>MEM_ALIGNMENT\<close> 4, no overflow or
  sanity checks, \<open>NO_SYS\<close>, so that the mutex and the protection macros are empty): \<open>mem_init\<close>,
  \<open>mem_malloc\<close>, \<open>mem_calloc\<close>, \<open>mem_trim\<close>, \<open>mem_free\<close>, \<open>plug_holes\<close>. The structures \<open>struct mem\<close> lie in the
  memory that they manage: \<open>ram h\<close> is that memory, byte by byte, and a pointer is its distance to
  the variable \<open>ram\<close> of the code, which is aligned. A result \<open>None\<close> is a search that never ends.

  A consistent heap represents a list of blocks; the theorems say what each operation does to this
  list and that no operation touches the content of a block in use.
\<close>

section \<open>Memory and the structures in it\<close>

type_synonym bytes = "int \<Rightarrow> u8"

record mem_heap =
  ram :: bytes
  lfree :: int

definition MEM_SIZE_ALIGNED :: u32 where "MEM_SIZE_ALIGNED = LWIP_MEM_ALIGN_SIZE (10 * 1024)"
definition SIZEOF_STRUCT_MEM :: u32 where "SIZEOF_STRUCT_MEM = LWIP_MEM_ALIGN_SIZE 6"
definition MIN_SIZE_ALIGNED :: u32 where "MIN_SIZE_ALIGNED = LWIP_MEM_ALIGN_SIZE 12"

definition ptr_to_mem :: "u16 \<Rightarrow> int" where "ptr_to_mem p = uint p"
definition mem_to_ptr :: "int \<Rightarrow> u16" where "mem_to_ptr p = word_of_int p"

definition ram_end :: int where "ram_end = uint MEM_SIZE_ALIGNED"

text \<open>The members of \<open>struct mem\<close>: \<open>next\<close> and \<open>prev\<close> (16 bits, little endian) and \<open>used\<close>.\<close>

definition mem_next :: "bytes \<Rightarrow> int \<Rightarrow> u16" where "mem_next m p = load16 (m p) (m (p + 1))"
definition mem_prev :: "bytes \<Rightarrow> int \<Rightarrow> u16" where "mem_prev m p = load16 (m (p + 2)) (m (p + 3))"
definition mem_used :: "bytes \<Rightarrow> int \<Rightarrow> u8" where "mem_used m p = m (p + 4)"

definition put16 :: "int \<Rightarrow> u16 \<Rightarrow> bytes \<Rightarrow> bytes" where
  "put16 p v m = m(p := to_u8 v, p + 1 := to_u8 (drop_bit 8 v))"

definition set_next :: "int \<Rightarrow> u16 \<Rightarrow> bytes \<Rightarrow> bytes" where "set_next p v = put16 p v"
definition set_prev :: "int \<Rightarrow> u16 \<Rightarrow> bytes \<Rightarrow> bytes" where "set_prev p v = put16 (p + 2) v"
definition set_used :: "int \<Rightarrow> u8 \<Rightarrow> bytes \<Rightarrow> bytes" where "set_used p v m = m(p + 4 := v)"

text \<open>\<open>if (n != MEM_SIZE_ALIGNED) ptr_to_mem(n)->prev = p\<close>, which the code has in five places.\<close>

definition link_back :: "u16 \<Rightarrow> u16 \<Rightarrow> bytes \<Rightarrow> bytes" where
  "link_back n p m = (if to_u32 n \<noteq> MEM_SIZE_ALIGNED then set_prev (ptr_to_mem n) p m else m)"

section \<open>Operations\<close>

definition plug_holes :: "int \<Rightarrow> mem_heap \<Rightarrow> mem_heap" where
  "plug_holes mem h =
     (let nmem = ptr_to_mem (mem_next (ram h) mem);
          h1 = (if mem \<noteq> nmem \<and> mem_used (ram h) nmem = 0 \<and> nmem \<noteq> ram_end
                then let m1 = set_next mem (mem_next (ram h) nmem) (ram h)
                     in h\<lparr>lfree := (if lfree h = nmem then mem else lfree h),
                          ram := link_back (mem_next m1 nmem) (mem_to_ptr mem) m1\<rparr>
                else h);
          pmem = ptr_to_mem (mem_prev (ram h1) mem)
      in if pmem \<noteq> mem \<and> mem_used (ram h1) pmem = 0
         then let m1 = set_next pmem (mem_next (ram h1) mem) (ram h1)
              in h1\<lparr>lfree := (if lfree h1 = mem then pmem else lfree h1),
                    ram := link_back (mem_next m1 mem) (mem_to_ptr pmem) m1\<rparr>
         else h1)"

text \<open>The argument is the memory as it is at the start.\<close>

definition mem_init :: "bytes \<Rightarrow> mem_heap" where
  "mem_init m =
     \<lparr>ram = set_prev ram_end (to_u16 MEM_SIZE_ALIGNED) (set_next ram_end (to_u16 MEM_SIZE_ALIGNED) (set_used ram_end 1
              (set_used 0 0 (set_prev 0 0 (set_next 0 (to_u16 MEM_SIZE_ALIGNED) m))))),
      lfree = 0\<rparr>"

definition mem_link_valid :: "int \<Rightarrow> bytes \<Rightarrow> bool" where
  "mem_link_valid mem m =
     (let rmem_idx = mem_to_ptr mem; nmem = ptr_to_mem (mem_next m mem); pmem = ptr_to_mem (mem_prev m mem)
      in \<not> (to_u32 (mem_next m mem) > MEM_SIZE_ALIGNED \<or> to_u32 (mem_prev m mem) > MEM_SIZE_ALIGNED
            \<or> mem_prev m mem \<noteq> rmem_idx \<and> mem_next m pmem \<noteq> rmem_idx
            \<or> nmem \<noteq> ram_end \<and> mem_prev m nmem \<noteq> rmem_idx))"

text \<open>The argument \<open>None\<close> is the null pointer.\<close>

definition mem_free :: "int option \<Rightarrow> mem_heap \<Rightarrow> mem_heap" where
  "mem_free rmem h =
     (case rmem of
        None \<Rightarrow> h
      | Some p \<Rightarrow>
          if p mod 4 \<noteq> 0 then h
          else
            let mem = p - uint SIZEOF_STRUCT_MEM
            in if mem < 0 \<or> p + uint MIN_SIZE_ALIGNED > ram_end then h
               else if mem_used (ram h) mem = 0 then h
               else if \<not> mem_link_valid mem (ram h) then h
               else plug_holes mem (h\<lparr>ram := set_used mem 0 (ram h), lfree := (if mem < lfree h then mem else lfree h)\<rparr>))"

text \<open>The size asked for, rounded up: \<open>None\<close> when it is refused.\<close>

definition block_size :: "u16 \<Rightarrow> u16 option" where
  "block_size n =
     (let a = to_u16 (LWIP_MEM_ALIGN_SIZE (to_u32 n));
          sz = (if to_u32 a < MIN_SIZE_ALIGNED then to_u16 MIN_SIZE_ALIGNED else a)
      in if to_u32 sz > MEM_SIZE_ALIGNED \<or> sz < n then None else Some sz)"

definition mem_trim :: "int \<Rightarrow> u16 \<Rightarrow> mem_heap \<Rightarrow> int option \<times> mem_heap" where
  "mem_trim rmem new_size h =
     (case block_size new_size of
        None \<Rightarrow> (None, h)
      | Some newsize \<Rightarrow>
          if rmem < 0 \<or> rmem \<ge> ram_end then (Some rmem, h)
          else
            let mem = rmem - uint SIZEOF_STRUCT_MEM; ptr = mem_to_ptr mem;
                sz = to_u16 (to_u32 (mem_next (ram h) mem - ptr) - SIZEOF_STRUCT_MEM)
            in if newsize > sz then (None, h)
               else if newsize = sz then (Some rmem, h)
               else
                 let mem2 = ptr_to_mem (mem_next (ram h) mem);
                     ptr2 = to_u16 (to_u32 ptr + SIZEOF_STRUCT_MEM + to_u32 newsize);
                     new2 = ptr_to_mem ptr2
                 in if mem_used (ram h) mem2 = 0
                    then let next' = mem_next (ram h) mem2;
                             m1 = set_next mem ptr2 (set_prev new2 ptr (set_next new2 next' (set_used new2 0 (ram h))))
                         in (Some rmem, h\<lparr>lfree := (if lfree h = mem2 then new2 else lfree h),
                                          ram := link_back (mem_next m1 new2) ptr2 m1\<rparr>)
                    else if to_u32 newsize + SIZEOF_STRUCT_MEM + MIN_SIZE_ALIGNED \<le> to_u32 sz
                    then let m0 = set_used new2 0 (ram h);
                             m1 = set_next mem ptr2 (set_prev new2 ptr (set_next new2 (mem_next m0 mem) m0))
                         in (Some rmem, h\<lparr>lfree := (if new2 < lfree h then new2 else lfree h),
                                          ram := link_back (mem_next m1 new2) ptr2 m1\<rparr>)
                    else (Some rmem, h))"

text \<open>The two loops of \<open>mem_malloc\<close>: the search for a hole, and for the next free block.\<close>

partial_function (option) find_hole :: "bytes \<Rightarrow> u16 \<Rightarrow> u16 \<Rightarrow> u16 option option" where
  "find_hole m sz ptr =
     (if to_u32 ptr < MEM_SIZE_ALIGNED - to_u32 sz
      then if mem_used m (ptr_to_mem ptr) = 0
              \<and> to_u32 (mem_next m (ptr_to_mem ptr)) - (to_u32 ptr + SIZEOF_STRUCT_MEM) \<ge> to_u32 sz
           then Some (Some ptr)
           else find_hole m sz (mem_next m (ptr_to_mem ptr))
      else Some None)"

partial_function (option) next_free :: "bytes \<Rightarrow> int \<Rightarrow> int option" where
  "next_free m cur =
     (if mem_used m cur \<noteq> 0 \<and> cur \<noteq> ram_end then next_free m (ptr_to_mem (mem_next m cur)) else Some cur)"

definition take_hole :: "u16 \<Rightarrow> u16 \<Rightarrow> bytes \<Rightarrow> bytes" where
  "take_hole sz ptr m =
     (let mem = ptr_to_mem ptr
      in if to_u32 (mem_next m mem) - (to_u32 ptr + SIZEOF_STRUCT_MEM) \<ge> to_u32 sz + SIZEOF_STRUCT_MEM + MIN_SIZE_ALIGNED
         then let ptr2 = to_u16 (to_u32 ptr + SIZEOF_STRUCT_MEM + to_u32 sz);
                  mem2 = ptr_to_mem ptr2;
                  m0 = set_used mem2 0 m;
                  m1 = set_prev mem2 ptr (set_next mem2 (mem_next m0 mem) m0);
                  m2 = set_used mem 1 (set_next mem ptr2 m1)
              in link_back (mem_next m2 mem2) ptr2 m2
         else set_used mem 1 m)"

definition mem_malloc :: "u16 \<Rightarrow> mem_heap \<Rightarrow> (int option \<times> mem_heap) option" where
  "mem_malloc size_in h =
     (if size_in = 0 then Some (None, h)
      else
        (case block_size size_in of
           None \<Rightarrow> Some (None, h)
         | Some sz \<Rightarrow>
             (case find_hole (ram h) sz (mem_to_ptr (lfree h)) of
                None \<Rightarrow> None
              | Some None \<Rightarrow> Some (None, h)
              | Some (Some ptr) \<Rightarrow>
                  let mem = ptr_to_mem ptr; m1 = take_hole sz ptr (ram h)
                  in map_option (\<lambda>l. (Some (mem + uint SIZEOF_STRUCT_MEM), h\<lparr>ram := m1, lfree := l\<rparr>))
                       (if mem = lfree h then next_free m1 (lfree h) else Some (lfree h)))))"

text \<open>\<open>size_t\<close> has 32 bits.\<close>

definition mem_calloc :: "u16 \<Rightarrow> u16 \<Rightarrow> mem_heap \<Rightarrow> (int option \<times> mem_heap) option" where
  "mem_calloc count sz h =
     (let alloc_size = to_u32 count * to_u32 sz
      in if to_u32 (to_u16 alloc_size) \<noteq> alloc_size then Some (None, h)
         else
           map_option
             (\<lambda>(p, h1). case p of
                None \<Rightarrow> (None, h1)
              | Some q \<Rightarrow> (Some q, h1\<lparr>ram := (\<lambda>i. if q \<le> i \<and> i < q + uint alloc_size then 0 else ram h1 i)\<rparr>))
             (mem_malloc (to_u16 alloc_size) h))"


section \<open>Reading and writing the structures\<close>

lemma mem_constants [simp]: "MEM_SIZE_ALIGNED = 10240" "SIZEOF_STRUCT_MEM = 8" "MIN_SIZE_ALIGNED = 12" "ram_end = 10240"
  by (simp_all add: MEM_SIZE_ALIGNED_def SIZEOF_STRUCT_MEM_def MIN_SIZE_ALIGNED_def ram_end_def LWIP_MEM_ALIGN_SIZE_def)

lemma load16_split: "load16 (to_u8 v) (to_u8 (drop_bit 8 v)) = v"
  unfolding load16_def by (intro bit_word_eqI) (auto simp: bit_simps)

lemma ptr_to_mem_of_nat: "n < 65536 \<Longrightarrow> ptr_to_mem (of_nat n) = int n"
  by (simp add: ptr_to_mem_def unsigned_of_nat take_bit_nat_eq_self)

lemma mem_to_ptr_int [simp]: "mem_to_ptr (int n) = of_nat n"
  by (simp add: mem_to_ptr_def)

definition far :: "int \<Rightarrow> int \<Rightarrow> bool" where
  "far p q \<longleftrightarrow> p + 5 \<le> q \<or> q + 5 \<le> p"

lemmas mem_access_defs = mem_next_def mem_prev_def mem_used_def set_next_def set_prev_def set_used_def put16_def

lemma mem_same [simp]:
  "mem_next (set_next p v m) p = v" "mem_next (set_prev p v m) p = mem_next m p" "mem_next (set_used p w m) p = mem_next m p"
  "mem_prev (set_next p v m) p = mem_prev m p" "mem_prev (set_prev p v m) p = v" "mem_prev (set_used p w m) p = mem_prev m p"
  "mem_used (set_next p v m) p = mem_used m p" "mem_used (set_prev p v m) p = mem_used m p" "mem_used (set_used p w m) p = w"
  by (simp_all add: mem_access_defs load16_split)

lemma mem_far [simp]:
  assumes "far p q"
  shows "mem_next (set_next p v m) q = mem_next m q" "mem_next (set_prev p v m) q = mem_next m q" "mem_next (set_used p w m) q = mem_next m q"
  "mem_prev (set_next p v m) q = mem_prev m q" "mem_prev (set_prev p v m) q = mem_prev m q" "mem_prev (set_used p w m) q = mem_prev m q"
  "mem_used (set_next p v m) q = mem_used m q" "mem_used (set_prev p v m) q = mem_used m q" "mem_used (set_used p w m) q = mem_used m q"
  using assms by (auto simp: mem_access_defs far_def)

lemma mem_byte:
  "i < p \<or> p + 5 \<le> i \<Longrightarrow> set_next p v m i = m i" "i < p \<or> p + 5 \<le> i \<Longrightarrow> set_prev p v m i = m i"
  "i < p \<or> p + 5 \<le> i \<Longrightarrow> set_used p w m i = m i"
  by (auto simp: mem_access_defs)

text \<open>The byte \<open>i\<close> belongs to the structure at \<open>p\<close>.\<close>

definition near :: "nat \<Rightarrow> int \<Rightarrow> bool" where
  "near p i \<longleftrightarrow> int p \<le> i \<and> i < int p + 5"

lemma not_near:
  assumes "\<not> near p i"
  shows "set_next (int p) v m i = m i" "set_prev (int p) v m i = m i" "set_used (int p) w m i = m i"
  using assms by (auto simp: near_def mem_byte)

lemma far_int: "far (int a) (int b) \<longleftrightarrow> a + 5 \<le> b \<or> b + 5 \<le> a"
  by (auto simp: far_def)

section \<open>The blocks that a heap represents\<close>

text \<open>A block is its length, header included, and whether it is in use.\<close>

type_synonym block = "nat \<times> bool"

definition tot :: "block list \<Rightarrow> nat" where
  "tot bs = sum_list (map fst bs)"

lemma tot_simps [simp]: "tot [] = 0" "tot (b # bs) = fst b + tot bs" "tot (xs @ ys) = tot xs + tot ys"
  by (simp_all add: tot_def)

definition hdr :: "bytes \<Rightarrow> nat \<Rightarrow> nat \<Rightarrow> nat \<Rightarrow> bool \<Rightarrow> bool" where
  "hdr m p q n u \<longleftrightarrow> mem_next m (int p) = of_nat n \<and> mem_prev m (int p) = of_nat q \<and> mem_used m (int p) = of_bool u"

text \<open>\<open>chain m q p bs\<close>: from offset \<open>p\<close> on lie the blocks \<open>bs\<close>, the block before them is at \<open>q\<close>.\<close>

fun chain :: "bytes \<Rightarrow> nat \<Rightarrow> nat \<Rightarrow> block list \<Rightarrow> bool" where
  "chain m q p [] \<longleftrightarrow> True"
| "chain m q p ((l, u) # bs) \<longleftrightarrow> hdr m p q (p + l) u \<and> 20 \<le> l \<and> 4 dvd l \<and> chain m p (p + l) bs"

fun last_at :: "nat \<Rightarrow> nat \<Rightarrow> block list \<Rightarrow> nat" where
  "last_at q p [] = q"
| "last_at q p ((l, u) # bs) = last_at p (p + l) bs"

lemma last_at_snoc [simp]: "last_at q p (bs @ [b]) = p + tot bs"
  by (induction q p bs rule: last_at.induct) (cases b; simp)+

lemma chain_append [simp]:
  "chain m q p (xs @ ys) \<longleftrightarrow> chain m q p xs \<and> chain m (last_at q p xs) (p + tot xs) ys"
  by (induction m q p xs rule: chain.induct) (auto simp: add.assoc)

lemma hdr_cong: "(\<And>i. int p \<le> i \<Longrightarrow> i < int p + 5 \<Longrightarrow> m' i = m i) \<Longrightarrow> hdr m' p q n u = hdr m p q n u"
  by (simp add: hdr_def mem_access_defs)

lemma chain_cong:
  "chain m q p bs \<Longrightarrow> (\<And>i. int p \<le> i \<Longrightarrow> i < int (p + tot bs) \<Longrightarrow> m' i = m i) \<Longrightarrow> chain m' q p bs"
proof (induction m q p bs rule: chain.induct)
  case (2 m q p l u bs)
  have "hdr m' p q (p + l) u = hdr m p q (p + l) u"
    by (rule hdr_cong) (use 2(2,3) in auto)
  then show ?case
    using 2 by auto
qed simp

text \<open>A new neighbour in front: the blocks behind get a new \<open>prev\<close>, unless there are none.\<close>

lemma link_back_byte: "i < int n \<or> int n + 5 \<le> i \<Longrightarrow> n < 65536 \<Longrightarrow> link_back (of_nat n) v m i = m i"
  by (auto simp: link_back_def ptr_to_mem_of_nat mem_byte)

lemma to_u32_eq: "n < 65536 \<Longrightarrow> to_u32 (of_nat n :: u16) = numeral k \<longleftrightarrow> n = unat (numeral k :: u32)"
  by (metis unat_ucast_u16_u32 unat_of_nat_u16 word_unat_eq_iff)

lemma link_back_not_near: "\<not> near n i \<or> n = 10240 \<Longrightarrow> n < 65536 \<Longrightarrow> link_back (of_nat n) v m i = m i"
  by (auto simp: link_back_def ptr_to_mem_of_nat not_near to_u32_eq)

lemma chain_link_back:
  assumes "chain m q p bs" "p + tot bs = 10240" "\<And>i. int p \<le> i \<Longrightarrow> i < 10240 \<Longrightarrow> m' i = m i"
  shows "chain (link_back (of_nat p) (of_nat r) m') r p bs"
proof (cases bs)
  case (Cons b bs')
  obtain l u where b: "b = (l, u)" by force
  have lt: "p < 10240" "to_u32 (of_nat p :: u16) \<noteq> 10240"
    using assms(1,2) Cons b by (auto simp: to_u32_eq)
  have c: "chain m' q p bs"
    using chain_cong [OF assms(1), of m'] assms(2,3) by simp
  have "chain (set_prev (int p) (of_nat r) m') p (p + l) bs'"
    by (rule chain_cong [of m']) (use c Cons b in \<open>auto simp: mem_byte\<close>)
  then show ?thesis
    using c lt by (simp add: Cons b link_back_def ptr_to_mem_of_nat hdr_def)
qed simp


lemma hdr_link_back: "p + 5 \<le> n \<Longrightarrow> n < 65536 \<Longrightarrow> hdr (link_back (of_nat n) v m) p q k u = hdr m p q k u"
  by (rule hdr_cong) (simp add: link_back_byte)

text \<open>One or two new headers in front of unchanged blocks.\<close>

lemma chain_one:
  assumes "chain m q0 r ys" "r + tot ys = 10240" "\<And>i. int r \<le> i \<Longrightarrow> i < 10240 \<Longrightarrow> m1 i = m i"
    and "hdr m1 p q r u" "p + 20 \<le> r" "4 dvd r - p"
  shows "chain (link_back (of_nat r) (of_nat p) m1) q p ((r - p, u) # ys)"
  using chain_link_back [OF assms(1-3)] assms(2,4-) by (simp add: hdr_link_back)

lemma chain_two:
  assumes "chain m q0 r ys" "r + tot ys = 10240" "\<And>i. int r \<le> i \<Longrightarrow> i < 10240 \<Longrightarrow> m1 i = m i"
    and "hdr m1 p q k u" "hdr m1 k p r v" "p + 20 \<le> k" "k + 20 \<le> r" "4 dvd k - p" "4 dvd r - k"
  shows "chain (link_back (of_nat r) (of_nat k) m1) q p ((k - p, u) # (r - k, v) # ys)"
  using chain_link_back [OF assms(1-3)] assms(2,4-) by (simp add: hdr_link_back) linarith

text \<open>The first free block, or the end.\<close>

fun first_free :: "nat \<Rightarrow> block list \<Rightarrow> nat" where
  "first_free p [] = p"
| "first_free p ((l, u) # bs) = (if u then first_free (p + l) bs else p)"

lemma first_free_append:
  "first_free p (xs @ ys) = (if \<exists>b\<in>set xs. \<not> snd b then first_free p xs else first_free (p + tot xs) ys)"
  by (induction p xs rule: first_free.induct) (auto simp: add.assoc)

lemma first_free_bounds: "p \<le> first_free p bs" "first_free p bs \<le> p + tot bs"
  by (induction p bs rule: first_free.induct) (auto simp: add.assoc)

lemma first_free_less: "chain m q p xs \<Longrightarrow> \<exists>b\<in>set xs. \<not> snd b \<Longrightarrow> first_free p xs < p + tot xs"
proof (induction m q p xs rule: chain.induct)
  case (2 m q p l u bs)
  then show ?case
    by (cases u) (auto simp: add.assoc)
qed simp

text \<open>
  \<open>rep h bs\<close>: the heap \<open>h\<close> is consistent and consists of the blocks \<open>bs\<close>; no two free blocks are
  neighbours and \<open>lfree\<close> is the first free block.
\<close>

definition rep :: "mem_heap \<Rightarrow> block list \<Rightarrow> bool" where
  "rep h bs \<longleftrightarrow> chain (ram h) 0 0 bs \<and> tot bs = 10240 \<and> mem_used (ram h) 10240 = 1
     \<and> successively (\<lambda>a b. snd a \<or> snd b) bs \<and> lfree h = int (first_free 0 bs)"

section \<open>The two searches\<close>

fun fits_at :: "nat \<Rightarrow> nat \<Rightarrow> block list \<Rightarrow> nat option" where
  "fits_at n p [] = None"
| "fits_at n p ((l, u) # bs) = (if \<not> u \<and> n + 8 \<le> l then Some p else fits_at n (p + l) bs)"

lemma fits_at_late: "p + tot bs \<le> 10240 \<Longrightarrow> 10240 \<le> p + n \<Longrightarrow> fits_at n p bs = None"
  by (induction n p bs rule: fits_at.induct) auto

lemma unat_diff_u32: "b \<le> a \<Longrightarrow> a < 4294967296 \<Longrightarrow> unat (of_nat a - of_nat b :: u32) = a - b"
  by (simp add: of_nat_diff [symmetric] unat_of_nat_u32 del: of_nat_diff)

lemma to_u32_of_nat: "n < 65536 \<Longrightarrow> to_u32 (of_nat n :: u16) = of_nat n"
  by (simp add: word_unat_eq_iff unat_of_nat_u16 unat_of_nat_u32)

text \<open>What fits between the header at \<open>p\<close> and the next one, as the code computes it.\<close>

lemma gap_u32: "p + 8 \<le> n \<Longrightarrow> n < 65536
    \<Longrightarrow> unat (to_u32 (of_nat n :: u16) - (to_u32 (of_nat p :: u16) + 8)) = n - (p + 8)"
  using unat_diff_u32 [of "p + 8" n] by (simp add: to_u32_of_nat)

lemma find_hole_result:
  "chain m q p bs \<Longrightarrow> p + tot bs = 10240 \<Longrightarrow> unat sz \<le> 10240
    \<Longrightarrow> find_hole m sz (of_nat p) = Some (map_option of_nat (fits_at (unat sz) p bs))"
proof (induction m q p bs rule: chain.induct)
  case (1 m q p)
  then have "\<not> to_u32 (10240 :: u16) < 10240 - to_u32 sz"
    by (simp add: word_less_nat_alt unat_minus_le word_le_nat_alt)
  with 1 show ?case
    by (subst find_hole.simps) simp
next
  case (2 m q p l u bs)
  have p: "p < 10240" "p + l \<le> 10240" "p < 65536" "p + l < 65536"
    using 2(2,3) by auto
  have loop: "to_u32 (of_nat p :: u16) < 10240 - to_u32 sz \<longleftrightarrow> p < 10240 - unat sz"
    using p 2(4) by (simp add: word_less_nat_alt unat_minus_le word_le_nat_alt unat_of_nat_u16)
  have gap: "to_u32 sz \<le> to_u32 (of_nat (p + l) :: u16) - (to_u32 (of_nat p :: u16) + 8) \<longleftrightarrow> unat sz + 8 \<le> l"
    using gap_u32 [of p "p + l"] 2(2) p(4) by (simp add: word_le_nat_alt) linarith
  have h: "mem_next m (int p) = of_nat (p + l)" "mem_used m (int p) = 0 \<longleftrightarrow> \<not> u"
    using 2(2) by (simp_all add: hdr_def)
  have IH: "find_hole m sz (of_nat (p + l)) = Some (map_option of_nat (fits_at (unat sz) (p + l) bs))"
    using 2 by (simp add: add.assoc)
  show ?case
  proof (cases "p < 10240 - unat sz")
    case True
    then show ?thesis
      using gap IH by (subst find_hole.simps) (simp add: loop h ptr_to_mem_of_nat p)
  next
    case False
    then have "fits_at (unat sz) p ((l, u) # bs) = None"
      using 2(3) by (intro fits_at_late) auto
    then show ?thesis
      using False by (subst find_hole.simps) (simp add: loop)
  qed
qed

lemma next_free_result:
  "chain m q p bs \<Longrightarrow> p + tot bs = 10240 \<Longrightarrow> mem_used m 10240 = 1 \<Longrightarrow> next_free m (int p) = Some (int (first_free p bs))"
proof (induction m q p bs rule: chain.induct)
  case (1 m q p)
  then show ?case
    by (subst next_free.simps) simp
next
  case (2 m q p l u bs)
  then have p: "p + l < 65536" "int p \<noteq> 10240" by auto
  have h: "mem_next m (int p) = of_nat (p + l)" "mem_used m (int p) = 0 \<longleftrightarrow> \<not> u"
    using 2(2) by (simp_all add: hdr_def)
  have "next_free m (int (p + l)) = Some (int (first_free (p + l) bs))"
    using 2 by (simp add: add.assoc)
  then show ?case
    using p ptr_to_mem_of_nat [OF p(1)] by (subst next_free.simps) (simp add: h)
qed

text \<open>The search starts at the first free block, and finds what it would find from the start.\<close>

lemma fits_at_append:
  "fits_at n p (xs @ ys) = (case fits_at n p xs of None \<Rightarrow> fits_at n (p + tot xs) ys | Some k \<Rightarrow> Some k)"
  by (induction n p xs rule: fits_at.induct) (auto simp: add.assoc split: option.split)

lemma first_free_split:
  "\<exists>xs ys. bs = xs @ ys \<and> (\<forall>b\<in>set xs. snd b) \<and> first_free p bs = p + tot xs"
proof (induction p bs rule: first_free.induct)
  case (2 p l u bs)
  show ?case
  proof (cases u)
    case True
    then obtain xs ys where "bs = xs @ ys" "\<forall>b\<in>set xs. snd b" "first_free (p + l) bs = p + l + tot xs"
      using 2 by blast
    then show ?thesis
      using True by (intro exI [of _ "(l, u) # xs"] exI [of _ ys]) simp
  qed (intro exI [of _ "[]"] exI [of _ "(l, u) # bs"]; simp)
qed simp

lemma fits_at_used: "\<forall>b\<in>set xs. snd b \<Longrightarrow> fits_at n p xs = None"
  by (induction n p xs rule: fits_at.induct) auto

lemma rep_find_hole:
  assumes "rep h bs" "unat sz \<le> 10240"
  shows "find_hole (ram h) sz (mem_to_ptr (lfree h)) = Some (map_option of_nat (fits_at (unat sz) 0 bs))"
proof -
  obtain xs ys where xy: "bs = xs @ ys" "\<forall>b\<in>set xs. snd b" "first_free 0 bs = tot xs"
    using first_free_split [of bs 0] by auto
  then show ?thesis
    using assms find_hole_result [of "ram h" "last_at 0 0 xs" "tot xs" ys sz]
    by (simp add: rep_def fits_at_append fits_at_used)
qed

lemma fits_at_split:
  assumes "fits_at n p bs = Some k"
  shows "\<exists>xs l ys. bs = xs @ (l, False) # ys \<and> k = p + tot xs \<and> n + 8 \<le> l"
  using assms
proof (induction n p bs rule: fits_at.induct)
  case (2 n p l u bs)
  show ?case
  proof (cases "\<not> u \<and> n + 8 \<le> l")
    case True
    then show ?thesis
      using 2(2) by (intro exI [of _ "[]"] exI [of _ l] exI [of _ bs]) simp
  next
    case False
    then obtain xs l' ys where "bs = xs @ (l', False) # ys" "k = p + l + tot xs" "n + 8 \<le> l'"
      using 2 by auto
    then show ?thesis
      by (intro exI [of _ "(l, u) # xs"] exI [of _ l'] exI [of _ ys]) simp
  qed
qed simp


section \<open>Allocation\<close>

text \<open>The addresses of the content of the blocks in use, and these blocks.\<close>

fun data :: "nat \<Rightarrow> block list \<Rightarrow> int set" where
  "data p [] = {}"
| "data p ((l, u) # bs) = (if u then {int p + 8..<int (p + l)} else {}) \<union> data (p + l) bs"

fun live :: "nat \<Rightarrow> block list \<Rightarrow> (nat \<times> nat) list" where
  "live p [] = []"
| "live p ((l, u) # bs) = (if u then [(p + 8, l - 8)] else []) @ live (p + l) bs"

lemma data_append [simp]: "data p (xs @ ys) = data p xs \<union> data (p + tot xs) ys"
  by (induction p xs rule: data.induct) (auto simp: add.assoc)

lemma live_append [simp]: "live p (xs @ ys) = live p xs @ live (p + tot xs) ys"
  by (induction p xs rule: live.induct) (auto simp: add.assoc)

lemma data_bounds: "i \<in> data p bs \<Longrightarrow> int p + 8 \<le> i \<and> i < int (p + tot bs)"
  by (induction p bs rule: data.induct) (fastforce split: if_splits)+

lemma data_live: "data p bs = (\<Union>(a, n)\<in>set (live p bs). {int a..<int (a + n)})"
  by (induction p bs rule: data.induct) auto

lemma to_u16_of_nat: "n < 4294967296 \<Longrightarrow> to_u16 (of_nat n :: u32) = of_nat n"
  by (simp add: unsigned_of_nat take_bit_nat_eq_self)

lemma align_size_nat: "n < 4294967292 \<Longrightarrow> LWIP_MEM_ALIGN_SIZE (of_nat n) = of_nat ((n + 3) div 4 * 4)"
proof -
  assume n: "n < 4294967292"
  have u: "unat (of_nat n + 3 :: u32) = n + 3"
    using n unat_of_nat_u32 [of "n + 3"] by simp
  have t: "unat (take_bit 2 (of_nat n + 3 :: u32)) = (n + 3) mod 4"
    by (simp only: unsigned_take_bit_eq u) (simp add: take_bit_eq_mod)
  have "take_bit 2 (of_nat n + 3 :: u32) \<le> of_nat n + 3"
    by (simp add: word_le_nat_alt u t del: unat_of_nat_u32)
  then have "unat (LWIP_MEM_ALIGN_SIZE (of_nat n)) = n + 3 - (n + 3) mod 4"
    by (simp add: align_eq unat_minus_le u t)
  moreover have "n + 3 - (n + 3) mod 4 = (n + 3) div 4 * 4"
    by (rule minus_mod_eq_div_mult)
  moreover have "unat (of_nat ((n + 3) div 4 * 4) :: u32) = (n + 3) div 4 * 4"
    by (rule unat_of_nat_u32) (use n in linarith)
  ultimately show ?thesis
    by (simp add: word_unat_eq_iff)
qed

definition rounded :: "nat \<Rightarrow> nat" where
  "rounded n = max 12 ((n + 3) div 4 * 4)"

lemma rounded: "12 \<le> rounded n" "4 dvd rounded n" "n \<le> rounded n"
proof -
  show "4 dvd rounded n"
    by (simp add: rounded_def max_def)
  show "n \<le> rounded n"
    unfolding rounded_def by linarith
qed (simp add: rounded_def)

lemma block_size_result: "block_size n = (if rounded (unat n) \<le> 10240 then Some (of_nat (rounded (unat n))) else None)"
proof -
  define k where "k = (unat n + 3) div 4 * 4"
  have k: "k < 65536 \<or> k = 65536 \<and> 65532 < unat n" "unat n \<le> k"
    using unat_u16_less [of n] unfolding k_def by presburger+
  have "to_u16 (of_nat k :: u32) = of_nat k"
    by (rule to_u16_of_nat) (use k(1) in auto)
  then have a: "to_u16 (LWIP_MEM_ALIGN_SIZE (to_u32 n)) = of_nat k"
    using align_size_nat [of "unat n"] unat_u16_less [of n]
    by (simp add: k_def [symmetric] to_u32_of_nat [of "unat n", simplified])
  show ?thesis
  proof (cases "k = 65536")
    case True
    then show ?thesis
      using k unfolding block_size_def a by (simp add: Let_def rounded_def k_def [symmetric] word_less_nat_alt)
  next
    case False
    then have "unat (of_nat k :: u16) = k"
      using k by (intro unat_of_nat_u16) simp
    then show ?thesis
      using k unfolding block_size_def a by (auto simp: Let_def rounded_def k_def [symmetric] word_less_nat_alt max_def)
  qed
qed

lemma take_hole_chain:
  assumes c: "chain m q p ((l, False) # ys)" and e: "p + l + tot ys = 10240"
    and n: "n + 8 \<le> l" "12 \<le> n" "4 dvd n"
  defines "m' \<equiv> take_hole (of_nat n) (of_nat p) m"
  shows "chain m' q p ((if n + 28 \<le> l then [(n + 8, True), (l - (n + 8), False)] else [(l, True)]) @ ys)"
    and "\<not> near p i \<Longrightarrow> (n + 28 \<le> l \<longrightarrow> \<not> near (p + n + 8) i \<and> (p + l = 10240 \<or> \<not> near (p + l) i)) \<Longrightarrow> m' i = m i"
proof -
  have p: "p < 65536" "p + l < 65536" "p + n + 8 < 65536" "n < 65536" "l < 65536"
    using e n by auto
  have h: "mem_next m (int p) = of_nat (p + l)" "mem_prev m (int p) = of_nat q"
    using c by (simp_all add: hdr_def)
  have gap: "to_u32 (of_nat n :: u16) + 8 + 12 \<le> to_u32 (of_nat (p + l) :: u16) - (to_u32 (of_nat p :: u16) + 8) \<longleftrightarrow> n + 28 \<le> l"
    using gap_u32 [of p "p + l"] n p by (simp add: word_le_nat_alt unat_word_ariths unat_of_nat_u16) linarith
  have ptr2: "to_u16 (to_u32 (of_nat p :: u16) + 8 + to_u32 (of_nat n :: u16)) = of_nat (p + n + 8)"
    using p to_u16_of_nat [of "p + n + 8"] by (simp add: to_u32_of_nat ac_simps)
  let ?m0 = "set_used (int (p + n + 8)) 0 m"
  let ?m1 = "set_prev (int (p + n + 8)) (of_nat p) (set_next (int (p + n + 8)) (of_nat (p + l)) ?m0)"
  let ?m2 = "set_used (int p) 1 (set_next (int p) (of_nat (p + n + 8)) ?m1)"
  have f: "far (int p) (int (p + n + 8))" "far (int (p + n + 8)) (int p)"
    using n(2) by (simp_all add: far_def)
  have m': "m' = (if n + 28 \<le> l then link_back (of_nat (p + l)) (of_nat (p + n + 8)) ?m2 else set_used (int p) 1 m)"
    unfolding m'_def take_hole_def mem_constants ptr_to_mem_of_nat [OF p(1)] h gap ptr2 ptr_to_mem_of_nat [OF p(3)] Let_def
    using f h by simp
  show "chain m' q p ((if n + 28 \<le> l then [(n + 8, True), (l - (n + 8), False)] else [(l, True)]) @ ys)"
  proof (cases "n + 28 \<le> l")
    case True
    have h2: "hdr ?m2 p q (p + n + 8) True" "hdr ?m2 (p + n + 8) p (p + l) False"
      using f h by (simp_all only: hdr_def mem_same mem_far of_bool_eq)
    have "chain m' q p ((p + n + 8 - p, True) # (p + l - (p + n + 8), False) # ys)"
      unfolding m' if_P [OF True]
      by (rule chain_two [of m p, OF _ _ _ h2]) (use c e True n in \<open>auto simp: mem_byte dvd_diff_nat\<close>)
    then show ?thesis
      using True by simp
  next
    case False
    have "chain m' p (p + l) ys"
      unfolding m' if_not_P [OF False] by (rule chain_cong [of m]) (use c in \<open>auto simp: mem_byte\<close>)
    then show ?thesis
      using False c unfolding m' by (simp add: hdr_def)
  qed
  assume i: "\<not> near p i" "n + 28 \<le> l \<longrightarrow> \<not> near (p + n + 8) i \<and> (p + l = 10240 \<or> \<not> near (p + l) i)"
  show "m' i = m i"
  proof (cases "n + 28 \<le> l")
    case True
    then show ?thesis
      unfolding m' if_P [OF True] using i p(2) by (subst link_back_not_near) (blast, simp, simp only: not_near simp_thms)
  next
    case False
    then show ?thesis
      unfolding m' if_not_P [OF False] using i(1) by (simp add: not_near)
  qed
qed


text \<open>Bytes of blocks in use are not part of a header.\<close>

lemma data_not_near:
  assumes "i \<in> data p xs"
  shows "\<not> near p i" "p + tot xs \<le> r \<Longrightarrow> \<not> near r i"
  using data_bounds [OF assms] by (auto simp: near_def)

lemma successively_hole:
  assumes "successively (\<lambda>a b. snd a \<or> snd b) (xs @ (l, False) # ys)"
  shows "successively (\<lambda>a b. snd a \<or> snd b) (xs @ (k, True) # (j, False) # ys)"
    "successively (\<lambda>a b. snd a \<or> snd b) (xs @ (k, True) # ys)"
  using assms by (auto simp: successively_append_iff successively_Cons)

lemma mem_malloc_rep:
  assumes rep: "rep h bs" and n: "n \<noteq> 0" "rounded (unat n) \<le> 10240" and fit: "fits_at (rounded (unat n)) 0 bs = Some k"
  defines "s \<equiv> rounded (unat n)"
  shows "\<exists>xs l ys mid h'. bs = xs @ (l, False) # ys \<and> k = tot xs
    \<and> mid = (if s + 28 \<le> l then [(s + 8, True), (l - (s + 8), False)] else [(l, True)]) \<and> s + 8 \<le> l
    \<and> mem_malloc n h = Some (Some (int k + 8), h') \<and> rep h' (xs @ mid @ ys) \<and> (\<forall>i\<in>data 0 bs. ram h' i = ram h i)"
proof -
  obtain xs l ys where bs: "bs = xs @ (l, False) # ys" and k: "k = tot xs" and l: "s + 8 \<le> l"
    using fits_at_split [OF fit] by (auto simp: s_def)
  define mid where "mid = (if s + 28 \<le> l then [(s + 8, True), (l - (s + 8), False)] else [(l, True)])"
  have c: "chain (ram h) 0 0 xs" "chain (ram h) (last_at 0 0 xs) k ((l, False) # ys)" "k + l + tot ys = 10240"
    "mem_used (ram h) 10240 = 1" "lfree h = int (first_free 0 bs)"
    using rep by (simp_all add: rep_def bs k)
  note s = rounded [of "unat n", folded s_def]
  define m' where "m' = take_hole (of_nat s) (of_nat k) (ram h)"
  note taken = take_hole_chain [OF c(2,3) l s(1,2), folded mid_def m'_def]
  have same: "m' i = ram h i" if "i \<in> data 0 bs \<or> i < int k \<or> i = 10244" for i
  proof (rule taken(2))
    have "i \<in> data 0 xs \<or> i \<in> data (k + l) ys \<or> i < int k \<or> i = 10244"
      using that by (auto simp: bs k)
    then show "\<not> near k i" "s + 28 \<le> l \<longrightarrow> \<not> near (k + s + 8) i \<and> (k + l = 10240 \<or> \<not> near (k + l) i)"
      using data_bounds [of i 0 xs] data_bounds [of i "k + l" ys] l c(3) by (auto simp: near_def k)
  qed
  have ch: "chain m' 0 0 (xs @ mid @ ys)" "chain m' (last_at 0 0 xs) k (mid @ ys)"
    using taken(1) chain_cong [OF c(1), of m'] same by (auto simp: k)
  have tot: "tot mid = l"
    using l by (simp add: mid_def)
  have u: "mem_used m' 10240 = 1"
    using same [of 10244] c(4) by (simp add: mem_used_def)
  have nf: "(if int k = lfree h then next_free m' (lfree h) else Some (lfree h)) = Some (int (first_free 0 (xs @ mid @ ys)))"
  proof (cases "\<exists>b\<in>set xs. \<not> snd b")
    case True
    then have "first_free 0 xs < k"
      using first_free_less [OF c(1)] by (simp add: k)
    then show ?thesis
      using True by (simp add: c(5) bs first_free_append)
  next
    case False
    then show ?thesis
      using next_free_result [OF ch(2) _ u] c(3) tot by (simp add: c(5) bs first_free_append k)
  qed
  define h' where "h' = h\<lparr>ram := m', lfree := int (first_free 0 (xs @ mid @ ys))\<rparr>"
  have "mem_malloc n h = Some (Some (int k + 8), h')"
    using n rep_find_hole [OF rep, of "of_nat s"] fit nf c(3) l s(1)
    by (simp add: mem_malloc_def block_size_result s_def [symmetric] unat_of_nat_u16 ptr_to_mem_of_nat m'_def [symmetric] h'_def Let_def)
  moreover have "rep h' (xs @ mid @ ys)"
    using ch(1) u tot c(3) k successively_hole [of xs l ys] rep by (simp add: rep_def h'_def mid_def bs)
  moreover have "\<forall>i\<in>data 0 bs. ram h' i = ram h i"
    using same by (simp add: h'_def)
  ultimately show ?thesis
    using bs k l mid_def by blast
qed

lemma mem_malloc_refused:
  assumes "rep h bs" "n = 0 \<or> rounded (unat n) > 10240 \<or> fits_at (rounded (unat n)) 0 bs = None"
  shows "mem_malloc n h = Some (None, h)"
proof (cases "n = 0 \<or> rounded (unat n) > 10240")
  case False
  then show ?thesis
    using assms rep_find_hole [OF assms(1), of "of_nat (rounded (unat n))"]
    by (simp add: mem_malloc_def block_size_result unat_of_nat_u16)
qed (auto simp: mem_malloc_def block_size_result)


section \<open>Release\<close>

text \<open>The two halves of \<open>plug_holes\<close>.\<close>

definition plug_next :: "int \<Rightarrow> mem_heap \<Rightarrow> mem_heap" where
  "plug_next mem h =
     (let nmem = ptr_to_mem (mem_next (ram h) mem); m1 = set_next mem (mem_next (ram h) nmem) (ram h)
      in if mem \<noteq> nmem \<and> mem_used (ram h) nmem = 0 \<and> nmem \<noteq> ram_end
         then h\<lparr>lfree := (if lfree h = nmem then mem else lfree h), ram := link_back (mem_next m1 nmem) (mem_to_ptr mem) m1\<rparr>
         else h)"

definition plug_prev :: "int \<Rightarrow> mem_heap \<Rightarrow> mem_heap" where
  "plug_prev mem h =
     (let pmem = ptr_to_mem (mem_prev (ram h) mem); m1 = set_next pmem (mem_next (ram h) mem) (ram h)
      in if pmem \<noteq> mem \<and> mem_used (ram h) pmem = 0
         then h\<lparr>lfree := (if lfree h = mem then pmem else lfree h), ram := link_back (mem_next m1 mem) (mem_to_ptr pmem) m1\<rparr>
         else h)"

lemma plug_holes_halves: "plug_holes mem h = plug_prev mem (plug_next mem h)"
  by (simp add: plug_holes_def plug_next_def plug_prev_def Let_def)

definition laid :: "bytes \<Rightarrow> block list \<Rightarrow> bool" where
  "laid m bs \<longleftrightarrow> chain m 0 0 bs \<and> tot bs = 10240 \<and> mem_used m 10240 = 1"

lemma rep_laid: "rep h bs \<longleftrightarrow> laid (ram h) bs \<and> successively (\<lambda>a b. snd a \<or> snd b) bs \<and> lfree h = int (first_free 0 bs)"
  by (auto simp: rep_def laid_def)

text \<open>Two neighbours become one block.\<close>

lemma chain_merge:
  assumes c: "chain m q p ((l, u) # (k, v) # zs)" and e: "p + l + k + tot zs = 10240"
  defines "m' \<equiv> link_back (of_nat (p + l + k)) (of_nat p) (set_next (int p) (of_nat (p + l + k)) m)"
  shows "chain m' q p ((l + k, u) # zs)"
    and "\<not> near p i \<Longrightarrow> p + l + k = 10240 \<or> \<not> near (p + l + k) i \<Longrightarrow> m' i = m i"
proof -
  have "hdr (set_next (int p) (of_nat (p + l + k)) m) p q (p + l + k) u"
    using c by (simp add: hdr_def)
  from chain_one [of m "p + l" "p + l + k" zs _ p q u, OF _ _ _ this] c e
  show "chain m' q p ((l + k, u) # zs)"
    by (simp add: m'_def mem_byte)
  show "\<not> near p i \<Longrightarrow> p + l + k = 10240 \<or> \<not> near (p + l + k) i \<Longrightarrow> m' i = m i"
    unfolding m'_def using e by (subst link_back_not_near) (blast, simp, simp only: not_near simp_thms)
qed

lemma laid_merge:
  assumes "laid m (xs @ (l, u) # (k, v) # zs)"
  defines "p \<equiv> tot xs"
  defines "m' \<equiv> link_back (of_nat (p + l + k)) (of_nat p) (set_next (int p) (of_nat (p + l + k)) m)"
  shows "laid m' (xs @ (l + k, u) # zs)" "i \<in> data 0 xs \<union> data (p + l) ((k, v) # zs) \<union> {int p + 8..<int (p + l)} \<Longrightarrow> m' i = m i"
proof -
  have c: "chain m 0 0 xs" "chain m (last_at 0 0 xs) p ((l, u) # (k, v) # zs)" "p + l + k + tot zs = 10240" "mem_used m 10240 = 1"
    using assms(1) by (simp_all add: laid_def p_def)
  note merged = chain_merge [OF c(2,3), folded m'_def]
  have "chain m' 0 0 xs"
    using chain_cong [OF c(1), of m'] merged(2) c(2,3) by (auto simp: near_def p_def)
  moreover have "m' 10244 = m 10244"
    by (rule merged(2); use c in \<open>cases zs; auto simp: near_def\<close>)
  ultimately show "laid m' (xs @ (l + k, u) # zs)"
    using merged(1) c(3,4) by (simp add: laid_def p_def mem_used_def)
  show "i \<in> data 0 xs \<union> data (p + l) ((k, v) # zs) \<union> {int p + 8..<int (p + l)} \<Longrightarrow> m' i = m i"
    using data_bounds [of i 0 xs] data_bounds [of i "p + l + k" zs] c(2)
    by (intro merged(2)) (auto simp: near_def p_def split: if_splits)
qed

lemma laid_end: "laid m (xs @ (l, u) # ys) \<Longrightarrow> tot xs + l < 65536"
  by (simp add: laid_def)

lemma plug_next_result:
  assumes "laid (ram h) (xs @ (l, False) # ys)" "lfree h \<le> int (tot xs)"
  shows "case ys of
      (k, False) # zs \<Rightarrow> laid (ram (plug_next (int (tot xs)) h)) (xs @ (l + k, False) # zs) \<and> lfree (plug_next (int (tot xs)) h) = lfree h
        \<and> (\<forall>i\<in>data 0 xs \<union> data (tot xs + l) ys. ram (plug_next (int (tot xs)) h) i = ram h i)
    | _ \<Rightarrow> plug_next (int (tot xs)) h = h"
proof -
  let ?p = "tot xs" and ?m = "ram h"
  have c: "chain ?m (last_at 0 0 xs) ?p ((l, False) # ys)" "?p + l + tot ys = 10240" "mem_used ?m 10240 = 1" "?p + l < 65536"
    using assms(1) laid_end [OF assms(1)] by (simp_all add: laid_def)
  have nmem: "ptr_to_mem (mem_next ?m (int ?p)) = int (?p + l)"
    using c(1) ptr_to_mem_of_nat [OF c(4)] by (simp add: hdr_def)
  show ?thesis
  proof (cases ys)
    case Nil
    then have "mem_used ?m (int (?p + l)) = 1"
      using c by simp
    then show ?thesis
      using Nil by (simp add: plug_next_def nmem)
  next
    case (Cons b zs)
    obtain k v where b: "b = (k, v)" by force
    have h: "hdr ?m (?p + l) ?p (?p + l + k) v" "20 \<le> l" "20 \<le> k"
      using c(1) Cons b by simp_all
    have f: "far (int ?p) (int (?p + l))"
      using h by (simp add: far_def)
    show ?thesis
    proof (cases v)
      case True
      then have "mem_used ?m (int (?p + l)) = 1"
        using h by (simp add: hdr_def)
      then show ?thesis
        using Cons b True by (simp add: plug_next_def nmem)
    next
      case False
      have "mem_used ?m (int (?p + l)) = 0" "mem_next ?m (int (?p + l)) = of_nat (?p + l + k)"
        using h(1) False by (simp_all add: hdr_def)
      moreover have "int ?p \<noteq> int (?p + l)" "int (?p + l) \<noteq> 10240" "lfree h \<noteq> int (?p + l)"
        using h c(2) Cons b assms(2) by auto
      ultimately have "plug_next (int ?p) h = h\<lparr>ram := link_back (of_nat (?p + l + k)) (of_nat ?p) (set_next (int ?p) (of_nat (?p + l + k)) ?m)\<rparr>"
        using f by (simp only: plug_next_def nmem Let_def mem_far mem_constants mem_to_ptr_int if_True if_False simp_thms)
          (simp add: mem_heap.equality)
      then show ?thesis
        using laid_merge [of ?m xs l False k False zs] assms(1) Cons b False by auto
    qed
  qed
qed


lemma last_block:
  assumes "chain m q p (xs @ [(k, v)])"
  shows "hdr m (p + tot xs) (last_at q p xs) (p + tot xs + k) v" "20 \<le> k"
  using assms by simp_all

lemma plug_prev_result:
  assumes "laid (ram h) (xs @ (l, False) # ys)" "lfree h < int (tot xs) \<or> (\<forall>b\<in>set xs. snd b)"
  shows "if xs \<noteq> [] \<and> \<not> snd (last xs)
    then laid (ram (plug_prev (int (tot xs)) h)) (butlast xs @ (fst (last xs) + l, False) # ys)
      \<and> lfree (plug_prev (int (tot xs)) h) = lfree h
      \<and> (\<forall>i\<in>data 0 xs \<union> data (tot xs + l) ys. ram (plug_prev (int (tot xs)) h) i = ram h i)
    else plug_prev (int (tot xs)) h = h"
proof (cases xs rule: rev_cases)
  case Nil
  then have "mem_prev (ram h) 0 = 0"
    using assms(1) by (simp add: laid_def hdr_def)
  then show ?thesis
    using Nil by (simp add: plug_prev_def ptr_to_mem_def)
next
  case (snoc ws b)
  obtain k v where b: "b = (k, v)" by force
  let ?q = "tot ws" and ?p = "tot xs" and ?m = "ram h"
  have c: "hdr ?m ?q (last_at 0 0 ws) (?q + k) v" "20 \<le> k" "hdr ?m (?q + k) ?q (?q + k + l) False" "?q + k + l \<le> 10240"
    using assms(1) by (simp_all add: laid_def snoc b)
  have p: "?p = ?q + k"
    by (simp add: snoc b)
  have lt: "?q < 65536" using c(4) by simp
  have pmem: "ptr_to_mem (mem_prev ?m (int ?p)) = int ?q" "mem_next ?m (int ?p) = of_nat (?q + k + l)"
    using c(3) ptr_to_mem_of_nat [OF lt] unfolding p by (simp_all only: hdr_def)
  show ?thesis
  proof (cases v)
    case True
    then have "mem_used ?m (int ?q) = 1"
      using c(1) by (simp add: hdr_def)
    then have "plug_prev (int ?p) h = h"
      by (simp add: plug_prev_def pmem Let_def)
    then show ?thesis
      using snoc b True by simp
  next
    case False
    have "mem_used ?m (int ?q) = 0"
      using c(1) False by (simp add: hdr_def)
    moreover have "int ?q \<noteq> int ?p" "lfree h \<noteq> int ?p"
      using c(2) p assms(2) False by (auto simp: snoc b)
    moreover have "far (int ?q) (int ?p)"
      using c(2) p by (simp add: far_def)
    ultimately have "plug_prev (int ?p) h = h\<lparr>ram := link_back (of_nat (?q + k + l)) (of_nat ?q) (set_next (int ?q) (of_nat (?q + k + l)) ?m)\<rparr>"
      by (simp only: plug_prev_def pmem Let_def mem_far mem_to_ptr_int if_True if_False simp_thms) (simp add: mem_heap.equality)
    moreover have "laid ?m (ws @ (k, False) # (l, False) # ys)"
      using assms(1) snoc b False by simp
    note laid_merge [OF this]
    ultimately show ?thesis
      using snoc b False by auto
  qed
qed

text \<open>The list of blocks after the block between \<open>xs\<close> and \<open>ys\<close>, of length \<open>l\<close>, has been released.\<close>

fun join_next :: "nat \<Rightarrow> block list \<Rightarrow> nat \<times> block list" where
  "join_next l ((k, False) # zs) = (l + k, zs)"
| "join_next l ys = (l, ys)"

definition release :: "block list \<Rightarrow> nat \<Rightarrow> block list \<Rightarrow> block list" where
  "release xs l ys =
     (let (n, zs) = join_next l ys
      in if xs \<noteq> [] \<and> \<not> snd (last xs) then butlast xs @ (fst (last xs) + n, False) # zs else xs @ (n, False) # zs)"

lemma plug_holes_result:
  assumes "laid (ram h) (xs @ (l, False) # ys)" "lfree h = int (first_free 0 (xs @ (l, False) # ys))"
  shows "laid (ram (plug_holes (int (tot xs)) h)) (release xs l ys)" "lfree (plug_holes (int (tot xs)) h) = lfree h"
    "\<And>i. i \<in> data 0 xs \<union> data (tot xs + l) ys \<Longrightarrow> ram (plug_holes (int (tot xs)) h) i = ram h i"
proof -
  let ?p = "int (tot xs)"
  have free: "lfree h < ?p \<or> (\<forall>b\<in>set xs. snd b)"
    using assms first_free_less [of "ram h" 0 0 xs] by (auto simp: first_free_append laid_def)
  have le: "lfree h \<le> ?p"
    using assms(2) first_free_bounds(2) [of 0 xs] by (auto simp: first_free_append)
  obtain n zs where j: "join_next l ys = (n, zs)" by force
  define h1 where "h1 = plug_next ?p h"
  have 1: "laid (ram h1) (xs @ (n, False) # zs)" "lfree h1 = lfree h"
    "\<forall>i\<in>data 0 xs \<union> data (tot xs + l) ys. ram h1 i = ram h i"
    using plug_next_result [OF assms(1) le] j assms(1) unfolding h1_def [symmetric]
    by (cases "(l, ys)" rule: join_next.cases; auto split: list.splits bool.splits prod.splits)+
  have "data (tot xs + n) zs = data (tot xs + l) ys"
    using j by (cases "(l, ys)" rule: join_next.cases) (auto simp: add.assoc)
  then have 2: "laid (ram (plug_prev ?p h1)) (release xs l ys)" "lfree (plug_prev ?p h1) = lfree h1"
    "\<forall>i\<in>data 0 xs \<union> data (tot xs + l) ys. ram (plug_prev ?p h1) i = ram h1 i"
    using plug_prev_result [OF 1(1)] free 1 by (auto simp: release_def j split: if_splits)
  show "laid (ram (plug_holes ?p h)) (release xs l ys)" "lfree (plug_holes ?p h) = lfree h"
    "\<And>i. i \<in> data 0 xs \<union> data (tot xs + l) ys \<Longrightarrow> ram (plug_holes ?p h) i = ram h i"
    using 1 2 by (simp_all add: plug_holes_halves h1_def)
qed


lemma release_same:
  "data 0 (release xs l ys) = data 0 xs \<union> data (tot xs + l) ys" "live 0 (release xs l ys) = live 0 xs @ live (tot xs + l) ys"
proof -
  obtain n zs where j: "join_next l ys = (n, zs)" by force
  have "data (tot xs + n) zs = data (tot xs + l) ys" "live (tot xs + n) zs = live (tot xs + l) ys"
    using j by (cases "(l, ys)" rule: join_next.cases; auto simp: add.assoc)+
  then show "data 0 (release xs l ys) = data 0 xs \<union> data (tot xs + l) ys" "live 0 (release xs l ys) = live 0 xs @ live (tot xs + l) ys"
    by (cases xs rule: rev_cases; auto simp: release_def j add.assoc)+
qed

lemma release_separate:
  assumes "successively (\<lambda>a b. snd a \<or> snd b) (xs @ (l, True) # ys)"
  shows "successively (\<lambda>a b. snd a \<or> snd b) (release xs l ys)"
proof -
  obtain n zs where j: "join_next l ys = (n, zs)" by force
  have "successively (\<lambda>a b. snd a \<or> snd b) ((n, False) # zs)"
    using assms j by (cases "(l, ys)" rule: join_next.cases) (auto simp: successively_append_iff successively_Cons)
  then show ?thesis
    using assms by (cases xs rule: rev_cases) (auto simp: release_def j successively_append_iff successively_Cons)
qed

lemma release_first_free: "first_free 0 (release xs l ys) = first_free 0 (xs @ (l, False) # ys)"
proof -
  obtain n zs where j: "join_next l ys = (n, zs)" by force
  show ?thesis
    by (cases xs rule: rev_cases) (auto simp: release_def j first_free_append)
qed

lemma mem_link_valid_block:
  assumes "laid m (xs @ (l, u) # ys)"
  shows "mem_link_valid (int (tot xs)) m"
proof -
  let ?p = "tot xs"
  have c: "hdr m ?p (last_at 0 0 xs) (?p + l) u" "?p + l + tot ys = 10240" "chain m ?p (?p + l) ys" "chain m 0 0 xs" "20 \<le> l"
    using assms by (simp_all add: laid_def)
  have lt: "last_at 0 0 xs \<le> 10240 \<and> (xs = [] \<and> ?p = 0 \<or> mem_next m (int (last_at 0 0 xs)) = of_nat ?p)"
    using c(2,4) by (cases xs rule: rev_cases) (auto simp: hdr_def)
  have nmem: "mem_next m (int ?p) = of_nat (?p + l)" "ptr_to_mem (of_nat (?p + l)) = int (?p + l)"
    and pmem: "mem_prev m (int ?p) = of_nat (last_at 0 0 xs)" "ptr_to_mem (of_nat (last_at 0 0 xs)) = int (last_at 0 0 xs)"
    using c(1,2) lt by (simp_all only: hdr_def) (rule ptr_to_mem_of_nat; simp)+
  have "?p + l = 10240 \<or> mem_prev m (int (?p + l)) = of_nat ?p"
    using c(2,3) by (cases ys) (auto simp: hdr_def)
  moreover have "\<not> to_u32 (of_nat (?p + l) :: u16) > 10240" "\<not> to_u32 (of_nat (last_at 0 0 xs) :: u16) > 10240"
    using c(2) lt by (simp_all add: word_less_nat_alt unat_of_nat_u16 del: of_nat_add)
  ultimately show ?thesis
    unfolding mem_link_valid_def mem_constants nmem pmem mem_to_ptr_int Let_def using lt by auto
qed

lemma chain_aligned: "chain m q p bs \<Longrightarrow> 4 dvd tot bs"
  by (induction m q p bs rule: chain.induct) auto

lemma mem_free_rep:
  assumes "rep h (xs @ (l, True) # ys)"
  defines "h' \<equiv> mem_free (Some (int (tot xs) + 8)) h"
  shows "rep h' (release xs l ys)" "\<And>i. i \<in> data 0 (release xs l ys) \<Longrightarrow> ram h' i = ram h i"
proof -
  let ?p = "tot xs" and ?bs = "xs @ (l, True) # ys"
  have laid: "laid (ram h) ?bs" and lf: "lfree h = int (first_free 0 ?bs)" and sep: "successively (\<lambda>a b. snd a \<or> snd b) ?bs"
    using assms(1) by (simp_all add: rep_laid)
  have c: "chain (ram h) 0 0 xs" "chain (ram h) (last_at 0 0 xs) ?p ((l, True) # ys)" "?p + l + tot ys = 10240" "mem_used (ram h) 10240 = 1"
    using laid by (simp_all add: laid_def)
  have al: "(int ?p + 8) mod 4 = 0"
    using chain_aligned [OF c(1)] by presburger
  define h1 where "h1 = h\<lparr>ram := set_used (int ?p) 0 (ram h), lfree := (if int ?p < lfree h then int ?p else lfree h)\<rparr>"
  have h': "h' = plug_holes (int ?p) h1"
    using mem_link_valid_block [OF laid] c(2,3) al
    by (simp add: h'_def mem_free_def h1_def hdr_def Let_def)
  have l1: "laid (ram h1) (xs @ (l, False) # ys)"
  proof -
    have "chain (set_used (int ?p) 0 (ram h)) 0 0 xs" "chain (set_used (int ?p) 0 (ram h)) ?p (?p + l) ys"
      by (rule chain_cong [of "ram h"]; use c in \<open>auto simp: mem_byte\<close>)+
    moreover have "mem_used (set_used (int ?p) 0 (ram h)) 10240 = 1"
      using c by (subst mem_far) (auto simp: far_def)
    ultimately show ?thesis
      using c(2,3) by (simp add: laid_def h1_def hdr_def)
  qed
  have lf1: "lfree h1 = int (first_free 0 (xs @ (l, False) # ys))"
    using first_free_bounds(2) [of 0 xs] first_free_bounds(1) [of "?p + l" ys] lf c(2) by (auto simp: h1_def first_free_append)
  note plugged = plug_holes_result [OF l1 lf1]
  show "rep h' (release xs l ys)"
    using plugged(1,2) lf1 release_separate [OF sep] by (simp add: rep_laid h' release_first_free)
  show "ram h' i = ram h i" if "i \<in> data 0 (release xs l ys)" for i
  proof -
    have "ram h1 i = ram h i"
      using that data_bounds [of i 0 xs] data_bounds [of i "?p + l" ys] c(2)
      by (auto simp: h1_def release_same mem_byte)
    then show ?thesis
      using plugged(3) that by (simp add: h' release_same)
  qed
qed


section \<open>Shrinking\<close>

text \<open>The block between \<open>xs\<close> and \<open>ys\<close>, of length \<open>l\<close>, after it was cut to a content of \<open>n\<close> bytes.\<close>

definition cut :: "nat \<Rightarrow> nat \<Rightarrow> block list \<Rightarrow> block list" where
  "cut n l ys =
     (case ys of
        (k, False) # zs \<Rightarrow> (n + 8, True) # (l + k - (n + 8), False) # zs
      | _ \<Rightarrow> if n + 28 \<le> l then (n + 8, True) # (l - (n + 8), False) # ys else (l, True) # ys)"

lemma cut_live:
  assumes "n + 8 < l"
  shows "\<exists>j. n \<le> j \<and> j \<le> l - 8 \<and> live p (cut n l ys) = (p + 8, j) # live (p + l) ys"
proof (cases "\<exists>k zs. ys = (k, False) # zs")
  case True
  then show ?thesis
    using assms by (auto simp: cut_def add.assoc)
next
  case False
  then have "cut n l ys = (if n + 28 \<le> l then (n + 8, True) # (l - (n + 8), False) # ys else (l, True) # ys)"
    by (auto simp: cut_def split: list.splits prod.splits bool.splits)
  then show ?thesis
    using assms by auto
qed

lemma cut_separate:
  assumes "successively (\<lambda>a b. snd a \<or> snd b) (xs @ (l, True) # ys)"
  shows "successively (\<lambda>a b. snd a \<or> snd b) (xs @ cut n l ys)"
  using assms by (auto simp: cut_def successively_append_iff successively_Cons split: list.splits bool.splits)

text \<open>The new header at \<open>k\<close> behind the cut, in both cases of the code: free blocks \<open>ws\<close> up to \<open>r\<close> join it.\<close>

lemma cut_laid:
  assumes laid: "laid m (xs @ (l, True) # ws @ zs)" and p: "p = tot xs"
    and n: "12 \<le> n" "4 dvd n" "n + 8 < l" "k = p + n + 8" "r = p + l + tot ws" "k + 20 \<le> r"
    and m1: "m1 = set_next (int p) (of_nat k) (set_prev (int k) (of_nat p) (set_next (int k) (of_nat r) (set_used (int k) 0 m)))"
    and m': "m' = link_back (of_nat r) (of_nat k) m1"
  shows "laid m' (xs @ (n + 8, True) # (r - k, False) # zs)"
    "\<forall>i\<in>data 0 (xs @ (n + 8, True) # (r - k, False) # zs). m' i = m i"
    "mem_next m1 (int k) = of_nat r"
proof -
  have c: "chain m 0 0 xs" "hdr m p (last_at 0 0 xs) (p + l) True" "r + tot zs = 10240" "mem_used m 10240 = 1" "4 dvd l"
    and zs: "chain m (last_at p (p + l) ws) r zs" and "4 dvd tot ws"
    using laid chain_aligned [of m p "p + l" ws] by (simp_all add: laid_def n p add.assoc)
  then have al: "4 dvd r - k"
    using chain_aligned [OF c(1)] n by (simp add: p dvd_diff_nat)
  have far: "far (int p) (int k)" "far (int k) (int p)"
    using n by (simp_all add: far_def)
  show "mem_next m1 (int k) = of_nat r"
    unfolding m1 using far by (simp only: mem_same mem_far)
  have h: "hdr m1 p (last_at 0 0 xs) k True" "hdr m1 k p r False"
    using c(2) far unfolding hdr_def m1 by (simp_all only: mem_same mem_far of_bool_eq)
  have m1: "m1 i = m i" if "\<not> near p i" "\<not> near k i" for i
    unfolding m1 using that by (simp only: not_near simp_thms)
  have same: "m' i = m i" if "\<not> near p i" "\<not> near k i" "r = 10240 \<or> \<not> near r i" for i
    unfolding m' using that c(3) m1 [of i] by (subst link_back_not_near) auto
  have "chain m' (last_at 0 0 xs) p ((k - p, True) # (r - k, False) # zs)"
    unfolding m' by (rule chain_two [OF zs c(3) _ h]) (use n al in \<open>auto simp: near_def intro!: m1\<close>)
  moreover have "chain m' 0 0 xs"
    by (rule chain_cong [OF c(1)], rule same) (use n in \<open>auto simp: near_def p\<close>)
  moreover have "m' 10244 = m 10244"
    by (rule same; use n c zs in \<open>cases zs; auto simp: near_def p\<close>)
  ultimately show "laid m' (xs @ (n + 8, True) # (r - k, False) # zs)"
    using c(3,4) n by (simp add: laid_def p mem_used_def)
  have "m' i = m i" if i: "i \<in> data 0 xs \<union> {int p + 8..<int k} \<union> data r zs" for i
    by (rule same; use n i data_bounds [of i 0 xs] data_bounds [of i r zs] in \<open>auto simp: near_def p\<close>)
  moreover have "data 0 (xs @ (n + 8, True) # (r - k, False) # zs) = data 0 xs \<union> {int p + 8..<int k} \<union> data r zs"
    using n(4,6) by (simp add: p Un_assoc add.assoc)
  ultimately show "\<forall>i\<in>data 0 (xs @ (n + 8, True) # (r - k, False) # zs). m' i = m i"
    by blast
qed

text \<open>\<open>mem_trim\<close> on a block in use, the sizes being natural numbers.\<close>

lemma mem_trim_eq:
  fixes n :: u16
  assumes laid: "laid m (xs @ (l, True) # ys)" and m: "m = ram h" and p: "p = tot xs" and s: "s = rounded (unat n)" and r: "r = p + s + 8"
    and q: "q = int p + 8"
  shows "mem_trim q n h =
      (if l < s + 8 then (None, h) else if l = s + 8 then (Some q, h)
       else if mem_used m (int (p + l)) = 0
       then let m1 = set_next (int p) (of_nat r) (set_prev (int r) (of_nat p) (set_next (int r) (mem_next m (int (p + l))) (set_used (int r) 0 m)))
            in (Some q, h\<lparr>lfree := (if lfree h = int (p + l) then int r else lfree h), ram := link_back (mem_next m1 (int r)) (of_nat r) m1\<rparr>)
       else if s + 28 \<le> l
       then let m1 = set_next (int p) (of_nat r) (set_prev (int r) (of_nat p)
                       (set_next (int r) (mem_next (set_used (int r) 0 m) (int p)) (set_used (int r) 0 m)))
            in (Some q, h\<lparr>lfree := (if int r < lfree h then int r else lfree h), ram := link_back (mem_next m1 (int r)) (of_nat r) m1\<rparr>)
       else (Some q, h))"
proof -
  have c: "mem_next m (int p) = of_nat (p + l)" "p + l \<le> 10240" "20 \<le> l"
    using laid by (simp_all add: laid_def hdr_def p)
  have ptr: "q - uint (8 :: u32) = int p" "\<not> (q < 0 \<or> q \<ge> 10240)" "ptr_to_mem (mem_next m (int p)) = int (p + l)"
    using c ptr_to_mem_of_nat [of "p + l"] by (simp_all add: q)
  have "(of_nat (p + l) - of_nat p :: u16) = of_nat l"
    by simp
  then have size_l: "to_u16 (to_u32 (mem_next m (int p) - of_nat p) - 8) = of_nat (l - 8)"
    unfolding c using c to_u16_of_nat [of "l - 8"] by (simp add: to_u32_of_nat of_nat_diff)
  have cmp: "(of_nat s :: u16) > of_nat (l - 8) \<longleftrightarrow> l < s + 8" "(of_nat s :: u16) = of_nat (l - 8) \<longleftrightarrow> l = s + 8"
    "to_u32 (of_nat s :: u16) + 8 + 12 \<le> to_u32 (of_nat (l - 8) :: u16) \<longleftrightarrow> s + 28 \<le> l" if "s \<le> 10240"
    using that c by (auto simp: word_less_nat_alt word_le_nat_alt word_unat_eq_iff unat_of_nat_u16 unat_word_ariths
        simp del: of_nat_diff)
  have r2: "to_u16 (to_u32 (of_nat p :: u16) + 8 + to_u32 (of_nat s :: u16)) = of_nat r" "ptr_to_mem (of_nat r) = int r" if "s + 8 < l"
    using to_u16_of_nat [of r] ptr_to_mem_of_nat [of r] c(2) that by (simp_all add: r to_u32_of_nat ac_simps)
  note trim = mem_trim_def block_size_result mem_constants s [symmetric] Let_def m [symmetric] ptr(1) mem_to_ptr_int size_l
  show ?thesis
  proof (cases "s + 8 < l")
    case True
    then have s': "s \<le> 10240" using c by simp
    show ?thesis
      using True cmp [OF s'] ptr(2) unfolding trim ptr(3) r2 [OF True] if_P [OF s'] option.case by (simp del: of_nat_diff of_nat_add)
  next
    case False
    then show ?thesis
      using cmp ptr(2) c unfolding trim by (auto simp del: of_nat_diff)
  qed
qed

lemma mem_trim_rep:
  fixes n :: u16
  assumes rep: "rep h (xs @ (l, True) # ys)" and p: "p = int (tot xs) + 8" and s: "s = rounded (unat n)" and big: "s + 8 < l"
  shows "\<exists>h'. mem_trim p n h = (Some p, h') \<and> rep h' (xs @ cut s l ys) \<and> (\<forall>i\<in>data 0 (xs @ cut s l ys). ram h' i = ram h i)"
proof -
  let ?m = "ram h"
  define q where "q = tot xs"
  define r where "r = q + s + 8"
  have laid: "laid ?m (xs @ (l, True) # ys)" and lf: "lfree h = int (first_free 0 (xs @ (l, True) # ys))"
    and sep: "successively (\<lambda>a b. snd a \<or> snd b) (xs @ (l, True) # ys)"
    using rep by (simp_all add: rep_laid)
  have c: "mem_next ?m (int q) = of_nat (q + l)" "q + l + tot ys = 10240" "chain ?m q (q + l) ys" "chain ?m 0 0 xs" "mem_used ?m 10240 = 1"
    using laid by (simp_all add: laid_def hdr_def q_def)
  note sz = rounded [of "unat n", folded s]
  have ff: "(\<exists>b\<in>set xs. \<not> snd b) \<Longrightarrow> first_free 0 xs < q" "q + l \<le> first_free (q + l) ys"
    using first_free_less [OF c(4)] first_free_bounds(1) [of "q + l" ys] by (auto simp: q_def)
  have trim: "p = int q + 8"
    by (simp add: p q_def)
  note trim = mem_trim_eq [OF laid refl q_def s r_def this]
  show ?thesis
  proof (cases "mem_used ?m (int (q + l)) = 0")
    case True
    have "ys \<noteq> []"
      using True c(2,5) by (auto simp del: of_nat_add)
    with True obtain k zs where ys: "ys = (k, False) # zs" "mem_next ?m (int (q + l)) = of_nat (q + l + k)" "20 \<le> k"
      using c(2,3,5) by (cases ys) (auto simp: hdr_def)
    have new: "cut s l ys = (s + 8, True) # (q + l + k - r, False) # zs"
      by (simp add: ys cut_def r_def)
    have f: "(if lfree h = int (q + l) then int r else lfree h) = int (first_free 0 (xs @ cut s l ys))"
      unfolding new
    proof (cases "\<exists>b\<in>set xs. \<not> snd b")
      case True
      then show "(if lfree h = int (q + l) then int r else lfree h) = int (first_free 0 (xs @ (s + 8, True) # (q + l + k - r, False) # zs))"
        using ff(1) [OF True] lf by (simp add: first_free_append)
    next
      case False
      then show "(if lfree h = int (q + l) then int r else lfree h) = int (first_free 0 (xs @ (s + 8, True) # (q + l + k - r, False) # zs))"
        using lf ys(1) by (simp add: first_free_append r_def q_def)
    qed
    have "laid ?m (xs @ (l, True) # [(k, False)] @ zs)" "q + l + k = q + l + tot [(k, False)]" "r + 20 \<le> q + l + k"
      using laid ys big by (simp_all add: r_def)
    note cut = cut_laid [OF this(1) q_def sz(1,2) big r_def this(2,3) refl refl]
    show ?thesis
      unfolding trim rep_laid using True big f cut cut_separate [OF sep, of s]
      by (simp add: Let_def ys(2) new [symmetric] del: of_nat_add)
  next
    case False
    then have ys: "cut s l ys = (if s + 28 \<le> l then (s + 8, True) # (q + l - r, False) # ys else (l, True) # ys)"
      using c(3) by (auto simp: cut_def hdr_def r_def split: list.splits prod.splits bool.splits)
    have "far (int r) (int q)"
      using sz by (simp add: far_def r_def)
    then have nx: "mem_next (set_used (int r) 0 ?m) (int q) = of_nat (q + l)"
      using c(1) by simp
    show ?thesis
    proof (cases "s + 28 \<le> l")
      case True
      then have new: "cut s l ys = (s + 8, True) # (q + l - r, False) # ys"
        by (simp add: ys)
      have f: "(if int r < lfree h then int r else lfree h) = int (first_free 0 (xs @ cut s l ys))"
        unfolding new
      proof (cases "\<exists>b\<in>set xs. \<not> snd b")
        case True
        then show "(if int r < lfree h then int r else lfree h) = int (first_free 0 (xs @ (s + 8, True) # (q + l - r, False) # ys))"
          using ff(1) [OF True] lf by (simp add: first_free_append r_def)
      next
        case False
        then show "(if int r < lfree h then int r else lfree h) = int (first_free 0 (xs @ (s + 8, True) # (q + l - r, False) # ys))"
          using lf ff(2) big by (simp add: first_free_append r_def q_def)
      qed
      have "laid ?m (xs @ (l, True) # [] @ ys)" "q + l = q + l + tot []" "r + 20 \<le> q + l"
        using laid True by (simp_all add: r_def)
      note cut = cut_laid [OF this(1) q_def sz(1,2) big r_def this(2,3) refl refl]
      show ?thesis
        unfolding trim rep_laid using False True big f cut cut_separate [OF sep, of s]
        by (simp add: Let_def nx new [symmetric] del: of_nat_add)
    next
      case small: False
      then show ?thesis
        unfolding trim using False rep ys big by simp
    qed
  qed
qed

section \<open>Start\<close>

lemma mem_init_rep: "rep (mem_init m) [(10240, False)]"
proof -
  have f: "far 0 10240" "far 10240 0"
    by (simp_all add: far_def)
  have "to_u16 (10240 :: u32) = 10240"
    by simp
  then show ?thesis
    using f by (simp add: rep_def mem_init_def hdr_def)
qed


section \<open>The heap as an allocator\<close>

definition holds :: "mem_heap \<Rightarrow> live_block set \<Rightarrow> bool" where
  "holds h L \<longleftrightarrow> (\<exists>bs. rep h bs \<and> L = set (live 0 bs))"

definition store_byte :: "int \<Rightarrow> u8 \<Rightarrow> mem_heap \<Rightarrow> mem_heap" where
  "store_byte i v h = h\<lparr>ram := (ram h)(i := v)\<rparr>"

lemma live_bounds: "chain m q p bs \<Longrightarrow> (a, n) \<in> set (live p bs) \<Longrightarrow> p + 8 \<le> a \<and> a + n \<le> p + tot bs"
proof (induction m q p bs rule: chain.induct)
  case (2 m q p l u bs)
  then show ?case
    by (cases "(a, n) \<in> set (live (p + l) bs)") (auto split: if_splits)
qed simp

lemma live_apart:
  "chain m q p bs \<Longrightarrow> (a, n) \<in> set (live p bs) \<Longrightarrow> (b, k) \<in> set (live p bs)
    \<Longrightarrow> a = b \<and> n = k \<or> a \<noteq> b \<and> (a + n \<le> b \<or> b + k \<le> a)"
proof (induction m q p bs rule: chain.induct)
  case (2 m q p l u bs)
  have "chain m p (p + l) bs" "20 \<le> l"
    using 2(2) by simp_all
  then show ?case
    using 2 live_bounds [of m p "p + l" bs a n] live_bounds [of m p "p + l" bs b k]
    by (cases "(a, n) \<in> set (live (p + l) bs)"; cases "(b, k) \<in> set (live (p + l) bs)") (auto split: if_splits)
qed simp

lemma live_split:
  assumes "(a, n) \<in> set (live p bs)"
  shows "\<exists>xs l ys. bs = xs @ (l, True) # ys \<and> a = p + tot xs + 8 \<and> n = l - 8"
  using assms
proof (induction p bs rule: live.induct)
  case (2 p l u bs)
  show ?case
  proof (cases "u \<and> a = p + 8 \<and> n = l - 8")
    case True
    then show ?thesis
      by (intro exI [of _ "[]"] exI [of _ l] exI [of _ bs]) simp
  next
    case False
    then have "(a, n) \<in> set (live (p + l) bs)"
      using 2(2) by (auto split: if_splits)
    then obtain xs l' ys where "bs = xs @ (l', True) # ys" "a = p + l + tot xs + 8" "n = l' - 8"
      using 2(1) by blast
    then show ?thesis
      by (intro exI [of _ "(l, u) # xs"] exI [of _ l'] exI [of _ ys]) simp
  qed
qed simp

lemma kept_data: "kept (set (live 0 bs)) m m' \<longleftrightarrow> (\<forall>i\<in>data 0 bs. m' i = m i)"
  by (auto simp: kept_def data_live)

lemma chain_store:
  "chain m q p bs \<Longrightarrow> i \<in> data p bs \<Longrightarrow> chain (m(i := v)) q p bs"
proof (induction m q p bs rule: chain.induct)
  case (2 m q p l u bs)
  have "hdr (m(i := v)) p q (p + l) u = hdr m p q (p + l) u"
    by (rule hdr_cong) (use data_bounds [OF 2(3)] in auto)
  moreover have "chain (m(i := v)) p (p + l) bs"
  proof (cases "i \<in> data (p + l) bs")
    case True
    show ?thesis
      by (rule 2(1)) (use True 2(2) in simp_all)
  next
    case False
    show ?thesis
      by (rule chain_cong [of m]) (use False 2(2,3) in \<open>auto split: if_splits\<close>)
  qed
  ultimately show ?case
    using 2(2) unfolding chain.simps by blast
qed simp

lemma store_byte_rep:
  assumes "rep h bs" "i \<in> data 0 bs"
  shows "rep (store_byte i v h) bs"
proof -
  have "i < 10240"
    using data_bounds [OF assms(2)] assms(1) by (simp add: rep_def)
  then show ?thesis
    using chain_store [of "ram h" 0 0 bs i v] assms by (simp add: rep_def store_byte_def mem_used_def)
qed

lemma mem_malloc_cases:
  assumes "rep h bs"
  obtains "mem_malloc n h = Some (None, h)" "n = 0 \<or> rounded (unat n) > 10240 \<or> fits_at (rounded (unat n)) 0 bs = None"
  | k h' bs' c where "mem_malloc n h = Some (Some (int k + 8), h')" "rep h' bs'" "set (live 0 bs') = insert (k + 8, c) (set (live 0 bs))"
    "(k + 8, c) \<notin> set (live 0 bs)" "unat n \<le> c" "4 dvd k" "\<forall>i\<in>data 0 bs. ram h' i = ram h i" "n \<noteq> 0"
    "fits_at (rounded (unat n)) 0 bs = Some k"
proof (cases "n = 0 \<or> rounded (unat n) > 10240 \<or> fits_at (rounded (unat n)) 0 bs = None")
  case True
  then show thesis
    using mem_malloc_refused [OF assms] that(1) by blast
next
  case False
  then obtain k where k: "fits_at (rounded (unat n)) 0 bs = Some k"
    by auto
  let ?s = "rounded (unat n)"
  obtain xs l ys mid h' where r: "bs = xs @ (l, False) # ys" "k = tot xs"
    "mid = (if ?s + 28 \<le> l then [(?s + 8, True), (l - (?s + 8), False)] else [(l, True)])" "?s + 8 \<le> l"
    "mem_malloc n h = Some (Some (int k + 8), h')" "rep h' (xs @ mid @ ys)" "\<forall>i\<in>data 0 bs. ram h' i = ram h i"
    using mem_malloc_rep [OF assms _ _ k] False by auto
  define c where "c = (if ?s + 28 \<le> l then ?s else l - 8)"
  have c: "?s \<le> c" "live k mid = [(k + 8, c)]" "tot mid = l"
    using r(3,4) by (auto simp: c_def)
  have "set (live 0 (xs @ mid @ ys)) = insert (k + 8, c) (set (live 0 bs))"
    using c(2,3) by (simp add: r(1,2))
  moreover have "(k + 8, c) \<notin> set (live 0 bs)"
  proof
    assume "(k + 8, c) \<in> set (live 0 bs)"
    moreover have "chain (ram h) 0 0 xs" "chain (ram h) k (k + l) ys"
      using assms by (simp_all add: rep_def r(1,2))
    ultimately show False
      using live_bounds [of "ram h" 0 0 xs "k + 8" c] live_bounds [of "ram h" k "k + l" ys "k + 8" c] r(1,2,4) c(1) rounded(1) [of "unat n"]
      by auto
  qed
  moreover have "4 dvd k"
    using assms chain_aligned [of "ram h" 0 0 xs] by (simp add: rep_def r(1,2))
  ultimately show thesis
    using that(2) [OF r(5,6) _ _ _ _ r(7) _ k] le_trans [OF rounded(3) c(1)] False by simp
qed

interpretation mem: allocator holds ram mem_malloc "\<lambda>p. mem_free (Some p)" store_byte
proof
  fix s L a n b k
  assume "holds s L" "(a, n) \<in> L" "(b, k) \<in> L"
  then show "(a, n) = (b, k) \<or> a \<noteq> b \<and> (a + n \<le> b \<or> b + k \<le> a)"
    using live_apart [of "ram s" 0 0 _ a n b k] unfolding holds_def rep_def by (metis prod.inject)
next
  fix s L s' and w :: u16
  assume "holds s L" "mem_malloc w s = Some (None, s')"
  then show "s' = s"
    by (auto simp: holds_def elim: mem_malloc_cases [where n = w])
next
  fix s L p s' and w :: u16
  assume m: "holds s L" "mem_malloc w s = Some (Some p, s')"
  then obtain bs where bs: "rep s bs" "L = set (live 0 bs)"
    by (auto simp: holds_def)
  show "\<exists>a k. p = int a \<and> unat w \<le> k \<and> (a, k) \<notin> L \<and> holds s' (insert (a, k) L) \<and> kept L (ram s) (ram s')"
  proof (cases rule: mem_malloc_cases [OF bs(1), of w])
    case (2 k h' bs' c)
    then show ?thesis
      using m(2) bs(2) by (intro exI [of _ "k + 8"] exI [of _ c]) (auto simp: holds_def kept_data)
  qed (use m in auto)
next
  fix s L a n
  assume m: "holds s L" "(a, n) \<in> L"
  then obtain bs where bs: "rep s bs" "L = set (live 0 bs)"
    by (auto simp: holds_def)
  then obtain xs l ys where x: "bs = xs @ (l, True) # ys" "a = tot xs + 8" "n = l - 8"
    using live_split [of a n 0 bs] m(2) by auto
  note f = mem_free_rep [OF bs(1) [unfolded x(1)]]
  have "chain (ram s) 0 0 xs" "chain (ram s) (tot xs) (tot xs + l) ys" "20 \<le> l"
    using bs(1) by (simp_all add: rep_def x(1))
  then have "set (live 0 (release xs l ys)) = L - {(a, n)}"
    using live_bounds [of "ram s" 0 0 xs a n] live_bounds [of "ram s" "tot xs" "tot xs + l" ys a n]
    by (auto simp: release_same bs(2) x)
  then show "holds (mem_free (Some (int a)) s) (L - {(a, n)}) \<and> kept (L - {(a, n)}) (ram s) (ram (mem_free (Some (int a)) s))"
    using f x(2) kept_data [of "release xs l ys"] by (auto simp: holds_def)
next
  fix s L a n i v
  assume m: "holds s L" "(a, n) \<in> L" "int a \<le> i" "i < int (a + n)"
  then obtain bs where bs: "rep s bs" "L = set (live 0 bs)"
    by (auto simp: holds_def)
  then have "i \<in> data 0 bs"
    using m unfolding data_live by (intro UN_I [of "(a, n)"]) auto
  then show "holds (store_byte i v s) L \<and> ram (store_byte i v s) = (ram s)(i := v)"
    using store_byte_rep [OF bs(1)] bs(2) by (auto simp: holds_def) (simp add: store_byte_def)
qed


section \<open>What the heap promises\<close>

lemma fits_at_None: "fits_at n p bs = None \<longleftrightarrow> (\<forall>(l, u)\<in>set bs. u \<or> l < n + 8)"
  by (induction n p bs rule: fits_at.induct) auto

lemma rep_length: "rep h bs \<Longrightarrow> (l, u) \<in> set bs \<Longrightarrow> l \<le> 10240"
  using member_le_sum_list [of l "map fst bs"] by (force simp: rep_def tot_def)

text \<open>
  C23. \<open>mem_malloc\<close> in a consistent heap always returns. It gives out a block exactly if some free
  block can hold the size asked for, rounded up to at least 12 and to a multiple of 4; then the new block is
  aligned, large enough, inside the heap and disjoint from all blocks in use, whose content
  is unchanged, and the heap is consistent again. Otherwise nothing changes.
\<close>

theorem mem_malloc_correct:
  assumes "rep h bs"
  shows "if n \<noteq> 0 \<and> (\<exists>(l, u)\<in>set bs. \<not> u \<and> rounded (unat n) + 8 \<le> l)
    then \<exists>a k h'. mem_malloc n h = Some (Some (int a), h') \<and> 4 dvd a \<and> unat n \<le> k \<and> a + k \<le> 10240
      \<and> holds h' (insert (a, k) (set (live 0 bs))) \<and> (\<forall>(b, j)\<in>set (live 0 bs). a + k \<le> b \<or> b + j \<le> a)
      \<and> kept (set (live 0 bs)) (ram h) (ram h')
    else mem_malloc n h = Some (None, h)"
proof (cases rule: mem_malloc_cases [OF assms, of n])
  case 1
  have "\<not> (n \<noteq> 0 \<and> (\<exists>(l, u)\<in>set bs. \<not> u \<and> rounded (unat n) + 8 \<le> l))"
    using 1(2) rep_length [OF assms] by (force simp: fits_at_None)
  then show ?thesis
    unfolding if_not_P [OF \<open>\<not> _\<close>] using 1(1) by blast
next
  case (2 k h' bs' c)
  have fit: "n \<noteq> 0 \<and> (\<exists>(l, u)\<in>set bs. \<not> u \<and> rounded (unat n) + 8 \<le> l)"
  proof -
    have "\<not> (\<forall>(l, u)\<in>set bs. u \<or> l < rounded (unat n) + 8)"
      using 2(9) fits_at_None [of "rounded (unat n)" 0 bs] by simp
    then show ?thesis
      using 2(8) by (auto simp: not_less)
  qed
  have c: "chain (ram h') 0 0 bs'" "tot bs' = 10240" "(k + 8, c) \<in> set (live 0 bs')"
    using 2(2,3) by (simp_all add: rep_def)
  have "\<forall>(b, j)\<in>set (live 0 bs). k + 8 + c \<le> b \<or> b + j \<le> k + 8"
    using live_apart [OF c(1,3)] 2(3,4) by fastforce
  moreover have "k + 8 + c \<le> 10240" "4 dvd k + 8"
    using live_bounds [OF c(1,3)] c(2) 2(6) by auto
  moreover have "holds h' (insert (k + 8, c) (set (live 0 bs)))" "kept (set (live 0 bs)) (ram h) (ram h')"
    using 2(2,3,7) by (auto simp: holds_def kept_data)
  ultimately show ?thesis
    unfolding if_P [OF fit] using 2(1,5) by (intro exI [of _ "k + 8"] exI [of _ c] exI [of _ h']) simp
qed

text \<open>
  Calls of \<open>mem_free\<close> that the code rejects: the null pointer, a pointer that is not aligned or too close to the
  ends of the heap, and the address of a block that is already free. Each leaves the heap as it was.
\<close>

theorem mem_free_ignored:
  "mem_free None h = h \<and> (\<forall>p. p mod 4 \<noteq> 0 \<or> p < 8 \<or> p > 10228 \<longrightarrow> mem_free (Some p) h = h)
   \<and> (\<forall>xs l ys. rep h (xs @ (l, False) # ys) \<longrightarrow> mem_free (Some (int (tot xs) + 8)) h = h)"
  by (auto simp: mem_free_def Let_def rep_def hdr_def)

text \<open>
  \<open>mem_trim\<close> on a block in use either refuses, when the new size is too large for the block, or
  shrinks it in place: the block keeps its address and at least the bytes asked for, with their
  content, and so does every other block.
\<close>

theorem mem_trim_correct:
  assumes "rep h bs" "(a, k) \<in> set (live 0 bs)"
  shows "if k < rounded (unat n) then mem_trim (int a) n h = (None, h)
    else \<exists>h' j. mem_trim (int a) n h = (Some (int a), h') \<and> unat n \<le> j \<and> j \<le> k
      \<and> holds h' (insert (a, j) (set (live 0 bs) - {(a, k)})) \<and> kept (insert (a, j) (set (live 0 bs) - {(a, k)})) (ram h) (ram h')"
proof -
  obtain xs l ys where x: "bs = xs @ (l, True) # ys" "a = tot xs + 8" "k = l - 8"
    using live_split [OF assms(2)] by auto
  let ?s = "rounded (unat n)"
  have c: "chain (ram h) 0 0 xs" "chain (ram h) (tot xs) (tot xs + l) ys" "20 \<le> l" "laid (ram h) (xs @ (l, True) # ys)"
    using assms(1) by (simp_all add: rep_laid laid_def x)
  have rest: "set (live 0 bs) - {(a, k)} = set (live 0 xs) \<union> set (live (tot xs + l) ys)"
    using live_bounds [OF c(1), of a k] live_bounds [OF c(2), of a k] c(3) by (auto simp: x)
  have a: "int a = int (tot xs) + 8"
    by (simp add: x)
  note trim = mem_trim_eq [OF c(4) refl refl refl refl refl, of n, folded a]
  consider "l < ?s + 8" | "l = ?s + 8" | "?s + 8 < l"
    by linarith
  then show ?thesis
  proof cases
    case 1
    then show ?thesis
      using trim c(3) by (simp add: x)
  next
    case 2
    then have "mem_trim (int a) n h = (Some (int a), h)" "insert (a, k) (set (live 0 bs) - {(a, k)}) = set (live 0 bs)" "unat n \<le> k" "\<not> k < ?s"
      using trim assms(2) rounded(3) [of "unat n"] by (auto simp: x)
    then show ?thesis
      using assms(1) by (auto simp: holds_def kept_def)
  next
    case 3
    obtain h' where h': "mem_trim (int a) n h = (Some (int a), h')" "rep h' (xs @ cut ?s l ys)"
      "\<forall>i\<in>data 0 (xs @ cut ?s l ys). ram h' i = ram h i"
      using mem_trim_rep [OF assms(1) [unfolded x(1)] a refl 3] by blast
    obtain j where j: "?s \<le> j" "j \<le> k" "live (tot xs) (cut ?s l ys) = (a, j) # live (tot xs + l) ys"
      using cut_live [OF 3, of "tot xs" ys] by (auto simp: x)
    then have L: "set (live 0 (xs @ cut ?s l ys)) = insert (a, j) (set (live 0 bs) - {(a, k)})"
      unfolding rest by simp
    have "holds h' (insert (a, j) (set (live 0 bs) - {(a, k)}))" "kept (insert (a, j) (set (live 0 bs) - {(a, k)})) (ram h) (ram h')"
      unfolding L [symmetric] holds_def kept_data using h'(2,3) by blast+
    then show ?thesis
      using h'(1) j(1,2) rounded(3) [of "unat n"] by (auto intro!: exI [of _ j])
  qed
qed

text \<open>
  C11. What a client stores is what it reads. In every history of allocations, releases and stores that
  starts with \<open>mem_init\<close> the blocks of the client do not overlap and each holds exactly the bytes
  that were stored into it last.
\<close>

theorem mem_client_correct:
  assumes "client ram mem_malloc (\<lambda>p. mem_free (Some p)) store_byte (mem_init m) h c"
  shows "(\<forall>a bs. c a = Some bs \<longrightarrow> bs = map (\<lambda>i. ram h (int (a + i))) [0..<length bs])
    \<and> (\<forall>a bs b cs. c a = Some bs \<longrightarrow> c b = Some cs \<longrightarrow> a \<noteq> b \<longrightarrow> a + length bs \<le> b \<or> b + length cs \<le> a)"
proof -
  have "holds (mem_init m) {}"
    using mem_init_rep [of m] by (auto simp: holds_def)
  then obtain L where L: "holds h L" "mem.agree h L c"
    using mem.client_agrees [OF assms] by blast
  then have blk: "\<exists>n. (a, n) \<in> L \<and> length bs \<le> n \<and> bs = map (\<lambda>i. ram h (int (a + i))) [0..<length bs]" if "c a = Some bs" for a bs
  proof -
    have "a \<in> fst ` L"
      using L(2) that by (auto simp: mem.agree_def)
    then obtain n where "(a, n) \<in> L" by force
    then show ?thesis
      using L(2) that unfolding mem.agree_def by blast
  qed
  moreover have "a + length bs \<le> b \<or> b + length cs \<le> a" if ca: "c a = Some bs" and cb: "c b = Some cs" and ab: "a \<noteq> b" for a bs b cs
  proof -
    obtain n k where "(a, n) \<in> L" "length bs \<le> n" "(b, k) \<in> L" "length cs \<le> k"
      using blk [OF ca] blk [OF cb] by blast
    then show ?thesis
      using mem.apart [OF L(1), of a n b k] ab by auto
  qed
  ultimately show ?thesis
    by blast
qed

lemma no_live: "live p bs = [] \<Longrightarrow> \<forall>b\<in>set bs. \<not> snd b"
  by (induction p bs rule: live.induct) (auto split: if_splits)

text \<open>
  C12. Nothing leaks. When a client has released all its blocks, in whatever order, the heap is a single
  free block again, and any request of 1 to 10232 bytes is granted.
\<close>

theorem mem_all_freed:
  assumes "client ram mem_malloc (\<lambda>p. mem_free (Some p)) store_byte (mem_init m) h Map.empty"
  shows "rep h [(10240, False)] \<and> (\<forall>n. n \<noteq> 0 \<longrightarrow> n \<le> 10232 \<longrightarrow> (\<exists>p h'. mem_malloc n h = Some (Some p, h')))"
proof -
  have "holds (mem_init m) {}"
    using mem_init_rep [of m] by (auto simp: holds_def)
  then obtain L where "holds h L" "mem.agree h L Map.empty"
    using mem.client_agrees [OF assms] by blast
  then obtain bs where bs: "rep h bs" "live 0 bs = []"
    by (auto simp: holds_def mem.agree_def)
  have free: "\<forall>b\<in>set bs. \<not> snd b"
    using bs(2) by (rule no_live)
  have "bs = [(10240, False)]"
  proof (cases bs)
    case (Cons b cs)
    then show ?thesis
      using bs(1) free by (cases b; cases cs) (auto simp: rep_def)
  qed (use bs(1) in \<open>simp add: rep_def\<close>)
  then have rep: "rep h [(10240, False)]"
    using bs(1) by simp
  have "\<exists>p h'. mem_malloc n h = Some (Some p, h')" if "n \<noteq> 0" "n \<le> 10232" for n
    using rep
  proof (cases rule: mem_malloc_cases [where n = n])
    case 1
    have "unat n \<le> 10232"
      using that(2) by (simp add: word_le_nat_alt)
    then have "rounded (unat n) \<le> 10232"
      unfolding rounded_def by presburger
    then show ?thesis
      using 1(2) that by auto
  qed blast
  then show ?thesis
    using rep by blast
qed


section \<open>The heap behind the packet buffers\<close>

text \<open>
  The parameter \<open>heap\<close> of the other theories, made from \<open>mem_malloc\<close>: \<open>hs i\<close> is the heap at the time of the \<open>i\<close>-th
  allocation, \<open>base\<close> the address of \<open>ram\<close>.
\<close>

definition heap_of :: "u32 \<Rightarrow> (nat \<Rightarrow> mem_heap) \<Rightarrow> heap" where
  "heap_of base hs i n =
     (case mem_malloc n (hs i) of
        Some (Some p, h) \<Rightarrow> Some (base + of_int p, map (\<lambda>k. ram h (p + int k)) [0..<unat n])
      | _ \<Rightarrow> None)"

lemma heap_of_ok:
  assumes "4 dvd unat base" "\<forall>i. \<exists>bs. rep (hs i) bs"
  shows "heap_ok (heap_of base hs)"
  unfolding heap_ok_def
proof (intro allI impI)
  fix i n a bs
  assume h: "heap_of base hs i n = Some (a, bs)"
  obtain bl where bl: "rep (hs i) bl"
    using assms(2) by blast
  then show "length bs = unat n \<and> 4 dvd unat a"
  proof (cases rule: mem_malloc_cases [where n = n])
    case (2 k h' bs' c)
    define j where "j = k + 8"
    have a: "a = base + of_nat j" and len: "length bs = unat n"
      using h 2(1) by (auto simp: heap_of_def j_def)
    have "4 dvd unat (of_nat j :: u32)"
      using 2(6) by (simp add: unat_of_nat take_bit_eq_mod dvd_mod_iff j_def del: of_nat_add)
    then show ?thesis
      using assms(1) len by (simp add: a unat_word_ariths dvd_mod_iff)
  qed (use h in \<open>simp add: heap_of_def\<close>)
qed

section \<open>Examples\<close>

lemma sample_malloc: "\<exists>k h' bs c. mem_malloc 100 (mem_init m) = Some (Some (int k), h') \<and> rep h' bs \<and> set (live 0 bs) = {(k, c)} \<and> 100 \<le> c"
  using mem_init_rep [of m]
proof (cases rule: mem_malloc_cases [where n = 100])
  case (2 k h' bs' c)
  have "int k + 8 = int (k + 8)" by simp
  then show ?thesis
    using 2(1,2,3,5) by (intro exI [of _ "k + 8"] exI [of _ h'] exI [of _ bs'] exI [of _ c]) simp
qed (simp add: rounded_def)

lemma sample_client:
  assumes "mem_malloc 100 (mem_init m) = Some (Some (int k), h)"
  shows "\<exists>bs. client ram mem_malloc (\<lambda>p. mem_free (Some p)) store_byte (mem_init m) h [k \<mapsto> bs] \<and> length bs = 100"
proof -
  have "client ram mem_malloc (\<lambda>p. mem_free (Some p)) store_byte (mem_init m) h
      (Map.empty(nat (int k) \<mapsto> map (\<lambda>i. ram h (int k + int i)) [0..<unat (100 :: u16)]))"
    using client_start assms by (rule client_malloc)
  then show ?thesis
    by (intro exI [of _ "map (\<lambda>i. ram h (int k + int i)) [0..<100]"]) simp
qed

lemma mem_malloc_correct_witness:
  "\<exists>a k h'. mem_malloc 100 (mem_init (\<lambda>_. 0)) = Some (Some (int a), h') \<and> 4 dvd a \<and> 100 \<le> k \<and> holds h' {(a, k)}"
  using mem_malloc_correct [OF mem_init_rep, of 100 "\<lambda>_. 0"] by (auto simp: rounded_def)

lemma mem_free_ignored_witness:
  "mem_free (Some 8) (mem_init (\<lambda>_. 0)) = mem_init (\<lambda>_. 0) \<and> mem_free (Some 10) (mem_init (\<lambda>_. 0)) = mem_init (\<lambda>_. 0)"
  using mem_free_ignored [of "mem_init (\<lambda>_. 0)"] mem_init_rep [of "\<lambda>_. 0"] by (auto dest: spec [of _ "[]"])

lemma mem_trim_correct_witness:
  "\<exists>k h h' j. mem_malloc 100 (mem_init (\<lambda>_. 0)) = Some (Some (int k), h)
     \<and> mem_trim (int k) 50 h = (Some (int k), h') \<and> 50 \<le> j \<and> holds h' {(k, j)}"
proof -
  obtain k h bs c where h: "mem_malloc 100 (mem_init (\<lambda>_. 0)) = Some (Some (int k), h)" "rep h bs" "set (live 0 bs) = {(k, c)}" "100 \<le> c"
    using sample_malloc by blast
  then have "\<not> c < rounded 50"
    by (simp add: rounded_def)
  then show ?thesis
    using mem_trim_correct [OF h(2), of k c 50] h by auto
qed

lemma mem_client_correct_witness:
  "\<exists>h a bs. client ram mem_malloc (\<lambda>p. mem_free (Some p)) store_byte (mem_init (\<lambda>_. 0)) h [a \<mapsto> bs]
     \<and> length bs = 100 \<and> bs = map (\<lambda>i. ram h (int (a + i))) [0..<100]"
proof -
  obtain k h where h: "mem_malloc 100 (mem_init (\<lambda>_. 0)) = Some (Some (int k), h)"
    using sample_malloc by blast
  then obtain bs where c: "client ram mem_malloc (\<lambda>p. mem_free (Some p)) store_byte (mem_init (\<lambda>_. 0)) h [k \<mapsto> bs]" "length bs = 100"
    using sample_client by blast
  from mem_client_correct [OF c(1)] have "bs = map (\<lambda>i. ram h (int (k + i))) [0..<length bs]"
    by simp
  then show ?thesis
    using c by auto
qed

lemma mem_all_freed_witness:
  "\<exists>k h h'. mem_malloc 100 (mem_init (\<lambda>_. 0)) = Some (Some (int k), h) \<and> rep (mem_free (Some (int k)) h) [(10240, False)]
     \<and> mem_malloc 10232 (mem_free (Some (int k)) h) = Some h'"
proof -
  obtain k h where h: "mem_malloc 100 (mem_init (\<lambda>_. 0)) = Some (Some (int k), h)"
    using sample_malloc by blast
  then obtain bs where "client ram mem_malloc (\<lambda>p. mem_free (Some p)) store_byte (mem_init (\<lambda>_. 0)) h [k \<mapsto> bs]"
    using sample_client by blast
  from client_free [OF this, of k]
  have "client ram mem_malloc (\<lambda>p. mem_free (Some p)) store_byte (mem_init (\<lambda>_. 0)) (mem_free (Some (int k)) h) Map.empty"
    by simp
  note freed = mem_all_freed [OF this]
  then have "\<exists>p h'. mem_malloc 10232 (mem_free (Some (int k)) h) = Some (Some p, h')"
    by simp
  then show ?thesis
    using freed h by blast
qed

end

