(* ===== verification/Reass.thy ===== *)
theory Reass
  imports Ip4Input "HOL-Library.Monad_Syntax"
begin

text \<open>
  Reassembly of IP datagrams, the first half of \<open>core/ipv4/ip4_frag.c\<close> of lwIP 2.1.2, with the options of \<open>lwipopts.h\<close>:
  overlapping fragments are refused, and the oldest datagram gives way when too many buffers wait.
  Pointers to a datagram are positions in the list \<open>reassdatagrams\<close>. The descriptors come from the heap (\<open>heap\<close>), and \<open>heaps k\<close>
  serves the \<open>k\<close>-th ICMP message; \<open>frag\<close> divides packets that are too long for an interface. \<open>None\<close> is a read beyond the
  received bytes or through a \<open>NULL\<close> pointer.

  The theorems: the number of waiting buffers stays within its bound, and the fragments of a datagram
  give the datagram back in whatever order they come in.
\<close>

section \<open>Operations\<close>

definition IP_REASS_MAXAGE :: u8 where "IP_REASS_MAXAGE = 15"

definition IP_REASS_MAX_PBUFS :: nat where "IP_REASS_MAX_PBUFS = 10"

definition IP_REASS_FLAG_LASTFRAG :: u8 where "IP_REASS_FLAG_LASTFRAG = 1"

definition IP_MF :: u16 where "IP_MF = 0x2000"

definition IP_OFFMASK :: u16 where "IP_OFFMASK = 0x1FFF"

definition ICMP_TE_FRAG :: u8 where "ICMP_TE_FRAG = 1"

definition SIZEOF_IP_REASSDATA :: u16 where "SIZEOF_IP_REASSDATA = 32"

datatype validate = IP_REASS_VALIDATE_TELEGRAM_FINISHED | IP_REASS_VALIDATE_PBUF_QUEUED | IP_REASS_VALIDATE_PBUF_DROPPED

text \<open>Fields of a header, in the byte order of the host.\<close>

definition IPH_OFFSET :: "u8 list \<Rightarrow> u16" where
  "IPH_OFFSET h = lwip_htons (load16 (h ! 6) (h ! 7))"

definition IPH_OFFSET_BYTES :: "u8 list \<Rightarrow> u16" where
  "IPH_OFFSET_BYTES h = (IPH_OFFSET h AND IP_OFFMASK) * 8"

definition IPH_LEN :: "u8 list \<Rightarrow> u16" where
  "IPH_LEN h = lwip_htons (load16 (h ! 2) (h ! 3))"

definition IP_ADDRESSES_AND_ID_MATCH :: "u8 list \<Rightarrow> u8 list \<Rightarrow> bool" where
  "IP_ADDRESSES_AND_ID_MATCH a b \<longleftrightarrow> load32 (drop 12 a) = load32 (drop 12 b) \<and> load32 (drop 16 a) = load32 (drop 16 b)
     \<and> load16 (a ! 4) (a ! 5) = load16 (b ! 4) (b ! 5)"

definition ip_reass_dequeue_datagram :: "nat \<Rightarrow> stack \<Rightarrow> stack" where
  "ip_reass_dequeue_datagram k st =
     st\<lparr>reassdatagrams := take k (reassdatagrams st) @ drop (Suc k) (reassdatagrams st)\<rparr>"

text \<open>\<open>pbuf_clen\<close> of all fragments of a datagram.\<close>

definition frags_clen :: "ip_reass_frag list \<Rightarrow> nat" where
  "frags_clen fs = sum_list (map (length \<circ> fr_pbuf) fs)"

definition ip_reass_free_complete_datagram :: "heap \<Rightarrow> outfn \<Rightarrow> nat \<Rightarrow> stack \<Rightarrow> (u16 \<times> stack) option" where
  "ip_reass_free_complete_datagram heap frag k st =
     (let ipr = reassdatagrams st ! k
      in case ra_p ipr of
           [] \<Rightarrow> None
         | f # _ \<Rightarrow> do {
             st1 \<leftarrow> (if fr_start f = 0
                    then icmp_time_exceeded heap frag (put_bytes 0 (ra_iphdr ipr) (hd (fr_pbuf f)) # tl (fr_pbuf f)) ICMP_TE_FRAG st
                    else Some st);
             let pbufs_freed = of_nat (frags_clen (ra_p ipr));
             let st2 = ip_reass_dequeue_datagram k st1;
             Some (pbufs_freed, st2\<lparr>ip_reass_pbufcount := ip_reass_pbufcount st2 - pbufs_freed\<rparr>)
           })"

text \<open>\<open>ip_reass_tmr\<close>, from position \<open>k\<close> on, with the number of datagrams from there on.\<close>

fun ip_reass_tmr_loop :: "(nat \<Rightarrow> heap) \<Rightarrow> outfn \<Rightarrow> nat \<Rightarrow> nat \<Rightarrow> stack \<Rightarrow> stack option" where
  "ip_reass_tmr_loop heaps frag 0 k st = Some st"
| "ip_reass_tmr_loop heaps frag (Suc n) k st =
     (let r = reassdatagrams st ! k
      in if ra_timer r > 0
         then ip_reass_tmr_loop heaps frag n (Suc k)
                (st\<lparr>reassdatagrams := (reassdatagrams st)[k := r\<lparr>ra_timer := ra_timer r - 1\<rparr>]\<rparr>)
         else do {
           (_, st1) \<leftarrow> ip_reass_free_complete_datagram (heaps n) frag k st;
           ip_reass_tmr_loop heaps frag n k st1
         })"

definition ip_reass_tmr :: "(nat \<Rightarrow> heap) \<Rightarrow> outfn \<Rightarrow> stack \<Rightarrow> stack option" where
  "ip_reass_tmr heaps frag st = ip_reass_tmr_loop heaps frag (length (reassdatagrams st)) 0 st"

text \<open>
  The scan of \<open>ip_reass_remove_oldest_datagram\<close>: the number of datagrams other than the one of \<open>h\<close>, and among
  them the last one with the least time left, with its position.
\<close>

fun oldest_scan :: "u8 list \<Rightarrow> nat \<Rightarrow> ip_reassdata list \<Rightarrow> nat \<times> (nat \<times> u8) option \<Rightarrow> nat \<times> (nat \<times> u8) option" where
  "oldest_scan h k [] acc = acc"
| "oldest_scan h k (r # rs) (others, old) =
     oldest_scan h (Suc k) rs
       (if \<not> IP_ADDRESSES_AND_ID_MATCH (ra_iphdr r) h
        then (Suc others,
              (case old of
                 None \<Rightarrow> Some (k, ra_timer r)
               | Some (_, t) \<Rightarrow> if ra_timer r \<le> t then Some (k, ra_timer r) else old))
        else (others, old))"

text \<open>The loop; \<open>n\<close> counts the datagrams freed so far.\<close>

partial_function (option) ip_reass_remove_oldest_loop ::
  "(nat \<Rightarrow> heap) \<Rightarrow> outfn \<Rightarrow> u8 list \<Rightarrow> nat \<Rightarrow> nat \<Rightarrow> nat \<Rightarrow> stack \<Rightarrow> (nat \<times> stack) option" where
  "ip_reass_remove_oldest_loop heaps frag h needed n freed st =
     (case oldest_scan h 0 (reassdatagrams st) (0, None) of
        (others, None) \<Rightarrow> Some (freed, st)
      | (others, Some (k, _)) \<Rightarrow>
          (case ip_reass_free_complete_datagram (heaps n) frag k st of
             None \<Rightarrow> None
           | Some (f, st1) \<Rightarrow>
               if freed + unat f < needed \<and> 1 < others
               then ip_reass_remove_oldest_loop heaps frag h needed (Suc n) (freed + unat f) st1
               else Some (freed + unat f, st1)))"

definition ip_reass_remove_oldest_datagram ::
  "(nat \<Rightarrow> heap) \<Rightarrow> outfn \<Rightarrow> u8 list \<Rightarrow> nat \<Rightarrow> stack \<Rightarrow> (nat \<times> stack) option" where
  "ip_reass_remove_oldest_datagram heaps frag h needed st = ip_reass_remove_oldest_loop heaps frag h needed 0 0 st"

definition new_datagram :: "u8 list \<Rightarrow> ip_reassdata" where
  "new_datagram h = \<lparr>ra_p = [], ra_iphdr = h, ra_datagram_len = 0, ra_flags = 0, ra_timer = IP_REASS_MAXAGE\<rparr>"

text \<open>\<open>False\<close>: no memory for the descriptor. A new one is the first of the list.\<close>

definition ip_reass_enqueue_new_datagram ::
  "(nat \<Rightarrow> heap) \<Rightarrow> heap \<Rightarrow> outfn \<Rightarrow> u8 list \<Rightarrow> nat \<Rightarrow> stack \<Rightarrow> (bool \<times> stack) option" where
  "ip_reass_enqueue_new_datagram heaps heap frag h clen st =
     (if heap 0 SIZEOF_IP_REASSDATA \<noteq> None then Some (True, st\<lparr>reassdatagrams := new_datagram h # reassdatagrams st\<rparr>)
      else do {
        (freed, st1) \<leftarrow> ip_reass_remove_oldest_datagram heaps frag h clen st;
        if freed \<ge> clen \<and> heap 1 SIZEOF_IP_REASSDATA \<noteq> None
        then Some (True, st1\<lparr>reassdatagrams := new_datagram h # reassdatagrams st1\<rparr>)
        else Some (False, st1)
      })"

text \<open>
  The loop of \<open>ip_reass_chain_frag_into_datagram_and_validate\<close> over the fragments, with the one before and
  whether there was no hole so far: \<open>None\<close> drops the new fragment.
\<close>

fun chain_frag :: "ip_reass_frag \<Rightarrow> ip_reass_frag option \<Rightarrow> bool \<Rightarrow> ip_reass_frag list \<Rightarrow> (bool \<times> ip_reass_frag list) option" where
  "chain_frag new prev valid [] =
     Some ((case prev of None \<Rightarrow> valid | Some pr \<Rightarrow> valid \<and> fr_end pr = fr_start new), [new])"
| "chain_frag new prev valid (q # qs) =
     (if fr_start new < fr_start q
      then (case prev of
              Some pr \<Rightarrow>
                if fr_start new < fr_end pr \<or> fr_end new > fr_start q then None
                else Some (valid \<and> fr_end pr = fr_start new, new # q # qs)
            | None \<Rightarrow> if fr_end new > fr_start q then None else Some (valid, new # q # qs))
      else if fr_start new = fr_start q then None
      else if fr_start new < fr_end q then None
      else map_option (\<lambda>(v, fs). (v, q # fs))
             (chain_frag new (Some q) (case prev of None \<Rightarrow> valid | Some pr \<Rightarrow> valid \<and> fr_end pr = fr_start q) qs))"

text \<open>The loop over the fragments behind the new one: no holes.\<close>

fun no_hole :: "ip_reass_frag \<Rightarrow> ip_reass_frag list \<Rightarrow> bool" where
  "no_hole f [] \<longleftrightarrow> True"
| "no_hole f (g # gs) \<longleftrightarrow> fr_end f = fr_start g \<and> no_hole g gs"

text \<open>The fragment of a packet.\<close>

definition new_frag :: "pbuf list \<Rightarrow> ip_reass_frag" where
  "new_frag p = (let h = pb_payload (hd p); offset = IPH_OFFSET_BYTES h
     in \<lparr>fr_start = offset, fr_end = offset + (IPH_LEN h - to_u16 (IPH_HL_BYTES h)), fr_pbuf = p\<rparr>)"

definition ip_reass_chain_frag_into_datagram_and_validate ::
  "ip_reassdata \<Rightarrow> pbuf list \<Rightarrow> bool \<Rightarrow> validate \<times> ip_reassdata" where
  "ip_reass_chain_frag_into_datagram_and_validate ipr p is_last =
     (let h = pb_payload (hd p); new = new_frag p
      in if to_u16 (IPH_HL_BYTES h) > IPH_LEN h \<or> fr_end new < fr_start new then (IP_REASS_VALIDATE_PBUF_DROPPED, ipr)
         else
           (case chain_frag new None True (ra_p ipr) of
              None \<Rightarrow> (IP_REASS_VALIDATE_PBUF_DROPPED, ipr)
            | Some (valid, fs) \<Rightarrow>
                let rest = tl (dropWhile (\<lambda>f. fr_start f \<noteq> fr_start new) fs);
                    finished = ((is_last \<or> ra_flags ipr AND IP_REASS_FLAG_LASTFRAG \<noteq> 0)
                                \<and> valid \<and> fs \<noteq> [] \<and> fr_start (hd fs) = 0 \<and> no_hole new rest)
                in (if finished then IP_REASS_VALIDATE_TELEGRAM_FINISHED else IP_REASS_VALIDATE_PBUF_QUEUED,
                    ipr\<lparr>ra_p := fs\<rparr>)))"

text \<open>The chain that a finished datagram becomes: the first fragment with a new header, the others without theirs.\<close>

fun cat_frags :: "pbuf list \<Rightarrow> ip_reass_frag list \<Rightarrow> pbuf list" where
  "cat_frags p [] = p"
| "cat_frags p (f # fs) =
     (let q = hd (fr_pbuf f); q1 = (case pbuf_remove_header q IP_HLEN of None \<Rightarrow> q | Some q1 \<Rightarrow> q1)
      in cat_frags (pbuf_chain p (q1 # tl (fr_pbuf f))) fs)"

definition reass_header :: "u8 list \<Rightarrow> u16 \<Rightarrow> pbuf \<Rightarrow> pbuf" where
  "reass_header iphdr datagram_len q =
     (let q1 = put_bytes 10 [0, 0] (put_bytes 6 [0, 0] (put_bytes 2 (store16 (lwip_htons datagram_len)) (put_bytes 0 iphdr q)))
      in put_bytes 10 (store16 (inet_chksum (bit (pb_at q1) 0) (take IP_HLEN (pb_payload q1)))) q1)"

definition reass_finish :: "ip_reassdata \<Rightarrow> pbuf list" where
  "reass_finish ipr =
     (let p = fr_pbuf (hd (ra_p ipr))
      in cat_frags (reass_header (ra_iphdr ipr) (ra_datagram_len ipr + of_nat IP_HLEN) (hd p) # tl p) (tl (ra_p ipr)))"

text \<open>The room for \<open>clen\<close> more buffers, if need be made.\<close>

definition reass_room :: "(nat \<Rightarrow> heap) \<Rightarrow> outfn \<Rightarrow> u8 list \<Rightarrow> nat \<Rightarrow> stack \<Rightarrow> (bool \<times> stack) option" where
  "reass_room heaps frag h clen st =
     (if unat (ip_reass_pbufcount st) + clen > IP_REASS_MAX_PBUFS
      then map_option (\<lambda>(freed, st1). (freed \<noteq> 0 \<and> \<not> unat (ip_reass_pbufcount st1) + clen > IP_REASS_MAX_PBUFS, st1))
             (ip_reass_remove_oldest_datagram heaps frag h clen st)
      else Some (True, st))"

definition find_datagram :: "u8 list \<Rightarrow> ip_reassdata list \<Rightarrow> nat option" where
  "find_datagram h rs = find (\<lambda>k. IP_ADDRESSES_AND_ID_MATCH (ra_iphdr (rs ! k)) h) [0..<length rs]"

text \<open>The last fragment makes a datagram that is too long.\<close>

definition bad_last :: "pbuf list \<Rightarrow> bool" where
  "bad_last p \<longleftrightarrow> IPH_OFFSET (pb_payload (hd p)) AND IP_MF = 0
     \<and> (fr_end (new_frag p) < fr_start (new_frag p) \<or> fr_end (new_frag p) > 0xFFFF - of_nat IP_HLEN)"

text \<open>The label \<open>nullreturn_ipr\<close>.\<close>

definition nullreturn_ipr :: "nat \<Rightarrow> stack \<Rightarrow> (pbuf list option \<times> stack) option" where
  "nullreturn_ipr k st =
     (if ra_p (reassdatagrams st ! k) \<noteq> [] then Some (None, st)
      else if k = 0 then Some (None, ip_reass_dequeue_datagram 0 st) else None)"

text \<open>The part of \<open>ip4_reass\<close> with the datagram \<open>ipr\<close> at position \<open>k\<close>.\<close>

definition reass_insert :: "nat \<Rightarrow> pbuf list \<Rightarrow> stack \<Rightarrow> (pbuf list option \<times> stack) option" where
  "reass_insert k p st =
     (let is_last = (IPH_OFFSET (pb_payload (hd p)) AND IP_MF = 0)
      in if bad_last p then nullreturn_ipr k st
         else
           (case ip_reass_chain_frag_into_datagram_and_validate (reassdatagrams st ! k) p is_last of
              (IP_REASS_VALIDATE_PBUF_DROPPED, _) \<Rightarrow> nullreturn_ipr k st
            | (valid, ipr1) \<Rightarrow>
                let ipr2 = (if is_last then ipr1\<lparr>ra_datagram_len := fr_end (new_frag p),
                                                ra_flags := ra_flags ipr1 OR IP_REASS_FLAG_LASTFRAG\<rparr> else ipr1);
                    st1 = st\<lparr>reassdatagrams := (reassdatagrams st)[k := ipr2],
                             ip_reass_pbufcount := ip_reass_pbufcount st + of_nat (length p)\<rparr>
                in if valid = IP_REASS_VALIDATE_TELEGRAM_FINISHED
                   then let q = reass_finish ipr2; st2 = ip_reass_dequeue_datagram k st1
                        in Some (Some q, st2\<lparr>ip_reass_pbufcount := ip_reass_pbufcount st2 - of_nat (length q)\<rparr>)
                   else Some (None, st1)))"

text \<open>The header to keep is the one of the first fragment.\<close>

definition update_header :: "u8 list \<Rightarrow> ip_reassdata \<Rightarrow> ip_reassdata" where
  "update_header h r =
     (if IPH_OFFSET h AND IP_OFFMASK = 0 \<and> IPH_OFFSET (ra_iphdr r) AND IP_OFFMASK \<noteq> 0 then r\<lparr>ra_iphdr := h\<rparr> else r)"

definition ip4_reass :: "(nat \<Rightarrow> heap) \<Rightarrow> (nat \<Rightarrow> heap) \<Rightarrow> heap \<Rightarrow> outfn \<Rightarrow> reass_fn" where
  "ip4_reass heaps heaps' heap frag p st =
     (if p = [] \<or> length (pb_payload (hd p)) < IP_HLEN then None
      else
        let h = take IP_HLEN (pb_payload (hd p))
        in if unat (IPH_HL_BYTES h) \<noteq> IP_HLEN \<or> to_u16 (IPH_HL_BYTES h) > IPH_LEN h then Some (None, st)
           else
             (case reass_room heaps frag h (length p) st of
                None \<Rightarrow> None
              | Some (False, st1) \<Rightarrow> Some (None, st1)
              | Some (True, st1) \<Rightarrow>
                  (case find_datagram h (reassdatagrams st1) of
                     None \<Rightarrow>
                       (case ip_reass_enqueue_new_datagram heaps' heap frag h (length p) st1 of
                          None \<Rightarrow> None
                        | Some (False, st2) \<Rightarrow> Some (None, st2)
                        | Some (True, st2) \<Rightarrow> reass_insert 0 p st2)
                   | Some k \<Rightarrow>
                       reass_insert k p
                         (st1\<lparr>reassdatagrams := (reassdatagrams st1)[k := update_header h (reassdatagrams st1 ! k)]\<rparr>))))"

section \<open>Order of the fragments\<close>

text \<open>A fragment lies before another: it starts before it and does not reach into it.\<close>

definition before :: "ip_reass_frag \<Rightarrow> ip_reass_frag \<Rightarrow> bool" where
  "before f g \<longleftrightarrow> fr_start f < fr_start g \<and> fr_end f \<le> fr_start g"

definition span_ok :: "ip_reass_frag \<Rightarrow> bool" where
  "span_ok f \<longleftrightarrow> fr_start f \<le> fr_end f"

fun linked :: "ip_reass_frag list \<Rightarrow> bool" where
  "linked [] \<longleftrightarrow> True"
| "linked (f # fs) \<longleftrightarrow> no_hole f fs"

lemma no_hole_append: "no_hole f (fs @ g # gs) \<longleftrightarrow> no_hole f (fs @ [g]) \<and> no_hole g gs"
  by (induction fs arbitrary: f) simp_all

lemma linked_append: "linked (fs @ g # gs) \<longleftrightarrow> linked (fs @ [g]) \<and> no_hole g gs"
  by (cases fs) (simp_all add: no_hole_append [of _ _ g gs])

lemma before_trans: "before f g \<Longrightarrow> before g h \<Longrightarrow> before f h"
  using less_trans [of "fr_start f" "fr_start g" "fr_start h"] order_trans [of "fr_end f" "fr_start g" "fr_start h"]
  by (simp add: before_def less_imp_le)

lemma chain_frag_result:
  assumes "sorted_wrt before fs" "list_all span_ok fs" "span_ok new" "\<forall>pr. prev = Some pr \<longrightarrow> before pr new \<and> list_all (before pr) fs"
  shows "chain_frag new prev valid fs =
    (if \<exists>f\<in>set fs. \<not> before f new \<and> \<not> before new f then None
     else let xs = takeWhile (\<lambda>f. before f new) fs; ys = dropWhile (\<lambda>f. before f new) fs
       in Some (valid \<and> linked ((case prev of None \<Rightarrow> [] | Some pr \<Rightarrow> [pr]) @ xs @ [new]), xs @ new # ys))"
  using assms
proof (induction fs arbitrary: prev valid)
  case Nil
  then show ?case
    by (cases prev) auto
next
  case (Cons q qs)
  have q: "span_ok q" "sorted_wrt before qs" "list_all span_ok qs" "\<forall>f\<in>set qs. before q f"
    using Cons.prems by (auto simp: list_all_iff)
  consider (left) "before new q" | (right) "before q new" | (clash) "\<not> before new q" "\<not> before q new"
    by blast
  then show ?case
  proof cases
    case left
    have nb: "\<not> before q new"
      using left by (auto simp: before_def)
    have all: "\<not> (\<exists>f\<in>set (q # qs). \<not> before f new \<and> \<not> before new f)"
      using q before_trans [OF left] left by auto
    have "\<not> fr_start new < fr_end pr" if "prev = Some pr" for pr
      using Cons.prems(4) that by (auto simp: before_def)
    then show ?thesis
      unfolding if_not_P [OF all] using left nb by (cases prev) (auto simp: before_def Let_def)
  next
    case right
    have IH: "chain_frag new (Some q) v qs =
      (if \<exists>f\<in>set qs. \<not> before f new \<and> \<not> before new f then None
       else let xs = takeWhile (\<lambda>f. before f new) qs; ys = dropWhile (\<lambda>f. before f new) qs
         in Some (v \<and> linked ([q] @ xs @ [new]), xs @ new # ys))" for v
    proof -
      have "\<forall>pr. Some q = Some pr \<longrightarrow> before pr new \<and> list_all (before pr) qs"
        using q(4) right by (simp add: list_all_iff)
      from Cons.IH [OF q(2,3) Cons.prems(3) this, of v] show ?thesis
        by (simp only: option.case)
    qed
    have "chain_frag new prev valid (q # qs) = map_option (\<lambda>(v, fs). (v, q # fs))
        (chain_frag new (Some q) (case prev of None \<Rightarrow> valid | Some pr \<Rightarrow> valid \<and> fr_end pr = fr_start q) qs)"
      using right by (auto simp: before_def)
    then show ?thesis
      unfolding IH using right by (cases prev) (auto simp: Let_def)
  next
    case clash
    then have ex: "\<exists>f\<in>set (q # qs). \<not> before f new \<and> \<not> before new f"
      by auto
    have "chain_frag new prev valid (q # qs) = None"
      using clash q(1) Cons.prems(3) by (auto simp: before_def span_ok_def split: option.splits)
    then show ?thesis
      unfolding if_P [OF ex] .
  qed
qed

section \<open>Output does not touch the fragments and the interfaces\<close>

definition reass_same :: "stack \<Rightarrow> stack \<Rightarrow> bool" where
  "reass_same st st' \<longleftrightarrow> reassdatagrams st' = reassdatagrams st \<and> ip_reass_pbufcount st' = ip_reass_pbufcount st
     \<and> netifs st' = netifs st"

definition out_keeps :: "outfn \<Rightarrow> bool" where
  "out_keeps out \<longleftrightarrow> (\<forall>i p d st e st'. out i p d st = Some (e, st') \<longrightarrow> reass_same st st')"

lemma reass_same_refl [simp]: "reass_same st st"
  by (simp add: reass_same_def)

lemma reass_same_trans: "reass_same st st1 \<Longrightarrow> reass_same st1 st2 \<Longrightarrow> reass_same st st2"
  by (simp add: reass_same_def)

lemma reass_same_upd [simp]:
  "reass_same st (set_entry k f st1) = reass_same st st1" "reass_same (set_entry k f st) st1 = reass_same st st1"
  "reass_same st (st1\<lparr>arp_table := t\<rparr>) = reass_same st st1" "reass_same (st\<lparr>arp_table := t\<rparr>) st1 = reass_same st st1"
  "reass_same st (st1\<lparr>etharp_cached_entry := c\<rparr>) = reass_same st st1" "reass_same (st\<lparr>etharp_cached_entry := c\<rparr>) st1 = reass_same st st1"
  "reass_same st (st1\<lparr>sport := s\<rparr>) = reass_same st st1" "reass_same (st\<lparr>ip_id := n\<rparr>) st1 = reass_same st st1"
  by (simp_all add: reass_same_def set_entry_def)

lemma ethernet_output_keeps: "ethernet_output p src dst t st = Some (e, st') \<Longrightarrow> reass_same st st'"
  by (auto simp: ethernet_output_def linkoutput_def Let_def split: option.splits prod.splits if_splits)

lemma etharp_request_keeps:
  "etharp_request_dst heap i a hw st = Some (e, st') \<Longrightarrow> reass_same st st'"
  "etharp_request heap i a st = Some (e, st') \<Longrightarrow> reass_same st st'"
  by (auto simp: etharp_request_def etharp_request_dst_def etharp_raw_def Let_def dest: ethernet_output_keeps split: option.splits)

lemma etharp_output_keeps: "out_keeps (etharp_output heap)"
proof -
  have idx: "etharp_output_to_arp_index heap i q k st = Some (e, st') \<Longrightarrow> reass_same st st'" for i q k st e st'
    by (auto simp: etharp_output_to_arp_index_def Let_def split: option.splits if_splits
        dest!: ethernet_output_keeps etharp_request_keeps intro: reass_same_trans)
  have snd: "query_send heap i k p r st = Some (e, st') \<Longrightarrow> reass_same st st'" for i k p r st e st'
    by (auto simp: query_send_def Let_def split: option.splits if_splits dest!: ethernet_output_keeps)
  have start: "reass_same (query_start i k tab st) st' = reass_same st st'" for i k tab st st'
    by (simp add: query_start_def)
  have "etharp_query heap i a q st = Some (e, st') \<Longrightarrow> reass_same st st'" for i a q st e st'
    by (auto simp: etharp_query_def Let_def start split: option.splits if_splits prod.splits
        dest!: snd etharp_request_keeps intro: reass_same_trans)
  then show ?thesis
    by (auto simp: out_keeps_def etharp_output_def Let_def split: option.splits if_splits
        dest!: idx ethernet_output_keeps)
qed

lemma icmp_time_exceeded_keeps:
  assumes "out_keeps frag" "icmp_time_exceeded heap frag p c st = Some st'"
  shows "reass_same st st'"
proof -
  have net: "ip4_output_netif h frag i q d st = Some (e, st') \<Longrightarrow> reass_same st st'" for h i q d st e st'
    using assms(1) etharp_output_keeps [of h] by (auto simp: ip4_output_netif_def out_keeps_def split: if_splits)
  have "ip4_output_if h frag q src dst ttl tos proto i st = Some (e, st') \<Longrightarrow> reass_same st st'" for h q src dst ttl tos proto i st e st'
    by (auto simp: ip4_output_if_def ip4_output_if_src_def Let_def split: option.splits if_splits dest!: net)
  then show ?thesis
    using assms(2) by (force simp: icmp_time_exceeded_def icmp_send_response_def Let_def split: option.splits if_splits)
qed

section \<open>Output returns\<close>

text \<open>
  A stack whose output operations return: the ARP table is correct, all hardware addresses have six bytes, and the interfaces
  carry the 56 bytes of an ICMP message in one piece.
\<close>

definition out_live :: "stack \<Rightarrow> bool" where
  "out_live st \<longleftrightarrow> arp_ok st \<and> hw_ok st \<and> (\<forall>k v c. (k, v, c) \<in> stab (arp_table st) \<longrightarrow> length v = 6)
     \<and> (\<forall>i. mtu (netifs st i) = 0 \<or> 56 \<le> mtu (netifs st i))"

lemma live_shrinks: "out_live st \<Longrightarrow> arp_shrinks st st' \<Longrightarrow> netifs st' = netifs st \<Longrightarrow> out_live st'"
  by (fastforce simp: out_live_def arp_shrinks_def hw_ok_def)

lemma live_upd [simp]:
  "out_live (st\<lparr>sport := s\<rparr>) = out_live st" "out_live (st\<lparr>ip_id := n\<rparr>) = out_live st"
  "out_live (st\<lparr>reassdatagrams := rs\<rparr>) = out_live st" "out_live (st\<lparr>ip_reass_pbufcount := c\<rparr>) = out_live st"
  by (simp_all add: out_live_def arp_ok_def hw_ok_def)

lemma live_entry:
  assumes "out_live st" "k < ARP_TABLE_SIZE" "is_stable (ent_state (arp_table st ! k))"
  shows "length (ent_ethaddr (arp_table st ! k)) = 6"
proof -
  have "fact (arp_table st ! k) \<in> stab (arp_table st)"
    using assms by (intro nth_fact) (simp_all add: out_live_def arp_ok_def kind_stable_def)
  then show ?thesis
    using assms(1) by (auto simp: out_live_def fact_def)
qed

lemma ethernet_output_returns:
  assumes "headroom 14 p" "length src = 6" "length dst = 6" "length (pb_payload p) \<le> 1500"
  shows "\<exists>r s. ethernet_output [p] src dst ty st = Some (r, st\<lparr>sport := s\<rparr>)"
proof -
  obtain p' where p': "ethernet_output [p] src dst ty st = linkoutput [p'] st"
    "pb_payload p' = dst @ src @ store16 (lwip_htons ty) @ pb_payload p"
    using ethernet_output_frame [OF assms(1,3,2)] by blast
  then have "length (pbuf_bytes [p']) \<le> ETH_FRAME_SIZE"
    using assms by (simp add: pbuf_bytes_def ETH_FRAME_SIZE_def)
  then obtain l m where "gather [p'] 0 (EthFrameTX (sport st)) = Some (l, m)"
    using gather_result [of 0 "[p']" "EthFrameTX (sport st)"] by auto
  then show ?thesis
    using p'(1) by (auto simp: linkoutput_def low_level_output_def split_def Let_def)
qed

lemma etharp_request_returns:
  assumes "heap_ok heap" "hw_ok st"
  shows "length hw = 6 \<Longrightarrow> \<exists>r s. etharp_request_dst heap i ip hw st = Some (r, st\<lparr>sport := s\<rparr>)"
    "\<exists>r s. etharp_request heap i ip st = Some (r, st\<lparr>sport := s\<rparr>)"
proof -
  have "\<exists>r s. etharp_request_dst heap i ip hw st = Some (r, st\<lparr>sport := s\<rparr>)" if "length hw = 6" for hw
    using etharp_raw_returns [OF assms(1), of "hwaddr (netifs st i)" hw "hwaddr (netifs st i)" ethzero
        "ip_addr (netifs st i)" ip ARP_REQUEST st] etharp_raw_port [of heap _ _ _ _ _ _ _ st] assms(2) that
    by (fastforce simp: etharp_request_dst_def Let_def hw_ok_def ethzero_def)
  then show "length hw = 6 \<Longrightarrow> \<exists>r s. etharp_request_dst heap i ip hw st = Some (r, st\<lparr>sport := s\<rparr>)"
    "\<exists>r s. etharp_request heap i ip st = Some (r, st\<lparr>sport := s\<rparr>)"
    by (simp_all add: etharp_request_def ethbroadcast_def)
qed

lemma etharp_output_to_arp_index_returns:
  assumes "out_live st" "heap_ok heap" "headroom 14 q" "length (pb_payload q) \<le> 1500" "k < ARP_TABLE_SIZE" "is_stable (ent_state (arp_table st ! k))"
  shows "\<exists>r st'. etharp_output_to_arp_index heap i [q] k st = Some (r, st')"
proof -
  note hw = live_entry [OF assms(1,5,6)]
  have ok: "hw_ok st" "\<And>n. length (hwaddr (netifs st n)) = 6"
    using assms(1) by (simp_all add: out_live_def hw_ok_def)
  have len: "k < length (arp_table st)"
    using assms(1,5) by (simp add: out_live_def arp_ok_def arp_inv_def)
  note req = etharp_request_returns(1) [OF assms(2) ok(1) hw, of i "ent_ipaddr (arp_table st ! k)"]
    etharp_request_returns(2) [OF assms(2) ok(1), of i "ent_ipaddr (arp_table st ! k)"]
  have out: "\<exists>r st'. ethernet_output [q] (hwaddr (netifs st i)) (ent_ethaddr (arp_table st ! k)) ETHTYPE_IP st1 = Some (r, st')" for st1
    using ethernet_output_returns [OF assms(3) ok(2) hw assms(4), of i ETHTYPE_IP st1] by blast
  show ?thesis
    using req len
    by (auto simp: etharp_output_to_arp_index_def Let_def set_entry_def intro: out split: if_splits)
qed

lemma etharp_query_returns:
  assumes "out_live st" "heap_ok heap" "headroom 14 q" "length (pb_payload q) \<le> 1500"
  shows "\<exists>r st'. etharp_query heap i ip (Some [q]) st = Some (r, st')"
proof -
  have inv: "arp_inv (arp_table st)" and ok: "hw_ok st" "\<And>n. length (hwaddr (netifs st n)) = 6"
    and len: "length (arp_table st) = ARP_TABLE_SIZE"
    using assms(1) by (auto simp: out_live_def hw_ok_def arp_ok_def arp_inv_def)
  from inv show ?thesis
  proof (cases rule: find_entry_cases [of _ ip ETHARP_FLAG_TRY_HARD i])
    case (found k)
    have st: "st\<lparr>arp_table := arp_table st\<rparr> = st"
      by simp
    have "\<exists>r st'. ethernet_output [q] (hwaddr (netifs st i)) (ent_ethaddr (arp_table st ! k)) ETHTYPE_IP st1 = Some (r, st')"
      if "is_stable (ent_state (arp_table st ! k))" for st1
      using ethernet_output_returns [OF assms(3) ok(2) live_entry [OF assms(1) found(2) that] assms(4), of i ETHTYPE_IP st1] by blast
    then have "\<exists>r st'. query_send heap i k [q] e st = Some (r, st')" for e
      by (auto simp: query_send_def Let_def split: option.splits)
    moreover have "ent_state (arp_table st ! k) \<noteq> ETHARP_STATE_EMPTY"
      using found(3) by (simp add: in_use_def)
    ultimately show ?thesis
      by (auto simp: etharp_query_def found(1) Let_def query_start_def st)
  next
    case (new k)
    let ?pend = "empty_entry\<lparr>ent_ipaddr := ip, ent_netif := Some i, ent_state := ETHARP_STATE_PENDING\<rparr>"
    let ?t = "st\<lparr>arp_table := (arp_table st)[k := ?pend]\<rparr>"
    have start: "query_start i k ((arp_table st)[k := empty_entry\<lparr>ent_ipaddr := ip, ent_netif := Some i\<rparr>]) st = ?t"
      using new(2) len by (simp add: query_start_def set_entry_def empty_entry_def)
    have empty: "ent_state ((arp_table st)[k := empty_entry\<lparr>ent_ipaddr := ip, ent_netif := Some i\<rparr>] ! k) = ETHARP_STATE_EMPTY"
      using new(2) len by (simp add: empty_entry_def)
    obtain r s where "etharp_request heap i ip ?t = Some (r, ?t\<lparr>sport := s\<rparr>)"
      using etharp_request_returns(2) [OF assms(2), of ?t i ip] ok(1) by (auto simp: hw_ok_def)
    moreover have "\<exists>r' st'. query_send heap i k [q] r (?t\<lparr>sport := s\<rparr>) = Some (r', st')"
      using new(2) len by (auto simp: query_send_def Let_def split: option.splits)
    ultimately show ?thesis
      by (auto simp: etharp_query_def new(1) Let_def start empty)
  qed (simp)
qed

lemma etharp_output_returns:
  assumes "out_live st" "heap_ok heap" "headroom 14 q" "length (pb_payload q) \<le> 1500"
  shows "\<exists>r st'. etharp_output heap i [q] ip st = Some (r, st') \<and> out_live st'"
proof -
  have ok: "length (hwaddr (netifs st i)) = 6" "etharp_cached_entry st < ARP_TABLE_SIZE"
    using assms(1) by (simp_all add: out_live_def hw_ok_def arp_ok_def)
  have direct: "\<exists>r st'. ethernet_output [q] (hwaddr (netifs st i)) hw ETHTYPE_IP st = Some (r, st')" if "length hw = 6" for hw
    using ethernet_output_returns [OF assms(3) ok(1) that assms(4), of ETHTYPE_IP st] by blast
  have index: "\<exists>r st'. etharp_output_to_arp_index heap i [q] k (st\<lparr>etharp_cached_entry := k'\<rparr>) = Some (r, st')"
    if "k < ARP_TABLE_SIZE" "k' < ARP_TABLE_SIZE" "arp_hit i d (arp_table st ! k)" for k k' d
    using etharp_output_to_arp_index_returns [of "st\<lparr>etharp_cached_entry := k'\<rparr>" heap q k i] assms that
    by (auto simp: out_live_def arp_ok_def hw_ok_def arp_hit_def)
  have hit: "\<exists>r st'. etharp_output_to_arp_index heap i [q] (etharp_cached_entry st) st = Some (r, st')"
    if "arp_hit i d (arp_table st ! etharp_cached_entry st)" for d
    using index [OF ok(2) ok(2) that] by simp
  have far: "\<exists>r st'. etharp_output_to_arp_index heap i [q] k (st\<lparr>etharp_cached_entry := k\<rparr>) = Some (r, st')"
    if "find (\<lambda>k. arp_hit i d (arp_table st ! k)) [0..<ARP_TABLE_SIZE] = Some k" for d k
    using that index [of k k d] by (auto simp: find_Some_iff)
  define d where "d = (if \<not> ip4_addr_netcmp ip (ip_addr (netifs st i)) (netmask (netifs st i)) \<and> \<not> ip4_addr_islinklocal ip
    then gw (netifs st i) else ip)"
  have "\<exists>r st'. etharp_output heap i [q] ip st = Some (r, st')"
    unfolding etharp_output_def Let_def d_def [symmetric]
    by (auto simp: direct ethbroadcast_def etharp_query_returns [OF assms] intro: hit [of d] far [of d] split: option.splits)
  then obtain r st' where out: "etharp_output heap i [q] ip st = Some (r, st')"
    by blast
  moreover have "out_live st'"
    using live_shrinks [OF assms(1)] etharp_output_shrinks [OF _ out] etharp_output_keeps [of heap] out assms(1)
    by (auto simp: out_keeps_def reass_same_def out_live_def)
  ultimately show ?thesis
    by blast
qed

lemma ip4_output_if_returns:
  assumes "out_live st" "heap_ok heap" "headroom 34 q" "length (pb_payload q) = 36"
  shows "\<exists>r st'. ip4_output_if heap frag [q] src (Some dest) ttl tos proto i st = Some (r, st') \<and> out_live st'"
proof -
  obtain p1 where p1: "add_header IP_HLEN [q] = Some [p1]" "unat (pb_tot_len p1) = 56"
    and put: "\<And>bs. length bs = 20 \<Longrightarrow> \<exists>p2. put_header bs [p1] = [p2] \<and> headroom 14 p2
          \<and> pb_payload p2 = bs @ pb_payload q \<and> pb_tot_len p2 = pb_tot_len p1"
    using add_header_headroom [of 20 14 q] assms(3,4) by (auto simp: IP_HLEN_def)
  have net: "\<exists>r st'. ip4_output_netif heap frag i (put_header bs [p1]) dest (st\<lparr>ip_id := n\<rparr>) = Some (r, st') \<and> out_live st'"
    if bs: "length bs = 20" for bs n
  proof -
    obtain p2 where p2: "put_header bs [p1] = [p2]" "headroom 14 p2" "length (pb_payload p2) = 56" "pb_tot_len p2 = pb_tot_len p1"
      using put [OF bs] bs assms(4) by auto
    have "\<not> (mtu (netifs st i) \<noteq> 0 \<and> pb_tot_len p2 > mtu (netifs st i))"
      using assms(1) p1(2) p2(4) by (auto simp: out_live_def word_less_nat_alt word_le_nat_alt)
    then show ?thesis
      using etharp_output_returns [of "st\<lparr>ip_id := n\<rparr>" heap p2 i dest] assms(1,2) p2 by (auto simp: ip4_output_netif_def)
  qed
  show ?thesis
    using net [OF length_ip_hdr] by (simp add: ip4_output_if_def ip4_output_if_src_def Let_def p1(1))
qed

lemma icmp_time_exceeded_returns:
  assumes "out_live st" "heap_ok heap" "p \<noteq> []" "28 \<le> length (pb_payload (hd p))"
  shows "\<exists>st'. icmp_time_exceeded heap frag p c st = Some st' \<and> out_live st'"
proof (cases "pbuf_alloc_RAM heap PBUF_IP 36")
  case None
  then show ?thesis
    using assms(1)
    by (simp add: icmp_time_exceeded_def icmp_send_response_def SIZEOF_ICMP_ECHO_HDR_def IP_HLEN_def ICMP_DEST_UNREACH_DATASIZE_def)
next
  case (Some q)
  then have q: "headroom 34 q" "length (pb_payload q) = 36"
    using pbuf_alloc_RAM_eq [OF assms(2), of 36 PBUF_IP] by (simp_all add: fresh_def headroom_def)
  have keep: "headroom 34 (put_bytes off bs p)" "length (pb_payload (put_bytes off bs p)) = 36"
    if "headroom 34 p" "length (pb_payload p) = 36" "off + length bs \<le> 36" for off bs p
    using that by (simp_all add: headroom_def put_bytes_def)
  have "heap_ok (\<lambda>i. heap (1 + i))"
    using assms(2) unfolding heap_ok_def by blast
  note out = ip4_output_if_returns [OF assms(1) this]
  let ?q1 = "put_bytes 0 (icmp_echo_hdr ICMP_TE c 0 0 0 @ take 28 (pb_payload (hd p))) q"
  have q1: "headroom 34 ?q1" "length (pb_payload ?q1) = 36"
    using assms(4) by (intro keep [OF q]; simp add: icmp_echo_hdr_def)+
  have q2: "headroom 34 (put_bytes 2 (store16 x) ?q1)" "length (pb_payload (put_bytes 2 (store16 x) ?q1)) = 36" for x
    by (intro keep [OF q1]; simp)+
  show ?thesis
  proof (cases "ip4_route (load32 (drop 12 (pb_payload (hd p)))) st")
    case None
    then show ?thesis
      using Some assms
      by (simp add: icmp_time_exceeded_def icmp_send_response_def SIZEOF_ICMP_ECHO_HDR_def IP_HLEN_def ICMP_DEST_UNREACH_DATASIZE_def Let_def)
  next
    case (Some n)
    obtain r st' where "ip4_output_if (\<lambda>i. heap (1 + i)) frag [put_bytes 2 (store16 (inet_chksum (bit (pb_at ?q1) 0) (pb_payload ?q1))) ?q1]
        0 (Some (load32 (drop 12 (pb_payload (hd p))))) ICMP_TTL 0 IP_PROTO_ICMP n st = Some (r, st')" "out_live st'"
      using out [OF q2] by blast
    then show ?thesis
      using Some \<open>pbuf_alloc_RAM heap PBUF_IP 36 = Some q\<close> assms
      by (simp add: icmp_time_exceeded_def icmp_send_response_def SIZEOF_ICMP_ECHO_HDR_def IP_HLEN_def ICMP_DEST_UNREACH_DATASIZE_def Let_def)
  qed
qed

section \<open>The invariant\<close>

definition insert_frag :: "ip_reass_frag \<Rightarrow> ip_reass_frag list \<Rightarrow> ip_reass_frag list" where
  "insert_frag f fs = takeWhile (\<lambda>g. before g f) fs @ f # dropWhile (\<lambda>g. before g f) fs"

lemma set_insert_frag [simp]: "set (insert_frag f fs) = insert f (set fs)"
  by (subst (2) takeWhile_dropWhile_id [of "\<lambda>g. before g f" fs, symmetric]) (simp add: insert_frag_def del: takeWhile_dropWhile_id)

definition clash :: "ip_reass_frag \<Rightarrow> ip_reass_frag list \<Rightarrow> bool" where
  "clash f fs \<longleftrightarrow> (\<exists>g\<in>set fs. \<not> before g f \<and> \<not> before f g)"

lemma sorted_insert_frag:
  assumes "sorted_wrt before fs" "\<not> clash f fs"
  shows "sorted_wrt before (insert_frag f fs)"
  using assms
proof (induction fs)
  case (Cons g gs)
  have IH: "sorted_wrt before (insert_frag f gs)"
    using Cons by (simp add: clash_def)
  have g: "\<forall>h\<in>set gs. before g h"
    using Cons.prems by simp
  show ?case
  proof (cases "before g f")
    case True
    have "sorted_wrt before (g # insert_frag f gs)"
      using IH g True by simp
    then show ?thesis
      using True by (simp add: insert_frag_def)
  next
    case False
    then have "before f g"
      using Cons.prems by (auto simp: clash_def)
    then show ?thesis
      using False Cons.prems(1) g before_trans [of f g] by (auto simp: insert_frag_def)
  qed
qed (simp add: insert_frag_def)

lemma validate_result:
  assumes "sorted_wrt before (ra_p ipr)" "list_all span_ok (ra_p ipr)"
    and "to_u16 (IPH_HL_BYTES (pb_payload (hd p))) \<le> IPH_LEN (pb_payload (hd p))"
  shows "ip_reass_chain_frag_into_datagram_and_validate ipr p is_last =
    (if \<not> span_ok (new_frag p) \<or> clash (new_frag p) (ra_p ipr) then (IP_REASS_VALIDATE_PBUF_DROPPED, ipr)
     else let fs = insert_frag (new_frag p) (ra_p ipr)
       in (if (is_last \<or> ra_flags ipr AND IP_REASS_FLAG_LASTFRAG \<noteq> 0) \<and> linked fs \<and> fr_start (hd fs) = 0
           then IP_REASS_VALIDATE_TELEGRAM_FINISHED else IP_REASS_VALIDATE_PBUF_QUEUED, ipr\<lparr>ra_p := fs\<rparr>))"
proof (cases "span_ok (new_frag p)")
  case True
  let ?f = "new_frag p"
  let ?xs = "takeWhile (\<lambda>g. before g ?f) (ra_p ipr)" and ?ys = "dropWhile (\<lambda>g. before g ?f) (ra_p ipr)"
  have "\<forall>g\<in>set ?xs. fr_start g \<noteq> fr_start ?f"
    by (auto simp: before_def dest: set_takeWhileD)
  then have rest: "tl (dropWhile (\<lambda>g. fr_start g \<noteq> fr_start ?f) (?xs @ ?f # ?ys)) = ?ys"
    by (simp add: dropWhile_append2)
  have res: "chain_frag ?f None True (ra_p ipr)
      = (if clash ?f (ra_p ipr) then None else Some (linked (?xs @ [?f]), ?xs @ ?f # ?ys))"
    using chain_frag_result [OF assms(1,2) True, of None True] by (simp add: clash_def Let_def)
  have ok: "\<not> (to_u16 (IPH_HL_BYTES (pb_payload (hd p))) > IPH_LEN (pb_payload (hd p)) \<or> fr_end ?f < fr_start ?f)"
    using True assms(3) by (simp add: span_ok_def not_less)
  show ?thesis
    unfolding ip_reass_chain_frag_into_datagram_and_validate_def Let_def if_not_P [OF ok] res
    using True rest linked_append [of ?xs ?f ?ys] by (auto simp: insert_frag_def)
next
  case False
  then show ?thesis
    by (simp add: ip_reass_chain_frag_into_datagram_and_validate_def Let_def span_ok_def not_le)
qed

definition frag_ok :: "ip_reass_frag \<Rightarrow> bool" where
  "frag_ok f \<longleftrightarrow> fr_pbuf f \<noteq> [] \<and> tot_len_ok (fr_pbuf f) \<and> IP_HLEN \<le> length (pb_payload (hd (fr_pbuf f)))
     \<and> span_ok f \<and> length (pbuf_bytes (fr_pbuf f)) = IP_HLEN + (unat (fr_end f) - unat (fr_start f))"

text \<open>A packet as \<open>ip4_input\<close> hands it over, cut to the length in its header.\<close>

definition packet_ok :: "pbuf list \<Rightarrow> bool" where
  "packet_ok p \<longleftrightarrow> p \<noteq> [] \<and> tot_len_ok p \<and> IP_HLEN \<le> length (pb_payload (hd p))
     \<and> length (pbuf_bytes p) = unat (IPH_LEN (pb_payload (hd p)))"

lemma new_frag_ok:
  assumes "packet_ok p" "unat (IPH_HL_BYTES (pb_payload (hd p))) = IP_HLEN" "span_ok (new_frag p)"
  shows "frag_ok (new_frag p)"
proof -
  let ?h = "pb_payload (hd p)"
  have p: "p \<noteq> []" "tot_len_ok p" "IP_HLEN \<le> length ?h" "length (pbuf_bytes p) = unat (IPH_LEN ?h)"
    using assms(1) by (simp_all add: packet_ok_def)
  have len: "IP_HLEN \<le> unat (IPH_LEN ?h)"
    using p by (cases p) (simp_all add: pbuf_bytes_def)
  have hl: "unat (to_u16 (IPH_HL_BYTES ?h)) = IP_HLEN"
    using assms(2) by simp
  then have "unat (IPH_LEN ?h - to_u16 (IPH_HL_BYTES ?h)) = unat (IPH_LEN ?h) - IP_HLEN"
    using len by (subst unat_sub) (simp_all add: word_le_nat_alt)
  moreover have "unat (fr_end (new_frag p)) = unat (fr_start (new_frag p)) + unat (IPH_LEN ?h - to_u16 (IPH_HL_BYTES ?h))"
    using assms(3) unat_plus_simple by (auto simp: span_ok_def new_frag_def Let_def)
  moreover have "fr_pbuf (new_frag p) = p"
    by (simp add: new_frag_def Let_def)
  ultimately show ?thesis
    using p assms(3) len by (simp add: frag_ok_def)
qed

lemma frags_clen_insert [simp]: "frags_clen (insert_frag f fs) = length (fr_pbuf f) + frags_clen fs"
  by (subst (2) takeWhile_dropWhile_id [of "\<lambda>g. before g f" fs, symmetric])
     (simp add: insert_frag_def frags_clen_def del: takeWhile_dropWhile_id)

lemma length_cat_frags: "list_all frag_ok fs \<Longrightarrow> length (cat_frags p fs) = length p + frags_clen fs"
  by (induction fs arbitrary: p) (auto simp: frags_clen_def Let_def pbuf_chain_def frag_ok_def neq_Nil_conv)

lemma length_reass_finish:
  "list_all frag_ok (ra_p r) \<Longrightarrow> ra_p r \<noteq> [] \<Longrightarrow> length (reass_finish r) = frags_clen (ra_p r)"
  by (cases "ra_p r") (auto simp: reass_finish_def Let_def length_cat_frags frags_clen_def frag_ok_def neq_Nil_conv)

text \<open>What becomes of a datagram when the fragment is taken in.\<close>

definition with_frag :: "pbuf list \<Rightarrow> ip_reassdata \<Rightarrow> ip_reassdata" where
  "with_frag p r = (let r1 = r\<lparr>ra_p := insert_frag (new_frag p) (ra_p r)\<rparr>
     in if IPH_OFFSET (pb_payload (hd p)) AND IP_MF = 0
        then r1\<lparr>ra_datagram_len := fr_end (new_frag p), ra_flags := ra_flags r OR IP_REASS_FLAG_LASTFRAG\<rparr> else r1)"

definition finished :: "ip_reassdata \<Rightarrow> bool" where
  "finished r \<longleftrightarrow> ra_flags r AND IP_REASS_FLAG_LASTFRAG \<noteq> 0 \<and> linked (ra_p r) \<and> fr_start (hd (ra_p r)) = 0"

lemma reass_insert_result:
  assumes "reassdatagrams st = xs @ r # ys" "sorted_wrt before (ra_p r)" "list_all frag_ok (ra_p r)"
    and "packet_ok p" "unat (IPH_HL_BYTES (pb_payload (hd p))) = IP_HLEN"
  shows "reass_insert (length xs) p st =
    (if bad_last p \<or> \<not> span_ok (new_frag p) \<or> clash (new_frag p) (ra_p r)
     then (if ra_p r \<noteq> [] then Some (None, st) else if xs = [] then Some (None, st\<lparr>reassdatagrams := ys\<rparr>) else None)
     else if finished (with_frag p r)
     then Some (Some (reass_finish (with_frag p r)), st\<lparr>reassdatagrams := xs @ ys, ip_reass_pbufcount :=
            ip_reass_pbufcount st + of_nat (length p) - of_nat (frags_clen (ra_p (with_frag p r)))\<rparr>)
     else Some (None, st\<lparr>reassdatagrams := xs @ with_frag p r # ys,
            ip_reass_pbufcount := ip_reass_pbufcount st + of_nat (length p)\<rparr>))"
proof -
  let ?h = "pb_payload (hd p)" and ?f = "new_frag p"
  let ?last = "IPH_OFFSET ?h AND IP_MF = 0"
  let ?null = "if ra_p r \<noteq> [] then Some (None, st) else if xs = [] then Some (None, st\<lparr>reassdatagrams := ys\<rparr>) else None"
  have span: "list_all span_ok (ra_p r)"
    using assms(3) by (auto simp: list_all_iff frag_ok_def)
  have "IP_HLEN \<le> unat (IPH_LEN ?h)"
    using assms(4) by (cases p) (auto simp: packet_ok_def pbuf_bytes_def)
  then have hl: "to_u16 (IPH_HL_BYTES ?h) \<le> IPH_LEN ?h"
    using assms(5) by (simp add: word_le_nat_alt)
  have r: "reassdatagrams st ! length xs = r"
    by (simp add: assms(1))
  have null: "nullreturn_ipr (length xs) st = ?null"
    by (simp add: nullreturn_ipr_def assms(1) ip_reass_dequeue_datagram_def)
  note v = validate_result [OF assms(2) span hl, of ?last]
  show ?thesis
  proof (cases "bad_last p \<or> \<not> span_ok ?f \<or> clash ?f (ra_p r)")
    case True
    then show ?thesis
      unfolding if_P [OF True] reass_insert_def Let_def r null by (auto simp: v)
  next
    case False
    have "(x OR 1) AND 1 \<noteq> (0 :: u8)" for x
    proof -
      have "bit ((x OR 1) AND 1) 0"
        by (simp add: bit_simps)
      then show ?thesis
        by auto
    qed
    then have flag: "(ra_flags r OR IP_REASS_FLAG_LASTFRAG) AND IP_REASS_FLAG_LASTFRAG \<noteq> 0"
      by (simp add: IP_REASS_FLAG_LASTFRAG_def)
    have fin: "finished (with_frag p r) \<longleftrightarrow> (?last \<or> ra_flags r AND IP_REASS_FLAG_LASTFRAG \<noteq> 0)
        \<and> linked (insert_frag ?f (ra_p r)) \<and> fr_start (hd (insert_frag ?f (ra_p r))) = 0"
      using flag by (simp add: finished_def with_frag_def Let_def)
    have "frag_ok ?f"
      using new_frag_ok [OF assms(4,5)] False by blast
    then have len: "length (reass_finish (with_frag p r)) = frags_clen (ra_p (with_frag p r))"
      using assms(3) by (intro length_reass_finish) (auto simp: with_frag_def Let_def list_all_iff insert_frag_def
          dest: set_takeWhileD set_dropWhileD)
    have w: "with_frag p r = (if ?last then (r\<lparr>ra_p := insert_frag ?f (ra_p r)\<rparr>)\<lparr>ra_datagram_len := fr_end ?f,
        ra_flags := ra_flags (r\<lparr>ra_p := insert_frag ?f (ra_p r)\<rparr>) OR IP_REASS_FLAG_LASTFRAG\<rparr> else r\<lparr>ra_p := insert_frag ?f (ra_p r)\<rparr>)"
      by (simp add: with_frag_def Let_def)
    have val: "ip_reass_chain_frag_into_datagram_and_validate r p ?last = (if finished (with_frag p r)
        then IP_REASS_VALIDATE_TELEGRAM_FINISHED else IP_REASS_VALIDATE_PBUF_QUEUED, r\<lparr>ra_p := insert_frag ?f (ra_p r)\<rparr>)"
      using v False fin by (simp add: Let_def)
    have nb: "\<not> bad_last p"
      using False by blast
    show ?thesis
      unfolding if_not_P [OF False] reass_insert_def Let_def if_not_P [OF nb] r val
      by (simp add: w [symmetric] len assms(1) ip_reass_dequeue_datagram_def)
  qed
qed

definition datagram_ok :: "ip_reassdata \<Rightarrow> bool" where
  "datagram_ok r \<longleftrightarrow> ra_p r \<noteq> [] \<and> list_all frag_ok (ra_p r) \<and> sorted_wrt before (ra_p r) \<and> length (ra_iphdr r) = IP_HLEN"

definition waiting :: "ip_reassdata list \<Rightarrow> nat" where
  "waiting rs = sum_list (map (frags_clen \<circ> ra_p) rs)"

definition reass_ok :: "stack \<Rightarrow> bool" where
  "reass_ok st \<longleftrightarrow> list_all datagram_ok (reassdatagrams st) \<and> unat (ip_reass_pbufcount st) = waiting (reassdatagrams st)
     \<and> waiting (reassdatagrams st) \<le> IP_REASS_MAX_PBUFS"

lemma waiting_simps [simp]:
  "waiting [] = 0" "waiting (r # rs) = frags_clen (ra_p r) + waiting rs" "waiting (xs @ ys) = waiting xs + waiting ys"
  by (simp_all add: waiting_def)

lemma free_complete_ok:
  assumes "reass_ok st" "k < length (reassdatagrams st)" "out_keeps frag"
    and "ip_reass_free_complete_datagram heap frag k st = Some (n, st')"
  shows "reass_ok st'" "length (reassdatagrams st) = Suc (length (reassdatagrams st'))"
    "waiting (reassdatagrams st') \<le> waiting (reassdatagrams st)"
proof -
  obtain xs r ys where rs: "reassdatagrams st = xs @ r # ys" "k = length xs"
    using assms(2) by (metis id_take_nth_drop length_take min.absorb2 less_imp_le)
  obtain f fs where r: "ra_p r = f # fs"
    using assms(1) by (auto simp: reass_ok_def datagram_ok_def rs neq_Nil_conv)
  have k: "reassdatagrams st ! k = r"
    by (simp add: rs)
  define q where "q = put_bytes 0 (ra_iphdr r) (hd (fr_pbuf f)) # tl (fr_pbuf f)"
  obtain st1 where st1: "(if fr_start f = 0 then icmp_time_exceeded heap frag q ICMP_TE_FRAG st else Some st) = Some st1"
    "st' = (ip_reass_dequeue_datagram k st1)\<lparr>ip_reass_pbufcount := ip_reass_pbufcount st1 - of_nat (frags_clen (ra_p r))\<rparr>"
    using assms(4) unfolding ip_reass_free_complete_datagram_def Let_def k r list.case q_def [symmetric]
    by (auto simp: bind_eq_Some_conv ip_reass_dequeue_datagram_def)
  then have "reass_same st st1"
    using icmp_time_exceeded_keeps [OF assms(3)] by (auto split: if_splits)
  with st1(2) have st': "reassdatagrams st' = xs @ ys" "ip_reass_pbufcount st' = ip_reass_pbufcount st - of_nat (frags_clen (ra_p r))"
    by (simp_all add: reass_same_def ip_reass_dequeue_datagram_def rs)
  have cnt: "unat (ip_reass_pbufcount st) = frags_clen (ra_p r) + (waiting xs + waiting ys)"
    using assms(1) by (simp add: reass_ok_def rs)
  then have "unat (ip_reass_pbufcount st') = waiting xs + waiting ys"
    unfolding st' using unat_u16_less [of "ip_reass_pbufcount st"]
    by (subst unat_sub) (simp_all add: word_le_nat_alt unat_of_nat_u16)
  then show "reass_ok st'" "length (reassdatagrams st) = Suc (length (reassdatagrams st'))"
    "waiting (reassdatagrams st') \<le> waiting (reassdatagrams st)"
    using assms(1) by (auto simp: reass_ok_def st' rs)
qed

lemma oldest_scan_bound:
  "oldest_scan h k rs (n, old) = (m, Some (j, t)) \<Longrightarrow> (\<forall>i t. old = Some (i, t) \<longrightarrow> i < k) \<Longrightarrow> j < k + length rs"
  by (induction rs arbitrary: k n old) (fastforce split: if_splits option.splits)+

lemma remove_oldest_ok:
  assumes "reass_ok st" "out_keeps frag" "ip_reass_remove_oldest_loop heaps frag h needed n freed st = Some (m, st')"
  shows "reass_ok st' \<and> waiting (reassdatagrams st') \<le> waiting (reassdatagrams st)"
  using assms(1,3)
proof (induction "length (reassdatagrams st)" arbitrary: st n freed rule: less_induct)
  case less
  obtain others old where scan: "oldest_scan h 0 (reassdatagrams st) (0, None) = (others, old)"
    by force
  show ?case
  proof (cases old)
    case None
    then show ?thesis
      using less.prems by (simp add: ip_reass_remove_oldest_loop.simps [of heaps frag h needed n freed st] scan)
  next
    case (Some kt)
    obtain k t where kt: "kt = (k, t)"
      by force
    obtain f st1 where f: "ip_reass_free_complete_datagram (heaps n) frag k st = Some (f, st1)"
      "(if freed + unat f < needed \<and> 1 < others then ip_reass_remove_oldest_loop heaps frag h needed (Suc n) (freed + unat f) st1
        else Some (freed + unat f, st1)) = Some (m, st')"
      using less.prems(2) by (subst (asm) ip_reass_remove_oldest_loop.simps) (auto simp: scan Some kt split: option.splits)
    have "k < length (reassdatagrams st)"
      using oldest_scan_bound [of h 0 "reassdatagrams st" 0 None others k t] scan Some kt by simp
    from free_complete_ok [OF less.prems(1) this assms(2) f(1)] show ?thesis
      using less.hyps [of st1 "Suc n" "freed + unat f"] f(2) by (auto split: if_splits)
  qed
qed

lemma reass_insert_ok:
  assumes rs: "reassdatagrams st = xs @ r # ys" "list_all datagram_ok (xs @ ys)" "ra_p r = [] \<Longrightarrow> xs = []"
    and r: "sorted_wrt before (ra_p r)" "list_all frag_ok (ra_p r)" "length (ra_iphdr r) = IP_HLEN"
    and p: "packet_ok p" "unat (IPH_HL_BYTES (pb_payload (hd p))) = IP_HLEN"
    and cnt: "unat (ip_reass_pbufcount st) = waiting (reassdatagrams st)" "waiting (reassdatagrams st) + length p \<le> IP_REASS_MAX_PBUFS"
    and run: "reass_insert (length xs) p st = Some (res, st')"
  shows "reass_ok st'"
proof (cases "bad_last p \<or> \<not> span_ok (new_frag p) \<or> clash (new_frag p) (ra_p r)")
  case True
  show ?thesis
    using run [unfolded reass_insert_result [OF rs(1) r(1,2) p] if_P [OF True]] rs r cnt
    by (auto simp: reass_ok_def datagram_ok_def frags_clen_def split: if_splits)
next
  case False
  let ?r = "with_frag p r"
  have "frag_ok (new_frag p)" "fr_pbuf (new_frag p) = p"
    using new_frag_ok [OF p] False by (auto simp: new_frag_def Let_def)
  then have r': "datagram_ok ?r" "frags_clen (ra_p ?r) = length p + frags_clen (ra_p r)"
    using r False sorted_insert_frag [OF r(1)]
    by (auto simp: datagram_ok_def with_frag_def Let_def list_all_iff) (auto simp: insert_frag_def)
  have W: "unat (ip_reass_pbufcount st) = waiting xs + frags_clen (ra_p r) + waiting ys" "length p \<le> 10"
      "waiting xs + frags_clen (ra_p r) + waiting ys + length p \<le> 10"
    using cnt by (simp_all add: rs(1) IP_REASS_MAX_PBUFS_def)
  have sum: "unat (ip_reass_pbufcount st + of_nat (length p)) = waiting xs + frags_clen (ra_p r) + waiting ys + length p"
    using W by (simp add: unat_word_ariths(1) unat_of_nat_u16)
  have "unat (ip_reass_pbufcount st + of_nat (length p) - of_nat (frags_clen (ra_p ?r))) = waiting xs + waiting ys"
  proof -
    have "unat (of_nat (frags_clen (ra_p ?r)) :: u16) = length p + frags_clen (ra_p r)"
      using W r'(2) by (subst unat_of_nat_u16) simp_all
    then show ?thesis
      using W sum by (subst unat_sub) (simp_all add: word_le_nat_alt)
  qed
  then show ?thesis
    using run [unfolded reass_insert_result [OF rs(1) r(1,2) p] if_not_P [OF False]] rs(2) r' W sum
    by (auto simp: reass_ok_def IP_REASS_MAX_PBUFS_def split: if_splits)
qed

lemma take_header:
  "IP_HLEN \<le> length b \<Longrightarrow> IPH_HL_BYTES (take IP_HLEN b) = IPH_HL_BYTES b"
  "IP_HLEN \<le> length b \<Longrightarrow> IPH_LEN (take IP_HLEN b) = IPH_LEN b"
  "IP_HLEN \<le> length b \<Longrightarrow> IPH_OFFSET (take IP_HLEN b) = IPH_OFFSET b"
  by (simp_all add: IPH_HL_BYTES_def IPH_LEN_def IPH_OFFSET_def IP_HLEN_def)

lemma find_datagram_Some:
  assumes "find_datagram h rs = Some k"
  obtains xs r ys where "rs = xs @ r # ys" "k = length xs" "IP_ADDRESSES_AND_ID_MATCH (ra_iphdr r) h"
proof -
  have k: "k < length rs" "IP_ADDRESSES_AND_ID_MATCH (ra_iphdr (rs ! k)) h"
    using assms by (auto simp: find_datagram_def find_Some_iff)
  then show ?thesis
    using that [of "take k rs" "rs ! k" "drop (Suc k) rs"] by (simp add: id_take_nth_drop [symmetric])
qed

lemma enqueue_ok:
  assumes "reass_ok st" "out_keeps frag" "ip_reass_enqueue_new_datagram heaps heap frag h clen st = Some (b, st')"
  shows "\<exists>st1. reass_ok st1 \<and> waiting (reassdatagrams st1) \<le> waiting (reassdatagrams st)
    \<and> st' = (if b then st1\<lparr>reassdatagrams := new_datagram h # reassdatagrams st1\<rparr> else st1)"
proof (cases "heap 0 SIZEOF_IP_REASSDATA = None")
  case True
  then obtain freed st1 where st1: "ip_reass_remove_oldest_datagram heaps frag h clen st = Some (freed, st1)"
    "(if freed \<ge> clen \<and> heap 1 SIZEOF_IP_REASSDATA \<noteq> None
      then Some (True, st1\<lparr>reassdatagrams := new_datagram h # reassdatagrams st1\<rparr>) else Some (False, st1)) = Some (b, st')"
    using assms(3) by (auto simp: ip_reass_enqueue_new_datagram_def Let_def bind_eq_Some_conv)
  from remove_oldest_ok [OF assms(1,2) st1(1) [unfolded ip_reass_remove_oldest_datagram_def]] show ?thesis
    using st1(2) by (intro exI [of _ st1]) (auto split: if_splits)
next
  case False
  then show ?thesis
    using assms by (intro exI [of _ st]) (auto simp: ip_reass_enqueue_new_datagram_def Let_def)
qed

lemma update_header_simps [simp]:
  "ra_p (update_header h r) = ra_p r" "ra_flags (update_header h r) = ra_flags r"
  "length h = n \<Longrightarrow> length (ra_iphdr r) = n \<Longrightarrow> length (ra_iphdr (update_header h r)) = n"
  by (simp_all add: update_header_def)

lemma ip4_reass_ok:
  assumes "reass_ok st" "packet_ok p" "out_keeps frag" "ip4_reass heaps heaps' heap frag p st = Some (res, st')"
  shows "reass_ok st'"
proof -
  let ?b = "pb_payload (hd p)"
  let ?h = "take IP_HLEN ?b"
  have p: "p \<noteq> []" "IP_HLEN \<le> length ?b"
    using assms(2) by (simp_all add: packet_ok_def)
  note th = take_header [OF p(2)]
  show ?thesis
  proof (cases "unat (IPH_HL_BYTES ?b) \<noteq> IP_HLEN \<or> to_u16 (IPH_HL_BYTES ?b) > IPH_LEN ?b")
    case True
    then show ?thesis
      using assms(1,4) p by (simp add: ip4_reass_def th Let_def)
  next
    case False
    then obtain ok st1 where room: "reass_room heaps frag ?h (length p) st = Some (ok, st1)"
      using assms(4) p by (auto simp: ip4_reass_def th Let_def split: option.splits)
    have st1: "reass_ok st1" "ok \<Longrightarrow> waiting (reassdatagrams st1) + length p \<le> IP_REASS_MAX_PBUFS"
      using room assms(1) remove_oldest_ok [OF assms(1,3)]
      by (fastforce simp: reass_room_def reass_ok_def ip_reass_remove_oldest_datagram_def split: if_splits)+
    have hl: "unat (IPH_HL_BYTES ?b) = IP_HLEN"
      using False by blast
    have run: "(if \<not> ok then Some (None, st1) else case find_datagram ?h (reassdatagrams st1) of
          None \<Rightarrow> (case ip_reass_enqueue_new_datagram heaps' heap frag ?h (length p) st1 of
              None \<Rightarrow> None | Some (False, st2) \<Rightarrow> Some (None, st2) | Some (True, st2) \<Rightarrow> reass_insert 0 p st2)
        | Some k \<Rightarrow> reass_insert k p (st1\<lparr>reassdatagrams := (reassdatagrams st1)[k := update_header ?h (reassdatagrams st1 ! k)]\<rparr>))
        = Some (res, st')"
      using assms(4) p False room by (auto simp: ip4_reass_def th Let_def update_header_def split: bool.splits if_splits)
    show ?thesis
    proof (cases "ok \<and> find_datagram ?h (reassdatagrams st1) = None")
      case True
      obtain b st2 where en: "ip_reass_enqueue_new_datagram heaps' heap frag ?h (length p) st1 = Some (b, st2)"
        "(if b then reass_insert 0 p st2 else Some (None, st2)) = Some (res, st')"
        using run True by (auto split: option.splits bool.splits)
      obtain st3 where st3: "reass_ok st3" "waiting (reassdatagrams st3) + length p \<le> IP_REASS_MAX_PBUFS"
        "st2 = (if b then st3\<lparr>reassdatagrams := new_datagram ?h # reassdatagrams st3\<rparr> else st3)"
        using enqueue_ok [OF st1(1) assms(3) en(1)] st1(2) True by force
      show ?thesis
      proof (cases b)
        case True
        have "reassdatagrams st2 = [] @ new_datagram ?h # reassdatagrams st3"
          using st3(3) True by simp
        from reass_insert_ok [OF this, of p res st'] show ?thesis
          using st3 en(2) True assms(2) hl p(2) by (simp add: reass_ok_def new_datagram_def frags_clen_def)
      qed (use st3 en(2) in simp)
    next
      case False
      show ?thesis
      proof (cases ok)
        case True
        with False obtain k where k: "find_datagram ?h (reassdatagrams st1) = Some k"
          by auto
        obtain xs r ys where r: "reassdatagrams st1 = xs @ r # ys" "k = length xs"
          using find_datagram_Some [OF k] by metis
        have "reassdatagrams (st1\<lparr>reassdatagrams := (reassdatagrams st1)[k := update_header ?h (reassdatagrams st1 ! k)]\<rparr>)
            = xs @ update_header ?h r # ys"
          by (simp add: r)
        from reass_insert_ok [OF this, of p res st'] show ?thesis
          using run True k st1 assms(2) hl p(2) r by (simp add: reass_ok_def datagram_ok_def)
      qed (use run st1(1) in simp)
    qed
  qed
qed

lemma ip_reass_tmr_loop_ok:
  assumes "reass_ok st" "out_keeps frag" "k + n = length (reassdatagrams st)" "ip_reass_tmr_loop heaps frag n k st = Some st'"
  shows "reass_ok st'"
  using assms
proof (induction n arbitrary: k st)
  case (Suc n)
  let ?r = "reassdatagrams st ! k"
  show ?case
  proof (cases "ra_timer ?r > 0")
    case True
    let ?st = "st\<lparr>reassdatagrams := (reassdatagrams st)[k := ?r\<lparr>ra_timer := ra_timer ?r - 1\<rparr>]\<rparr>"
    obtain xs ys where rs: "reassdatagrams st = xs @ ?r # ys" "k = length xs"
      using Suc.prems(3) by (metis id_take_nth_drop length_take less_add_Suc1 min.absorb2 less_imp_le add_Suc_right)
    then have "(reassdatagrams st)[k := ?r\<lparr>ra_timer := ra_timer ?r - 1\<rparr>] = xs @ ?r\<lparr>ra_timer := ra_timer ?r - 1\<rparr> # ys"
      by (metis list_update_length)
    moreover have "list_all datagram_ok (xs @ ?r # ys)" "unat (ip_reass_pbufcount st) = waiting (xs @ ?r # ys)"
        "waiting (xs @ ?r # ys) \<le> IP_REASS_MAX_PBUFS"
      using Suc.prems(1) rs(1) by (simp_all add: reass_ok_def)
    ultimately have "reass_ok ?st"
      by (simp add: reass_ok_def datagram_ok_def)
    from Suc.IH [OF this Suc.prems(2), of "Suc k"] show ?thesis
      using Suc.prems(3,4) True by (simp add: Let_def)
  next
    case False
    then obtain m st1 where f: "ip_reass_free_complete_datagram (heaps n) frag k st = Some (m, st1)"
      "ip_reass_tmr_loop heaps frag n k st1 = Some st'"
      using Suc.prems(4) by (auto simp: Let_def bind_eq_Some_conv)
    have "k < length (reassdatagrams st)"
      using Suc.prems(3) by simp
    note ok = free_complete_ok [OF Suc.prems(1) this Suc.prems(2) f(1)]
    show ?thesis
      using Suc.IH [OF ok(1) Suc.prems(2) _ f(2)] ok(2) Suc.prems(3) by simp
  qed
qed simp

text \<open>Histories: fragments that come in and calls of the timer.\<close>

datatype reass_event = Fragment "nat \<Rightarrow> heap" "nat \<Rightarrow> heap" heap "pbuf list" | Timer "nat \<Rightarrow> heap"

fun reass_events :: "outfn \<Rightarrow> reass_event list \<Rightarrow> stack \<Rightarrow> stack option" where
  "reass_events frag [] st = Some st"
| "reass_events frag (Fragment heaps heaps' heap p # evs) st =
     do { (_, st1) \<leftarrow> ip4_reass heaps heaps' heap frag p st; reass_events frag evs st1 }"
| "reass_events frag (Timer heaps # evs) st = do { st1 \<leftarrow> ip_reass_tmr heaps frag st; reass_events frag evs st1 }"

fun event_ok :: "reass_event \<Rightarrow> bool" where
  "event_ok (Fragment _ _ _ p) = packet_ok p"
| "event_ok (Timer _) = True"

lemma reass_events_ok:
  assumes "reass_ok st" "out_keeps frag" "list_all event_ok evs" "reass_events frag evs st = Some st'"
  shows "reass_ok st'"
  using assms(1,3,4)
proof (induction evs arbitrary: st)
  case (Cons ev evs)
  obtain st1 where st1: "reass_ok st1" "reass_events frag evs st1 = Some st'"
  proof (cases ev)
    case (Fragment heaps heaps' heap p)
    then obtain r st1 where "ip4_reass heaps heaps' heap frag p st = Some (r, st1)" "reass_events frag evs st1 = Some st'"
      using Cons.prems(3) by (auto simp: bind_eq_Some_conv)
    moreover have "packet_ok p"
      using Cons.prems(2) Fragment by simp
    ultimately show ?thesis
      using that ip4_reass_ok [OF Cons.prems(1) _ assms(2)] by blast
  next
    case (Timer heaps)
    then obtain st1 where "ip_reass_tmr heaps frag st = Some st1" "reass_events frag evs st1 = Some st'"
      using Cons.prems(3) by (auto simp: bind_eq_Some_conv)
    then show ?thesis
      using that ip_reass_tmr_loop_ok [OF Cons.prems(1) assms(2), of 0] unfolding ip_reass_tmr_def by simp blast
  qed
  from Cons.IH [OF st1(1) _ st1(2)] show ?case
    using Cons.prems(2) by simp
qed simp

section \<open>Reassembly returns\<close>

text \<open>
  The first fragment of a datagram is quoted in an ICMP message, which takes 28 bytes from its first buffer with no check.
\<close>

definition quotable :: "ip_reass_frag \<Rightarrow> bool" where
  "quotable f \<longleftrightarrow> (fr_start f = 0 \<longrightarrow> 28 \<le> length (pb_payload (hd (fr_pbuf f))))"

definition reass_live :: "stack \<Rightarrow> bool" where
  "reass_live st \<longleftrightarrow> reass_ok st \<and> out_live st \<and> (\<forall>r\<in>set (reassdatagrams st). list_all quotable (ra_p r))"

lemma free_complete_returns:
  assumes "reass_live st" "k < length (reassdatagrams st)" "out_keeps frag" "heap_ok heap"
  shows "\<exists>n st'. ip_reass_free_complete_datagram heap frag k st = Some (n, st') \<and> reass_live st'
    \<and> length (reassdatagrams st) = Suc (length (reassdatagrams st'))"
proof -
  let ?r = "reassdatagrams st ! k"
  have r: "datagram_ok ?r" "list_all quotable (ra_p ?r)"
    using assms(1,2) by (auto simp: reass_live_def reass_ok_def list_all_length)
  then obtain f fs where f: "ra_p ?r = f # fs" "frag_ok f" "quotable f"
    by (auto simp: datagram_ok_def neq_Nil_conv)
  let ?q = "put_bytes 0 (ra_iphdr ?r) (hd (fr_pbuf f)) # tl (fr_pbuf f)"
  have "length (ra_iphdr ?r) = 20" "20 \<le> length (pb_payload (hd (fr_pbuf f)))"
    using r(1) f(2) by (simp_all add: datagram_ok_def frag_ok_def IP_HLEN_def)
  then have "length (pb_payload (hd ?q)) = length (pb_payload (hd (fr_pbuf f)))"
    by (simp add: put_bytes_def)
  then have "\<exists>st1. (if fr_start f = 0 then icmp_time_exceeded heap frag ?q ICMP_TE_FRAG st else Some st) = Some st1 \<and> out_live st1"
    using icmp_time_exceeded_returns [of st heap ?q frag ICMP_TE_FRAG] assms(1,4) f(3) by (auto simp: quotable_def reass_live_def)
  then obtain st1 where st1: "(if fr_start f = 0 then icmp_time_exceeded heap frag ?q ICMP_TE_FRAG st else Some st) = Some st1" "out_live st1"
    by blast
  then obtain n st' where run: "ip_reass_free_complete_datagram heap frag k st = Some (n, st')"
    and st': "out_live st'" "reassdatagrams st' = take k (reassdatagrams st1) @ drop (Suc k) (reassdatagrams st1)"
    unfolding ip_reass_free_complete_datagram_def Let_def f(1) list.case
    by (simp add: ip_reass_dequeue_datagram_def)
  have "reassdatagrams st1 = reassdatagrams st"
    using st1(1) icmp_time_exceeded_keeps [OF assms(3)] by (auto simp: reass_same_def split: if_splits)
  then have "set (reassdatagrams st') \<subseteq> set (reassdatagrams st)"
    using st'(2) set_take_subset [of k] set_drop_subset [of "Suc k"] by fastforce
  then show ?thesis
    using run st'(1) assms(1) free_complete_ok [OF _ assms(2,3) run] by (auto simp: reass_live_def)
qed

lemma remove_oldest_returns:
  assumes "reass_live st" "out_keeps frag" "\<forall>k. heap_ok (heaps k)"
  shows "\<exists>m st'. ip_reass_remove_oldest_loop heaps frag h needed n freed st = Some (m, st') \<and> reass_live st'"
  using assms(1)
proof (induction "length (reassdatagrams st)" arbitrary: st n freed rule: less_induct)
  case less
  obtain others old where scan: "oldest_scan h 0 (reassdatagrams st) (0, None) = (others, old)"
    by force
  show ?case
  proof (cases old)
    case None
    then show ?thesis
      using less.prems by (simp add: ip_reass_remove_oldest_loop.simps [of heaps frag h needed n freed st] scan)
  next
    case (Some kt)
    obtain k t where kt: "kt = (k, t)"
      by force
    have "k < length (reassdatagrams st)"
      using oldest_scan_bound [of h 0 "reassdatagrams st" 0 None others k t] scan Some kt by simp
    then obtain f st1 where f: "ip_reass_free_complete_datagram (heaps n) frag k st = Some (f, st1)" "reass_live st1"
      "length (reassdatagrams st1) < length (reassdatagrams st)"
      using free_complete_returns [OF less.prems _ assms(2) spec [OF assms(3), of n]] by fastforce
    then show ?thesis
      using less.hyps [OF f(3,2), of "Suc n" "freed + unat f"]
      by (simp add: ip_reass_remove_oldest_loop.simps [of heaps frag h needed n freed st] scan Some kt)
  qed
qed

lemma tmr_loop_returns:
  assumes "reass_live st" "out_keeps frag" "\<forall>k. heap_ok (heaps k)" "k + n = length (reassdatagrams st)"
  shows "\<exists>st'. ip_reass_tmr_loop heaps frag n k st = Some st' \<and> reass_live st'"
  using assms(1,4)
proof (induction n arbitrary: k st)
  case (Suc n)
  let ?r = "reassdatagrams st ! k"
  have k: "k < length (reassdatagrams st)"
    using Suc.prems(2) by simp
  show ?case
  proof (cases "ra_timer ?r > 0")
    case True
    let ?st = "st\<lparr>reassdatagrams := (reassdatagrams st)[k := ?r\<lparr>ra_timer := ra_timer ?r - 1\<rparr>]\<rparr>"
    have m: "map (frags_clen \<circ> ra_p) ((reassdatagrams st)[k := ?r\<lparr>ra_timer := ra_timer ?r - 1\<rparr>]) = map (frags_clen \<circ> ra_p) (reassdatagrams st)"
      using k by (simp add: map_update flip: map_map) (metis list_update_id length_map nth_map)
    have w: "waiting ((reassdatagrams st)[k := ?r\<lparr>ra_timer := ra_timer ?r - 1\<rparr>]) = waiting (reassdatagrams st)"
      unfolding waiting_def m ..
    have "reass_live ?st"
      using Suc.prems(1) k w unfolding reass_live_def reass_ok_def
      by (auto simp: list_all_length nth_list_update datagram_ok_def dest!: set_update_subset_insert [THEN subsetD])
    then show ?thesis
      using Suc.IH [of ?st "Suc k"] Suc.prems(2) True by (simp add: Let_def)
  next
    case False
    obtain m st1 where f: "ip_reass_free_complete_datagram (heaps n) frag k st = Some (m, st1)" "reass_live st1"
      "length (reassdatagrams st) = Suc (length (reassdatagrams st1))"
      using free_complete_returns [OF Suc.prems(1) k assms(2) spec [OF assms(3), of n]] by blast
    then show ?thesis
      using Suc.IH [OF f(2), of k] Suc.prems(2) False by (simp add: Let_def)
  qed
qed simp

lemma enqueue_returns:
  assumes "reass_live st" "out_keeps frag" "\<forall>k. heap_ok (heaps k)"
  shows "\<exists>b st1. ip_reass_enqueue_new_datagram heaps heap frag h clen st
      = Some (b, if b then st1\<lparr>reassdatagrams := new_datagram h # reassdatagrams st1\<rparr> else st1) \<and> reass_live st1"
proof (cases "heap 0 SIZEOF_IP_REASSDATA = None")
  case True
  obtain m st1 where st1: "ip_reass_remove_oldest_datagram heaps frag h clen st = Some (m, st1)" "reass_live st1"
    using remove_oldest_returns [OF assms] unfolding ip_reass_remove_oldest_datagram_def by blast
  then show ?thesis
    using True by (cases "m \<ge> clen \<and> heap 1 SIZEOF_IP_REASSDATA \<noteq> None")
      (auto simp: ip_reass_enqueue_new_datagram_def intro: exI [of _ True] exI [of _ False])
next
  case False
  then show ?thesis
    using assms(1) by (auto simp: ip_reass_enqueue_new_datagram_def intro!: exI [of _ True])
qed

lemma reass_insert_returns:
  assumes rs: "reassdatagrams st = xs @ r # ys" "ra_p r = [] \<Longrightarrow> xs = []"
    and r: "sorted_wrt before (ra_p r)" "list_all frag_ok (ra_p r)"
    and p: "packet_ok p" "unat (IPH_HL_BYTES (pb_payload (hd p))) = IP_HLEN" "quotable (new_frag p)"
    and out_live: "out_live st" "\<forall>r\<in>set (reassdatagrams st). list_all quotable (ra_p r)"
  shows "\<exists>res st'. reass_insert (length xs) p st = Some (res, st') \<and> out_live st' \<and> (\<forall>r\<in>set (reassdatagrams st'). list_all quotable (ra_p r))"
proof -
  have "list_all quotable (ra_p (with_frag p r))"
    using out_live(2) p(3) rs(1) by (auto simp: with_frag_def Let_def list_all_iff)
  then show ?thesis
    unfolding reass_insert_result [OF rs(1) r p(1,2)] using rs out_live by auto
qed

lemma ip4_reass_returns:
  assumes "reass_live st" "packet_ok p" "out_keeps frag" "\<forall>k. heap_ok (heaps k)" "\<forall>k. heap_ok (heaps' k)"
    and "IPH_OFFSET_BYTES (pb_payload (hd p)) = 0 \<Longrightarrow> 28 \<le> length (pb_payload (hd p))"
  shows "\<exists>res st'. ip4_reass heaps heaps' heap frag p st = Some (res, st') \<and> reass_live st'"
proof -
  let ?b = "pb_payload (hd p)"
  let ?h = "take IP_HLEN ?b"
  have p: "p \<noteq> []" "IP_HLEN \<le> length ?b"
    using assms(2) by (simp_all add: packet_ok_def)
  note th = take_header [OF p(2)]
  have q: "quotable (new_frag p)"
    using assms(6) by (simp add: quotable_def new_frag_def Let_def)
  have "\<exists>res st'. ip4_reass heaps heaps' heap frag p st = Some (res, st') \<and> out_live st' \<and> (\<forall>r\<in>set (reassdatagrams st'). list_all quotable (ra_p r))"
  proof (cases "unat (IPH_HL_BYTES ?b) \<noteq> IP_HLEN \<or> to_u16 (IPH_HL_BYTES ?b) > IPH_LEN ?b")
    case True
    then show ?thesis
      using assms(1) p by (simp add: ip4_reass_def th Let_def reass_live_def)
  next
    case False
    then have hl: "unat (IPH_HL_BYTES ?b) = IP_HLEN"
      by blast
    obtain ok st1 where room: "reass_room heaps frag ?h (length p) st = Some (ok, st1)" "reass_live st1"
      using remove_oldest_returns [OF assms(1,3,4), where h = ?h and needed = "length p" and n = 0 and freed = 0] assms(1)
      by (cases "unat (ip_reass_pbufcount st) + length p > IP_REASS_MAX_PBUFS")
         (auto simp: reass_room_def ip_reass_remove_oldest_datagram_def)
    have run: "ip4_reass heaps heaps' heap frag p st = (if \<not> ok then Some (None, st1) else case find_datagram ?h (reassdatagrams st1) of
          None \<Rightarrow> (case ip_reass_enqueue_new_datagram heaps' heap frag ?h (length p) st1 of
              None \<Rightarrow> None | Some (False, st2) \<Rightarrow> Some (None, st2) | Some (True, st2) \<Rightarrow> reass_insert 0 p st2)
        | Some k \<Rightarrow> reass_insert k p (st1\<lparr>reassdatagrams := (reassdatagrams st1)[k := update_header ?h (reassdatagrams st1 ! k)]\<rparr>))"
      using p False room(1) by (auto simp: ip4_reass_def th Let_def split: bool.splits)
    show ?thesis
    proof (cases "find_datagram ?h (reassdatagrams st1)")
      case None
      obtain b st2 where en: "ip_reass_enqueue_new_datagram heaps' heap frag ?h (length p) st1
          = Some (b, if b then st2\<lparr>reassdatagrams := new_datagram ?h # reassdatagrams st2\<rparr> else st2)" "reass_live st2"
        using enqueue_returns [OF room(2) assms(3,5)] by blast
      have "\<exists>res st'. reass_insert 0 p (st2\<lparr>reassdatagrams := new_datagram ?h # reassdatagrams st2\<rparr>) = Some (res, st') \<and> out_live st'
          \<and> (\<forall>r\<in>set (reassdatagrams st'). list_all quotable (ra_p r))"
        using reass_insert_returns [of _ "[]" "new_datagram ?h" "reassdatagrams st2" p] assms(2) hl q en(2)
        by (simp add: new_datagram_def reass_live_def)
      then show ?thesis
        using run None en room(2) by (cases ok; cases b) (simp_all add: reass_live_def)
    next
      case (Some k)
      obtain xs r ys where r: "reassdatagrams st1 = xs @ r # ys" "k = length xs"
        using find_datagram_Some [OF Some] by metis
      let ?st = "st1\<lparr>reassdatagrams := xs @ update_header ?h r # ys\<rparr>"
      have "\<exists>res st'. reass_insert (length xs) p ?st = Some (res, st') \<and> out_live st' \<and> (\<forall>r\<in>set (reassdatagrams st'). list_all quotable (ra_p r))"
        using reass_insert_returns [of ?st xs "update_header ?h r" ys p] assms(2) hl q room(2) r(1)
        by (simp add: reass_live_def reass_ok_def datagram_ok_def)
      then show ?thesis
        using run Some r room(2) by (cases ok) (simp_all add: reass_live_def)
    qed
  qed
  then show ?thesis
    using ip4_reass_ok [OF _ assms(2,3)] assms(1) by (auto simp: reass_live_def)
qed

fun event_returns :: "reass_event \<Rightarrow> bool" where
  "event_returns (Fragment heaps heaps' _ p) \<longleftrightarrow> (\<forall>k. heap_ok (heaps k) \<and> heap_ok (heaps' k))
     \<and> (IPH_OFFSET_BYTES (pb_payload (hd p)) = 0 \<longrightarrow> 28 \<le> length (pb_payload (hd p)))"
| "event_returns (Timer heaps) \<longleftrightarrow> (\<forall>k. heap_ok (heaps k))"

lemma reass_events_returns:
  assumes "reass_live st" "out_keeps frag" "list_all event_ok evs" "list_all event_returns evs"
  shows "\<exists>st'. reass_events frag evs st = Some st'"
  using assms(1,3,4)
proof (induction evs arbitrary: st)
  case (Cons ev evs)
  show ?case
  proof (cases ev)
    case (Fragment heaps heaps' heap p)
    then obtain r st1 where "ip4_reass heaps heaps' heap frag p st = Some (r, st1)" "reass_live st1"
      using ip4_reass_returns [OF Cons.prems(1) _ assms(2), of p heaps heaps' heap] Cons.prems(2,3) by auto
    then show ?thesis
      using Cons.IH [of st1] Cons.prems(2,3) Fragment by simp
  next
    case (Timer heaps)
    then obtain st1 where "ip_reass_tmr heaps frag st = Some st1" "reass_live st1"
      using tmr_loop_returns [OF Cons.prems(1) assms(2), of heaps 0] Cons.prems(3) by (auto simp: ip_reass_tmr_def)
    then show ?thesis
      using Cons.IH [of st1] Cons.prems(2,3) Timer by simp
  qed
qed simp

text \<open>
  C29. The memory that fragments can bind is bounded. From any stack where no fragment waits, after any history of received
  fragments, complete or hostile, and timer calls that returns, the counter \<open>ip_reass_pbufcount\<close> is the number of buffers that
  wait, it is never above \<open>IP_REASS_MAX_PBUFS\<close>, so that it never wraps, no descriptor is without fragment, and the fragments of a
  datagram are in order and do not overlap. And every history does return, whatever the heap answers, if the first
  buffer of each first fragment holds at least the 28 bytes that are quoted when the datagram is given up (the code does not
  check this), the ARP table is correct, hardware addresses have six bytes and no interface has an MTU below the 56 bytes of the
  message. \<open>frag\<close> stands for any output function that leaves the fragments and the interfaces alone.
\<close>

theorem reass_bounded:
  assumes "reassdatagrams st0 = []" "ip_reass_pbufcount st0 = 0" "out_keeps frag" "list_all event_ok evs"
  shows "(\<forall>st. reass_events frag evs st0 = Some st \<longrightarrow>
      unat (ip_reass_pbufcount st) = (\<Sum>r\<leftarrow>reassdatagrams st. \<Sum>f\<leftarrow>ra_p r. length (fr_pbuf f))
      \<and> unat (ip_reass_pbufcount st) \<le> 10 \<and> length (reassdatagrams st) \<le> unat (ip_reass_pbufcount st)
      \<and> list_all (\<lambda>r. sorted_wrt (\<lambda>f g. fr_end f \<le> fr_start g) (ra_p r)) (reassdatagrams st))
    \<and> (out_live st0 \<and> list_all event_returns evs \<longrightarrow> (\<exists>st. reass_events frag evs st0 = Some st))"
proof (intro conjI [OF allI] impI)
  have start: "reass_ok st0"
    using assms(1,2) by (simp add: reass_ok_def)
  fix st
  assume "reass_events frag evs st0 = Some st"
  from reass_events_ok [OF start assms(3,4) this] have ok: "list_all datagram_ok (reassdatagrams st)"
    "unat (ip_reass_pbufcount st) = waiting (reassdatagrams st)" "waiting (reassdatagrams st) \<le> 10"
    by (simp_all add: reass_ok_def IP_REASS_MAX_PBUFS_def)
  have "1 \<le> frags_clen (ra_p r)" if "datagram_ok r" for r
    using that by (auto simp: datagram_ok_def frags_clen_def frag_ok_def neq_Nil_conv)
  then have "list_all datagram_ok rs \<Longrightarrow> length rs \<le> waiting rs" for rs
    by (induction rs) (fastforce simp: add_le_mono)+
  moreover have "list_all (\<lambda>r. sorted_wrt (\<lambda>f g. fr_end f \<le> fr_start g) (ra_p r)) (reassdatagrams st)"
    using ok(1) by (auto simp: list_all_iff datagram_ok_def before_def intro: sorted_wrt_mono_rel [rotated])
  moreover have "waiting rs = (\<Sum>r\<leftarrow>rs. \<Sum>f\<leftarrow>ra_p r. length (fr_pbuf f))" for rs
    by (simp add: waiting_def frags_clen_def o_def)
  ultimately show "unat (ip_reass_pbufcount st) = (\<Sum>r\<leftarrow>reassdatagrams st. \<Sum>f\<leftarrow>ra_p r. length (fr_pbuf f))
      \<and> unat (ip_reass_pbufcount st) \<le> 10 \<and> length (reassdatagrams st) \<le> unat (ip_reass_pbufcount st)
      \<and> list_all (\<lambda>r. sorted_wrt (\<lambda>f g. fr_end f \<le> fr_start g) (ra_p r)) (reassdatagrams st)"
    using ok by simp
next
  assume "out_live st0 \<and> list_all event_returns evs"
  then show "\<exists>st. reass_events frag evs st0 = Some st"
    using assms by (intro reass_events_returns) (simp_all add: reass_live_def reass_ok_def)
qed

definition sample_fragment :: "u8 \<Rightarrow> u8 \<Rightarrow> u8 list \<Rightarrow> pbuf list" where
  "sample_fragment mf off b = [sample_pbuf ([0x45, 0, 0, 20 + of_nat (length b), 0, 7, mf, off, 64, 17, 0, 0] @ [192, 168, 1, 1, 192, 168, 1, 233] @ b)]"

lemmas sample_header_defs = IPH_HL_BYTES_def IPH_LEN_def IPH_OFFSET_def IPH_OFFSET_BYTES_def IP_HLEN_def load16_def lwip_htons_def
  IP_MF_def IP_OFFMASK_def

lemma sample_fragment_ok:
  "packet_ok (sample_fragment 0x20 0 [1, 2, 3, 4, 5, 6, 7, 8])" "packet_ok (sample_fragment 0 1 [9, 10])"
  by (simp_all add: sample_fragment_def packet_ok_def sample_pbuf_def sample_header_defs pbuf_bytes_def)

text \<open>A first fragment comes in and no other; the timer gives it up after 16 calls, with an ICMP message to its sender.\<close>

definition sample_events :: "reass_event list" where
  "sample_events = Fragment (\<lambda>_. sample_heap) (\<lambda>_. sample_heap) sample_heap (sample_fragment 0x20 0 [1, 2, 3, 4, 5, 6, 7, 8])
     # replicate 16 (Timer (\<lambda>_. sample_heap))"

lemma sample_stack_live: "out_live sample_stack"
proof -
  have "stab (arp_table sample_stack) = {}"
    by (auto simp: stab_def kind_stable_def empty_entry_def)
  then show ?thesis
    by (simp add: out_live_def) (simp add: sample_stack_def hw_ok_def)
qed

lemma reass_bounded_witness:
  "\<exists>st. reass_events (\<lambda>_ _ _ _. None) sample_events sample_stack = Some st \<and> unat (ip_reass_pbufcount st) \<le> 10
    \<and> unat (ip_reass_pbufcount st) = (\<Sum>r\<leftarrow>reassdatagrams st. \<Sum>f\<leftarrow>ra_p r. length (fr_pbuf f))"
proof -
  have "reassdatagrams sample_stack = []" "ip_reass_pbufcount sample_stack = 0"
    by (simp_all add: sample_stack_def lwip_start_def)
  moreover have "out_keeps (\<lambda>_ _ _ _. None)"
    by (simp add: out_keeps_def)
  moreover have "list_all event_ok sample_events" "list_all event_returns sample_events"
    using sample_fragment_ok(1) sample_heap_ok by (simp_all add: sample_events_def) (simp_all add: list_all_iff sample_fragment_def sample_pbuf_def)
  ultimately show ?thesis
    using reass_bounded [of sample_stack "\<lambda>_ _ _ _. None" sample_events] sample_stack_live by blast
qed

section \<open>The chain of a finished datagram\<close>

definition frag_data :: "ip_reass_frag \<Rightarrow> u8 list" where
  "frag_data f = drop IP_HLEN (pbuf_bytes (fr_pbuf f))"

lemma pbuf_bytes_simps [simp]:
  "pbuf_bytes [] = []" "pbuf_bytes (p # ps) = pb_payload p @ pbuf_bytes ps" "pbuf_bytes (ps @ qs) = pbuf_bytes ps @ pbuf_bytes qs"
  by (simp_all add: pbuf_bytes_def)

lemma headless:
  assumes "frag_ok f"
  defines "q \<equiv> hd (fr_pbuf f)"
  shows "\<exists>q1. (case pbuf_remove_header q IP_HLEN of None \<Rightarrow> q | Some q1 \<Rightarrow> q1) = q1
    \<and> pbuf_bytes (q1 # tl (fr_pbuf f)) = frag_data f \<and> tot_len_ok (q1 # tl (fr_pbuf f))"
proof -
  obtain qs where f: "fr_pbuf f = q # qs"
    using assms by (cases "fr_pbuf f") (simp_all add: frag_ok_def q_def)
  have ok: "tot_len_ok (q # qs)" "IP_HLEN \<le> length (pb_payload q)"
    using assms(1) f by (simp_all add: frag_ok_def)
  have "length (pb_payload q) < 65536"
    using tot_len_ok_less [OF ok(1)] by simp
  moreover have "pb_payload q = take IP_HLEN (pb_payload q) @ drop IP_HLEN (pb_payload q)"
    by simp
  moreover have l: "length (take IP_HLEN (pb_payload q)) = IP_HLEN" "take IP_HLEN (pb_payload q) \<noteq> []"
    using ok(2) by (auto simp: IP_HLEN_def)
  ultimately have rem: "pbuf_remove_header q IP_HLEN = Some (q\<lparr>pb_room := pb_room q @ take IP_HLEN (pb_payload q),
      pb_payload := drop IP_HLEN (pb_payload q), pb_tot_len := pb_tot_len q - of_nat IP_HLEN, pb_at := pb_at q + of_nat IP_HLEN\<rparr>)"
    using pbuf_remove_header_eq [of q "take IP_HLEN (pb_payload q)" "drop IP_HLEN (pb_payload q)"] by simp
  have "unat (pb_tot_len q - of_nat IP_HLEN) = length (pb_payload q) + length (pbuf_bytes qs) - IP_HLEN"
    using ok by (subst unat_sub) (simp_all add: word_le_nat_alt IP_HLEN_def)
  then show ?thesis
    unfolding rem f frag_data_def using ok by simp
qed

lemma cat_frags_bytes:
  assumes "list_all frag_ok fs" "tot_len_ok p" "length (pbuf_bytes p) + length (concat (map frag_data fs)) < 65536"
  shows "pbuf_bytes (cat_frags p fs) = pbuf_bytes p @ concat (map frag_data fs) \<and> tot_len_ok (cat_frags p fs)"
  using assms
proof (induction fs arbitrary: p)
  case (Cons f fs)
  obtain q1 where q1: "(case pbuf_remove_header (hd (fr_pbuf f)) IP_HLEN of None \<Rightarrow> hd (fr_pbuf f) | Some q1 \<Rightarrow> q1) = q1"
    "pbuf_bytes (q1 # tl (fr_pbuf f)) = frag_data f" "tot_len_ok (q1 # tl (fr_pbuf f))"
  proof -
    have "frag_ok f"
      using Cons.prems(1) by simp
    from headless [OF this] show ?thesis
      using that by blast
  qed
  let ?p = "pbuf_chain p (q1 # tl (fr_pbuf f))"
  have b: "pbuf_bytes ?p = pbuf_bytes p @ frag_data f"
    unfolding q1(2) [symmetric] by (simp add: pbuf_chain_def pbuf_bytes_def o_def)
  have "tot_len_ok ?p"
    using Cons.prems q1(2,3) by (intro tot_len_ok_chain) (simp_all del: pbuf_bytes_simps)
  from Cons.IH [OF _ this] show ?case
    using Cons.prems b by (simp add: q1(1) Let_def)
qed simp

text \<open>
  The header \<open>h'\<close> is \<open>h\<close> with another length \<open>n\<close>, another fragment field \<open>t\<close> and a new checksum, which verifies.
\<close>

definition header_fields :: "u8 list \<Rightarrow> u16 \<Rightarrow> u16 \<Rightarrow> u8 list \<Rightarrow> bool" where
  "header_fields h n t h' \<longleftrightarrow> length h' = IP_HLEN \<and> take 2 h' = take 2 h \<and> IPH_LEN h' = n \<and> take 2 (drop 4 h') = take 2 (drop 4 h)
     \<and> IPH_OFFSET h' = t \<and> take 2 (drop 8 h') = take 2 (drop 8 h) \<and> inet_chksum False h' = 0 \<and> drop 12 h' = drop 12 h"

text \<open>The header of the datagram is the one of the first fragment, with the length of the whole and no fragment field.\<close>

abbreviation whole_header :: "u8 list \<Rightarrow> u16 \<Rightarrow> u8 list \<Rightarrow> bool" where
  "whole_header h n h' \<equiv> header_fields h n 0 h'"

lemma header_parts:
  assumes "length h = IP_HLEN"
  obtains a b c d e f g where "h = a @ b @ c @ d @ e @ f @ g" "length a = 2" "length b = 2" "length c = 2" "length d = 2"
    "length e = 2" "length f = 2" "length g = 8"
proof
  show "h = take 2 h @ take 2 (drop 2 h) @ take 2 (drop 4 h) @ take 2 (drop 6 h) @ take 2 (drop 8 h) @ take 2 (drop 10 h) @ drop 12 h"
    by (simp add: take_add [symmetric] append_assoc [symmetric] del: append_assoc)
qed (use assms in \<open>simp_all add: IP_HLEN_def\<close>)

lemma load16_store16: "load16 (store16 v ! 0) (store16 v ! Suc 0) = v"
  by (rule bit_word_eqI) (auto simp: store16_def load16_def bit_simps)

lemma htons_htons: "lwip_htons (lwip_htons v) = v"
proof -
  have m: "(0xFF :: u16) = mask 8" "(0xFF00 :: u16) = push_bit 8 (mask 8)"
    by (simp_all add: mask_eq_exp_minus_1 push_bit_eq_mult)
  show ?thesis
    unfolding lwip_htons_def m by (rule bit_word_eqI) (auto simp: bit_simps)
qed

lemma store16_zero: "store16 (lwip_htons 0) = [0, 0]"
  by (simp add: store16_def lwip_htons_def)

lemma header_completed:
  assumes h: "h = a @ b @ c @ d @ e @ f @ g" "length a = 2" "length b = 2" "length c = 2" "length d = 2"
      "length e = 2" "length f = 2" "length g = 8"
    and q1: "q1 = q\<lparr>pb_payload := a @ store16 (lwip_htons n) @ c @ store16 (lwip_htons t) @ e @ [0, 0] @ g @ rest\<rparr>"
  shows "\<exists>h'. put_bytes 10 (store16 (inet_chksum (bit (pb_at q1) 0) (take IP_HLEN (pb_payload q1)))) q1
      = q\<lparr>pb_payload := h' @ rest\<rparr> \<and> header_fields h n t h'"
proof -
  define z where "z = a @ store16 (lwip_htons n) @ c @ store16 (lwip_htons t) @ e"
  define k where "k = store16 (inet_chksum (bit (pb_at q) 0) (z @ [0, 0] @ g))"
  have z: "length z = 10" "length k = 2" "take IP_HLEN (pb_payload q1) = z @ [0, 0] @ g" "pb_at q1 = pb_at q"
    using h by (simp_all add: z_def k_def q1 IP_HLEN_def)
  have "q1 = q\<lparr>pb_payload := z @ [0, 0] @ g @ rest\<rparr>"
    by (simp add: q1 z_def)
  then have "put_bytes 10 k q1 = q\<lparr>pb_payload := (z @ k @ g) @ rest\<rparr>"
    using z by (simp add: put_bytes_def)
  moreover have "inet_chksum False (z @ k @ g) = 0"
    unfolding k_def by (rule ip_chksum_completed) (use z h in simp_all)
  moreover have "IPH_LEN (z @ k @ g) = n" "IPH_OFFSET (z @ k @ g) = t"
    using h by (simp_all add: IPH_LEN_def IPH_OFFSET_def z_def nth_append load16_store16 htons_htons)
  ultimately show ?thesis
    using h z by (intro exI [of _ "z @ k @ g"]) (simp add: header_fields_def k_def z_def IP_HLEN_def)
qed

lemma reass_header_result:
  assumes "length h = IP_HLEN" "IP_HLEN \<le> length (pb_payload q)"
  shows "\<exists>h'. reass_header h n q = q\<lparr>pb_payload := h' @ drop IP_HLEN (pb_payload q)\<rparr> \<and> whole_header h n h'"
proof -
  obtain a b c d e f g where h: "h = a @ b @ c @ d @ e @ f @ g" "length a = 2" "length b = 2" "length c = 2"
      "length d = 2" "length e = 2" "length f = 2" "length g = 8"
    using header_parts [OF assms(1)] by blast
  let ?r = "drop IP_HLEN (pb_payload q)"
  have "put_bytes 0 h q = q\<lparr>pb_payload := h @ ?r\<rparr>"
    using assms(1) by (simp add: put_bytes_def)
  then have "put_bytes 10 [0, 0] (put_bytes 6 [0, 0] (put_bytes 2 (store16 (lwip_htons n)) (put_bytes 0 h q)))
      = q\<lparr>pb_payload := a @ store16 (lwip_htons n) @ c @ store16 (lwip_htons 0) @ e @ [0, 0] @ g @ ?r\<rparr>"
    using h by (simp add: put_bytes_def store16_zero)
  then show ?thesis
    using header_completed [OF h refl, where q = q and n = n and t = 0 and rest = ?r] by (simp add: reass_header_def Let_def)
qed

end
