(* ===== verification/Fragments.thy ===== *)
theory Fragments
  imports Reass "HOL-Library.Multiset"
begin

text \<open>
  The fragments of one datagram, in any order of arrival: \<open>ip4_reass\<close> keeps them until the last one that is missing has
  come in and then gives back the datagram.
\<close>

section \<open>A datagram in fragments\<close>

definition header :: "pbuf list \<Rightarrow> u8 list" where
  "header p = take IP_HLEN (pb_payload (hd p))"

definition data_of :: "pbuf list \<Rightarrow> u8 list" where
  "data_of p = drop IP_HLEN (pbuf_bytes p)"

text \<open>
  \<open>p\<close> is the fragment of a datagram with \<open>data\<close> from position \<open>off\<close> on. \<open>h\<close> gives the addresses and the
  identification of the datagram.
\<close>

definition fragment_at :: "u8 list \<Rightarrow> u8 list \<Rightarrow> nat \<Rightarrow> pbuf list \<Rightarrow> bool" where
  "fragment_at h data off p \<longleftrightarrow> packet_ok p \<and> unat (IPH_HL_BYTES (pb_payload (hd p))) = IP_HLEN
     \<and> IP_ADDRESSES_AND_ID_MATCH (header p) h \<and> unat (IPH_OFFSET_BYTES (pb_payload (hd p))) = off
     \<and> data_of p \<noteq> [] \<and> off + length (data_of p) \<le> length data \<and> take (length (data_of p)) (drop off data) = data_of p
     \<and> (IPH_OFFSET (pb_payload (hd p)) AND IP_MF = 0 \<longleftrightarrow> off + length (data_of p) = length data)"

text \<open>The fragments of a datagram in their order.\<close>

fun divides :: "u8 list \<Rightarrow> u8 list \<Rightarrow> nat \<Rightarrow> pbuf list list \<Rightarrow> bool" where
  "divides h data off [] \<longleftrightarrow> off = length data"
| "divides h data off (p # ps) \<longleftrightarrow> fragment_at h data off p \<and> divides h data (off + length (data_of p)) ps"

lemma new_frag_simps:
  "fr_pbuf (new_frag p) = p" "fr_start (new_frag p) = IPH_OFFSET_BYTES (pb_payload (hd p))" "frag_data (new_frag p) = data_of p"
  by (simp_all add: new_frag_def Let_def frag_data_def data_of_def)

lemma new_frag_inj: "inj new_frag"
  by (rule injI) (metis new_frag_simps(1))

lemma fragment_pos: "fragment_at h data off p \<Longrightarrow> 0 < length (data_of p)"
  by (simp add: fragment_at_def)

lemma fragment_span:
  assumes "fragment_at h data off p" "length data + IP_HLEN < 65536"
  shows "span_ok (new_frag p)" "unat (fr_start (new_frag p)) = off" "unat (fr_end (new_frag p)) = off + length (data_of p)"
    "frag_ok (new_frag p)"
proof -
  let ?b = "pb_payload (hd p)"
  have p: "packet_ok p" "unat (IPH_HL_BYTES ?b) = IP_HLEN" "unat (IPH_OFFSET_BYTES ?b) = off" "off + length (data_of p) \<le> length data"
    using assms(1) by (simp_all add: fragment_at_def)
  show s: "unat (fr_start (new_frag p)) = off"
    by (simp add: new_frag_simps p(3))
  have len: "unat (IPH_LEN ?b) = IP_HLEN + length (data_of p)"
    using p(1) by (cases p) (auto simp: packet_ok_def data_of_def)
  have "unat (IPH_LEN ?b - to_u16 (IPH_HL_BYTES ?b)) = length (data_of p)"
    using len p(2) by (subst unat_sub) (simp_all add: word_le_nat_alt)
  then show e: "unat (fr_end (new_frag p)) = off + length (data_of p)"
    using p(3,4) assms(2) by (simp add: new_frag_def Let_def unat_word_ariths(1))
  show "span_ok (new_frag p)"
    using s e by (simp add: span_ok_def word_le_nat_alt)
  with p show "frag_ok (new_frag p)"
    by (intro new_frag_ok) simp_all
qed

lemma divides_span:
  assumes "divides h data off qs" "length data + IP_HLEN < 65536" "q \<in> set qs"
  shows "\<exists>pos. off \<le> pos \<and> fragment_at h data pos q \<and> (pos + length (data_of q) = length data \<longleftrightarrow> q = last qs)"
  using assms
proof (induction qs arbitrary: off)
  case (Cons p qs)
  have p: "fragment_at h data off p" "divides h data (off + length (data_of p)) qs" "data_of p \<noteq> []"
    using Cons.prems by (simp_all add: fragment_at_def)
  show ?case
  proof (cases "q \<in> set qs")
    case True
    then have "last (p # qs) = last qs"
      by auto
    with Cons.IH [OF p(2) Cons.prems(2) True] show ?thesis
      by (metis add_leD1)
  next
    case False
    then have q: "q = p"
      using Cons.prems(3) by simp
    have "off + length (data_of p) = length data \<longleftrightarrow> p = last (p # qs)"
    proof (cases qs)
      case (Cons r rs)
      have "fragment_at h data (off + length (data_of p)) r"
        using p(2) Cons by simp
      then have "off + length (data_of p) \<noteq> length data"
        by (auto simp: fragment_at_def)
      moreover have "p \<noteq> last (p # qs)"
        using False q Cons last_in_set by fastforce
      ultimately show ?thesis
        by simp
    qed (use p(2) in simp)
    with q p(1) show ?thesis
      by blast
  qed
qed simp

lemma divides_before:
  assumes "divides h data off qs" "length data + IP_HLEN < 65536"
  shows "sorted_wrt before (map new_frag qs)"
  using assms
proof (induction qs arbitrary: off)
  case (Cons p qs)
  have p: "fragment_at h data off p" "divides h data (off + length (data_of p)) qs"
    using Cons.prems by simp_all
  have "before (new_frag p) (new_frag q)" if "q \<in> set qs" for q
  proof -
    obtain pos where "off + length (data_of p) \<le> pos" "fragment_at h data pos q"
      using divides_span [OF p(2) Cons.prems(2) \<open>q \<in> set qs\<close>] by blast
    then show ?thesis
      using fragment_span [OF p(1) Cons.prems(2)] fragment_span [of h data pos q] Cons.prems(2) fragment_pos [OF p(1)]
      by (simp add: before_def word_less_nat_alt word_le_nat_alt del: length_greater_0_conv)
  qed
  then show ?case
    using Cons.IH [OF p(2) Cons.prems(2)] by simp
qed simp

text \<open>A part of the fragments without holes is a beginning of the datagram.\<close>

lemma linked_prefix:
  assumes "divides h data off qs" "length data + IP_HLEN < 65536"
    and "fs \<noteq> []" "linked fs" "sorted_wrt before fs" "set fs \<subseteq> new_frag ` set qs" "unat (fr_start (hd fs)) = off"
  shows "\<exists>k. fs = map new_frag (take k qs)"
  using assms(1,3-)
proof (induction qs arbitrary: off fs)
  case (Cons p qs)
  have p: "fragment_at h data off p" "divides h data (off + length (data_of p)) qs"
    using Cons.prems by simp_all
  note sp = fragment_span [OF p(1) assms(2)]
  obtain f gs where fs: "fs = f # gs"
    using Cons.prems(2) by (cases fs) auto
  have later: "off < unat (fr_start (new_frag q))" if "q \<in> set qs" for q
  proof -
    obtain pos where "off + length (data_of p) \<le> pos" "fragment_at h data pos q"
      using divides_span [OF p(2) assms(2) \<open>q \<in> set qs\<close>] by blast
    then show ?thesis
      using fragment_span(2) [of h data pos q] assms(2) fragment_pos [OF p(1)] by (simp del: length_greater_0_conv)
  qed
  have "f = new_frag p"
    using Cons.prems(5,6) later fs by fastforce
  note prems = Cons.prems and IH = Cons.IH
  show ?case
  proof (cases gs)
    case Nil
    then show ?thesis
      using fs \<open>f = new_frag p\<close> by (intro exI [of _ 1]) simp
  next
    case (Cons g gs')
    have nl: "fr_end f = fr_start g" "linked gs"
      using prems(3) unfolding fs Cons by simp_all
    have "before f x" if "x \<in> set gs" for x
      using prems(4) that fs by simp
    then have "new_frag p \<notin> set gs"
      using \<open>f = new_frag p\<close> by (auto simp: before_def)
    then have "set gs \<subseteq> new_frag ` set qs"
      using prems(5) fs by auto
    moreover have "unat (fr_start (hd gs)) = off + length (data_of p)"
      using nl(1) Cons sp(3) \<open>f = new_frag p\<close> by simp
    moreover have "gs \<noteq> []" "sorted_wrt before gs"
      using prems(4) fs Cons by simp_all
    ultimately obtain k where "gs = map new_frag (take k qs)"
      using IH [OF p(2) _ nl(2)] by blast
    then show ?thesis
      using fs \<open>f = new_frag p\<close> by (intro exI [of _ "Suc k"]) simp
  qed
qed simp

lemma divides_data:
  assumes "divides h data off qs"
  shows "concat (map data_of qs) = drop off data"
  using assms
proof (induction qs arbitrary: off)
  case (Cons p qs)
  have "take (length (data_of p)) (drop off data) = data_of p"
    using Cons.prems by (simp add: fragment_at_def)
  then show ?case
    using Cons.IH [of "off + length (data_of p)"] Cons.prems append_take_drop_id [of "length (data_of p)" "drop off data"]
    by (simp add: add.commute)
qed simp

lemma divides_linked:
  assumes "divides h data off qs" "length data + IP_HLEN < 65536"
  shows "linked (map new_frag qs)"
  using assms
proof (induction qs arbitrary: off)
  case (Cons p qs)
  note prems = Cons.prems and IH = Cons.IH
  show ?case
  proof (cases qs)
    case (Cons r rs)
    have "unat (fr_end (new_frag p)) = unat (fr_start (new_frag r))"
      using prems fragment_span [of h data off p] fragment_span [of h data "off + length (data_of p)" r]
      by (simp add: Cons)
    then show ?thesis
      using IH [of "off + length (data_of p)"] prems by (simp add: Cons word_unat_eq_iff)
  qed simp
qed simp

lemma before_asym: "before f g \<Longrightarrow> \<not> before g f" "\<not> before f f"
  by (auto simp: before_def)

lemma sorted_before_distinct: "sorted_wrt before fs \<Longrightarrow> distinct fs"
  by (induction fs) (auto simp: before_asym)

lemma sorted_before_unique:
  assumes "sorted_wrt before fs" "sorted_wrt before gs" "set fs = set gs"
  shows "fs = gs"
  using assms
proof (induction fs arbitrary: gs)
  case (Cons f fs)
  obtain g gs' where gs: "gs = g # gs'"
    using Cons.prems(3) by (cases gs) auto
  have "f = g"
    using Cons.prems before_asym(1) unfolding gs by (metis list.set_intros(1) set_ConsD sorted_wrt.simps(2))
  moreover have "f \<notin> set fs" "g \<notin> set gs'"
    using Cons.prems(1,2) gs before_asym(2) by auto
  ultimately have "set fs = set gs'"
    using Cons.prems(3) gs by (metis insert_ident list.simps(15))
  then show ?case
    using Cons.IH [of gs'] Cons.prems(1,2) gs \<open>f = g\<close> by simp
qed simp

section \<open>Collecting the fragments\<close>

text \<open>The descriptor when the fragments in \<open>S\<close> are in, and the header that it keeps.\<close>

definition collected :: "u8 list \<Rightarrow> pbuf list list \<Rightarrow> pbuf list set \<Rightarrow> ip_reassdata \<Rightarrow> bool" where
  "collected data qs S r \<longleftrightarrow> sorted_wrt before (ra_p r) \<and> list_all frag_ok (ra_p r) \<and> set (ra_p r) = new_frag ` S
     \<and> (ra_flags r AND IP_REASS_FLAG_LASTFRAG \<noteq> 0 \<longleftrightarrow> last qs \<in> S) \<and> (last qs \<in> S \<longrightarrow> unat (ra_datagram_len r) = length data)"

definition headed :: "u8 list \<Rightarrow> pbuf list list \<Rightarrow> pbuf list set \<Rightarrow> ip_reassdata \<Rightarrow> bool" where
  "headed h qs S r \<longleftrightarrow> length (ra_iphdr r) = IP_HLEN \<and> IP_ADDRESSES_AND_ID_MATCH (ra_iphdr r) h
     \<and> (if hd qs \<in> S then ra_iphdr r = header (hd qs) else IPH_OFFSET (ra_iphdr r) AND IP_OFFMASK \<noteq> 0)"

lemma last_flag [simp]: "IP_REASS_FLAG_LASTFRAG \<noteq> 0"
  by (simp add: IP_REASS_FLAG_LASTFRAG_def)

lemma with_frag_collected:
  assumes d: "divides h data 0 qs" "length data + IP_HLEN < 65536"
    and S: "collected data qs S r" "S \<subseteq> set qs" "p \<in> set qs" "p \<notin> S"
  shows "\<not> bad_last p" "span_ok (new_frag p)" "\<not> clash (new_frag p) (ra_p r)" "collected data qs (insert p S) (with_frag p r)"
proof -
  let ?f = "new_frag p"
  obtain off where off: "fragment_at h data off p" "off + length (data_of p) = length data \<longleftrightarrow> p = last qs"
    using divides_span [OF d S(3)] by blast
  note sp = fragment_span [OF off(1) d(2)]
  have last: "IPH_OFFSET (pb_payload (hd p)) AND IP_MF = 0 \<longleftrightarrow> p = last qs"
    using off by (simp add: fragment_at_def)
  show "span_ok ?f"
    by (rule sp(1))
  have "off + length (data_of p) \<le> length data"
    using off(1) by (simp add: fragment_at_def)
  then have "unat (fr_end ?f) \<le> 65515"
    using sp(3) d(2) by (simp add: IP_HLEN_def)
  then show "\<not> bad_last p"
    using sp(1) by (simp add: bad_last_def span_ok_def word_less_nat_alt word_le_nat_alt IP_HLEN_def)
  have ord: "before (new_frag q) ?f \<or> before ?f (new_frag q)" if "q \<in> set qs" "q \<noteq> p" for q
  proof -
    obtain i where i: "i < length qs" "qs ! i = p"
      using S(3) unfolding in_set_conv_nth by blast
    obtain j where j: "j < length qs" "qs ! j = q"
      using \<open>q \<in> set qs\<close> unfolding in_set_conv_nth by blast
    note ij = i j
    have "i \<noteq> j"
      using that(2) ij by auto
    then consider "i < j" | "j < i"
      by linarith
    then show ?thesis
      by cases (use ij sorted_wrt_nth_less [OF divides_before [OF d], of i j]
        sorted_wrt_nth_less [OF divides_before [OF d], of j i] in simp_all)
  qed
  have "before g ?f \<or> before ?f g" if "g \<in> set (ra_p r)" for g
  proof -
    obtain q where "g = new_frag q" "q \<in> S"
      using \<open>g \<in> set (ra_p r)\<close> S(1) by (auto simp: collected_def)
    then show ?thesis
      using ord [of q] S(2,4) by blast
  qed
  then show nc: "\<not> clash ?f (ra_p r)"
    by (auto simp: clash_def)
  have "sorted_wrt before (insert_frag ?f (ra_p r))" "list_all frag_ok (insert_frag ?f (ra_p r))"
    using S(1) sorted_insert_frag [OF _ nc] sp(4) by (auto simp: collected_def list_all_iff)
  then show "collected data qs (insert p S) (with_frag p r)"
    using S(1,4) sp(3) off(2) by (simp add: collected_def with_frag_def Let_def last) auto
qed

lemma collected_finished:
  assumes d: "divides h data 0 qs" "length data + IP_HLEN < 65536" and S: "collected data qs S r" "S \<subseteq> set qs" "S \<noteq> {}"
  shows "finished r \<longleftrightarrow> S = set qs" "S = set qs \<Longrightarrow> ra_p r = map new_frag qs"
proof -
  have qs: "qs \<noteq> []"
    using S by auto
  have sub: "set (ra_p r) \<subseteq> new_frag ` set qs" "ra_p r \<noteq> []" "sorted_wrt before (ra_p r)"
    using S by (auto simp: collected_def)
  show eq: "ra_p r = map new_frag qs" if "S = set qs"
    using sorted_before_unique [OF sub(3) divides_before [OF d]] that S(1) by (simp add: collected_def)
  have zero: "unat (fr_start (hd (map new_frag qs))) = 0"
    using d qs fragment_span(2) [of h data 0 "hd qs"] by (cases qs) simp_all
  show "finished r \<longleftrightarrow> S = set qs"
  proof
    assume "S = set qs"
    then show "finished r"
      using eq zero divides_linked [OF d] S(1) qs by (simp add: finished_def collected_def unat_eq_0)
  next
    assume fin: "finished r"
    then have "last qs \<in> S" "linked (ra_p r)" "unat (fr_start (hd (ra_p r))) = 0"
      using S(1) by (simp_all add: finished_def collected_def)
    then obtain k where k: "ra_p r = map new_frag (take k qs)"
      using linked_prefix [OF d sub(2) _ sub(3,1)] by blast
    have "new_frag (last qs) \<in> new_frag ` set (take k qs)"
      using k S(1) \<open>last qs \<in> S\<close> by (auto simp: collected_def)
    then have "last qs \<in> set (take k qs)"
      using new_frag_inj by (metis image_iff injD)
    moreover have "distinct qs"
      using sorted_before_distinct [OF divides_before [OF d]] by (simp add: distinct_map)
    ultimately have "length qs \<le> k"
      using qs by (auto simp: in_set_conv_nth last_conv_nth nth_eq_iff_index_eq)
    then have "new_frag ` S = new_frag ` set qs"
      using k S(1) by (simp add: collected_def)
    then show "S = set qs"
      using new_frag_inj by (simp add: inj_image_eq_iff)
  qed
qed

lemma match_trans: "IP_ADDRESSES_AND_ID_MATCH b h \<Longrightarrow> IP_ADDRESSES_AND_ID_MATCH a b = IP_ADDRESSES_AND_ID_MATCH a h"
  by (auto simp: IP_ADDRESSES_AND_ID_MATCH_def)

lemma offset_zero:
  assumes "IP_HLEN \<le> length (pb_payload (hd p))"
  shows "IPH_OFFSET (header p) AND IP_OFFMASK = 0 \<longleftrightarrow> IPH_OFFSET_BYTES (pb_payload (hd p)) = 0"
proof -
  let ?x = "IPH_OFFSET (pb_payload (hd p)) AND IP_OFFMASK"
  have "?x = take_bit 13 (IPH_OFFSET (pb_payload (hd p)))"
    by (simp add: IP_OFFMASK_def take_bit_eq_mask mask_eq_exp_minus_1)
  then have "unat ?x < 2 ^ 13"
    by (simp only: unsigned_take_bit_eq take_bit_nat_less_exp)
  then have "unat (?x * 8) = unat ?x * 8"
    by (simp add: unat_word_ariths(2))
  then show ?thesis
    using take_header(3) [OF assms] by (simp add: header_def IPH_OFFSET_BYTES_def unat_eq_0 [symmetric])
qed

lemma first_fragment:
  assumes "divides h data 0 qs" "length data + IP_HLEN < 65536" "p \<in> set qs"
  shows "IPH_OFFSET (header p) AND IP_OFFMASK = 0 \<longleftrightarrow> p = hd qs"
proof -
  obtain q qs' where qs: "qs = q # qs'"
    using assms(3) by (cases qs) auto
  have q: "fragment_at h data 0 q" "divides h data (length (data_of q)) qs'"
    using assms(1) qs by simp_all
  have z: "IPH_OFFSET (header r) AND IP_OFFMASK = 0 \<longleftrightarrow> off = 0" if "fragment_at h data off r" for r off
    using that offset_zero [of r] by (auto simp: fragment_at_def packet_ok_def unat_eq_0 [symmetric])
  show ?thesis
  proof (cases "p = q")
    case False
    then obtain off where "length (data_of q) \<le> off" "fragment_at h data off p"
      using divides_span [OF q(2) assms(2), of p] assms(3) qs by auto
    then show ?thesis
      using z [of off p] False fragment_pos [OF q(1)] qs by auto
  qed (use z [OF q(1)] qs in simp)
qed

lemma reass_finish_bytes:
  assumes d: "divides h data 0 qs" "length data + IP_HLEN < 65536" "qs \<noteq> []"
    and r: "ra_p r = map new_frag qs" "ra_iphdr r = header (hd qs)" "unat (ra_datagram_len r) = length data"
  shows "\<exists>h'. pbuf_bytes (reass_finish r) = h' @ data \<and> tot_len_ok (reass_finish r)
    \<and> whole_header (header (hd qs)) (of_nat (IP_HLEN + length data)) h'"
proof -
  obtain p ps where qs: "qs = p # ps"
    using d(3) by (cases qs) auto
  have p: "packet_ok p" "list_all frag_ok (map new_frag ps)" "data_of p @ concat (map data_of ps) = data"
    using d fragment_span(4) divides_span [of h data 0 qs] divides_data [OF d(1)] unfolding qs list_all_iff
    by (auto simp: fragment_at_def)
  obtain q qs' where pq: "p = q # qs'" "IP_HLEN \<le> length (pb_payload q)" "tot_len_ok p"
    using p(1) by (cases p) (auto simp: packet_ok_def)
  have len: "length (header p) = IP_HLEN" "ra_datagram_len r + of_nat IP_HLEN = of_nat (IP_HLEN + length data)"
    using pq by (simp_all add: header_def add.commute flip: r(3))
  obtain h' where h': "reass_header (header p) (of_nat (IP_HLEN + length data)) q
      = q\<lparr>pb_payload := h' @ drop IP_HLEN (pb_payload q)\<rparr>" "whole_header (header p) (of_nat (IP_HLEN + length data)) h'"
    using reass_header_result [OF len(1) pq(2)] by blast
  let ?c = "q\<lparr>pb_payload := h' @ drop IP_HLEN (pb_payload q)\<rparr> # qs'"
  have c: "pbuf_bytes ?c = h' @ data_of p" "tot_len_ok ?c"
    using pq h'(2) by (simp_all add: data_of_def header_fields_def)
  have "reass_finish r = cat_frags ?c (map new_frag ps)"
    unfolding reass_finish_def r(1,2) qs Let_def list.map list.sel new_frag_simps len(2) using h'(1) pq(1) by simp
  moreover have "frag_data \<circ> new_frag = data_of"
    by (simp add: fun_eq_iff new_frag_simps)
  moreover have "length h' = IP_HLEN"
    using h'(2) by (simp add: header_fields_def)
  ultimately have "pbuf_bytes (reass_finish r) = h' @ data \<and> tot_len_ok (reass_finish r)"
    using cat_frags_bytes [OF p(2) c(2)] d(2) unfolding c(1) by (simp flip: p(3))
  then show ?thesis
    using h'(2) qs by auto
qed

lemma reass_step:
  assumes d: "divides h data 0 qs" "length data + IP_HLEN < 65536" and S: "S \<subseteq> set qs" "p \<in> set qs" "p \<notin> S"
    and st: "reassdatagrams st = (if S = {} then [] else [r]) @ rs" "S \<noteq> {} \<Longrightarrow> collected data qs S r \<and> headed h qs S r"
      "\<forall>x\<in>set rs. \<not> IP_ADDRESSES_AND_ID_MATCH (ra_iphdr x) h"
    and room: "unat (ip_reass_pbufcount st) + length p \<le> IP_REASS_MAX_PBUFS" "heap 0 SIZEOF_IP_REASSDATA \<noteq> None"
  shows "\<exists>r'. collected data qs (insert p S) r' \<and> headed h qs (insert p S) r' \<and>
    ip4_reass heaps heaps' heap frag p st = (if insert p S = set qs
      then Some (Some (reass_finish r'), st\<lparr>reassdatagrams := rs, ip_reass_pbufcount :=
             ip_reass_pbufcount st + of_nat (length p) - of_nat (sum_list (map length qs))\<rparr>)
      else Some (None, st\<lparr>reassdatagrams := r' # rs, ip_reass_pbufcount := ip_reass_pbufcount st + of_nat (length p)\<rparr>))"
proof -
  obtain off where off: "fragment_at h data off p"
    using divides_span [OF d S(2)] by blast
  let ?b = "pb_payload (hd p)"
  have p: "packet_ok p" "p \<noteq> []" "IP_HLEN \<le> length ?b" "unat (IPH_HL_BYTES ?b) = IP_HLEN" "IP_ADDRESSES_AND_ID_MATCH (header p) h"
    using off by (simp_all add: fragment_at_def packet_ok_def)
  have hl: "\<not> to_u16 (IPH_HL_BYTES ?b) > IPH_LEN ?b"
    using p by (cases p) (auto simp: packet_ok_def word_less_nat_alt)
  have lh: "length (header p) = IP_HLEN"
    using p(3) by (simp add: header_def)
  define r0 where "r0 = (if S = {} then new_datagram (header p) else update_header (header p) r)"
  have r0: "collected data qs S r0" "headed h qs (insert p S) r0"
  proof -
    show "collected data qs S r0"
      using st(2) by (auto simp: r0_def collected_def new_datagram_def update_header_def)
    show "headed h qs (insert p S) r0"
    proof (cases "S = {}")
      case True
      then show ?thesis
        using first_fragment [OF d S(2)] lh p(5) by (auto simp: r0_def headed_def new_datagram_def)
    next
      case False
      then show ?thesis
        using st(2) [OF False] first_fragment [OF d S(2)] S(3) lh p(5)
        by (auto simp: r0_def headed_def update_header_def split: if_splits)
    qed
  qed
  define r' where "r' = with_frag p r0"
  note w = with_frag_collected [OF d r0(1) S, folded r'_def]
  have head: "headed h qs (insert p S) r'"
  proof -
    have "ra_iphdr r' = ra_iphdr r0"
      by (simp add: r'_def with_frag_def Let_def)
    with r0(2) show ?thesis
      unfolding headed_def by simp
  qed
  let ?st = "st\<lparr>reassdatagrams := r0 # rs\<rparr>"
  have "ip4_reass heaps heaps' heap frag p st = reass_insert 0 p ?st"
  proof (cases "S = {}")
    case True
    have "find_datagram (header p) (reassdatagrams st) = None"
      using st(1,3) True match_trans [OF p(5)] by (auto simp: find_datagram_def find_None_iff)
    then show ?thesis
      using p hl room st(1) True lh
      by (simp add: ip4_reass_def Let_def header_def [symmetric] take_header [folded header_def] reass_room_def
          ip_reass_enqueue_new_datagram_def r0_def) (simp add: header_def take_header)
  next
    case False
    then have "find_datagram (header p) (reassdatagrams st) = Some 0"
      using st(1,2) match_trans [OF p(5)] by (simp add: find_datagram_def headed_def upt_conv_Cons del: upt_Suc)
    then show ?thesis
      using p hl room st(1) False
      by (simp add: ip4_reass_def Let_def header_def [symmetric] reass_room_def r0_def) (simp add: header_def take_header)
  qed
  moreover have "reass_insert (length []) p ?st = (if finished r'
      then Some (Some (reass_finish r'), ?st\<lparr>reassdatagrams := [] @ rs, ip_reass_pbufcount :=
             ip_reass_pbufcount ?st + of_nat (length p) - of_nat (frags_clen (ra_p r'))\<rparr>)
      else Some (None, ?st\<lparr>reassdatagrams := [] @ r' # rs, ip_reass_pbufcount := ip_reass_pbufcount ?st + of_nat (length p)\<rparr>))"
    using reass_insert_result [of ?st "[]" r0 rs p] r0(1) w p(1,4) unfolding r'_def [symmetric] by (simp add: collected_def)
  moreover have "insert p S \<subseteq> set qs" "insert p S \<noteq> {}"
    using S by auto
  note fin = collected_finished [OF d w(4) this]
  moreover have "frags_clen (ra_p r') = sum_list (map length qs)" if "insert p S = set qs"
    using fin(2) [OF that] by (simp add: frags_clen_def o_def new_frag_simps)
  ultimately show ?thesis
    using w(4) head by (intro exI [of _ r']) auto
qed

section \<open>Any order of arrival\<close>

text \<open>What \<open>ip4_reass\<close> returns for each of a sequence of packets.\<close>

fun reass_all :: "reass_fn \<Rightarrow> pbuf list list \<Rightarrow> stack \<Rightarrow> (pbuf list option list \<times> stack) option" where
  "reass_all f [] st = Some ([], st)"
| "reass_all f (p # ps) st =
     (case f p st of None \<Rightarrow> None | Some (r, st1) \<Rightarrow> map_option (\<lambda>(rs, st2). (r # rs, st2)) (reass_all f ps st1))"

lemma reass_all_collects:
  assumes d: "divides h data 0 qs" "length data + IP_HLEN < 65536"
    and room: "heap 0 SIZEOF_IP_REASSDATA \<noteq> None" "\<forall>x\<in>set rs. \<not> IP_ADDRESSES_AND_ID_MATCH (ra_iphdr x) h"
    and S: "S \<union> set ps = set qs" "S \<inter> set ps = {}" "distinct ps" "ps \<noteq> []"
    and st: "reassdatagrams st = (if S = {} then [] else [r]) @ rs" "S \<noteq> {} \<Longrightarrow> collected data qs S r \<and> headed h qs S r"
    and cnt: "unat (ip_reass_pbufcount st) + sum_list (map length ps) \<le> IP_REASS_MAX_PBUFS"
  shows "\<exists>r'. collected data qs (set qs) r' \<and> headed h qs (set qs) r' \<and>
    reass_all (ip4_reass heaps heaps' heap frag) ps st = Some (replicate (length ps - 1) None @ [Some (reass_finish r')],
      st\<lparr>reassdatagrams := rs, ip_reass_pbufcount :=
          ip_reass_pbufcount st + of_nat (sum_list (map length ps)) - of_nat (sum_list (map length qs))\<rparr>)"
  using S st cnt
proof (induction ps arbitrary: S r st)
  case (Cons p ps)
  have p: "S \<subseteq> set qs" "p \<in> set qs" "p \<notin> S"
    using Cons.prems(1,2) by auto
  have c: "unat (ip_reass_pbufcount st) + length p \<le> IP_REASS_MAX_PBUFS"
    using Cons.prems(7) by simp
  obtain r1 where r1: "collected data qs (insert p S) r1" "headed h qs (insert p S) r1"
    "ip4_reass heaps heaps' heap frag p st = (if insert p S = set qs
      then Some (Some (reass_finish r1), st\<lparr>reassdatagrams := rs, ip_reass_pbufcount :=
             ip_reass_pbufcount st + of_nat (length p) - of_nat (sum_list (map length qs))\<rparr>)
      else Some (None, st\<lparr>reassdatagrams := r1 # rs, ip_reass_pbufcount := ip_reass_pbufcount st + of_nat (length p)\<rparr>))"
    using reass_step [of h data qs S p st r rs heap heaps heaps' frag, OF d p Cons.prems(5,6) room(2) c room(1)] by metis
  show ?case
  proof (cases "ps = []")
    case True
    then have all: "insert p S = set qs"
      using Cons.prems(1) by auto
    show ?thesis
      using r1 unfolding all by (intro exI [of _ r1]) (simp add: True)
  next
    case False
    have more: "insert p S \<noteq> set qs"
      using False Cons.prems(1-3) by (cases ps) auto
    let ?st = "st\<lparr>reassdatagrams := r1 # rs, ip_reass_pbufcount := ip_reass_pbufcount st + of_nat (length p)\<rparr>"
    have "unat (ip_reass_pbufcount ?st) = unat (ip_reass_pbufcount st) + length p"
      using c by (simp add: unat_word_ariths(1) unat_of_nat_u16 IP_REASS_MAX_PBUFS_def)
    moreover have "insert p S \<union> set ps = set qs" "insert p S \<inter> set ps = {}" "distinct ps"
      using Cons.prems(1-3) by auto
    ultimately obtain r' where "collected data qs (set qs) r'" "headed h qs (set qs) r'"
      "reass_all (ip4_reass heaps heaps' heap frag) ps ?st = Some (replicate (length ps - 1) None @ [Some (reass_finish r')],
        ?st\<lparr>reassdatagrams := rs, ip_reass_pbufcount :=
          ip_reass_pbufcount ?st + of_nat (sum_list (map length ps)) - of_nat (sum_list (map length qs))\<rparr>)"
      using Cons.IH [of "insert p S" ?st r1] False r1(1,2) Cons.prems(7) by auto
    then show ?thesis
      using r1(3) more False by (intro exI [of _ r']) (cases ps, auto simp: add.assoc)
  qed
next
  case Nil
  show ?case
    using Nil.prems(4) by simp
qed

lemma reass_any_order:
  assumes "divides h data 0 qs" "mset ps = mset qs" "data \<noteq> []" "length data + 20 < 65536"
    and "\<forall>r\<in>set (reassdatagrams st). \<not> IP_ADDRESSES_AND_ID_MATCH (ra_iphdr r) h"
    and "unat (ip_reass_pbufcount st) + sum_list (map length ps) \<le> 10" "heap 0 SIZEOF_IP_REASSDATA \<noteq> None"
  shows "\<exists>q h'. reass_all (ip4_reass heaps heaps' heap frag) ps st = Some (replicate (length ps - 1) None @ [Some q], st)
    \<and> pbuf_bytes q = h' @ data \<and> tot_len_ok q \<and> whole_header (header (hd qs)) (of_nat (20 + length data)) h'"
proof -
  have d: "length data + IP_HLEN < 65536"
    using assms(4) by (simp add: IP_HLEN_def)
  have qs: "qs \<noteq> []" "set ps = set qs" "sum_list (map length ps) = sum_list (map length qs)"
    using assms(1-3) mset_eq_setD [OF assms(2)] arg_cong [OF assms(2), of "sum_mset \<circ> image_mset length"]
    by (auto simp flip: sum_mset_sum_list)
  have "distinct qs"
    using sorted_before_distinct [OF divides_before [OF assms(1) d]] by (simp add: distinct_map)
  then have "distinct ps"
    using mset_eq_imp_distinct_iff [OF assms(2)] by simp
  moreover have "ps \<noteq> []"
    using qs by auto
  ultimately obtain r where r: "collected data qs (set qs) r" "headed h qs (set qs) r"
    "reass_all (ip4_reass heaps heaps' heap frag) ps st = Some (replicate (length ps - 1) None @ [Some (reass_finish r)], st)"
    using reass_all_collects [of h data qs heap "reassdatagrams st" "{}" ps st undefined heaps heaps' frag, OF assms(1) d assms(7,5)] assms(6) qs
    by (auto simp: IP_REASS_MAX_PBUFS_def)
  have "ra_p r = map new_frag qs" "ra_iphdr r = header (hd qs)" "unat (ra_datagram_len r) = length data"
    using r(1,2) qs(1) collected_finished(2) [OF assms(1) d r(1)] by (auto simp: collected_def headed_def)
  from reass_finish_bytes [OF assms(1) d qs(1) this] show ?thesis
    using r(3) by (auto simp: IP_HLEN_def)
qed

text \<open>
  C28. Fragments in any order. When the fragments of a datagram come in, each once and in whatever order, each as a chain of
  any buffers, and there is room for them (10 buffers together with those that wait, and a descriptor), \<open>ip4_reass\<close> returns nothing for all but the last and then one chain with the
  data of the whole datagram, behind the header of its first fragment with the length of the whole and a checksum that
  verifies. Fragments of other datagrams stay as they are, and so does the count of buffers.
\<close>

theorem ip4_reass_any_order:
  assumes "divides h data 0 qs" "mset ps = mset qs" "data \<noteq> []" "length data + 20 < 65536"
    and "\<forall>r\<in>set (reassdatagrams st). \<not> IP_ADDRESSES_AND_ID_MATCH (ra_iphdr r) h"
    and "unat (ip_reass_pbufcount st) + sum_list (map length ps) \<le> 10" "heap 0 SIZEOF_IP_REASSDATA \<noteq> None"
  shows "\<exists>q h'. reass_all (ip4_reass heaps heaps' heap frag) ps st = Some (replicate (length ps - 1) None @ [Some q], st)
    \<and> pbuf_bytes q = h' @ data \<and> tot_len_ok q \<and> whole_header (header (hd qs)) (of_nat (20 + length data)) h'"
  using assms by (rule reass_any_order)

lemma sample_fragments:
  "divides [0x45, 0, 0, 0, 0, 7, 0, 0, 64, 17, 0, 0, 192, 168, 1, 1, 192, 168, 1, 233] [1, 2, 3, 4, 5, 6, 7, 8, 9, 10] 0
     [sample_fragment 0x20 0 [1, 2, 3, 4, 5, 6, 7, 8], sample_fragment 0 1 [9, 10]]"
  using sample_fragment_ok
  by (simp add: fragment_at_def) (simp add: sample_fragment_def sample_pbuf_def sample_header_defs header_def data_of_def
      pbuf_bytes_def IP_ADDRESSES_AND_ID_MATCH_def IP_MF_def IP_OFFMASK_def)

theorem ip4_reass_any_order_witness:
  "\<exists>q h'. reass_all (ip4_reass (\<lambda>_. sample_heap) (\<lambda>_. sample_heap) sample_heap (\<lambda>_ _ _ _. None))
        [sample_fragment 0 1 [9, 10], sample_fragment 0x20 0 [1, 2, 3, 4, 5, 6, 7, 8]] (lwip_start port_zero)
      = Some ([None, Some q], lwip_start port_zero)
    \<and> pbuf_bytes q = h' @ [1, 2, 3, 4, 5, 6, 7, 8, 9, 10] \<and> tot_len_ok q
    \<and> whole_header (header (sample_fragment 0x20 0 [1, 2, 3, 4, 5, 6, 7, 8])) 30 h'"
  using ip4_reass_any_order [OF sample_fragments, of "[sample_fragment 0 1 [9, 10], sample_fragment 0x20 0 [1, 2, 3, 4, 5, 6, 7, 8]]"
      "lwip_start port_zero" sample_heap "\<lambda>_. sample_heap" "\<lambda>_. sample_heap" "\<lambda>_ _ _ _. None"]
  by (simp add: lwip_start_def sample_heap_def sample_fragment_def)

end
