(* ===== verification/Frag.thy ===== *)
theory Frag
  imports Fragments
begin

text \<open>
  The division of a long packet into fragments, \<open>ip4_frag\<close> of \<open>core/ipv4/ip4_frag.c\<close>, as configured: a fragment is a
  buffer with the header and behind it references into the packet (\<open>LWIP_NETIF_TX_SINGLE_PBUF = 0\<close>). \<open>heaps k\<close>
  serves the \<open>k\<close>-th fragment: allocation 0 is its buffer, the others are the references. \<open>out k\<close> is the \<open>k\<close>-th call of
  \<open>netif->output\<close>. \<open>None\<close> is a read through a \<open>NULL\<close> pointer or beyond a buffer, or a call that never returns.

  The theorem: what \<open>ip4_frag\<close> sends is what \<open>ip4_reass\<close> puts together again, in any order.
\<close>

section \<open>Operations\<close>

definition SIZEOF_PBUF_CUSTOM_REF :: u16 where "SIZEOF_PBUF_CUSTOM_REF = 24"

text \<open>\<open>pbuf_alloced_custom\<close> for \<open>n\<close> bytes of \<open>q\<close> from \<open>poff\<close> on.\<close>

definition pbuf_alloced_custom :: "u16 \<Rightarrow> u16 \<Rightarrow> pbuf \<Rightarrow> pbuf" where
  "pbuf_alloced_custom n poff q =
     \<lparr>pb_room = [], pb_payload = take (unat n) (drop (unat poff) (pb_payload q)), pb_tot_len = n, pb_type = PBUF_REF,
      pb_at = pb_at q + to_u32 poff\<rparr>"

text \<open>
  The inner loop: references to the next \<open>left\<close> bytes of \<open>p\<close> from \<open>poff\<close> on are chained to \<open>rambuf\<close>. The result holds
  the chain and where the next fragment begins; \<open>Some None\<close> stands for no memory.
\<close>

fun frag_chain :: "heap \<Rightarrow> nat \<Rightarrow> pbuf list \<Rightarrow> pbuf list \<Rightarrow> u16 \<Rightarrow> u16 \<Rightarrow> (pbuf list \<times> pbuf list \<times> u16) option option" where
  "frag_chain heap j rambuf [] poff left_to_copy = (if left_to_copy = 0 then Some (Some (rambuf, [], poff)) else None)"
| "frag_chain heap j rambuf (q # qs) poff left_to_copy =
     (if left_to_copy = 0 then Some (Some (rambuf, q # qs, poff))
      else
        let newpbuflen = min left_to_copy (pb_len q - poff)
        in if newpbuflen = 0 then frag_chain heap j rambuf qs 0 left_to_copy
           else if heap j SIZEOF_PBUF_CUSTOM_REF = None then Some None
           else
             let rambuf1 = pbuf_chain rambuf [pbuf_alloced_custom newpbuflen poff q]; left1 = left_to_copy - newpbuflen
             in if left1 \<noteq> 0 then frag_chain heap (Suc j) rambuf1 qs 0 left1
                else Some (Some (rambuf1, q # qs, poff + newpbuflen)))"

definition frag_header :: "u16 \<Rightarrow> u16 \<Rightarrow> pbuf \<Rightarrow> pbuf" where
  "frag_header tmp len q =
     (let q1 = put_bytes 10 [0, 0] (put_bytes 2 (store16 (lwip_htons len)) (put_bytes 6 (store16 (lwip_htons tmp)) q))
      in put_bytes 10 (store16 (inet_chksum (bit (pb_at q1) 0) (take IP_HLEN (pb_payload q1)))) q1)"

text \<open>The outer loop. With \<open>nfb = 0\<close> it never ends.\<close>

partial_function (option) frag_loop ::
  "(nat \<Rightarrow> heap) \<Rightarrow> (nat \<Rightarrow> outfn) \<Rightarrow> u32 \<Rightarrow> u32 \<Rightarrow> u8 list \<Rightarrow> u16 \<Rightarrow> bool \<Rightarrow> nat \<Rightarrow> pbuf list \<Rightarrow> u16 \<Rightarrow> u16 \<Rightarrow> u16
    \<Rightarrow> stack \<Rightarrow> (err_t \<times> stack) option" where
  "frag_loop heaps out i dest iphdr nfb mf_set k p poff left ofo st =
     (if left = 0 then Some (ERR_OK, st)
      else
        let fragsize = min left (nfb * 8)
        in case pbuf_alloc_RAM (heaps k) PBUF_LINK (of_nat IP_HLEN) of
             None \<Rightarrow> Some (ERR_MEM, st)
           | Some rambuf \<Rightarrow>
               (case frag_chain (heaps k) 1 [put_bytes 0 iphdr rambuf] p poff fragsize of
                  None \<Rightarrow> None
                | Some None \<Rightarrow> Some (ERR_MEM, st)
                | Some (Some (c, p1, poff1)) \<Rightarrow>
                    let last = (int (unat left) \<le> int (unat (mtu (netifs st i))) - int IP_HLEN);
                        tmp = (IP_OFFMASK AND ofo) OR (if \<not> last \<or> mf_set then IP_MF else 0)
                    in case out k i (frag_header tmp (fragsize + of_nat IP_HLEN) (hd c) # tl c) dest st of
                         None \<Rightarrow> None
                       | Some (_, st1) \<Rightarrow>
                           frag_loop heaps out i dest iphdr nfb mf_set (Suc k) p1 poff1 (left - fragsize) (ofo + nfb) st1))"

definition ip4_frag :: "(nat \<Rightarrow> heap) \<Rightarrow> (nat \<Rightarrow> outfn) \<Rightarrow> outfn" where
  "ip4_frag heaps out i p dest st =
     (if p = [] \<or> pb_payload (hd p) = [] then None
      else if unat (IPH_HL_BYTES (pb_payload (hd p))) \<noteq> IP_HLEN \<or> pb_len (hd p) < of_nat IP_HLEN then Some (ERR_VAL, st)
      else
        let nfb = word_of_int ((int (unat (mtu (netifs st i))) - int IP_HLEN) div 8);
            tmp = IPH_OFFSET (pb_payload (hd p))
        in frag_loop heaps out i dest (take IP_HLEN (pb_payload (hd p))) nfb (tmp AND IP_MF \<noteq> 0) 0 p (of_nat IP_HLEN)
             (pb_tot_len (hd p) - of_nat IP_HLEN) (tmp AND IP_OFFMASK) st)"

section \<open>A fragment\<close>

lemma frag_header_result:
  assumes "length (pb_payload q) = IP_HLEN"
  shows "\<exists>h'. frag_header tmp len q = q\<lparr>pb_payload := h'\<rparr> \<and> header_fields (pb_payload q) len tmp h'"
proof -
  obtain a b c d e f g where h: "pb_payload q = a @ b @ c @ d @ e @ f @ g" "length a = 2" "length b = 2" "length c = 2"
      "length d = 2" "length e = 2" "length f = 2" "length g = 8"
    using header_parts [OF assms] by blast
  have "put_bytes 10 [0, 0] (put_bytes 2 (store16 (lwip_htons len)) (put_bytes 6 (store16 (lwip_htons tmp)) q))
      = q\<lparr>pb_payload := a @ store16 (lwip_htons len) @ c @ store16 (lwip_htons tmp) @ e @ [0, 0] @ g @ []\<rparr>"
    using h by (simp add: put_bytes_def)
  then show ?thesis
    using header_completed [OF h refl, where q = q and n = len and t = tmp and rest = "[]"] by (simp add: frag_header_def Let_def)
qed

lemma pbuf_chain_head: "r \<noteq> [] \<Longrightarrow> pb_payload (hd (pbuf_chain r t)) = pb_payload (hd r)" "r \<noteq> [] \<Longrightarrow> pbuf_chain r t \<noteq> []"
  by (cases r; auto simp: pbuf_chain_def)+

lemma frag_chain_result:
  assumes "left \<noteq> 0" "unat poff + unat left \<le> length (pbuf_bytes p)" "p \<noteq> [] \<Longrightarrow> unat poff \<le> length (pb_payload (hd p))"
    and "tot_len_ok p" "tot_len_ok r" "r \<noteq> []" "length (pbuf_bytes r) + unat left < 65536" "\<And>k. heap k SIZEOF_PBUF_CUSTOM_REF \<noteq> None"
  shows "\<exists>r' p' poff'. frag_chain heap j r p poff left = Some (Some (r', p', poff')) \<and> r' \<noteq> [] \<and> pb_payload (hd r') = pb_payload (hd r)
    \<and> pbuf_bytes r' = pbuf_bytes r @ take (unat left) (drop (unat poff) (pbuf_bytes p)) \<and> tot_len_ok r'
    \<and> drop (unat poff') (pbuf_bytes p') = drop (unat poff + unat left) (pbuf_bytes p)
    \<and> tot_len_ok p' \<and> p' \<noteq> [] \<and> unat poff' \<le> length (pb_payload (hd p')) \<and> unat poff' \<le> length (pbuf_bytes p')"
  using assms
proof (induction p arbitrary: j r poff left)
  case (Cons q qs)
  let ?k = "length (pb_payload q)" and ?n = "min left (pb_len q - poff)"
  have k: "unat (pb_len q) = ?k" "?k < 65536" "unat poff \<le> ?k" "tot_len_ok qs"
    using Cons.prems(3,4) tot_len_ok_less [OF Cons.prems(4)] by (simp_all add: unat_pb_len)
  have d: "unat (pb_len q - poff) = ?k - unat poff"
    using k by (subst unat_sub) (simp_all add: word_le_nat_alt)
  have n: "unat ?n = min (unat left) (?k - unat poff)"
    using d by (simp add: min_def word_le_nat_alt)
  show ?case
  proof (cases "?n = 0")
    case True
    then have e: "unat poff = ?k"
      using n Cons.prems(1) k(3) by (simp add: unat_eq_0 [symmetric] min_def split: if_splits)
    have "frag_chain heap j r (q # qs) poff left = frag_chain heap j r qs 0 left"
      using True Cons.prems(1) by simp
    moreover have "qs \<noteq> [] \<Longrightarrow> unat (0 :: u16) \<le> length (pb_payload (hd qs))"
      by simp
    ultimately show ?thesis
      using Cons.IH [of left 0 r j] Cons.prems e k(4) by simp
  next
    case False
    let ?t = "pbuf_alloced_custom ?n poff q" and ?r = "pbuf_chain r [pbuf_alloced_custom ?n poff q]"
    have t: "pbuf_bytes [?t] = take (unat ?n) (drop (unat poff) (pb_payload q))" "tot_len_ok [?t]"
      using n by (simp_all add: pbuf_alloced_custom_def)
    have lt: "length (pbuf_bytes [?t]) = unat ?n" "unat ?n \<le> unat left"
      using n unfolding t(1) by simp_all
    have r: "tot_len_ok ?r" "pbuf_bytes ?r = pbuf_bytes r @ take (unat ?n) (drop (unat poff) (pb_payload q))"
      using Cons.prems(5,7) lt t(2) by (auto intro!: tot_len_ok_chain simp: pbuf_bytes_chain t(1) [symmetric] simp del: pbuf_bytes_simps(2))
    note m = pbuf_chain_head [OF Cons.prems(6), of "[?t]"]
    have l1: "unat (left - ?n) = unat left - unat ?n"
      using lt(2) by (subst unat_sub) (simp_all add: word_le_nat_alt)
    show ?thesis
    proof (cases "left - ?n = 0")
      case True
      then have "?n = left" "unat left \<le> ?k - unat poff" "unat poff + unat left \<le> ?k"
        using n k(3) by (auto simp: min_def split: if_splits)
      moreover have "unat (poff + left) = unat poff + unat left"
        using \<open>unat left \<le> ?k - unat poff\<close> k by (simp add: unat_word_ariths(1))
      ultimately show ?thesis
        using False True Cons.prems(1,8) r m k Cons.prems(4)
        by - (rule exI [of _ ?r], rule exI [of _ "q # qs"], rule exI [of _ "poff + left"], simp)
    next
      case f: False
      then have "?n = pb_len q - poff" "unat ?n = ?k - unat poff"
        using n d by (auto simp: min_def split: if_splits)
      have "frag_chain heap j r (q # qs) poff left = frag_chain heap (Suc j) ?r qs 0 (left - ?n)"
        using False f Cons.prems(1) Cons.prems(8) [of j] by (auto simp: Let_def)
      moreover have len: "length (pbuf_bytes ?r) + unat (left - ?n) < 65536" "unat (0 :: u16) + unat (left - ?n) \<le> length (pbuf_bytes qs)"
          "qs \<noteq> [] \<Longrightarrow> unat (0 :: u16) \<le> length (pb_payload (hd qs))"
        using Cons.prems(2,7) r(2) l1 lt(2) k(3) \<open>unat ?n = ?k - unat poff\<close> by simp_all
      moreover have "take (unat left) (drop (unat poff) (pb_payload q)) = take (unat ?n) (drop (unat poff) (pb_payload q))"
          "?k \<le> unat poff + unat left" "unat (left - ?n) = unat poff + unat left - ?k"
          "unat left - (?k - unat poff) = unat poff + unat left - ?k" "unat poff - ?k = 0"
        using l1 lt(2) k(3) \<open>unat ?n = ?k - unat poff\<close> by simp_all
      ultimately show ?thesis
        using Cons.IH [OF f len(2,3) k(4) r(1) m(2) len(1) Cons.prems(8), of "Suc j"] r(2) m(1) by (auto simp del: frag_chain.simps)
    qed
  qed
qed (simp add: unat_eq_0)

lemma header_fields_kept:
  assumes "header_fields h n t h'" "length h = IP_HLEN"
  shows "IPH_HL_BYTES h' = IPH_HL_BYTES h" "IP_ADDRESSES_AND_ID_MATCH h' h" "IPH_LEN h' = n" "IPH_OFFSET h' = t" "length h' = IP_HLEN"
proof -
  have l: "length h' = 20" "length h = 20"
    using assms by (simp_all add: header_fields_def IP_HLEN_def)
  have eq: "take 2 h' = take 2 h" "take 2 (drop 4 h') = take 2 (drop 4 h)" "drop 12 h' = drop 12 h"
    using assms(1) by (simp_all add: header_fields_def)
  have "h' ! 0 = h ! 0" "h' ! 4 = h ! 4" "h' ! 5 = h ! 5"
    using arg_cong [OF eq(1), of "\<lambda>x. x ! 0"] arg_cong [OF eq(2), of "\<lambda>x. x ! 0"] arg_cong [OF eq(2), of "\<lambda>x. x ! 1"] l by simp_all
  moreover have "drop 16 h' = drop 16 h"
    using arg_cong [OF eq(3), of "drop 4"] by simp
  ultimately show "IPH_HL_BYTES h' = IPH_HL_BYTES h" "IP_ADDRESSES_AND_ID_MATCH h' h"
    using eq(3) by (simp_all add: IPH_HL_BYTES_def IP_ADDRESSES_AND_ID_MATCH_def)
  show "IPH_LEN h' = n" "IPH_OFFSET h' = t" "length h' = IP_HLEN"
    using assms(1) by (simp_all add: header_fields_def)
qed

lemma fragment_field:
  fixes ofo :: u16 and b :: bool
  assumes "unat ofo < 8192"
  defines "t \<equiv> (IP_OFFMASK AND ofo) OR (if b then IP_MF else 0)"
  shows "t AND IP_OFFMASK = ofo" "t AND IP_MF = 0 \<longleftrightarrow> \<not> b"
proof -
  have m: "IP_OFFMASK = mask 13" "\<And>n. bit IP_MF n \<longleftrightarrow> n = 13"
  proof -
    show "IP_OFFMASK = mask 13"
      by (simp add: IP_OFFMASK_def mask_eq_exp_minus_1)
    have mf: "IP_MF = push_bit 13 1"
      by (simp add: IP_MF_def)
    show "bit IP_MF n \<longleftrightarrow> n = 13" for n
      unfolding mf by (simp only: bit_push_bit_iff bit_1_iff) (auto simp: possible_bit_def)
  qed
  have "take_bit 13 ofo = ofo"
    using assms(1) by (simp add: word_unat_eq_iff unsigned_take_bit_eq take_bit_nat_eq_self)
  then have x: "\<And>n. bit ofo n \<Longrightarrow> n < 13"
    by (metis bit_take_bit_iff)
  show "t AND IP_OFFMASK = ofo"
    unfolding t_def m(1) by (rule bit_word_eqI) (auto simp: bit_simps m(2) dest: x)
  have "bit (t AND IP_MF) 13 \<longleftrightarrow> b"
    unfolding t_def m(1) by (auto simp: bit_simps m(2))
  moreover have "t AND IP_MF = 0" if "\<not> b"
    unfolding t_def m(1) using that by (intro bit_word_eqI) (auto simp: bit_simps m(2))
  ultimately show "t AND IP_MF = 0 \<longleftrightarrow> \<not> b"
    by auto
qed

lemma fragment_made:
  assumes c: "c \<noteq> []" "pb_payload (hd c) = h" "pbuf_bytes c = h @ chunk" "tot_len_ok c"
    and h: "length h = IP_HLEN" "unat (IPH_HL_BYTES h) = IP_HLEN"
    and chunk: "chunk \<noteq> []" "take (length chunk) (drop off data) = chunk" "off + length chunk \<le> length data"
      "length data + IP_HLEN < 65536"
    and t: "unat ((t AND IP_OFFMASK) * 8) = off" "t AND IP_MF = 0 \<longleftrightarrow> off + length chunk = length data"
  defines "q \<equiv> frag_header t (of_nat (length chunk) + of_nat IP_HLEN) (hd c) # tl c"
  shows "fragment_at h data off q" "data_of q = chunk" "header_fields h (of_nat (length chunk + IP_HLEN)) t (header q)"
    "length (pbuf_bytes q) = IP_HLEN + length chunk"
proof -
  obtain c0 cs where cs: "c = c0 # cs"
    using c(1) by (cases c) auto
  have c0: "pb_payload c0 = h" "pbuf_bytes cs = chunk" "tot_len_ok cs" "unat (pb_tot_len c0) = IP_HLEN + length chunk"
    using c h unfolding cs by auto
  let ?n = "of_nat (length chunk) + of_nat IP_HLEN :: u16"
  obtain h' where h': "frag_header t ?n c0 = c0\<lparr>pb_payload := h'\<rparr>" "header_fields h ?n t h'"
    using frag_header_result [of c0 t ?n] h(1) c0(1) by auto
  note f = header_fields_kept [OF h'(2) h(1)]
  have q: "q = c0\<lparr>pb_payload := h'\<rparr> # cs" "header q = h'"
    using h'(1) f(5) by (simp_all add: q_def cs header_def)
  have n: "?n = of_nat (length chunk + IP_HLEN)" "unat ?n = length chunk + IP_HLEN"
    using chunk(3,4) by (simp, subst of_nat_add [symmetric], subst unat_of_nat_u16) simp_all
  show d: "data_of q = chunk" "length (pbuf_bytes q) = IP_HLEN + length chunk"
    using f(5) c0(2) by (simp_all add: q data_of_def)
  have "packet_ok q"
    using c0 f(3,5) n(2) by (simp add: q packet_ok_def)
  then show "fragment_at h data off q"
    using chunk t f(1,2,4) h(2) d by (simp add: fragment_at_def q(2)) (simp add: q(1) IPH_OFFSET_BYTES_def)
  show "header_fields h (of_nat (length chunk + IP_HLEN)) t (header q)"
    using h'(2) by (simp only: q(2) n(1) [symmetric])
qed

section \<open>The packets sent\<close>

text \<open>Packets handed to \<open>netif->output\<close> one after the other, from its \<open>k\<close>-th call on; what it returns is ignored.\<close>

fun send_frags :: "(nat \<Rightarrow> outfn) \<Rightarrow> u32 \<Rightarrow> u32 \<Rightarrow> nat \<Rightarrow> pbuf list list \<Rightarrow> stack \<Rightarrow> (err_t \<times> stack) option" where
  "send_frags out i dest k [] st = Some (ERR_OK, st)"
| "send_frags out i dest k (q # qs) st =
     (case out k i q dest st of None \<Rightarrow> None | Some (_, st1) \<Rightarrow> send_frags out i dest (Suc k) qs st1)"

definition heaps_full :: "(nat \<Rightarrow> heap) \<Rightarrow> bool" where
  "heaps_full heaps \<longleftrightarrow> (\<forall>k. heap_ok (heaps k) \<and> (\<forall>j n. heaps k j n \<noteq> None))"

lemma frag_buffer:
  assumes "heaps_full heaps" "length h = IP_HLEN"
  shows "\<exists>r. pbuf_alloc_RAM (heaps k) PBUF_LINK (of_nat IP_HLEN) = Some r \<and> pb_payload (put_bytes 0 h r) = h
    \<and> tot_len_ok [put_bytes 0 h r]"
proof -
  have "heap_ok (heaps k)" "heaps k 0 (ram_block_size PBUF_LINK (of_nat IP_HLEN)) \<noteq> None"
    using assms(1) by (simp_all add: heaps_full_def)
  with pbuf_alloc_RAM_eq [of "heaps k" "of_nat IP_HLEN" PBUF_LINK] obtain r where
    r: "pbuf_alloc_RAM (heaps k) PBUF_LINK (of_nat IP_HLEN) = Some r" "fresh PBUF_LINK (of_nat IP_HLEN) r"
    by (auto simp: IP_HLEN_def split: option.splits)
  then have "put_bytes 0 h r = r\<lparr>pb_payload := h\<rparr>" "unat (pb_tot_len r) = IP_HLEN"
    using assms(2) by (simp_all add: fresh_def put_bytes_def IP_HLEN_def)
  with r(1) assms(2) show ?thesis
    by simp
qed

lemma frag_pass:
  assumes h: "length h = IP_HLEN" "unat (IPH_HL_BYTES h) = IP_HLEN" and data: "length data + IP_HLEN < 65536"
    and m: "28 \<le> m" "m < 65536" "(m - 20) mod 8 = 0" "mtu (netifs st i) = of_nat m" and nfb: "nfb = of_nat ((m - 20) div 8)"
    and heaps: "heaps_full heaps"
    and inv: "p \<noteq> []" "tot_len_ok p" "unat poff \<le> length (pb_payload (hd p))" "drop (unat poff) (pbuf_bytes p) = drop off data"
      "unat left = length data - off" "unat ofo * 8 = off" and left: "left \<noteq> 0"
  defines "n \<equiv> min (length data - off) (m - 20)"
  shows "\<exists>q p' poff' t. fragment_at h data off q \<and> length (data_of q) = n \<and> length (pbuf_bytes q) \<le> m
    \<and> header_fields h (of_nat (length (pbuf_bytes q))) t (header q)
    \<and> p' \<noteq> [] \<and> tot_len_ok p' \<and> unat poff' \<le> length (pb_payload (hd p'))
    \<and> drop (unat poff') (pbuf_bytes p') = drop (off + n) data
    \<and> frag_loop heaps out i dest h nfb False k p poff left ofo st =
      (case out k i q dest st of None \<Rightarrow> None
       | Some (_, st1) \<Rightarrow> frag_loop heaps out i dest h nfb False (Suc k) p' poff' (left - of_nat n) (ofo + nfb) st1)"
proof -
  have off: "off < length data"
    using inv(5) left by (simp add: unat_gt_0 [symmetric])
  have nfb8: "unat (nfb * 8) = m - 20"
    using m by (simp add: nfb unat_word_ariths(2) unat_of_nat_u16) (metis dvd_div_mult_self mod_eq_0_iff_dvd)
  let ?f = "min left (nfb * 8)"
  have f: "unat ?f = n" "?f = of_nat n" "0 < n" "off + n \<le> length data"
  proof -
    show n: "0 < n" "off + n \<le> length data"
      using off m(1) by (auto simp: n_def)
    show f: "unat ?f = n"
      using nfb8 inv(5) by (simp add: n_def min_def word_le_nat_alt)
    show "?f = of_nat n"
      unfolding word_unat_eq_iff f using n data by (simp add: unat_of_nat_u16)
  qed
  obtain r where r: "pbuf_alloc_RAM (heaps k) PBUF_LINK (of_nat IP_HLEN) = Some r" "pb_payload (put_bytes 0 h r) = h"
      "tot_len_ok [put_bytes 0 h r]"
    using frag_buffer [OF heaps h(1)] by blast
  have len: "unat poff + unat ?f \<le> length (pbuf_bytes p)"
    using arg_cong [OF inv(4), of length] f(1,3,4) by simp
  have "?f \<noteq> 0" "\<And>j. heaps k j SIZEOF_PBUF_CUSTOM_REF \<noteq> None" "length (pbuf_bytes [put_bytes 0 h r]) + unat ?f < 65536"
    using f heaps data h(1) r(2) by (auto simp: heaps_full_def unat_gt_0 [symmetric])
  then obtain c p' poff' where c: "frag_chain (heaps k) 1 [put_bytes 0 h r] p poff ?f = Some (Some (c, p', poff'))" "c \<noteq> []"
      "pb_payload (hd c) = h" "pbuf_bytes c = h @ take n (drop off data)" "tot_len_ok c"
      "drop (unat poff') (pbuf_bytes p') = drop (unat poff + n) (pbuf_bytes p)"
      "tot_len_ok p'" "p' \<noteq> []" "unat poff' \<le> length (pb_payload (hd p'))"
    using frag_chain_result [of ?f poff p "[put_bytes 0 h r]" "heaps k" 1] len inv(1-4) r(2,3) f(1) by auto
  define chunk where "chunk = take n (drop off data)"
  have chunk: "length chunk = n" "chunk \<noteq> []" "take (length chunk) (drop off data) = chunk" "off + length chunk \<le> length data"
    using f by (auto simp: chunk_def)
  define t where "t = (IP_OFFMASK AND ofo) OR (if \<not> int (unat left) \<le> int (unat (mtu (netifs st i))) - int IP_HLEN then IP_MF else 0)"
  have ofo: "unat ofo < 8192"
    using inv(6) off data by simp
  have t: "unat ((t AND IP_OFFMASK) * 8) = off" "t AND IP_MF = 0 \<longleftrightarrow> off + length chunk = length data"
  proof -
    show "unat ((t AND IP_OFFMASK) * 8) = off"
      using fragment_field(1) [OF ofo] ofo inv(6) by (simp add: t_def unat_word_ariths(2))
    have "int (unat left) \<le> int (unat (mtu (netifs st i))) - int IP_HLEN \<longleftrightarrow> off + length chunk = length data"
      using m off chunk(1) by (auto simp: inv(5) n_def unat_of_nat_u16 IP_HLEN_def)
    then show "t AND IP_MF = 0 \<longleftrightarrow> off + length chunk = length data"
      using fragment_field(2) [OF ofo] by (simp add: t_def)
  qed
  define q where "q = frag_header t (of_nat (length chunk) + of_nat IP_HLEN) (hd c) # tl c"
  note q = fragment_made [OF c(2-3) c(4) [folded chunk_def] c(5) h chunk(2-4) data t, folded q_def]
  have "drop (unat poff') (pbuf_bytes p') = drop (off + n) data"
    using c(6) arg_cong [OF inv(4), of "drop n"] by (simp add: add.commute)
  moreover have "frag_loop heaps out i dest h nfb False k p poff left ofo st =
      (case out k i q dest st of None \<Rightarrow> None
       | Some (_, st1) \<Rightarrow> frag_loop heaps out i dest h nfb False (Suc k) p' poff' (left - of_nat n) (ofo + nfb) st1)"
    using left r(1) c(1) unfolding frag_loop.simps [of heaps out i dest h nfb False k p]
    by (simp add: Let_def f(2) q_def t_def chunk(1))
  moreover have "length (pbuf_bytes q) \<le> m"
    using q(4) m(1) chunk(1) by (simp add: n_def IP_HLEN_def)
  ultimately show ?thesis
    using q c(7-9) chunk(1)
    by - (rule exI [of _ q], rule exI [of _ p'], rule exI [of _ poff'], rule exI [of _ t], simp add: add.commute)
qed

lemma frag_loop_result:
  assumes h: "length h = IP_HLEN" "unat (IPH_HL_BYTES h) = IP_HLEN" and data: "length data + IP_HLEN < 65536"
    and m: "28 \<le> m" "m < 65536" "(m - 20) mod 8 = 0" and nfb: "nfb = of_nat ((m - 20) div 8)"
    and env: "heaps_full heaps" "\<forall>k. out_keeps (out k)"
    and inv: "p \<noteq> []" "tot_len_ok p" "unat poff \<le> length (pb_payload (hd p))" "drop (unat poff) (pbuf_bytes p) = drop off data"
      "unat left = length data - off" "off \<le> length data" "left \<noteq> 0 \<Longrightarrow> unat ofo * 8 = off" "mtu (netifs st i) = of_nat m"
  shows "\<exists>qs. frag_loop heaps out i dest h nfb False k p poff left ofo st = send_frags out i dest k qs st \<and> divides h data off qs
    \<and> (\<forall>q\<in>set qs. length (pbuf_bytes q) \<le> m \<and> (\<exists>t. header_fields h (of_nat (length (pbuf_bytes q))) t (header q)))"
  using inv
proof (induction "unat left" arbitrary: k p poff left off ofo st rule: less_induct)
  case less
  show ?case
  proof (cases "left = 0")
    case True
    then show ?thesis
      using less.prems(5,6) by (intro exI [of _ "[]"]) (simp add: frag_loop.simps)
  next
    case False
    define n where "n = min (length data - off) (m - 20)"
    from frag_pass [OF h data m less.prems(8) nfb env(1) less.prems(1-5) less.prems(7) [OF False] False, folded n_def, of out dest k]
    obtain q p' poff' t where
      q: "fragment_at h data off q" "length (data_of q) = n" "length (pbuf_bytes q) \<le> m"
        "header_fields h (of_nat (length (pbuf_bytes q))) t (header q)"
      and p': "p' \<noteq> []" "tot_len_ok p'" "unat poff' \<le> length (pb_payload (hd p'))" "drop (unat poff') (pbuf_bytes p') = drop (off + n) data"
      and code: "frag_loop heaps out i dest h nfb False k p poff left ofo st = (case out k i q dest st of None \<Rightarrow> None
        | Some (_, st1) \<Rightarrow> frag_loop heaps out i dest h nfb False (Suc k) p' poff' (left - of_nat n) (ofo + nfb) st1)"
      by blast
    have n: "0 < n" "off + n \<le> length data" "unat (of_nat n :: u16) = n"
      using fragment_pos [OF q(1)] q(1,2) data by (auto simp: fragment_at_def unat_of_nat_u16)
    have l: "unat (left - of_nat n) = length data - (off + n)"
      using n less.prems(5) by (subst unat_sub) (simp_all add: word_le_nat_alt)
    have next_ofo: "unat (ofo + nfb) * 8 = off + n" if "left - of_nat n \<noteq> 0"
    proof -
      have "unat (left - of_nat n) \<noteq> 0"
        using that by (simp only: unat_eq_0 not_False_eq_True)
      then have "off + n < length data"
        using l by linarith
      then have n20: "n = m - 20"
        by (simp add: n_def)
      have "(m - 20) div 8 * 8 = m - 20"
        using m(3) by (metis dvd_div_mult_self mod_eq_0_iff_dvd)
      then show ?thesis
        using less.prems(7) [OF False] n20 n(2) data m by (simp add: nfb unat_word_ariths(1) unat_of_nat_u16)
    qed
    define st' where "st' = (case out k i q dest st of None \<Rightarrow> st | Some (_, st1) \<Rightarrow> st1)"
    have dec: "unat (left - of_nat n) < unat left"
      using l n less.prems(5) by linarith
    have "mtu (netifs st' i) = of_nat m"
      using env(2) less.prems(8) by (auto simp: st'_def out_keeps_def reass_same_def split: option.splits)
    from less.hyps [OF dec p' l n(2) next_ofo this, of "Suc k"] obtain qs where
      qs: "frag_loop heaps out i dest h nfb False (Suc k) p' poff' (left - of_nat n) (ofo + nfb) st' = send_frags out i dest (Suc k) qs st'"
        "divides h data (off + n) qs"
        "\<forall>q\<in>set qs. length (pbuf_bytes q) \<le> m \<and> (\<exists>t. header_fields h (of_nat (length (pbuf_bytes q))) t (header q))"
      by blast
    show ?thesis
      using q qs code by (intro exI [of _ "q # qs"]) (auto simp: st'_def split: option.splits)
  qed
qed

lemma ip4_frag_result:
  assumes p: "packet_ok p" "unat (IPH_HL_BYTES (pb_payload (hd p))) = IP_HLEN"
      "IPH_OFFSET (pb_payload (hd p)) AND IP_OFFMASK = 0" "IPH_OFFSET (pb_payload (hd p)) AND IP_MF = 0"
    and m: "28 \<le> unat (mtu (netifs st i))" "(unat (mtu (netifs st i)) - 20) mod 8 = 0"
    and env: "heaps_full heaps" "\<forall>k. out_keeps (out k)"
  shows "\<exists>qs. ip4_frag heaps out i p dest st = send_frags out i dest 0 qs st \<and> divides (header p) (data_of p) 0 qs
    \<and> (\<forall>q\<in>set qs. length (pbuf_bytes q) \<le> unat (mtu (netifs st i))
         \<and> (\<exists>t. header_fields (header p) (of_nat (length (pbuf_bytes q))) t (header q)))"
proof -
  let ?m = "unat (mtu (netifs st i))" and ?b = "pb_payload (hd p)"
  obtain q0 qs0 where q0: "p = q0 # qs0" "tot_len_ok p" "IP_HLEN \<le> length ?b"
    using p(1) by (cases p) (auto simp: packet_ok_def)
  have len: "length (pbuf_bytes p) = IP_HLEN + length (data_of p)" "length (pbuf_bytes p) < 65536" "unat (pb_tot_len q0) = length (pbuf_bytes p)"
    using q0 tot_len_ok_less [of q0 qs0] by (simp_all add: data_of_def)
  have b: "length ?b < 65536" "IP_HLEN \<le> unat (pb_len q0)"
    using q0 len(2) unat_pb_len [of q0] by simp_all
  have h: "length (header p) = IP_HLEN" "IPH_HL_BYTES (header p) = IPH_HL_BYTES ?b"
    using q0(3) take_header(1) [OF q0(3)] by (simp_all add: header_def)
  have "word_of_int ((int ?m - int IP_HLEN) div 8) = (of_nat ((?m - 20) div 8) :: u16)"
  proof -
    have "(int ?m - int IP_HLEN) div 8 = int ((?m - 20) div 8)"
      using m(1) by (simp add: IP_HLEN_def of_nat_diff zdiv_int)
    then show ?thesis
      by (simp only: of_int_of_nat_eq)
  qed
  moreover have "\<not> pb_len q0 < of_nat IP_HLEN" "?b \<noteq> []"
    using b q0(3) by (auto simp: word_less_nat_alt IP_HLEN_def)
  ultimately have "ip4_frag heaps out i p dest st = frag_loop heaps out i dest (header p) (of_nat ((?m - 20) div 8)) False 0 p
      (of_nat IP_HLEN) (pb_tot_len q0 - of_nat IP_HLEN) 0 st"
    using p(2-4) q0(1) by (simp add: ip4_frag_def header_def Let_def)
  moreover have "unat (pb_tot_len q0 - of_nat IP_HLEN) = length (data_of p) - 0" "unat (of_nat IP_HLEN :: u16) = IP_HLEN"
    using len by (subst unat_sub) (simp_all add: word_le_nat_alt IP_HLEN_def)
  ultimately show ?thesis
    using frag_loop_result [OF h(1) _ _ m(1) _ m(2) refl env, of "data_of p" p "of_nat IP_HLEN" 0 "pb_tot_len q0 - of_nat IP_HLEN" 0 st i dest 0]
      q0 len h p(2) unat_u16_less [of "mtu (netifs st i)"] by (simp add: data_of_def)
qed

section \<open>There and back\<close>

text \<open>A packet as another station receives it: the same bytes, in whatever buffers.\<close>

definition received :: "pbuf list \<Rightarrow> pbuf list \<Rightarrow> bool" where
  "received q q' \<longleftrightarrow> pbuf_bytes q' = pbuf_bytes q \<and> q' \<noteq> [] \<and> tot_len_ok q' \<and> IP_HLEN \<le> length (pb_payload (hd q'))"

lemma header_bytes: "p \<noteq> [] \<Longrightarrow> IP_HLEN \<le> length (pb_payload (hd p)) \<Longrightarrow> header p = take IP_HLEN (pbuf_bytes p)"
  by (cases p) (simp_all add: header_def)

lemma fragment_received:
  assumes "fragment_at h data off q" "received q q'"
  shows "fragment_at h data off q'" "header q' = header q" "data_of q' = data_of q"
proof -
  have len: "q \<noteq> []" "IP_HLEN \<le> length (pb_payload (hd q))" "q' \<noteq> []" "IP_HLEN \<le> length (pb_payload (hd q'))"
    using assms by (simp_all add: fragment_at_def packet_ok_def received_def)
  show hq: "header q' = header q" "data_of q' = data_of q"
    using len assms(2) by (simp_all add: header_bytes received_def data_of_def)
  have "IPH_HL_BYTES (pb_payload (hd r)) = IPH_HL_BYTES (header r)" "IPH_LEN (pb_payload (hd r)) = IPH_LEN (header r)"
      "IPH_OFFSET (pb_payload (hd r)) = IPH_OFFSET (header r)" if "IP_HLEN \<le> length (pb_payload (hd r))" for r
    using take_header [OF that] by (simp_all add: header_def)
  then show "fragment_at h data off q'"
    using assms len hq by (simp add: fragment_at_def packet_ok_def received_def IPH_OFFSET_BYTES_def)
qed

lemma divides_received:
  assumes "list_all2 received qs rs" "divides h data off qs"
  shows "divides h data off rs"
  using assms
proof (induction arbitrary: off rule: list_all2_induct)
  case (Cons q qs r rs)
  then show ?case
    using fragment_received [of h data off q r] by simp
qed simp

lemma header_fields_trans:
  "header_fields h n t h1 \<Longrightarrow> header_fields h1 n' t' h2 \<Longrightarrow> header_fields h n' t' h2"
  by (simp add: header_fields_def)

text \<open>
  C27. There and back, under three conditions: the MTU is 20 more than a multiple of 8 (like the 1500 of Ethernet; for others the
  division is wrong), all allocations for the division succeed, and the receiver has room. A packet with a header of 20 bytes
  that is no fragment itself goes out as a sequence of fragments, none longer than the MTU and each with a header whose
  checksum verifies. A receiver that runs \<open>ip4_reass\<close>, has no other fragments of this datagram and has memory for a
  descriptor, and that receives them in any order, in any buffers but in no more than 10 together with those that already
  wait (in buffers of 500 bytes three full fragments of Ethernet take 12), gets
  the data back behind the header of the packet, with its length and no fragment field.
\<close>

theorem frag_reass_roundtrip:
  assumes "packet_ok p" "unat (IPH_HL_BYTES (pb_payload (hd p))) = 20" "20 < length (pbuf_bytes p)"
      "IPH_OFFSET (pb_payload (hd p)) AND IP_OFFMASK = 0" "IPH_OFFSET (pb_payload (hd p)) AND IP_MF = 0"
    and "28 \<le> unat (mtu (netifs st i))" "(unat (mtu (netifs st i)) - 20) mod 8 = 0" "heaps_full heaps" "\<forall>k. out_keeps (out k)"
  shows "\<exists>qs. ip4_frag heaps out i p dest st = send_frags out i dest 0 qs st
    \<and> (\<forall>q\<in>set qs. length (pbuf_bytes q) \<le> unat (mtu (netifs st i)) \<and> inet_chksum False (header q) = 0)
    \<and> (\<forall>rs ps st2 hs hs' heap frag. list_all2 received qs rs \<and> mset ps = mset rs
         \<and> (\<forall>r\<in>set (reassdatagrams st2). \<not> IP_ADDRESSES_AND_ID_MATCH (ra_iphdr r) (header p))
         \<and> unat (ip_reass_pbufcount st2) + sum_list (map length ps) \<le> 10 \<and> heap 0 SIZEOF_IP_REASSDATA \<noteq> None
         \<longrightarrow> (\<exists>q h'. reass_all (ip4_reass hs hs' heap frag) ps st2 = Some (replicate (length ps - 1) None @ [Some q], st2)
               \<and> pbuf_bytes q = h' @ drop 20 (pbuf_bytes p) \<and> tot_len_ok q
               \<and> whole_header (header p) (of_nat (length (pbuf_bytes p))) h'))"
proof -
  have hl: "unat (IPH_HL_BYTES (pb_payload (hd p))) = IP_HLEN"
    using assms(2) by (simp add: IP_HLEN_def)
  obtain qs where qs: "ip4_frag heaps out i p dest st = send_frags out i dest 0 qs st" "divides (header p) (data_of p) 0 qs"
      "\<forall>q\<in>set qs. length (pbuf_bytes q) \<le> unat (mtu (netifs st i))
         \<and> (\<exists>t. header_fields (header p) (of_nat (length (pbuf_bytes q))) t (header q))"
    using ip4_frag_result [OF assms(1) hl assms(4-9), of dest] by blast
  have len: "20 + length (data_of p) = length (pbuf_bytes p)" "data_of p \<noteq> []" "length (data_of p) + 20 < 65536"
  proof -
    show l: "20 + length (data_of p) = length (pbuf_bytes p)" "data_of p \<noteq> []"
      using assms(3) by (simp_all add: data_of_def IP_HLEN_def)
    have "length (pbuf_bytes p) = unat (IPH_LEN (pb_payload (hd p)))"
      using assms(1) by (simp add: packet_ok_def)
    then show "length (data_of p) + 20 < 65536"
      using l(1) unat_u16_less [of "IPH_LEN (pb_payload (hd p))"] by linarith
  qed
  obtain q0 qs' where q0: "qs = q0 # qs'"
    using qs(2) len(2) by (cases qs) auto
  have whole: "\<exists>q h'. reass_all (ip4_reass hs hs' heap frag) ps st2 = Some (replicate (length ps - 1) None @ [Some q], st2)
      \<and> pbuf_bytes q = h' @ drop 20 (pbuf_bytes p) \<and> tot_len_ok q
      \<and> whole_header (header p) (of_nat (length (pbuf_bytes p))) h'"
    if rs: "list_all2 received qs rs" "mset ps = mset rs"
      and st2: "\<forall>r\<in>set (reassdatagrams st2). \<not> IP_ADDRESSES_AND_ID_MATCH (ra_iphdr r) (header p)"
        "unat (ip_reass_pbufcount st2) + sum_list (map length ps) \<le> 10" "heap 0 SIZEOF_IP_REASSDATA \<noteq> None"
    for rs ps st2 hs hs' heap frag
  proof -
    obtain r0 rs' where r0: "rs = r0 # rs'" "received q0 r0"
      using rs(1) q0 by (cases rs) auto
    then have "header (hd rs) = header q0"
      using fragment_received(2) [of "header p" "data_of p" 0 q0 r0] qs(2) q0 by simp
    then show ?thesis
      using reass_any_order [of "header p" "data_of p" rs ps st2 heap hs hs' frag, OF divides_received [OF rs(1) qs(2)] rs(2) len(2,3) st2] qs(3) q0 len(1)
      by (auto simp: data_of_def IP_HLEN_def intro: header_fields_trans)
  qed
  show ?thesis
    using qs(1,3) whole by (intro exI [of _ qs]) (auto simp: header_fields_def)
qed

text \<open>\<open>ip4_frag\<close> is an output function like those it calls: it does not touch the waiting fragments and the interfaces.\<close>

lemma frag_loop_keeps:
  assumes "frag_loop heaps out i dest h nfb mf k p poff left ofo st = Some r"
  shows "(\<forall>k. out_keeps (out k)) \<longrightarrow> reass_same st (snd r)"
  using assms
proof (rule frag_loop.raw_induct [where P = "\<lambda>_ out _ _ _ _ _ _ _ _ _ _ st r. (\<forall>k. out_keeps (out k)) \<longrightarrow> reass_same st (snd r)", rotated])
  fix fl heaps i dest h nfb mf k p poff left ofo r
  fix out :: "nat \<Rightarrow> outfn" and st :: stack
  let ?body = "if left = 0 then Some (ERR_OK, st)
      else
        let fragsize = min left (nfb * 8)
        in case pbuf_alloc_RAM (heaps k) PBUF_LINK (of_nat IP_HLEN) of
             None \<Rightarrow> Some (ERR_MEM, st)
           | Some rambuf \<Rightarrow>
               (case frag_chain (heaps k) 1 [put_bytes 0 h rambuf] p poff fragsize of
                  None \<Rightarrow> None
                | Some None \<Rightarrow> Some (ERR_MEM, st)
                | Some (Some (c, p1, poff1)) \<Rightarrow>
                    let last = (int (unat left) \<le> int (unat (mtu (netifs st i))) - int IP_HLEN);
                        tmp = (IP_OFFMASK AND ofo) OR (if \<not> last \<or> mf then IP_MF else 0)
                    in case out k i (frag_header tmp (fragsize + of_nat IP_HLEN) (hd c) # tl c) dest st of
                         None \<Rightarrow> None
                       | Some (_, st1) \<Rightarrow> fl heaps out i dest h nfb mf (Suc k) p1 poff1 (left - fragsize) (ofo + nfb) st1)"
  assume IH: "\<And>heaps out i dest h nfb mf k p poff left ofo st y.
      fl heaps out i dest h nfb mf k p poff left ofo st = Some y \<Longrightarrow> (\<forall>k. out_keeps (out k)) \<longrightarrow> reass_same st (snd y)"
    and eq: "?body = Some r"
  show "(\<forall>k. out_keeps (out k)) \<longrightarrow> reass_same st (snd r)"
  proof
    assume out: "\<forall>k. out_keeps (out k)"
    then have step: "out k i q dest st = Some (e, st1) \<Longrightarrow> reass_same st st1" for q e st1
      by (auto simp: out_keeps_def)
    show "reass_same st (snd r)"
      using eq out by (auto simp: Let_def split: if_splits option.splits prod.splits dest!: step IH intro: reass_same_trans)
  qed
qed

lemma ip4_frag_keeps: "\<forall>k. out_keeps (out k) \<Longrightarrow> out_keeps (ip4_frag heaps out)"
  using frag_loop_keeps by (fastforce simp: out_keeps_def ip4_frag_def Let_def split: if_splits)

text \<open>A packet of ten bytes of data in two buffers, over an interface with room for eight.\<close>

definition sample_packet :: "pbuf list" where
  "sample_packet = [(sample_pbuf [0x45, 0, 0, 30, 0, 7, 0, 0, 64, 17, 0, 0, 192, 168, 1, 1, 192, 168, 1, 233, 1, 2, 3, 4])\<lparr>pb_tot_len := 30\<rparr>,
     sample_pbuf [5, 6, 7, 8, 9, 10]]"

definition sample_narrow :: stack where
  "sample_narrow = (lwip_start port_zero)\<lparr>netifs := (\<lambda>_. netif_zero\<lparr>mtu := 28\<rparr>)\<rparr>"

theorem frag_reass_roundtrip_witness:
  "\<exists>qs. ip4_frag (\<lambda>_. sample_heap) (\<lambda>k. etharp_output sample_heap) 1 sample_packet 0xE901A8C0 sample_narrow
      = send_frags (\<lambda>k. etharp_output sample_heap) 1 0xE901A8C0 0 qs sample_narrow
    \<and> (\<forall>q\<in>set qs. length (pbuf_bytes q) \<le> 28 \<and> inet_chksum False (header q) = 0)
    \<and> (\<forall>rs ps. list_all2 received qs rs \<and> mset ps = mset rs \<and> sum_list (map length ps) \<le> 10
         \<longrightarrow> (\<exists>q h'. reass_all (ip4_reass (\<lambda>_. sample_heap) (\<lambda>_. sample_heap) sample_heap (\<lambda>_ _ _ _. None)) ps (lwip_start port_zero)
                 = Some (replicate (length ps - 1) None @ [Some q], lwip_start port_zero)
               \<and> pbuf_bytes q = h' @ [1, 2, 3, 4, 5, 6, 7, 8, 9, 10] \<and> tot_len_ok q
               \<and> whole_header (header sample_packet) 30 h'))"
proof -
  have p: "packet_ok sample_packet" "unat (IPH_HL_BYTES (pb_payload (hd sample_packet))) = 20" "20 < length (pbuf_bytes sample_packet)"
      "IPH_OFFSET (pb_payload (hd sample_packet)) AND IP_OFFMASK = 0" "IPH_OFFSET (pb_payload (hd sample_packet)) AND IP_MF = 0"
    by (simp_all add: sample_packet_def packet_ok_def sample_pbuf_def sample_header_defs IP_OFFMASK_def IP_MF_def)
  have m: "28 \<le> unat (mtu (netifs sample_narrow 1))" "(unat (mtu (netifs sample_narrow 1)) - 20) mod 8 = 0"
      "heaps_full (\<lambda>_. sample_heap)" "\<forall>k. out_keeps (etharp_output sample_heap)"
    using sample_heap_ok etharp_output_keeps by (simp_all add: sample_narrow_def heaps_full_def sample_heap_def)
  have b: "drop 20 (pbuf_bytes sample_packet) = [1, 2, 3, 4, 5, 6, 7, 8, 9, 10]" "length (pbuf_bytes sample_packet) = 30"
      "unat (mtu (netifs sample_narrow 1)) = 28" "reassdatagrams (lwip_start port_zero) = []" "ip_reass_pbufcount (lwip_start port_zero) = 0"
    by (simp_all add: sample_packet_def sample_pbuf_def sample_narrow_def lwip_start_def)
  show ?thesis
    using frag_reass_roundtrip [where out = "\<lambda>k. etharp_output sample_heap" and dest = "0xE901A8C0", OF p m, unfolded b]
    by (elim exE conjE, intro exI conjI) (assumption | (fastforce simp: b sample_heap_def))+
qed

end
