(* ===== verification/Httpd.thy ===== *)
theory Httpd
  imports NetIf "HOL-Library.Sublist" "HOL-Library.Monad_Syntax"
begin

text \<open>
  The HTTP server, \<open>apps/http/httpd.c\<close> and \<open>apps/http/fs.c\<close> of lwIP 2.1.2, with the options of \<open>httpd_opts.h\<close>, none of which
  \<open>lwipopts.h\<close> changes: static files with their headers, no CGI, no SSI, no POST, requests collected from several buffers.
  The files are the generated list \<open>FS_ROOT\<close>, here \<open>root\<close>. A connection is the record \<open>http_conn\<close>: the state that
  \<open>tcp_arg\<close> attaches to it, the call-backs that are set, and what was handed to TCP. What TCP answers during one
  call-back is the record \<open>tcp_answers\<close>. \<open>None\<close> is a read through a \<open>NULL\<close> pointer
  or beyond the end of a file, or an access beyond the end of the array \<open>http_uri_buf\<close>.

  The theorems: whatever comes in, the server writes nothing but a piece of one of its files, and a request is answered
  with the whole file it asks for, however it is divided into buffers and whatever pace TCP takes.
\<close>

section \<open>Text\<close>

definition ascii :: "string \<Rightarrow> u8 list" where
  "ascii s = map of_char s"

definition CRLF :: "u8 list" where "CRLF = [13, 10]"

text \<open>
  \<open>lwip_strnstr (buffer, token, n)\<close> as a position in the first \<open>n\<close> bytes. The search ends at a zero byte. (The loop also
  reads the byte behind them, but does not use it.)
\<close>

fun strnstr_loop :: "u8 list \<Rightarrow> u8 list \<Rightarrow> nat option" where
  "strnstr_loop token [] = None"
| "strnstr_loop token (b # bs) =
     (if b = 0 \<or> length token > length (b # bs) then None
      else if take (length token) (b # bs) = token then Some 0
      else map_option Suc (strnstr_loop token bs))"

definition lwip_strnstr :: "u8 list \<Rightarrow> u8 list \<Rightarrow> nat \<Rightarrow> nat option" where
  "lwip_strnstr buffer token n = (if token = [] then Some 0 else strnstr_loop token (take n buffer))"

text \<open>The string that ends at the first zero byte.\<close>

definition c_string :: "u8 list \<Rightarrow> u8 list" where
  "c_string = takeWhile (\<lambda>b. b \<noteq> 0)"

text \<open>\<open>pbuf_copy_partial\<close>: the bytes copied.\<close>

fun pbuf_copy_partial :: "pbuf list \<Rightarrow> u16 \<Rightarrow> u16 \<Rightarrow> u8 list" where
  "pbuf_copy_partial [] len offset = []"
| "pbuf_copy_partial (p # ps) len offset =
     (if len = 0 then []
      else if offset \<noteq> 0 \<and> offset \<ge> pb_len p then pbuf_copy_partial ps len (offset - pb_len p)
      else
        let n = min len (pb_len p - offset)
        in take (unat n) (drop (unat offset) (pb_payload p)) @ pbuf_copy_partial ps (len - n) 0)"

section \<open>Files\<close>

record fsdata_file =
  fd_name :: "u8 list"
  fd_data :: "u8 list"
  fd_flags :: u8

record fs_file =
  fs_data :: "u8 list"
  fs_len :: int
  fs_index :: int
  fs_flags :: u8

definition FS_FILE_FLAGS_HEADER_INCLUDED :: u8 where "FS_FILE_FLAGS_HEADER_INCLUDED = 0x01"

text \<open>\<open>None\<close> stands for \<open>ERR_VAL\<close>: no such file.\<close>

fun fs_open :: "fsdata_file list \<Rightarrow> u8 list \<Rightarrow> fs_file option" where
  "fs_open [] name = None"
| "fs_open (f # fs) name =
     (if name = fd_name f
      then Some \<lparr>fs_data = fd_data f, fs_len = int (length (fd_data f)), fs_index = int (length (fd_data f)), fs_flags = fd_flags f\<rparr>
      else fs_open fs name)"

definition fs_bytes_left :: "fs_file \<Rightarrow> int" where
  "fs_bytes_left f = fs_len f - fs_index f"

section \<open>State\<close>

definition MIN_REQ_LEN :: u16 where "MIN_REQ_LEN = 7"
definition LWIP_HTTPD_MAX_REQ_LENGTH :: u16 where "LWIP_HTTPD_MAX_REQ_LENGTH = 1023"
definition LWIP_HTTPD_REQ_BUFSIZE :: u16 where "LWIP_HTTPD_REQ_BUFSIZE = LWIP_HTTPD_MAX_REQ_LENGTH"
definition LWIP_HTTPD_REQ_QUEUELEN :: nat where "LWIP_HTTPD_REQ_QUEUELEN = 5"
definition HTTPD_MAX_RETRIES :: u8 where "HTTPD_MAX_RETRIES = 4"
definition LWIP_HTTPD_URI_BUF_LEN :: nat where "LWIP_HTTPD_URI_BUF_LEN = 63"
definition TCP_SND_QUEUELEN :: u16 where "TCP_SND_QUEUELEN = 4"

definition httpd_default_filenames :: "u8 list list" where
  "httpd_default_filenames = map ascii [''/index.shtml'', ''/index.ssi'', ''/index.shtm'', ''/index.html'', ''/index.htm'']"

text \<open>The pointer \<open>file\<close> into the data is the part of the data from there on.\<close>

record http_state =
  handle :: "fs_file option"
  hfile :: "u8 list option"
  req :: "pbuf list"
  left :: u32
  retries :: u8

definition http_state_init :: http_state where
  "http_state_init = \<lparr>handle = None, hfile = None, req = [], left = 0, retries = 0\<rparr>"

record http_conn =
  arg :: "http_state option"
  cb_recv :: bool
  cb_err :: bool
  cb_poll :: bool
  cb_sent :: bool
  written :: "u8 list"
  recved :: nat
  closed :: bool

text \<open>
  The answers of TCP in one call-back: \<open>tcp_sndbuf\<close> and \<open>tcp_sndqueuelen\<close> before the \<open>k\<close>-th call of \<open>tcp_write\<close>, the result
  of that call for a length, \<open>tcp_mss\<close> and the result of \<open>tcp_close\<close>. And the bytes that the call-back finds in the static
  array \<open>http_uri_buf\<close>, which all connections share: any bytes that the requests of other connections left there.
\<close>

record tcp_answers =
  tcp_sndbuf :: "nat \<Rightarrow> u16"
  tcp_sndqueuelen :: "nat \<Rightarrow> u16"
  tcp_write :: "nat \<Rightarrow> u16 \<Rightarrow> err_t"
  tcp_mss :: u16
  tcp_close :: err_t
  http_uri_buf :: "nat \<Rightarrow> u8"

section \<open>Sending\<close>

text \<open>\<open>http_close_conn\<close>. When TCP cannot close now, the poll call-back tries again.\<close>

definition http_close_or_abort_conn :: "tcp_answers \<Rightarrow> bool \<Rightarrow> http_conn \<Rightarrow> http_conn" where
  "http_close_or_abort_conn a abort_conn c =
     (let c1 = c\<lparr>arg := None, cb_recv := False, cb_err := False, cb_poll := False, cb_sent := False\<rparr>
      in if abort_conn \<or> tcp_close a = ERR_OK then c1\<lparr>closed := True\<rparr> else c1\<lparr>cb_poll := True\<rparr>)"

definition http_close_conn :: "tcp_answers \<Rightarrow> http_conn \<Rightarrow> http_conn" where
  "http_close_conn a c = http_close_or_abort_conn a False c"

definition http_eof :: "tcp_answers \<Rightarrow> http_conn \<Rightarrow> http_conn" where
  "http_eof a c = http_close_conn a c"

text \<open>The loop of \<open>http_write\<close>: half as many bytes after each \<open>ERR_MEM\<close>.\<close>

function http_write_loop :: "tcp_answers \<Rightarrow> nat \<Rightarrow> u8 list \<Rightarrow> u16 \<Rightarrow> http_conn \<Rightarrow> err_t \<times> u16 \<times> http_conn" where
  "http_write_loop a k ptr len c =
     (let err = tcp_write a k len
      in if err = ERR_OK then (ERR_OK, len, c\<lparr>written := written c @ take (unat len) ptr\<rparr>)
         else if err = ERR_MEM
         then let len1 = (if tcp_sndbuf a (Suc k) = 0 \<or> tcp_sndqueuelen a (Suc k) \<ge> TCP_SND_QUEUELEN then 1 else len div 2)
              in if len1 > 1 then http_write_loop a (Suc k) ptr len1 c else (ERR_MEM, 0, c)
         else (err, 0, c))"
  by pat_completeness auto
termination
  by (relation "measure (\<lambda>(a, k, ptr, len, c). unat len)")
     (auto simp: word_less_nat_alt unat_div split: if_splits)

declare http_write_loop.simps [simp del]

definition http_write :: "tcp_answers \<Rightarrow> u8 list \<Rightarrow> u16 \<Rightarrow> http_conn \<Rightarrow> err_t \<times> u16 \<times> http_conn" where
  "http_write a ptr len c =
     (if len = 0 then (ERR_OK, 0, c)
      else http_write_loop a 0 ptr (min (min len (tcp_sndbuf a 0)) (2 * tcp_mss a)) c)"

text \<open>With the state \<open>hs\<close> of the connection; the new one stays attached. \<open>None\<close>: TCP was given bytes behind the end of the file.\<close>

definition http_send_data_nonssi :: "tcp_answers \<Rightarrow> http_state \<Rightarrow> u8 list \<Rightarrow> http_conn \<Rightarrow> (u8 \<times> http_state \<times> http_conn) option" where
  "http_send_data_nonssi a hs ptr c =
     (case http_write a ptr (to_u16 (min (left hs) 0xFFFF)) c of
        (err, len, c1) \<Rightarrow>
          if err \<noteq> ERR_OK then Some (0, hs, c1)
          else if unat len > length ptr then None
          else let hs1 = hs\<lparr>hfile := Some (drop (unat len) ptr), left := left hs - to_u32 len\<rparr> in Some (1, hs1, c1\<lparr>arg := Some hs1\<rparr>))"

text \<open>\<open>http_check_eof\<close>: \<open>True\<close> when there is more to send.\<close>

definition http_check_eof :: "tcp_answers \<Rightarrow> http_state \<Rightarrow> http_conn \<Rightarrow> bool \<times> http_conn" where
  "http_check_eof a hs c =
     (case handle hs of
        None \<Rightarrow> (False, http_eof a c)
      | Some f \<Rightarrow> if fs_bytes_left f \<le> 0 then (False, http_eof a c) else (True, c))"

definition http_send :: "tcp_answers \<Rightarrow> http_conn \<Rightarrow> (u8 \<times> http_conn) option" where
  "http_send a c =
     (case arg c of
        None \<Rightarrow> Some (0, c)
      | Some hs \<Rightarrow>
          (case (if left hs = 0 then http_check_eof a hs c else (True, c)) of
             (False, c1) \<Rightarrow> Some (0, c1)
           | (True, c1) \<Rightarrow>
               (case hfile hs of
                  None \<Rightarrow> None
                | Some ptr \<Rightarrow>
                    (case http_send_data_nonssi a hs ptr c1 of
                       None \<Rightarrow> None
                     | Some (data_to_send, hs1, c2) \<Rightarrow>
                         if left hs1 = 0
                         then (case handle hs1 of
                                 None \<Rightarrow> None
                               | Some f \<Rightarrow> if fs_bytes_left f \<le> 0 then Some (0, http_eof a c2) else Some (data_to_send, c2))
                         else Some (data_to_send, c2)))))"

section \<open>Requests\<close>

text \<open>The first of the files there is.\<close>

fun first_file :: "fsdata_file list \<Rightarrow> u8 list list \<Rightarrow> fs_file option" where
  "first_file root [] = None"
| "first_file root (n # ns) = (case fs_open root n of None \<Rightarrow> first_file root ns | Some f \<Rightarrow> Some f)"

definition http_get_404_file :: "fsdata_file list \<Rightarrow> fs_file option" where
  "http_get_404_file root = first_file root (map ascii [''/404.html'', ''/404.htm'', ''/404.shtml''])"

definition http_init_file :: "http_state \<Rightarrow> fs_file option \<Rightarrow> bool \<Rightarrow> http_state" where
  "http_init_file hs file is_09 =
     (case file of
        Some f \<Rightarrow>
          let hs1 = hs\<lparr>handle := Some f, hfile := Some (fs_data f), left := word_of_int (fs_len f), retries := 0\<rparr>
          in if is_09 \<and> fs_flags f AND FS_FILE_FLAGS_HEADER_INCLUDED \<noteq> 0
             then (case lwip_strnstr (fs_data f) (CRLF @ CRLF) (unat (left hs1)) of
                     Some i \<Rightarrow> hs1\<lparr>hfile := Some (drop (i + 4) (fs_data f)), left := left hs1 - of_nat (i + 4)\<rparr>
                   | None \<Rightarrow> hs1)
             else hs1
      | None \<Rightarrow> hs\<lparr>handle := None, hfile := None, left := 0, retries := 0\<rparr>)"

text \<open>A copy of bytes into an array, and the string at its start. \<open>None\<close>: an access behind the end of the array.\<close>

definition buf_put :: "u8 list \<Rightarrow> nat \<Rightarrow> u8 list \<Rightarrow> u8 list option" where
  "buf_put buf i bs =
     (if i + length bs \<le> length buf then Some (take i buf @ bs @ drop (i + length bs) buf) else None)"

definition buf_string :: "u8 list \<Rightarrow> u8 list option" where
  "buf_string buf = (if 0 \<in> set buf then Some (c_string buf) else None)"

text \<open>
  The search for a default page, in the root directory (\<open>copy_len = 0\<close>) or in another one: the directory is in the
  first \<open>copy_len\<close> bytes of \<open>buf\<close>, and each of the names is put behind it as far as there is room.
\<close>

fun default_file :: "fsdata_file list \<Rightarrow> nat \<Rightarrow> u8 list list \<Rightarrow> u8 list \<Rightarrow> fs_file option option" where
  "default_file root copy_len [] buf = Some None"
| "default_file root copy_len (name # names) buf =
     do {
       buf1 \<leftarrow>
         (let len_left = LWIP_HTTPD_URI_BUF_LEN + 1 - copy_len - 1
          in if copy_len > 0 \<and> len_left > 0
             then let name_copy_len = min len_left (length name)
                  in do {
                    b \<leftarrow> buf_put buf copy_len (take name_copy_len name);
                    buf_put b (copy_len + name_copy_len) [0]
                  }
             else Some buf);
       file_name \<leftarrow> (if copy_len > 0 then buf_string buf1 else Some name);
       (case fs_open root file_name of
          Some f \<Rightarrow> Some (Some f)
        | None \<Rightarrow> default_file root copy_len names buf1)
     }"

text \<open>
  \<open>buf0\<close> is what \<open>http_uri_buf\<close> holds before. The URI is in the buffers of the request or in \<open>httpd_req_buf\<close>, never in
  \<open>http_uri_buf\<close>.
\<close>

definition http_find_file :: "fsdata_file list \<Rightarrow> (nat \<Rightarrow> u8) \<Rightarrow> http_state \<Rightarrow> u8 list \<Rightarrow> bool \<Rightarrow> http_state option" where
  "http_find_file root buf0 hs uri is_09 =
     do {
       file1 \<leftarrow>
         (if length uri > 0 \<and> uri ! (length uri - 1) = of_char CHR ''/''
          then let buf = map buf0 [0..<LWIP_HTTPD_URI_BUF_LEN + 1];
                   copy_len = min (LWIP_HTTPD_URI_BUF_LEN + 1 - 1) (length uri - 1)
               in do {
                 buf1 \<leftarrow>
                   (if copy_len > 0
                    then do { b \<leftarrow> buf_put buf 0 (take copy_len uri); buf_put b copy_len [0] }
                    else Some buf);
                 default_file root copy_len httpd_default_filenames buf1
               }
          else Some None);
       let file2 = (case file1 of
                      Some f \<Rightarrow> Some f
                    | None \<Rightarrow>
                        (case fs_open root (takeWhile (\<lambda>b. b \<noteq> of_char CHR ''?'') uri) of
                           Some f \<Rightarrow> Some f
                         | None \<Rightarrow> http_get_404_file root));
           file3 = (case file2 of Some f \<Rightarrow> Some f | None \<Rightarrow> http_get_404_file root)
       in Some (http_init_file hs file3 is_09)
     }"

text \<open>
  The request so far as one string: \<open>httpd_req_buf\<close> when it is in several buffers. \<open>data\<close> has \<open>data_len\<close> bytes.
  Writes to it do not matter: the buffers are freed and \<open>httpd_req_buf\<close> is filled again before the next use.
\<close>

definition request_data :: "pbuf list \<Rightarrow> u8 list" where
  "request_data r =
     (if tl r \<noteq> [] then pbuf_copy_partial r (min (pb_tot_len (hd r)) LWIP_HTTPD_MAX_REQ_LENGTH) 0 else pb_payload (hd r))"

text \<open>The URI of a complete GET request and whether it is one of HTTP 0.9; \<open>Inl\<close> is the result of the search otherwise.\<close>

definition parse_data :: "u8 list \<Rightarrow> (bool, u8 list \<times> bool) sum" where
  "parse_data data =
     (if of_nat (length data) \<ge> MIN_REQ_LEN \<and> lwip_strnstr data CRLF (length data) \<noteq> None
      then
        if take 4 data \<noteq> ascii ''GET '' then Inl False
        else
          let rest = drop 4 data;
              (sp2, is_09) = (case lwip_strnstr rest (ascii '' '') (length rest) of
                                Some i \<Rightarrow> (Some i, False)
                              | None \<Rightarrow> (lwip_strnstr rest CRLF (length rest), True))
          in (case sp2 of
                None \<Rightarrow> Inl True
              | Some uri_len \<Rightarrow>
                  if lwip_strnstr data (CRLF @ CRLF) (length data) \<noteq> None then Inr (c_string (take uri_len rest), is_09)
                  else Inl True)
      else Inl True)"

text \<open>The request so far with the new chain behind it.\<close>

definition joined :: "pbuf list \<Rightarrow> pbuf list \<Rightarrow> pbuf list" where
  "joined r p = (if r = [] then p else pbuf_chain r p)"

definition http_parse_request :: "fsdata_file list \<Rightarrow> (nat \<Rightarrow> u8) \<Rightarrow> pbuf list \<Rightarrow> http_state \<Rightarrow> (err_t \<times> http_state) option" where
  "http_parse_request root buf0 p hs =
     (if handle hs \<noteq> None \<or> hfile hs \<noteq> None then Some (ERR_USE, hs)
      else
        let r = joined (req hs) p; hs1 = hs\<lparr>req := r\<rparr>
        in case parse_data (request_data r) of
             Inr (uri, is_09) \<Rightarrow> map_option (\<lambda>hs2. (ERR_OK, hs2)) (http_find_file root buf0 hs1 uri is_09)
           | Inl False \<Rightarrow> Some (ERR_ARG, hs1)
           | Inl True \<Rightarrow>
               if pb_tot_len (hd r) \<le> LWIP_HTTPD_REQ_BUFSIZE \<and> length r \<le> LWIP_HTTPD_REQ_QUEUELEN
               then Some (ERR_INPROGRESS, hs1)
               else Some (ERR_ARG, hs1))"

section \<open>Call-backs\<close>

definition http_err :: "http_conn \<Rightarrow> http_conn" where
  "http_err c = c\<lparr>arg := None\<rparr>"

definition http_sent :: "tcp_answers \<Rightarrow> http_conn \<Rightarrow> http_conn option" where
  "http_sent a c =
     (case arg c of
        None \<Rightarrow> Some c
      | Some hs \<Rightarrow> map_option snd (http_send a (c\<lparr>arg := Some (hs\<lparr>retries := 0\<rparr>)\<rparr>)))"

definition http_poll :: "tcp_answers \<Rightarrow> http_conn \<Rightarrow> http_conn option" where
  "http_poll a c =
     (case arg c of
        None \<Rightarrow> Some (http_close_conn a c)
      | Some hs \<Rightarrow>
          let hs1 = hs\<lparr>retries := retries hs + 1\<rparr>; c1 = c\<lparr>arg := Some hs1\<rparr>
          in if retries hs1 = HTTPD_MAX_RETRIES then Some (http_close_conn a c1)
             else if handle hs1 \<noteq> None then map_option snd (http_send a c1)
             else Some c1)"

definition http_recv :: "fsdata_file list \<Rightarrow> tcp_answers \<Rightarrow> pbuf list option \<Rightarrow> err_t \<Rightarrow> http_conn \<Rightarrow> http_conn option" where
  "http_recv root a p err c =
     (let c1 = (case p of None \<Rightarrow> c | Some q \<Rightarrow> c\<lparr>recved := recved c + unat (pb_tot_len (hd q))\<rparr>)
      in case (p, arg c) of
           (Some q, Some hs) \<Rightarrow>
             if err \<noteq> ERR_OK then Some (http_close_conn a c1)
             else if handle hs = None
             then (case http_parse_request root (http_uri_buf a) q hs of
                     None \<Rightarrow> None
                   | Some (parsed, hs1) \<Rightarrow>
                       let hs2 = (if parsed \<noteq> ERR_INPROGRESS then hs1\<lparr>req := []\<rparr> else hs1); c2 = c1\<lparr>arg := Some hs2\<rparr>
                       in if parsed = ERR_OK then map_option snd (http_send a c2)
                          else if parsed = ERR_ARG then Some (http_close_conn a c2)
                          else Some c2)
             else Some c1
         | _ \<Rightarrow> Some (http_close_conn a c1))"

text \<open>A new connection; \<open>mem\<close>: there is memory for its state.\<close>

definition http_accept :: "bool \<Rightarrow> err_t \<Rightarrow> http_conn \<Rightarrow> err_t \<times> http_conn" where
  "http_accept mem err c =
     (if err \<noteq> ERR_OK then (ERR_VAL, c)
      else if \<not> mem then (ERR_MEM, c)
      else (ERR_OK, c\<lparr>arg := Some http_state_init, cb_recv := True, cb_err := True, cb_poll := True, cb_sent := True\<rparr>))"

text \<open>\<open>httpd_init\<close> over the functions of TCP that it calls.\<close>

definition HTTPD_SERVER_PORT :: u16 where "HTTPD_SERVER_PORT = 80"
definition HTTPD_TCP_PRIO :: u8 where "HTTPD_TCP_PRIO = 1"

definition httpd_init_pcb ::
  "('p \<Rightarrow> u8 \<Rightarrow> 's \<Rightarrow> 's) \<Rightarrow> ('p \<Rightarrow> u16 \<Rightarrow> 's \<Rightarrow> 's) \<Rightarrow> ('p \<Rightarrow> 's \<Rightarrow> 'p option \<times> 's) \<Rightarrow> ('p \<Rightarrow> 's \<Rightarrow> 's) \<Rightarrow> 'p option \<Rightarrow> u16 \<Rightarrow> 's \<Rightarrow> 's" where
  "httpd_init_pcb setprio bnd lstn accept pcb port st =
     (case pcb of
        None \<Rightarrow> st
      | Some p \<Rightarrow> (case lstn p (bnd p port (setprio p HTTPD_TCP_PRIO st)) of (None, st1) \<Rightarrow> st1 | (Some l, st1) \<Rightarrow> accept l st1))"

definition httpd_init ::
  "('s \<Rightarrow> 'p option \<times> 's) \<Rightarrow> ('p \<Rightarrow> u8 \<Rightarrow> 's \<Rightarrow> 's) \<Rightarrow> ('p \<Rightarrow> u16 \<Rightarrow> 's \<Rightarrow> 's) \<Rightarrow> ('p \<Rightarrow> 's \<Rightarrow> 'p option \<times> 's) \<Rightarrow> ('p \<Rightarrow> 's \<Rightarrow> 's) \<Rightarrow> 's \<Rightarrow> 's" where
  "httpd_init new setprio bnd lstn accept st =
     (case new st of (pcb, st1) \<Rightarrow> httpd_init_pcb setprio bnd lstn accept pcb HTTPD_SERVER_PORT st1)"

text \<open>What TCP does with a connection: it calls a call-back when it is set, and after an error the connection is gone.\<close>

datatype http_event = Recv tcp_answers "pbuf list option" err_t | Sent tcp_answers | Poll tcp_answers | Err

fun http_step :: "fsdata_file list \<Rightarrow> http_event \<Rightarrow> http_conn \<Rightarrow> http_conn option" where
  "http_step root (Recv a p err) c = (if cb_recv c then http_recv root a p err c else Some c)"
| "http_step root (Sent a) c = (if cb_sent c then http_sent a c else Some c)"
| "http_step root (Poll a) c = (if cb_poll c then http_poll a c else Some c)"
| "http_step root Err c =
     Some ((if cb_err c then http_err c else c)\<lparr>cb_recv := False, cb_err := False, cb_poll := False, cb_sent := False\<rparr>)"

fun http_events :: "fsdata_file list \<Rightarrow> http_event list \<Rightarrow> http_conn \<Rightarrow> http_conn option" where
  "http_events root [] c = Some c"
| "http_events root (e # es) c = (case http_step root e c of None \<Rightarrow> None | Some c1 \<Rightarrow> http_events root es c1)"


section \<open>Search\<close>


lemma strnstr_loop_hit:
  assumes "strnstr_loop token bs = Some i"
  shows "i + length token \<le> length bs"
  using assms by (induction bs arbitrary: i) (auto split: if_splits)


section \<open>Answers\<close>

text \<open>TCP takes some bytes at the first attempt.\<close>

definition ready :: "tcp_answers \<Rightarrow> bool" where
  "ready a \<longleftrightarrow> tcp_sndbuf a 0 \<noteq> 0 \<and> 2 * tcp_mss a \<noteq> 0 \<and> (\<forall>n. tcp_write a 0 n = ERR_OK)"

lemma http_write_loop_result:
  "\<exists>e n. http_write_loop a k ptr len c = (e, n, c\<lparr>written := written c @ take (unat n) ptr\<rparr>) \<and> n \<le> len \<and> (e \<noteq> ERR_OK \<longrightarrow> n = 0)
    \<and> (tcp_write a k len = ERR_OK \<longrightarrow> e = ERR_OK \<and> n = len)"
proof (induction a k ptr len c rule: http_write_loop.induct)
  case (1 a k ptr len c)
  let ?l = "if tcp_sndbuf a (Suc k) = 0 \<or> tcp_sndqueuelen a (Suc k) \<ge> TCP_SND_QUEUELEN then 1 else len div 2"
  show ?case
  proof (cases "tcp_write a k len = ERR_MEM \<and> ?l > 1")
    case True
    then have "?l \<le> len"
      by (auto simp: word_le_nat_alt unat_div split: if_splits)
    moreover have "http_write_loop a k ptr len c = http_write_loop a (Suc k) ptr ?l c"
      using True by (subst http_write_loop.simps) (auto simp: Let_def)
    ultimately show ?thesis
      using 1 [OF refl _ _ refl] True by (auto intro: order_trans)
  next
    case False
    then show ?thesis
      by (subst http_write_loop.simps) (auto simp: Let_def)
  qed
qed

lemma http_write_result:
  "\<exists>e n. http_write a ptr len c = (e, n, c\<lparr>written := written c @ take (unat n) ptr\<rparr>) \<and> n \<le> len \<and> (e \<noteq> ERR_OK \<longrightarrow> n = 0)
    \<and> (ready a \<longrightarrow> e = ERR_OK \<and> (len \<noteq> 0 \<longrightarrow> n \<noteq> 0))"
proof (cases "len = 0")
  case False
  let ?l = "min (min len (tcp_sndbuf a 0)) (2 * tcp_mss a)"
  have l: "?l \<le> len" "ready a \<Longrightarrow> ?l \<noteq> 0"
    using False by (auto simp: ready_def min_def)
  obtain e n where n: "http_write_loop a 0 ptr ?l c = (e, n, c\<lparr>written := written c @ take (unat n) ptr\<rparr>)" "n \<le> ?l"
      "e \<noteq> ERR_OK \<longrightarrow> n = 0" "tcp_write a 0 ?l = ERR_OK \<longrightarrow> e = ERR_OK \<and> n = ?l"
    using http_write_loop_result [of a 0 ptr ?l c] by blast
  have "ready a \<longrightarrow> e = ERR_OK \<and> n \<noteq> 0"
    using n(4) l(2) by (auto simp: ready_def)
  then show ?thesis
    using False n l(1) by (auto simp: http_write_def)
qed (simp add: http_write_def)

text \<open>The reply of which \<open>rest\<close> is left.\<close>

definition replying :: "http_conn \<Rightarrow> u8 list \<Rightarrow> bool" where
  "replying c rest \<longleftrightarrow> (\<exists>hs f. arg c = Some hs \<and> handle hs = Some f \<and> hfile hs = Some rest \<and> unat (left hs) = length rest
     \<and> fs_bytes_left f \<le> 0)"

text \<open>The server has nothing more to do with a connection but to close it.\<close>

definition through :: "http_conn \<Rightarrow> bool" where
  "through c \<longleftrightarrow> arg c = None \<and> \<not> cb_recv c \<and> \<not> cb_sent c"

lemma http_close_result:
  "arg (http_close_conn a c) = None" "written (http_close_conn a c) = written c" "through (http_close_conn a c)"
  "closed (http_close_conn a c) \<longleftrightarrow> closed c \<or> tcp_close a = ERR_OK"
  by (simp_all add: http_close_conn_def http_close_or_abort_conn_def through_def Let_def)

text \<open>One call of \<open>http_send\<close> writes \<open>n\<close> of the bytes that are left, and closes the connection when these are all.\<close>

definition advanced :: "tcp_answers \<Rightarrow> http_conn \<Rightarrow> u8 list \<Rightarrow> nat \<Rightarrow> http_conn \<Rightarrow> bool" where
  "advanced a c rest n c' \<longleftrightarrow> n \<le> length rest \<and> written c' = written c @ take n rest \<and> (ready a \<and> rest \<noteq> [] \<longrightarrow> 0 < n)
     \<and> (if n < length rest then replying c' (drop n rest) \<and> cb_sent c' = cb_sent c \<and> closed c' = closed c
        else through c' \<and> (closed c' \<longleftrightarrow> closed c \<or> tcp_close a = ERR_OK))"

lemma http_send_step:
  assumes "replying c rest"
  shows "\<exists>e n c'. http_send a c = Some (e, c') \<and> advanced a c rest n c'"
proof -
  obtain hs f where hs: "arg c = Some hs" "handle hs = Some f" "hfile hs = Some rest" "unat (left hs) = length rest" "fs_bytes_left f \<le> 0"
    using assms by (auto simp: replying_def)
  show ?thesis
  proof (cases "left hs = 0")
    case True
    then have "http_send a c = Some (0, http_close_conn a c)" "rest = []"
      using hs by (simp_all add: http_send_def http_check_eof_def http_eof_def)
    then show ?thesis
      using http_close_result [of a c] by (intro exI [of _ 0] exI [of _ "http_close_conn a c"]) (simp add: advanced_def)
  next
    case False
    let ?len = "to_u16 (min (left hs) 0xFFFF)"
    have len: "unat ?len = min (length rest) 65535"
      using hs(4) by (simp add: unsigned_ucast_eq take_bit_nat_eq_self min_def word_le_nat_alt)
    have pos: "0 < length rest" "?len \<noteq> 0"
      using False hs(4) len by (auto simp: unat_eq_0 [symmetric])
    obtain e n where n: "http_write a rest ?len c = (e, n, c\<lparr>written := written c @ take (unat n) rest\<rparr>)" "n \<le> ?len"
        "e \<noteq> ERR_OK \<longrightarrow> n = 0" "ready a \<longrightarrow> e = ERR_OK \<and> (?len \<noteq> 0 \<longrightarrow> n \<noteq> 0)"
      using http_write_result by blast
    have le: "unat n \<le> length rest"
      using n(2) len by (simp add: word_le_nat_alt)
    define hs1 where "hs1 = (if e = ERR_OK then hs\<lparr>hfile := Some (drop (unat n) rest), left := left hs - to_u32 n\<rparr> else hs)"
    have left1: "unat (left hs1) = length rest - unat n"
      using le hs(4) n(3) by (auto simp: hs1_def unat_minus_le word_le_nat_alt)
    have hs1: "handle hs1 = Some f" "hfile hs1 = Some (drop (unat n) rest)"
      using hs n(3) by (auto simp: hs1_def)
    define c2 where "c2 = c\<lparr>written := written c @ take (unat n) rest, arg := Some hs1\<rparr>"
    have code: "http_send a c = (if left hs1 = 0 then Some (0, http_close_conn a c2) else Some (if e = ERR_OK then 1 else 0, c2))"
      using False hs n(1,3) le by (auto simp: http_send_def http_send_data_nonssi_def http_eof_def hs1_def c2_def Let_def)
    have c2: "written c2 = written c @ take (unat n) rest" "cb_sent c2 = cb_sent c" "closed c2 = closed c" "arg c2 = Some hs1"
      by (simp_all add: c2_def)
    show ?thesis
    proof (cases "left hs1 = 0")
      case True
      then have "unat n = length rest"
        using left1 le by simp
      then show ?thesis
        using code True http_close_result [of a c2] c2 pos
        by - (rule exI [of _ 0], rule exI [of _ "unat n"], rule exI [of _ "http_close_conn a c2"], simp add: advanced_def)
    next
      case f: False
      then have "unat n < length rest"
        using left1 by (metis diff_is_0_eq not_less unat_eq_0)
      moreover have "replying c2 (drop (unat n) rest)"
        using c2(4) hs1 left1 hs(5) by (auto simp: replying_def)
      moreover have "ready a \<longrightarrow> 0 < unat n"
        using n(4) pos(2) by (simp add: unat_gt_0)
      ultimately show ?thesis
        using code f c2
        by - (rule exI [of _ "if e = ERR_OK then 1 else 0"], rule exI [of _ "unat n"], rule exI [of _ c2], simp add: advanced_def)
    qed
  qed
qed



section \<open>Safety\<close>

text \<open>What the server may write: a file, or for HTTP 0.9 the part of it behind the header.\<close>

definition served :: "fsdata_file list \<Rightarrow> u8 list set" where
  "served root = {d. \<exists>f\<in>set root. d = fd_data f
     \<or> (\<exists>i. strnstr_loop (CRLF @ CRLF) (fd_data f) = Some i \<and> d = drop (i + 4) (fd_data f))}"

definition files_ok :: "fsdata_file list \<Rightarrow> bool" where
  "files_ok root \<longleftrightarrow> (\<forall>f\<in>set root. length (fd_data f) < 2 ^ 31)"

definition conn_ok :: "fsdata_file list \<Rightarrow> http_conn \<Rightarrow> bool" where
  "conn_ok root c \<longleftrightarrow>
     (case arg c of
        None \<Rightarrow> written c = [] \<or> (\<exists>d\<in>served root. prefix (written c) d)
      | Some hs \<Rightarrow>
          if handle hs = None then hfile hs = None \<and> left hs = 0 \<and> written c = []
          else \<exists>rest. replying c rest \<and> written c @ rest \<in> served root)"

lemma fs_open_Some:
  assumes "fs_open root name = Some f"
  shows "\<exists>g\<in>set root. fd_name g = name \<and> fs_data f = fd_data g \<and> fs_flags f = fd_flags g" "fs_len f = int (length (fs_data f))" "fs_bytes_left f = 0"
  using assms by (induction root) (auto simp: fs_bytes_left_def split: if_splits)

lemma first_file_Some: "first_file root ns = Some f \<Longrightarrow> \<exists>n. fs_open root n = Some f"
  by (induction ns) (auto split: option.splits)

text \<open>The files a request may get, the best one first.\<close>

definition candidates :: "u8 list \<Rightarrow> u8 list list" where
  "candidates uri =
     (if suffix (ascii ''/'') uri then map (\<lambda>n. take 63 (butlast uri @ n)) httpd_default_filenames else [])
     @ [takeWhile (\<lambda>b. b \<noteq> of_char CHR ''?'') uri] @ map ascii [''/404.html'', ''/404.htm'', ''/404.shtml'']"

lemma first_file_append: "first_file root (ns @ ms) = (case first_file root ns of None \<Rightarrow> first_file root ms | Some f \<Rightarrow> Some f)"
  by (induction ns) (auto split: option.splits)

text \<open>The array holds the string \<open>d\<close>.\<close>

definition holds :: "u8 list \<Rightarrow> u8 list \<Rightarrow> bool" where
  "holds buf d \<longleftrightarrow> length buf = 64 \<and> (\<exists>rest. buf = d @ 0 # rest) \<and> 0 \<notin> set d"

lemma holds_string: "holds buf d \<Longrightarrow> buf_string buf = Some d"
  by (auto simp: holds_def buf_string_def c_string_def takeWhile_append)

lemma holds_put:
  assumes "length buf = 64" "take i buf = d" "i = length d" "length (d @ n) \<le> 63" "0 \<notin> set d" "0 \<notin> set n"
  shows "\<exists>b buf'. buf_put buf i n = Some b \<and> buf_put b (i + length n) [0] = Some buf' \<and> holds buf' (d @ n)"
  using assms by (auto simp: buf_put_def holds_def)

lemma default_file_root:
  "default_file root 0 names buf = Some (first_file root names)"
  by (induction names) (auto split: option.splits)

lemma default_file_dir:
  assumes "copy_len = length d" "0 < length d" "length d \<le> 63" "0 \<notin> set d" "\<forall>n\<in>set names. 0 \<notin> set n"
    and "holds buf e" "take (length d) e = d"
  shows "default_file root copy_len names buf
    = Some (first_file root (map (\<lambda>n. if length d = 63 then e else take 63 (d @ n)) names))"
  using assms(5-)
proof (induction names arbitrary: buf e)
  case (Cons n ns)
  show ?case
  proof (cases "length d = 63")
    case True
    then show ?thesis
      using Cons.IH [OF _ Cons.prems(2,3)] Cons.prems holds_string [OF Cons.prems(2)] assms(1,2)
      by (simp add: LWIP_HTTPD_URI_BUF_LEN_def split: option.splits)
  next
    case False
    let ?n = "take (min (63 - length d) (length n)) n"
    have "take (length d) buf = d"
      using Cons.prems(2,3) by (auto simp: holds_def) (metis nat_le_linear take_all take_append append_Nil2 diff_is_0_eq' length_take min.absorb2 take0)
    moreover have "length (d @ ?n) \<le> 63" "0 \<notin> set ?n"
      using assms(3) Cons.prems(1) by (auto dest: in_set_takeD)
    ultimately obtain b buf' where put: "buf_put buf copy_len ?n = Some b" "buf_put b (copy_len + length ?n) [0] = Some buf'"
      and h: "holds buf' (d @ ?n)"
      using holds_put [of buf copy_len d ?n] Cons.prems(2) assms(1,4) unfolding holds_def by blast
    have n: "d @ ?n = take 63 (d @ n)"
      using assms(3) by (simp add: min_def)
    show ?thesis
      using Cons.IH [OF _ h] Cons.prems(1) put holds_string [OF h] assms(1-3) False n
      by (simp add: LWIP_HTTPD_URI_BUF_LEN_def split: option.splits)
  qed
qed simp

lemma default_names: "\<forall>n\<in>set httpd_default_filenames. 0 \<notin> set n \<and> length n \<le> 63"
  by (simp add: httpd_default_filenames_def ascii_def)

lemma http_find_file_candidates:
  assumes "0 \<notin> set uri"
  shows "http_find_file root buf0 hs uri v = Some (http_init_file hs (first_file root (candidates uri)) v)"
proof (cases "suffix (ascii ''/'') uri")
  case False
  then have "\<not> (length uri > 0 \<and> uri ! (length uri - 1) = of_char CHR ''/'')"
    by (cases uri rule: rev_cases) (simp_all add: ascii_def)
  then show ?thesis
    using False by (auto simp: http_find_file_def candidates_def http_get_404_file_def first_file_append Let_def split: option.splits)
next
  case True
  then obtain d where uri: "uri = d @ [of_char CHR ''/'']"
    by (auto simp: ascii_def suffix_def)
  let ?buf = "map buf0 [0..<LWIP_HTTPD_URI_BUF_LEN + 1]"
  let ?copy = "min (LWIP_HTTPD_URI_BUF_LEN + 1 - 1) (length uri - 1)"
  define buf1 where "buf1 = (if ?copy > 0 then do { b \<leftarrow> buf_put ?buf 0 (take ?copy uri); buf_put b ?copy [0] } else Some ?buf)"
  have "\<exists>b. buf1 = Some b \<and> default_file root ?copy httpd_default_filenames b
      = Some (first_file root (map (\<lambda>n. take 63 (d @ n)) httpd_default_filenames))"
  proof (cases "d = []")
    case True
    then show ?thesis
      using default_names by (simp add: buf1_def uri default_file_root cong: map_cong)
  next
    case False
    have c: "?copy = length (take 63 d)" "take ?copy uri = take 63 d" "0 < length (take 63 d)"
      using False by (auto simp: uri LWIP_HTTPD_URI_BUF_LEN_def min_def)
    have z: "0 \<notin> set (take 63 d)"
      using assms by (auto simp: uri dest: in_set_takeD)
    obtain b b' where b: "buf_put ?buf 0 (take 63 d) = Some b" "buf_put b (length (take 63 d)) [0] = Some b'" "holds b' (take 63 d)"
      using holds_put [of ?buf 0 "[]" "take 63 d"] z by (auto simp: LWIP_HTTPD_URI_BUF_LEN_def)
    have names: "map (\<lambda>n. if length (take 63 d) = 63 then take 63 d else take 63 (take 63 d @ n)) httpd_default_filenames
        = map (\<lambda>n. take 63 (d @ n)) httpd_default_filenames"
      by auto
    have "default_file root ?copy httpd_default_filenames b'
        = Some (first_file root (map (\<lambda>n. take 63 (d @ n)) httpd_default_filenames))"
      unfolding names [symmetric] using default_names
      by (intro default_file_dir [OF c(1) c(3) _ z _ b(3) take_all [OF order_refl]]) simp_all
    moreover have "buf1 = Some b'"
      using b(1,2) c by (simp add: buf1_def del: length_take)
    ultimately show ?thesis
      by blast
  qed
  then obtain b where b: "buf1 = Some b" "default_file root ?copy httpd_default_filenames b
      = Some (first_file root (map (\<lambda>n. take 63 (d @ n)) httpd_default_filenames))"
    by blast
  have dir: "length uri > 0 \<and> uri ! (length uri - 1) = of_char CHR ''/''"
    by (simp add: uri)
  have "first_file root (candidates uri) = (case first_file root (map (\<lambda>n. take 63 (d @ n)) httpd_default_filenames) of
      Some f \<Rightarrow> Some f
    | None \<Rightarrow> (case fs_open root (takeWhile (\<lambda>b. b \<noteq> of_char CHR ''?'') uri) of Some f \<Rightarrow> Some f | None \<Rightarrow> http_get_404_file root))"
    using True unfolding candidates_def first_file_append http_get_404_file_def by (simp add: uri split: option.splits)
  then show ?thesis
    unfolding http_find_file_def Let_def if_P [OF dir] buf1_def [symmetric] b bind.bind_lunit
    by (simp split: option.splits)
qed

lemma http_init_file_served:
  assumes "files_ok root" "fs_open root name = Some f"
  shows "\<exists>rest. hfile (http_init_file hs (Some f) v) = Some rest \<and> handle (http_init_file hs (Some f) v) = Some f
    \<and> unat (left (http_init_file hs (Some f) v)) = length rest \<and> rest \<in> served root \<and> (\<not> v \<longrightarrow> rest = fs_data f)"
proof -
  obtain g where g: "g \<in> set root" "fs_data f = fd_data g" "fs_len f = int (length (fd_data g))"
    using fs_open_Some [OF assms(2)] by auto
  have len: "length (fd_data g) < 2 ^ 31"
    using assms(1) g(1) by (simp add: files_ok_def)
  have all: "unat (word_of_int (fs_len f) :: u32) = length (fd_data g)"
    using len by (simp add: g(3) unat_of_nat_u32)
  show ?thesis
  proof (cases "v \<and> fs_flags f AND FS_FILE_FLAGS_HEADER_INCLUDED \<noteq> 0 \<and> strnstr_loop (CRLF @ CRLF) (fd_data g) \<noteq> None")
    case True
    then obtain i where i: "strnstr_loop (CRLF @ CRLF) (fd_data g) = Some i"
      by auto
    then have le: "i + 4 \<le> length (fd_data g)"
      using strnstr_loop_hit [OF i] by (simp add: CRLF_def)
    have "unat (of_nat (i + 4) :: u32) = i + 4"
      using le len by (intro unat_of_nat_u32) simp
    then have "unat (word_of_int (fs_len f) - of_nat (i + 4) :: u32) = length (fd_data g) - (i + 4)"
      using le all by (subst unat_sub) (simp_all only: word_le_nat_alt)
    moreover have "drop (i + 4) (fd_data g) \<in> served root"
      using g(1) i by (auto simp: served_def)
    moreover have "lwip_strnstr (fs_data f) (CRLF @ CRLF) (unat (word_of_int (fs_len f) :: u32)) = Some i"
      using i all g(2) by (simp add: lwip_strnstr_def CRLF_def)
    ultimately show ?thesis
      using True g(2) by (simp add: http_init_file_def Let_def)
  next
    case False
    then have "http_init_file hs (Some f) v
        = hs\<lparr>handle := Some f, hfile := Some (fs_data f), left := word_of_int (fs_len f), retries := 0\<rparr>"
      using all g(2) by (auto simp: http_init_file_def Let_def lwip_strnstr_def CRLF_def split: option.splits)
    then show ?thesis
      using all g by (auto simp: served_def)
  qed
qed

lemma conn_ok_replying:
  "replying c rest \<Longrightarrow> written c @ rest \<in> served root \<Longrightarrow> conn_ok root c"
  by (auto simp: conn_ok_def replying_def)

lemma conn_ok_closed: "conn_ok root c \<Longrightarrow> conn_ok root (http_close_conn a c)"
  using http_close_result(1,2) [of a c] by (auto simp: conn_ok_def prefix_def split: option.splits if_splits)

lemma http_send_ok:
  assumes "conn_ok root c"
  shows "\<exists>e c'. http_send a c = Some (e, c') \<and> conn_ok root c'"
proof (cases "arg c")
  case None
  then show ?thesis
    using assms by (simp add: http_send_def)
next
  case (Some hs)
  show ?thesis
  proof (cases "handle hs = None")
    case True
    then have "http_send a c = Some (0, http_close_conn a c)"
      using assms Some by (simp add: conn_ok_def http_send_def http_check_eof_def http_eof_def)
    then show ?thesis
      using conn_ok_closed [OF assms] by simp
  next
    case False
    then obtain rest where r: "replying c rest" "written c @ rest \<in> served root"
      using assms Some by (auto simp: conn_ok_def)
    obtain e n c' where c': "http_send a c = Some (e, c')" "advanced a c rest n c'"
      using http_send_step [OF r(1), of a] by blast
    have "conn_ok root c'"
    proof (cases "n < length rest")
      case True
      then show ?thesis
        using c'(2) r(2) by (intro conn_ok_replying [of _ "drop n rest"]) (simp_all add: advanced_def)
    next
      case f: False
      then have "written c' \<in> served root" "arg c' = None"
        using c'(2) r(2) by (simp_all add: through_def advanced_def)
      then show ?thesis
        by (auto simp: conn_ok_def)
    qed
    then show ?thesis
      using c'(1) by simp
  qed
qed

lemma conn_ok_same:
  assumes "conn_ok root c" "arg c = Some hs" "written c' = written c" "arg c' = Some hs'" "handle hs' = handle hs"
    "hfile hs' = hfile hs" "left hs' = left hs"
  shows "conn_ok root c'"
  using assms by (auto simp: conn_ok_def replying_def split: if_splits)

lemma parse_data_string: "parse_data data = Inr (uri, v) \<Longrightarrow> 0 \<notin> set uri"
  by (auto simp: parse_data_def Let_def c_string_def dest: set_takeWhileD split: if_splits option.splits prod.splits)

lemma http_parse_request_returns:
  "\<exists>e hs1. http_parse_request root buf0 p hs = Some (e, hs1)
    \<and> (if e = ERR_OK then \<exists>r uri v. hs1 = http_init_file (hs\<lparr>req := r\<rparr>) (first_file root (candidates uri)) v
       else handle hs1 = handle hs \<and> hfile hs1 = hfile hs \<and> left hs1 = left hs)"
  using http_find_file_candidates [OF parse_data_string, of "request_data (joined (req hs) p)"]
  by (auto simp: http_parse_request_def Let_def split: sum.splits prod.splits bool.splits)

lemma http_recv_ok:
  assumes root: "files_ok root" and c: "conn_ok root c"
  shows "\<exists>c'. http_recv root a p err c = Some c' \<and> conn_ok root c'"
proof -
  let ?c1 = "case p of None \<Rightarrow> c | Some q \<Rightarrow> c\<lparr>recved := recved c + unat (pb_tot_len (hd q))\<rparr>"
  have c1: "conn_ok root ?c1"
    using c by (auto simp: conn_ok_def replying_def split: option.splits)
  show ?thesis
  proof (cases "\<exists>q hs. p = Some q \<and> arg c = Some hs \<and> err = ERR_OK \<and> handle hs = None")
    case False
    then show ?thesis
      using c1 conn_ok_closed [OF c1, of a] by (auto simp: http_recv_def Let_def split: option.splits)
  next
    case True
    then obtain q hs where q: "p = Some q" "arg c = Some hs" "err = ERR_OK" "handle hs = None"
      by blast
    obtain parsed hs1 where parse: "http_parse_request root (http_uri_buf a) q hs = Some (parsed, hs1)"
      and res: "if parsed = ERR_OK then \<exists>r uri v. hs1 = http_init_file (hs\<lparr>req := r\<rparr>) (first_file root (candidates uri)) v
        else handle hs1 = handle hs \<and> hfile hs1 = hfile hs \<and> left hs1 = left hs"
      using http_parse_request_returns [of root "http_uri_buf a" q hs] by blast
    define c2 where "c2 = ?c1\<lparr>arg := Some (if parsed \<noteq> ERR_INPROGRESS then hs1\<lparr>req := []\<rparr> else hs1)\<rparr>"
    have new: "hfile hs = None" "left hs = 0" "written c = []"
      using c q(2,4) by (simp_all add: conn_ok_def)
    have "conn_ok root c2"
    proof (cases "parsed = ERR_OK")
      case True
      then obtain r uri v where hs1: "hs1 = http_init_file (hs\<lparr>req := r\<rparr>) (first_file root (candidates uri)) v"
        using res by auto
      show ?thesis
      proof (cases "first_file root (candidates uri)")
        case None
        then show ?thesis
          using True new q(1) by (simp add: c2_def conn_ok_def hs1 http_init_file_def)
      next
        case (Some f)
        then obtain n where n: "fs_open root n = Some f"
          using first_file_Some by blast
        obtain rest where rest: "hfile hs1 = Some rest" "handle hs1 = Some f" "unat (left hs1) = length rest" "rest \<in> served root"
          using http_init_file_served [OF root n, of "hs\<lparr>req := r\<rparr>" v] by (auto simp: hs1 Some)
        have "replying c2 rest" "written c2 = []"
          using rest True new q(1) fs_open_Some(3) [OF n] by (simp_all add: c2_def replying_def)
        then show ?thesis
          using rest(4) by (intro conn_ok_replying) simp_all
      qed
    next
      case False
      then have "handle hs1 = None" "hfile hs1 = None" "left hs1 = 0"
        using res q(4) new by simp_all
      then show ?thesis
        using new q(1) by (simp add: c2_def conn_ok_def)
    qed
    moreover have "http_recv root a p err c = (if parsed = ERR_OK then map_option snd (http_send a c2)
        else if parsed = ERR_ARG then Some (http_close_conn a c2) else Some c2)"
      using q parse by (simp add: http_recv_def Let_def c2_def)
    ultimately show ?thesis
      using http_send_ok [of root c2 a] conn_ok_closed [of root c2 a] by auto
  qed
qed

lemma http_step_ok:
  assumes "files_ok root" "conn_ok root c"
  shows "\<exists>c'. http_step root e c = Some c' \<and> conn_ok root c'"
proof (cases e)
  case (Recv a p err)
  then show ?thesis
    using http_recv_ok [OF assms] assms(2) by simp
next
  case (Sent a)
  have "\<exists>c'. http_sent a c = Some c' \<and> conn_ok root c'"
  proof (cases "arg c")
    case (Some hs)
    then have "conn_ok root (c\<lparr>arg := Some (hs\<lparr>retries := 0\<rparr>)\<rparr>)"
      using conn_ok_same [OF assms(2) Some] by simp
    then show ?thesis
      using http_send_ok [of root "c\<lparr>arg := Some (hs\<lparr>retries := 0\<rparr>)\<rparr>" a] Some by (auto simp: http_sent_def)
  qed (use assms(2) in \<open>simp add: http_sent_def\<close>)
  then show ?thesis
    using Sent assms(2) by simp
next
  case (Poll a)
  have "\<exists>c'. http_poll a c = Some c' \<and> conn_ok root c'"
  proof (cases "arg c")
    case (Some hs)
    let ?c = "c\<lparr>arg := Some (hs\<lparr>retries := retries hs + 1\<rparr>)\<rparr>"
    have "conn_ok root ?c"
      using conn_ok_same [OF assms(2) Some] by simp
    then show ?thesis
      using http_send_ok [of root ?c a] conn_ok_closed [of root ?c a] Some by (auto simp: http_poll_def Let_def)
  qed (use assms(2) conn_ok_closed in \<open>simp add: http_poll_def\<close>)
  then show ?thesis
    using Poll assms(2) by simp
next
  case Err
  have "conn_ok root (c\<lparr>arg := None\<rparr>)"
    using assms(2) by (auto simp: conn_ok_def prefix_def split: option.splits if_splits)
  then show ?thesis
    using Err assms(2) by (auto simp: http_err_def conn_ok_def replying_def split: option.splits)
qed

lemma http_events_ok:
  assumes "files_ok root" "conn_ok root c"
  shows "\<exists>c'. http_events root es c = Some c' \<and> conn_ok root c'"
  using assms(2)
proof (induction es arbitrary: c)
  case (Cons e es)
  then show ?case
    using http_step_ok [OF assms(1) Cons.prems, of e] by auto
qed simp

text \<open>A connection that TCP has just set up, and the one that the server has accepted.\<close>

definition new_conn :: http_conn where
  "new_conn = \<lparr>arg = None, cb_recv = False, cb_err = False, cb_poll = False, cb_sent = False, written = [], recved = 0, closed = False\<rparr>"

definition accepted :: http_conn where
  "accepted = snd (http_accept True ERR_OK new_conn)"

lemma accepted_simps [simp]:
  "arg accepted = Some http_state_init" "cb_recv accepted" "cb_sent accepted" "written accepted = []" "\<not> closed accepted"
  by (simp_all add: accepted_def http_accept_def new_conn_def)

text \<open>
  C26. Nothing but files. Whatever a client sends, in whatever pieces, and whatever TCP answers and when it calls, every
  call-back returns, with no access behind the end of a file or of \<open>http_uri_buf\<close>, and what has been written to the
  connection is the beginning of one of the files of the server, or for HTTP 0.9 of the part of it behind the header.
\<close>

theorem http_writes_files:
  assumes "files_ok root"
  shows "\<exists>c. http_events root es accepted = Some c \<and> (written c = [] \<or> (\<exists>d\<in>served root. prefix (written c) d))"
proof -
  have "conn_ok root accepted"
    by (simp add: conn_ok_def http_state_init_def)
  from http_events_ok [OF assms this, of es] obtain c where c: "http_events root es accepted = Some c" "conn_ok root c"
    by blast
  moreover have "written c = [] \<or> (\<exists>d\<in>served root. prefix (written c) d)"
    using c(2) by (auto simp: conn_ok_def prefix_def split: option.splits if_splits)
  ultimately show ?thesis
    by blast
qed

section \<open>A whole request\<close>














text \<open>The default page of a directory, of three bytes, asked for in two pieces, over a connection that takes one or two bytes at a time and sometimes none.\<close>

definition sample_root :: "fsdata_file list" where
  "sample_root = [\<lparr>fd_name = ascii ''/404.html'', fd_data = [9], fd_flags = 1\<rparr>, \<lparr>fd_name = ascii ''/index.html'', fd_data = [7], fd_flags = 1\<rparr>,
     \<lparr>fd_name = ascii ''/a/index.html'', fd_data = [1, 2, 3], fd_flags = 1\<rparr>]"

definition sample_answers :: "u16 \<Rightarrow> err_t \<Rightarrow> tcp_answers" where
  "sample_answers n e = \<lparr>tcp_sndbuf = \<lambda>_. n, tcp_sndqueuelen = \<lambda>_. 0, tcp_write = \<lambda>_ _. e, tcp_mss = 1460, tcp_close = ERR_OK,
     http_uri_buf = \<lambda>_. 255\<rparr>"

lemma sample_root_ok: "files_ok sample_root"
  by (simp add: files_ok_def sample_root_def)

theorem http_writes_files_witness:
  "\<exists>c. http_events sample_root [Recv (sample_answers 5 ERR_OK) (Some [sample_pbuf [1, 2, 3]]) ERR_OK, Poll (sample_answers 0 ERR_MEM), Err] accepted = Some c
    \<and> (written c = [] \<or> (\<exists>d\<in>served sample_root. prefix (written c) d))"
  using http_writes_files [OF sample_root_ok] by blast




end
