(* ===== verification/Spec2Isabelle.thy ===== *)
theory Spec2Isabelle
  imports Boot Mem Frag Httpd
begin

text \<open>
  The firmware of a time server on the microcontroller 1986VE1T. Once a second the program sends a
  UDP broadcast with the Moscow time, the local time and the state of two inputs; it answers ARP
  and pings and serves a status page. The sources are \<open>Application/*.c\<close>, the Ethernet port
  \<open>2.1.2/ports/1986BE1/Standalone/ethernetif.c\<close>, the TCP/IP stack lwIP 2.1.2 below
  \<open>2.1.2/lwip/src\<close>, and the vendor's drivers \<open>Libraries/MDR32F9Qx_StdPeriph_Driver\<close>.

  \<^bold>\<open>How the parts interact.\<close> \<open>main\<close> sets up the clocks, lamp, watchdog, tick timer, serial port
  and network, starts a timer that interrupts once a second, and then polls: it hands one
  received frame to the stack (\<open>LwIP_Pkt_Handle\<close>), runs the timers of the stack
  (\<open>LwIP_Periodic_Handle\<close>), carries the clock (\<open>Time_counting\<close>) and, when the counter of the interrupt
  handler has moved, sends the next datagram (\<open>Counting_seconds\<close>), which goes through \<open>udp_sendto_if\<close>,
  \<open>ip4_output_if_src\<close>, \<open>etharp_output\<close> and \<open>ethernet_output\<close> to \<open>EthWriteFrame\<close> and the frame memory.

  \<^bold>\<open>Conventions.\<close> Registers, C integers and addresses are words of their width. A struct is a record
  and a pointer to a buffer is the buffer (\<open>pbuf list\<close> for a chain), so that reference counts have
  no counterpart; pointers to interfaces and control blocks are addresses into the maps \<open>netifs\<close>
  and \<open>pcbs\<close> of the record \<open>stack\<close>. What hardware or allocator answer is an argument: a sequence of
  register reads, the function \<open>heap\<close> that gives the \<open>i\<close>-th allocation or \<open>None\<close>
  (\<open>Mem\<close> has the allocator that provides it), the memory
  chip. \<open>None\<close> as the result of an operation is code that never returns or leaves an array or follows
  a \<open>NULL\<close> pointer; the text of each theory says which. Loops whose end depends on the
  hardware are \<open>partial_function (option)\<close>, and the theorems say when they end; there is no fuel.

  \<^bold>\<open>The theories.\<close>

  \<^item> \<open>Prelude\<close>: names of the word types, collections of facts, lemmas on words and lists.
  \<^item> \<open>Calendar\<close>: \<open>struct TIME\<close> and \<open>Time_counting\<close> of \<open>Main.c\<close> against the Gregorian calendar.
  \<^item> \<open>Datagram\<close>: \<open>struct PAYLOAD\<close>, \<open>Asking\<close>, \<open>Get_check_sum\<close>, \<open>DATA_construct\<close> and the initial values.
  \<^item> \<open>Port\<close>, \<open>BiLED\<close>: the pin driver, the two-colour lamp and the input pins.
  \<^item> \<open>RstClk\<close>, \<open>Board\<close>: the clock driver with \<open>SystemInit\<close>, \<open>ClockConfigure\<close>, the watchdog.
  \<^item> \<open>XTick\<close>, \<open>Timer\<close>, \<open>PPS\<close>: the tick extended by an overflow interrupt, the delay, the timer driver, the
    one-second timer.
  \<^item> \<open>Uart\<close>: the driver of the serial port, \<open>InitUART\<close>, \<open>fputc\<close>.
  \<^item> \<open>Eeprom\<close>: the bit-banged read of the hardware address, \<open>eeprom_new.c\<close>.
  \<^item> \<open>Ring\<close>, \<open>FrameQueue\<close>, \<open>EthIf\<close>: rings of words, queues of frames over them as locales, and the frame memory
    of the controller with \<open>EthReadFrame\<close> and \<open>EthWriteFrame\<close>, which interpret them.
  \<^item> \<open>EthDriver\<close>: the driver \<open>MDR32F9Qx_eth.c\<close> and \<open>EthInit\<close>.
  \<^item> \<open>Inet\<close>, \<open>Pbuf\<close>, \<open>NetIf\<close>: Internet checksum, packet buffers, the port's input and output of chains.
  \<^item> \<open>Netstack\<close>: the state of the stack, IPv4 addresses and \<open>ethernet_output\<close>.
  \<^item> \<open>AddressCache\<close>, \<open>Etharp\<close>: a locale for caches whose entries expire, and \<open>etharp.c\<close>, which interprets it.
  \<^item> \<open>Udp\<close>: routing, \<open>ip4_output_if_src\<close> and the control blocks, ports and output of \<open>udp.c\<close>.
  \<^item> \<open>Icmp\<close>, \<open>UdpInput\<close>, \<open>Ip4Input\<close>: \<open>icmp.c\<close>, \<open>udp_input\<close>, and \<open>ip4_input\<close> above them.
  \<^item> \<open>Reass\<close>, \<open>Fragments\<close>, \<open>Frag\<close>: \<open>ip4_frag.c\<close>, reassembly with its bounds, its result for any order of the fragments,
    and the division of long packets. They are what the arguments \<open>reass\<close> and \<open>frag\<close> of the other theories stand for.
  \<^item> \<open>Httpd\<close>: the HTTP server, \<open>httpd.c\<close> and \<open>fs.c\<close>, over the answers of TCP.
  \<^item> \<open>NetifCore\<close>, \<open>Netconf\<close>: \<open>netif.c\<close>; \<open>low_level_init\<close>, \<open>ethernetif_init\<close> and \<open>netconf.c\<close>.
  \<^item> \<open>EthInput\<close>: \<open>ethernet_input\<close>.
  \<^item> \<open>Allocator\<close>, \<open>Mem\<close>: a locale for allocators with its clients, and the heap of lwIP, \<open>mem.c\<close>, byte by
    byte, which interprets it; \<open>heap_of_ok\<close> shows that it is a \<open>heap\<close> as the other theories assume.
  \<^item> \<open>App\<close>: \<open>UDPTransportInit\<close>, \<open>UDPSend\<close>, \<open>Counting_seconds\<close> and the main loop as a step relation.
  \<^item> \<open>Server\<close>: what the loop does with a received frame, from the receive memory to the transmit memory.
  \<^item> \<open>Boot\<close>: the initialisations of \<open>main\<close> on the whole board, from reset to the loop.

  \<^bold>\<open>What is shown.\<close> From reset the program reaches its loop with everything set up. The clock denotes the right instant after any number of seconds and passes, and
  the \<open>k\<close>-th datagram announces second \<open>k\<close>; there is at most one datagram per interrupt; a new second
  puts one well-formed broadcast frame into the frame memory. The frame memory is a faithful queue of
  frames in both directions. The ARP cache keeps its invariant, resolves only what was learned
  recently, and forgets. Packets with a bad header change nothing, pings are answered in full, and a datagram
  nobody waits for with an ICMP message. Fragments that wait are bounded, come together in any order while at most ten buffers wait, and what is sent in
  fragments over an MTU of 20 more than a multiple of 8 can be put together again. The HTTP server answers a request with the
  whole file it names, or the default page of the directory it names, and writes nothing but files. The heap never gives out overlapping blocks, keeps what is stored in them and
  loses nothing. Checksums verify, the datagram can be read back, the search for ports ends with a free one or
  reports that there is none, the one for interface numbers with a free one. The timers of the stack run at a fixed schedule. Clocks, timers, serial port, lamp and watchdog are
  programmed as intended. Where the code falls short, the theorem says what it does
  instead: the period of the second timer, the direction of the local time and its missing carry, the frame filters of
  the controller, the seconds byte that reaches 60, the timers of the stack run with seconds for milliseconds.

  \<^bold>\<open>Not modelled.\<close> TCP, which only the HTTP server uses: its timer, \<open>tcp_input\<close> and the call-backs of control blocks are
  arguments, and so are its answers to the HTTP server. The pages of the server are a generated file that is not in
  the repository, the list \<open>root\<close>. DHCP is compiled and never
  started. Debug output with \<open>printf\<close>, the delay loops without effect and the exception handlers are left
  out, as are drivers and examples that the program does not call.
\<close>

end
